(* ===== verification/Prelude.thy ===== *)
theory Prelude
  imports Main "HOL-Library.Word" "HOL-Library.Char_ord" "HOL-Library.List_Lexorder"
begin

text \<open>
  Shared vocabulary of the development.

  A Go string or byte slice is an Isabelle \<open>string\<close>: a list of \<open>char\<close>, each of which is one
  byte.  File contents, JSON texts and path names are therefore all of the same type.
  The functions of package \<open>strings\<close>, \<open>strconv\<close> and \<open>fmt\<close> that the program uses are defined
  here, with the lemmas the components share.  The collections \<open>go_str\<close> (string functions),
  \<open>os_simps\<close> (effect of a system call) and \<open>os_frame\<close> (what a call leaves alone) are filled by
  the theories that define the functions concerned.
\<close>

named_theorems go_str \<open>rules for the modelled string functions\<close>
named_theorems os_simps \<open>effect of modelled system calls\<close>
named_theorems os_frame \<open>what modelled system calls leave unchanged\<close>

type_synonym bytes = string

section \<open>Package strings\<close>

definition has_prefix :: "string \<Rightarrow> string \<Rightarrow> bool" where
  "has_prefix s p \<longleftrightarrow> take (length p) s = p"

definition has_suffix :: "string \<Rightarrow> string \<Rightarrow> bool" where
  "has_suffix s p \<longleftrightarrow> length p \<le> length s \<and> drop (length s - length p) s = p"

definition trim_prefix :: "string \<Rightarrow> string \<Rightarrow> string" where
  "trim_prefix s p = (if has_prefix s p then drop (length p) s else s)"

fun str_contains :: "string \<Rightarrow> string \<Rightarrow> bool" where
  "str_contains [] sub = (sub = [])"
| "str_contains (c # s) sub = (has_prefix (c # s) sub \<or> str_contains s sub)"

fun split_on :: "char \<Rightarrow> string \<Rightarrow> string list" where
  "split_on c [] = [[]]"
| "split_on c (x # xs) =
     (if x = c then [] # split_on c xs
      else case split_on c xs of [] \<Rightarrow> [[x]] | y # ys \<Rightarrow> (x # y) # ys)"

fun join_on :: "char \<Rightarrow> string list \<Rightarrow> string" where
  "join_on c [] = []"
| "join_on c [x] = x"
| "join_on c (x # y # xs) = x @ c # join_on c (y # xs)"

lemma has_prefix_iff: "has_prefix s p \<longleftrightarrow> (\<exists>r. s = p @ r)"
  unfolding has_prefix_def by (metis append_eq_conv_conj append_take_drop_id)

lemma has_prefix_append [simp, go_str]: "has_prefix (p @ r) p"
  by (auto simp: has_prefix_iff)

lemma has_prefix_Nil [simp, go_str]: "has_prefix s []"
  by (simp add: has_prefix_def)

lemma has_prefix_Cons [simp, go_str]:
  "has_prefix (x # xs) (y # ys) \<longleftrightarrow> x = y \<and> has_prefix xs ys"
  by (auto simp: has_prefix_def)

lemma has_prefix_of_Nil [simp, go_str]: "has_prefix [] p \<longleftrightarrow> p = []"
  by (auto simp: has_prefix_def)

lemma has_suffix_iff: "has_suffix s p \<longleftrightarrow> (\<exists>r. s = r @ p)"
proof
  assume "has_suffix s p"
  then have "s = take (length s - length p) s @ p"
    unfolding has_suffix_def by (metis append_take_drop_id)
  then show "\<exists>r. s = r @ p" by blast
qed (auto simp: has_suffix_def)

lemma trim_prefix_append [simp, go_str]: "trim_prefix (p @ r) p = r"
  by (simp add: trim_prefix_def)

lemma str_contains_single: "str_contains s [c] \<longleftrightarrow> c \<in> set s"
  by (induction s) auto

lemma split_on_nonempty [simp]: "split_on c s \<noteq> []"
  by (induction s) (auto split: list.splits)

lemma split_on_free: "c \<notin> set s \<Longrightarrow> split_on c s = [s]"
  by (induction s) auto

lemma split_on_append [go_str]: "split_on c (a @ c # b) = split_on c a @ split_on c b"
proof (induction a)
  case (Cons x a)
  then show ?case
    by (cases "split_on c a") (auto split: list.splits)
qed simp

lemma split_on_parts: "x \<in> set (split_on c s) \<Longrightarrow> c \<notin> set x"
proof (induction s arbitrary: x)
  case (Cons a s)
  show ?case
  proof (cases "a = c")
    case True
    with Cons show ?thesis by auto
  next
    case False
    obtain y ys where ys: "split_on c s = y # ys"
      by (cases "split_on c s") auto
    with Cons.IH have "c \<notin> set y" and "\<And>z. z \<in> set ys \<Longrightarrow> c \<notin> set z" by auto
    with Cons.prems False ys show ?thesis by auto
  qed
qed simp

lemma join_on_Cons: "xs \<noteq> [] \<Longrightarrow> join_on c (x # xs) = x @ c # join_on c xs"
  by (cases xs) auto

lemma join_split [simp, go_str]: "join_on c (split_on c s) = s"
proof (induction s)
  case (Cons x s)
  show ?case
  proof (cases "x = c")
    case True
    with Cons show ?thesis by (simp add: join_on_Cons)
  next
    case False
    obtain y ys where ys: "split_on c s = y # ys" by (cases "split_on c s") auto
    with Cons False show ?thesis by (cases ys) auto
  qed
qed simp

lemma split_join:
  "xs \<noteq> [] \<Longrightarrow> (\<And>x. x \<in> set xs \<Longrightarrow> c \<notin> set x) \<Longrightarrow> split_on c (join_on c xs) = xs"
proof (induction c xs rule: join_on.induct)
  case (3 c x y xs)
  then have "split_on c (join_on c (y # xs)) = y # xs" by simp
  moreover have "split_on c x = [x]" using "3.prems" by (auto intro: split_on_free)
  ultimately show ?case by (simp add: split_on_append)
qed (auto simp: split_on_free)

lemma join_on_append:
  "xs \<noteq> [] \<Longrightarrow> ys \<noteq> [] \<Longrightarrow> join_on c (xs @ ys) = join_on c xs @ c # join_on c ys"
proof (induction xs)
  case (Cons x xs)
  then show ?case by (cases "xs = []") (auto simp: join_on_Cons)
qed simp

section \<open>Decimal formatting: the verb d of fmt\<close>

fun nat_digits :: "nat \<Rightarrow> string" where
  "nat_digits n = (if n < 10 then [char_of (48 + n)] else nat_digits (n div 10) @ [char_of (48 + n mod 10)])"

declare nat_digits.simps [simp del]

definition fmt_int :: "int \<Rightarrow> string" where
  "fmt_int i = (if i < 0 then CHR ''-'' # nat_digits (nat (- i)) else nat_digits (nat i))"

definition is_digit :: "char \<Rightarrow> bool" where
  "is_digit c \<longleftrightarrow> CHR ''0'' \<le> c \<and> c \<le> CHR ''9''"

definition digit_val :: "char \<Rightarrow> nat" where
  "digit_val c = of_char c - 48"

definition digits_val :: "string \<Rightarrow> nat" where
  "digits_val s = foldl (\<lambda>a c. 10 * a + digit_val c) 0 s"

lemma is_digit_code: "is_digit c \<longleftrightarrow> 48 \<le> (of_char c :: nat) \<and> (of_char c :: nat) \<le> 57"
  by (simp add: is_digit_def less_eq_char_def)

lemma is_digit_char_of: "(n::nat) < 10 \<Longrightarrow> is_digit (char_of (48 + n))"
  by (simp add: is_digit_code)

lemma digit_val_char_of: "n < 10 \<Longrightarrow> digit_val (char_of (48 + n)) = n"
  by (simp add: digit_val_def)

lemma nat_digits_nonempty [simp]: "nat_digits n \<noteq> []"
  by (subst nat_digits.simps) simp

lemma nat_digits_digits: "c \<in> set (nat_digits n) \<Longrightarrow> is_digit c"
proof (induction n rule: nat_digits.induct)
  case (1 n)
  show ?case
  proof (cases "n < 10")
    case True
    with "1.prems" show ?thesis
      by (subst (asm) nat_digits.simps) (simp add: is_digit_char_of)
  next
    case False
    with "1.prems" have "c \<in> set (nat_digits (n div 10)) \<or> c = char_of (48 + n mod 10)"
      by (subst (asm) nat_digits.simps) auto
    with False "1.IH" show ?thesis using is_digit_char_of [of "n mod 10"] by auto
  qed
qed

lemma digits_val_nat_digits [simp]: "digits_val (nat_digits n) = n"
proof (induction n rule: nat_digits.induct)
  case (1 n)
  show ?case
  proof (cases "n < 10")
    case True
    then show ?thesis
      using digit_val_char_of [of n] by (subst nat_digits.simps) (simp add: digits_val_def)
  next
    case False
    with 1 have "digits_val (nat_digits (n div 10)) = n div 10" by simp
    moreover have "digits_val (nat_digits n) = 10 * digits_val (nat_digits (n div 10)) + n mod 10"
      using False digit_val_char_of [of "n mod 10"]
      by (subst nat_digits.simps) (simp add: digits_val_def)
    ultimately show ?thesis by simp
  qed
qed

lemma fmt_int_nonempty [simp]: "fmt_int i \<noteq> []"
  by (simp add: fmt_int_def)

lemma fmt_int_chars: "c \<in> set (fmt_int i) \<Longrightarrow> is_digit c \<or> c = CHR ''-''"
  by (auto simp: fmt_int_def dest: nat_digits_digits split: if_splits)

lemma fmt_int_no_colon: "CHR '':'' \<notin> set (fmt_int i)"
  using fmt_int_chars [of "CHR '':''" i] by (auto simp: is_digit_code)

lemma nat_digits_inj: "nat_digits m = nat_digits n \<Longrightarrow> m = n"
  by (metis digits_val_nat_digits)

lemma fmt_int_inj: "fmt_int i = fmt_int j \<Longrightarrow> i = j"
proof -
  have m: "CHR ''-'' \<notin> set (nat_digits n)" for n
    using nat_digits_digits [of "CHR ''-''" n] by (auto simp: is_digit_code)
  have ne: "CHR ''-'' # xs \<noteq> nat_digits n" for xs n
    using m [of n] by (metis list.set_intros(1))
  assume "fmt_int i = fmt_int j"
  then show "i = j"
    using ne ne [symmetric]
    by (auto simp: fmt_int_def dest: nat_digits_inj split: if_splits)
qed

text \<open>
  A separator that the right part does not contain splits uniquely: the fact behind the
  identifiers \<open>path:offset\<close> of the staging markers.
\<close>

lemma sep_split_unique:
  assumes "a @ c # b = a' @ c # b'" and "c \<notin> set b" and "c \<notin> set b'"
  shows "a = a' \<and> b = b'"
  using assms
proof (induction a arbitrary: a')
  case Nil
  then show ?case by (cases a') auto
next
  case (Cons x a)
  then show ?case by (cases a') auto
qed

section \<open>Fallible results\<close>

text \<open>
  A Go function that returns \<open>(T, error)\<close> returns a sum here, \<open>Inl\<close> the error.
\<close>

definition is_ok :: "'e + 'a \<Rightarrow> bool" where
  "is_ok r = (case r of Inl _ \<Rightarrow> False | Inr _ \<Rightarrow> True)"

lemma is_ok_simps [simp]: "is_ok (Inr x)" "\<not> is_ok (Inl e)"
  by (simp_all add: is_ok_def)

end
