(* ===== verification/JsonString.thy ===== *)
theory JsonString
  imports Prelude
begin

text \<open>
  String literals of package \<open>encoding/json\<close>: how \<open>Encoder\<close> writes a Go string (\<open>enc_str\<close>, with and
  without HTML escaping) and how a decoder reads one back (\<open>dec_body\<close>).  Go strings are arbitrary
  bytes; both directions replace each byte that is not part of valid UTF-8 by U+FFFD, which is
  \<open>sanitize\<close>.  The round trip holds for every byte string, up to \<open>sanitize\<close>.
\<close>

abbreviation dquote :: char where "dquote \<equiv> CHR 0x22"
abbreviation bslash :: char where "bslash \<equiv> CHR 0x5C"

abbreviation code :: "char \<Rightarrow> nat" where "code c \<equiv> of_char c"

section \<open>UTF-8\<close>

definition cont_byte :: "char \<Rightarrow> bool" where
  "cont_byte c \<longleftrightarrow> 128 \<le> code c \<and> code c \<le> 191"

text \<open>
  The number of bytes of the UTF-8 sequence at the front, \<open>0\<close> if there is none: the acceptance
  table of \<open>unicode/utf8\<close> (no overlong forms, no surrogates, nothing above U+10FFFF).
\<close>

definition utf8_2 :: "char \<Rightarrow> char \<Rightarrow> bool" where
  "utf8_2 a b \<longleftrightarrow> 194 \<le> code a \<and> code a \<le> 223 \<and> cont_byte b"

definition utf8_3 :: "char \<Rightarrow> char \<Rightarrow> char \<Rightarrow> bool" where
  "utf8_3 a b c \<longleftrightarrow> 224 \<le> code a \<and> code a \<le> 239 \<and>
     (if code a = 224 then 160 else 128) \<le> code b \<and> code b \<le> (if code a = 237 then 159 else 191) \<and>
     cont_byte c"

definition utf8_4 :: "char \<Rightarrow> char \<Rightarrow> char \<Rightarrow> char \<Rightarrow> bool" where
  "utf8_4 a b c d \<longleftrightarrow> 240 \<le> code a \<and> code a \<le> 244 \<and>
     (if code a = 240 then 144 else 128) \<le> code b \<and> code b \<le> (if code a = 244 then 143 else 191) \<and>
     cont_byte c \<and> cont_byte d"

definition utf8_len :: "string \<Rightarrow> nat" where
  "utf8_len s =
     (case s of
        [] \<Rightarrow> 0
      | a # r \<Rightarrow>
          if code a < 128 then 1
          else case r of
            [] \<Rightarrow> 0
          | b # r2 \<Rightarrow>
              if utf8_2 a b then 2
              else case r2 of
                [] \<Rightarrow> 0
              | c # r3 \<Rightarrow>
                  if utf8_3 a b c then 3
                  else case r3 of [] \<Rightarrow> 0 | d # _ \<Rightarrow> if utf8_4 a b c d then 4 else 0)"

lemma utf8_len_le: "utf8_len s \<le> length s"
  by (auto simp: utf8_len_def split: list.splits)

lemma utf8_len_append: "0 < utf8_len s \<Longrightarrow> utf8_len (take (utf8_len s) s @ x) = utf8_len s"
  by (auto simp: utf8_len_def split: list.splits if_splits)

lemma utf8_len_high: "s \<noteq> [] \<Longrightarrow> 128 \<le> code (hd s) \<Longrightarrow> utf8_len s \<noteq> 1"
  by (auto simp: utf8_len_def split: list.splits)

lemma utf8_len_ascii: "code c < 128 \<Longrightarrow> utf8_len (c # s) = 1"
  by (simp add: utf8_len_def)

definition replacement :: string where
  "replacement = [CHR 0xEF, CHR 0xBF, CHR 0xBD]"

function sanitize :: "string \<Rightarrow> string" where
  "sanitize s =
     (if s = [] then []
      else if utf8_len s = 0 then replacement @ sanitize (tl s)
      else take (utf8_len s) s @ sanitize (drop (utf8_len s) s))"
  by pat_completeness auto
termination
  by (relation "measure length") (use utf8_len_le in \<open>auto simp: neq_Nil_conv\<close>)

declare sanitize.simps [simp del]

function valid_utf8 :: "string \<Rightarrow> bool" where
  "valid_utf8 s =
     (if s = [] then True else if utf8_len s = 0 then False else valid_utf8 (drop (utf8_len s) s))"
  by pat_completeness auto
termination
  by (relation "measure length") (auto intro!: diff_less dest: order_less_le_trans [OF _ utf8_len_le])

declare valid_utf8.simps [simp del]

lemma sanitize_Nil [simp]: "sanitize [] = []"
  by (simp add: sanitize.simps)

lemma sanitize_valid: "valid_utf8 s \<Longrightarrow> sanitize s = s"
proof (induction s rule: sanitize.induct)
  case (1 s)
  then show ?case
    by (subst sanitize.simps) (subst (asm) (2) valid_utf8.simps, auto)
qed

lemma valid_utf8_ascii: "(\<And>c. c \<in> set s \<Longrightarrow> code c < 128) \<Longrightarrow> valid_utf8 s"
proof (induction s)
  case (Cons c s)
  then show ?case by (subst valid_utf8.simps) (simp add: utf8_len_ascii)
qed (subst valid_utf8.simps, simp)

section \<open>Encoding\<close>

definition hex_lower :: "nat \<Rightarrow> char" where
  "hex_lower n = ''0123456789abcdef'' ! n"

definition u_escape :: "nat \<Rightarrow> string" where
  "u_escape n = [bslash, CHR ''u'', hex_lower (n div 4096 mod 16), hex_lower (n div 256 mod 16),
                 hex_lower (n div 16 mod 16), hex_lower (n mod 16)]"

definition enc_ascii :: "bool \<Rightarrow> char \<Rightarrow> string" where
  "enc_ascii html c =
     (if c = dquote \<or> c = bslash then [bslash, c]
      else if c = CHR 0x08 then [bslash, CHR ''b'']
      else if c = CHR 0x0C then [bslash, CHR ''f'']
      else if c = CHR 0x0A then [bslash, CHR ''n'']
      else if c = CHR 0x0D then [bslash, CHR ''r'']
      else if c = CHR 0x09 then [bslash, CHR ''t'']
      else if code c < 32 then u_escape (code c)
      else if html \<and> (c = CHR ''<'' \<or> c = CHR ''>'' \<or> c = CHR 0x26) then u_escape (code c)
      else [c])"

definition line_sep :: string where "line_sep = [CHR 0xE2, CHR 0x80, CHR 0xA8]"
definition para_sep :: string where "para_sep = [CHR 0xE2, CHR 0x80, CHR 0xA9]"

function enc_body :: "bool \<Rightarrow> string \<Rightarrow> string" where
  "enc_body html s =
     (if s = [] then []
      else if code (hd s) < 128 then enc_ascii html (hd s) @ enc_body html (tl s)
      else if utf8_len s = 0 then u_escape 65533 @ enc_body html (tl s)
      else (if take (utf8_len s) s = line_sep then u_escape 8232
            else if take (utf8_len s) s = para_sep then u_escape 8233
            else take (utf8_len s) s) @ enc_body html (drop (utf8_len s) s))"
  by pat_completeness auto
termination
  by (relation "measure (\<lambda>(h, s). length s)") (use utf8_len_le in \<open>auto simp: neq_Nil_conv\<close>)

declare enc_body.simps [simp del]

definition enc_str :: "bool \<Rightarrow> string \<Rightarrow> string" where
  "enc_str html s = dquote # enc_body html s @ [dquote]"

section \<open>Decoding\<close>

definition hex_val :: "char \<Rightarrow> nat option" where
  "hex_val c =
     (if 48 \<le> code c \<and> code c \<le> 57 then Some (code c - 48)
      else if 97 \<le> code c \<and> code c \<le> 102 then Some (code c - 87)
      else if 65 \<le> code c \<and> code c \<le> 70 then Some (code c - 55)
      else None)"

fun hex4 :: "string \<Rightarrow> nat option" where
  "hex4 (a # b # c # d # r) =
     (case (hex_val a, hex_val b, hex_val c, hex_val d) of
        (Some w, Some x, Some y, Some z) \<Rightarrow> Some (((w * 16 + x) * 16 + y) * 16 + z)
      | _ \<Rightarrow> None)"
| "hex4 _ = None"

definition encode_rune :: "nat \<Rightarrow> string" where
  "encode_rune n =
     (if n < 128 then [char_of n]
      else if n < 2048 then [char_of (192 + n div 64), char_of (128 + n mod 64)]
      else if n < 65536 then
        [char_of (224 + n div 4096), char_of (128 + n div 64 mod 64), char_of (128 + n mod 64)]
      else [char_of (240 + n div 262144), char_of (128 + n div 4096 mod 64),
            char_of (128 + n div 64 mod 64), char_of (128 + n mod 64)])"

definition unescape :: "char \<Rightarrow> char option" where
  "unescape e =
     (if e = dquote \<or> e = bslash \<or> e = CHR ''/'' then Some e
      else if e = CHR ''b'' then Some (CHR 0x08)
      else if e = CHR ''f'' then Some (CHR 0x0C)
      else if e = CHR ''n'' then Some (CHR 0x0A)
      else if e = CHR ''r'' then Some (CHR 0x0D)
      else if e = CHR ''t'' then Some (CHR 0x09)
      else None)"

definition low_surrogate :: "string \<Rightarrow> nat option" where
  "low_surrogate s =
     (case s of
        a # b # r \<Rightarrow>
          if a = bslash \<and> b = CHR ''u'' then
            (case hex4 r of Some n \<Rightarrow> if 56320 \<le> n \<and> n \<le> 57343 then Some n else None | None \<Rightarrow> None)
          else None
      | _ \<Rightarrow> None)"

definition put :: "string \<Rightarrow> (string \<times> 'a) option \<Rightarrow> (string \<times> 'a) option" where
  "put p r = map_option (\<lambda>(s, rest). (p @ s, rest)) r"

text \<open>The rest of a literal after its opening quote: the string and what follows the closing one.\<close>

function dec_body :: "string \<Rightarrow> (string \<times> string) option" where
  "dec_body s =
     (if s = [] then None
      else if hd s = dquote then Some ([], tl s)
      else if hd s = bslash then
        (if tl s = [] then None
         else if hd (tl s) = CHR ''u'' then
           (case hex4 (drop 2 s) of
              None \<Rightarrow> None
            | Some n \<Rightarrow>
                if 55296 \<le> n \<and> n \<le> 57343 then
                  (case (if n \<le> 56319 then low_surrogate (drop 6 s) else None) of
                     Some lo \<Rightarrow> put (encode_rune (65536 + (n - 55296) * 1024 + (lo - 56320)))
                                   (dec_body (drop 12 s))
                   | None \<Rightarrow> put replacement (dec_body (drop 6 s)))
                else put (encode_rune n) (dec_body (drop 6 s)))
         else case unescape (hd (tl s)) of
                None \<Rightarrow> None
              | Some b \<Rightarrow> put [b] (dec_body (drop 2 s)))
      else if code (hd s) < 32 then None
      else if code (hd s) < 128 then put [hd s] (dec_body (tl s))
      else if utf8_len s = 0 then put replacement (dec_body (tl s))
      else put (take (utf8_len s) s) (dec_body (drop (utf8_len s) s)))"
  by pat_completeness auto
termination
  by (relation "measure length") (use utf8_len_le in \<open>auto simp: neq_Nil_conv\<close>)

declare dec_body.simps [simp del]

section \<open>Round trip\<close>

lemma put_simps [simp]:
  "put p None = None" "put p (Some (s, r)) = Some (p @ s, r)"
  by (simp_all add: put_def)

lemma put_Nil [simp]: "put [] r = r"
  by (cases r) (auto simp: put_def)

lemma put_put [simp]: "put p (put q r) = put (p @ q) r"
  by (cases r) (auto simp: put_def split: prod.splits)

lemma dec_quote [simp]: "dec_body (dquote # r) = Some ([], r)"
  by (subst dec_body.simps) simp

lemma dec_plain:
  "32 \<le> code c \<Longrightarrow> code c < 128 \<Longrightarrow> c \<noteq> dquote \<Longrightarrow> c \<noteq> bslash \<Longrightarrow>
   dec_body (c # r) = put [c] (dec_body r)"
  by (subst dec_body.simps) simp

lemma dec_escape: "unescape e = Some b \<Longrightarrow> e \<noteq> CHR ''u'' \<Longrightarrow> dec_body (bslash # e # r) = put [b] (dec_body r)"
  by (subst dec_body.simps) simp

lemma hex_val_lower: "n < 16 \<Longrightarrow> hex_val (hex_lower n) = Some n"
proof -
  have "list_all (\<lambda>n. hex_val (hex_lower n) = Some n) [0..<16]" by code_simp
  then show "n < 16 \<Longrightarrow> ?thesis" by (simp add: list_all_iff)
qed

lemma hex4_u_escape:
  assumes "n < 65536"
  shows "hex4 (drop 2 (u_escape n) @ r) = Some n"
proof -
  have m: "x mod 16 < 16" for x :: nat by simp
  have "hex4 (drop 2 (u_escape n @ r)) =
      Some (((n div 4096 mod 16 * 16 + n div 256 mod 16) * 16 + n div 16 mod 16) * 16 + n mod 16)"
    unfolding u_escape_def by (simp only: append_Cons drop_Suc_Cons numeral_2_eq_2 drop0 hex4.simps
        hex_val_lower [OF m] prod.case option.case)
  also have "((n div 4096 mod 16 * 16 + n div 256 mod 16) * 16 + n div 16 mod 16) * 16 + n mod 16 = n"
  proof -
    have e: "n div 256 = n div 16 div 16" "n div 4096 = n div 16 div 16 div 16"
      by (simp_all flip: div_mult2_eq)
    have "n div 16 div 16 div 16 < 16" using assms by (simp flip: div_mult2_eq add: less_mult_imp_div_less)
    then show ?thesis unfolding e by (simp only: mod_less div_mult_mod_eq)
  qed
  finally show ?thesis by (simp only: u_escape_def append_Cons drop_Suc_Cons numeral_2_eq_2 drop0)
qed

lemma dec_body_u:
  "s \<noteq> [] \<Longrightarrow> hd s = bslash \<Longrightarrow> tl s \<noteq> [] \<Longrightarrow> hd (tl s) = CHR ''u'' \<Longrightarrow>
   hex4 (drop 2 s) = Some n \<Longrightarrow> \<not> (55296 \<le> n \<and> n \<le> 57343) \<Longrightarrow>
   dec_body s = put (encode_rune n) (dec_body (drop 6 s))"
  by (subst dec_body.simps) (simp only: if_False if_True option.case refl not_False_eq_True, simp)

lemma dec_body_multi:
  assumes "s \<noteq> []" and "128 \<le> code (hd s)" and "utf8_len s \<noteq> 0"
  shows "dec_body s = put (take (utf8_len s) s) (dec_body (drop (utf8_len s) s))"
proof -
  have "hd s \<noteq> dquote" "hd s \<noteq> bslash" "\<not> code (hd s) < 128" "\<not> code (hd s) < 32" using assms(2) by auto
  with assms show ?thesis by (subst dec_body.simps) simp
qed

lemma dec_u_escape:
  assumes "n < 65536" and "\<not> (55296 \<le> n \<and> n \<le> 57343)"
  shows "dec_body (u_escape n @ r) = put (encode_rune n) (dec_body r)"
proof -
  have "dec_body (u_escape n @ r) = put (encode_rune n) (dec_body (drop 6 (u_escape n @ r)))"
    by (rule dec_body_u)
       (use assms hex4_u_escape [OF assms(1), of r] in \<open>simp_all add: u_escape_def\<close>)
  then show ?thesis by (simp add: u_escape_def)
qed

lemma dec_enc_ascii:
  assumes "code c < 128"
  shows "dec_body (enc_ascii html c @ r) = put [c] (dec_body r)"
proof -
  have u: "dec_body (u_escape (code c) @ r) = put [c] (dec_body r)"
    using dec_u_escape [of "code c" r] assms by (simp add: encode_rune_def)
  show ?thesis
    using u assms dec_plain [of c r] dec_escape [where r = r]
    by (auto simp: enc_ascii_def unescape_def)
qed

lemma dec_high:
  assumes "0 < utf8_len s" and "128 \<le> code (hd s)"
  shows "dec_body (take (utf8_len s) s @ r) = put (take (utf8_len s) s) (dec_body r)"
proof -
  let ?t = "take (utf8_len s) s"
  have l: "length ?t = utf8_len s" using utf8_len_le by simp
  have u: "utf8_len (?t @ r) = length ?t" using utf8_len_append [OF assms(1), of r] l by simp
  have ne: "?t \<noteq> []" using assms(1) l by auto
  then have h: "hd (?t @ r) = hd s" by (metis hd_append2 hd_take assms(1))
  have "dec_body (?t @ r) = put (take (utf8_len (?t @ r)) (?t @ r)) (dec_body (drop (utf8_len (?t @ r)) (?t @ r)))"
    by (rule dec_body_multi) (use ne h u l assms in auto)
  moreover have "take (length ?t) (?t @ r) = ?t" "drop (length ?t) (?t @ r) = r"
    by (rule append_eq_conv_conj [THEN iffD1, THEN conjunct1, symmetric], rule refl)
       (rule append_eq_conv_conj [THEN iffD1, THEN conjunct2, symmetric], rule refl)
  ultimately show ?thesis unfolding u by (simp only:)
qed

lemma rune_chars:
  "char_of (239 :: nat) = CHR 0xEF" "char_of (191 :: nat) = CHR 0xBF" "char_of (189 :: nat) = CHR 0xBD"
  "char_of (226 :: nat) = CHR 0xE2" "char_of (128 :: nat) = CHR 0x80"
  "char_of (168 :: nat) = CHR 0xA8" "char_of (169 :: nat) = CHR 0xA9"
  by code_simp+

lemma rune_replacement: "encode_rune 65533 = replacement"
  by (simp add: encode_rune_def replacement_def rune_chars)

lemma rune_seps: "encode_rune 8232 = line_sep" "encode_rune 8233 = para_sep" "para_sep \<noteq> line_sep"
  by (simp_all add: encode_rune_def line_sep_def para_sep_def rune_chars)

lemma enc_body_ascii: "code c < 128 \<Longrightarrow> enc_body html (c # t) = enc_ascii html c @ enc_body html t"
  by (subst enc_body.simps) simp

lemma sanitize_ascii: "code c < 128 \<Longrightarrow> sanitize (c # t) = c # sanitize t"
  by (subst sanitize.simps) (simp add: utf8_len_ascii)

lemma enc_body_bad:
  "128 \<le> code c \<Longrightarrow> utf8_len (c # t) = 0 \<Longrightarrow> enc_body html (c # t) = u_escape 65533 @ enc_body html t"
  by (subst enc_body.simps) simp

lemma sanitize_bad: "utf8_len (c # t) = 0 \<Longrightarrow> sanitize (c # t) = replacement @ sanitize t"
  by (subst sanitize.simps) simp

lemma enc_body_multi:
  "128 \<le> code c \<Longrightarrow> 0 < utf8_len (c # t) \<Longrightarrow>
   enc_body html (c # t) =
     (if take (utf8_len (c # t)) (c # t) = line_sep then u_escape 8232
      else if take (utf8_len (c # t)) (c # t) = para_sep then u_escape 8233
      else take (utf8_len (c # t)) (c # t)) @ enc_body html (drop (utf8_len (c # t)) (c # t))"
  by (subst enc_body.simps) (simp del: drop_Cons take_Cons)

lemma sanitize_multi:
  "0 < utf8_len (c # t) \<Longrightarrow>
   sanitize (c # t) = take (utf8_len (c # t)) (c # t) @ sanitize (drop (utf8_len (c # t)) (c # t))"
  by (subst sanitize.simps) (simp only: list.simps if_False if_not_P neq0_conv)

theorem dec_enc_body: "dec_body (enc_body html s @ dquote # r) = Some (sanitize s, r)"
proof (induction html s rule: enc_body.induct)
  case (1 html s)
  show ?case
  proof (cases "s = []")
    case True
    then show ?thesis by (simp add: enc_body.simps)
  next
    case ne: False
    then obtain c t where s: "s = c # t" by (cases s) auto
    have ih: "128 \<le> code c \<Longrightarrow> 0 < utf8_len s \<Longrightarrow>
        dec_body (enc_body html (drop (utf8_len s) s) @ dquote # r) = Some (sanitize (drop (utf8_len s) s), r)"
      using 1(3) [OF ne] s by simp
    consider (ascii) "code c < 128" | (bad) "128 \<le> code c" "utf8_len s = 0"
      | (ls) "128 \<le> code c" "0 < utf8_len s" "take (utf8_len s) s = line_sep"
      | (ps) "128 \<le> code c" "0 < utf8_len s" "take (utf8_len s) s = para_sep"
      | (multi) "128 \<le> code c" "0 < utf8_len s" "take (utf8_len s) s \<noteq> line_sep" "take (utf8_len s) s \<noteq> para_sep"
      by fastforce
    then show ?thesis
    proof cases
      case ascii
      have "code (hd s) < 128" using ascii s by simp
      from 1(1) [OF ne this] have "dec_body (enc_body html t @ dquote # r) = Some (sanitize t, r)"
        by (simp only: s list.sel)
      then show ?thesis
        unfolding s enc_body_ascii [OF ascii] sanitize_ascii [OF ascii] append_assoc dec_enc_ascii [OF ascii]
        by (simp only: put_simps append_Cons append_Nil)
    next
      case bad
      note r = rune_replacement
      from 1(2) [OF ne] bad s have "dec_body (enc_body html t @ dquote # r) = Some (sanitize t, r)"
        by simp
      with bad s show ?thesis
        using dec_u_escape [of 65533] by (simp add: enc_body_bad sanitize_bad r)
    next
      case ls
      note r = rune_seps
      from ih [OF ls(1,2)] show ?thesis
        using dec_u_escape [of 8232] ls s by (simp add: enc_body_multi sanitize_multi r)
    next
      case ps
      note r = rune_seps
      from ih [OF ps(1,2)] show ?thesis
        using dec_u_escape [of 8233] ps s by (simp add: enc_body_multi sanitize_multi r)
    next
      case multi
      with s have h: "128 \<le> code (hd s)" by simp
      from ih [OF multi(1,2)] show ?thesis
        using dec_high [OF multi(2) h] multi s by (simp add: enc_body_multi sanitize_multi)
    qed
  qed
qed

corollary dec_enc_valid: "valid_utf8 s \<Longrightarrow> dec_body (enc_body html s @ dquote # r) = Some (s, r)"
  by (simp add: dec_enc_body sanitize_valid)

end
