(* ===== verification/Json.thy ===== *)
theory Json
  imports JsonString
begin

text \<open>
  JSON documents of package \<open>encoding/json\<close>: the tree a text denotes (\<open>json\<close>), the writer
  (\<open>print_json\<close>) and the reader (\<open>parse_value\<close>), which reads one value from the front of a text
  and returns what follows it, as \<open>Decoder.readValue\<close> does.  The reader recurses with fuel; twice
  the length of the text and two is always enough (\<open>parse_fuel\<close>).  Nesting beyond ten thousand
  levels is an error in Go and here.
\<close>

datatype json =
    JNull
  | JBool bool
  | JNum string
  | JStr string
  | JArr "json list"
  | JObj "(string \<times> json) list"

section \<open>Scanning\<close>

definition is_ws :: "char \<Rightarrow> bool" where
  "is_ws c \<longleftrightarrow> c = CHR '' '' \<or> c = CHR 0x09 \<or> c = CHR 0x0A \<or> c = CHR 0x0D"

definition skip_ws :: "string \<Rightarrow> string" where
  "skip_ws s = dropWhile is_ws s"

lemma skip_ws_le: "length (skip_ws s) \<le> length s"
  by (simp add: skip_ws_def length_dropWhile_le)

lemma skip_ws_Cons [simp]: "skip_ws (c # s) = (if is_ws c then skip_ws s else c # s)"
  by (simp add: skip_ws_def)

lemma skip_ws_Nil [simp]: "skip_ws [] = []"
  by (simp add: skip_ws_def)

lemma skip_ws_idem [simp]: "skip_ws (skip_ws s) = skip_ws s"
  by (induction s) auto

text \<open>A number literal, by maximal munch, as the scanner's states \<open>stateNeg\<close> to \<open>stateE0\<close>.\<close>

definition scan_sign :: "string \<Rightarrow> string \<times> string" where
  "scan_sign s = (if has_prefix s ''-'' then (''-'', tl s) else ([], s))"

definition scan_int :: "string \<Rightarrow> (string \<times> string) option" where
  "scan_int s =
     (case s of
        [] \<Rightarrow> None
      | c # r \<Rightarrow>
          if c = CHR ''0'' then Some ([c], r)
          else if is_digit c then Some (takeWhile is_digit s, dropWhile is_digit s)
          else None)"

definition scan_frac :: "string \<Rightarrow> (string \<times> string) option" where
  "scan_frac s =
     (case s of
        c # r \<Rightarrow>
          if c = CHR ''.'' then
            (if takeWhile is_digit r = [] then None
             else Some (c # takeWhile is_digit r, dropWhile is_digit r))
          else Some ([], s)
      | [] \<Rightarrow> Some ([], s))"

definition scan_exp :: "string \<Rightarrow> (string \<times> string) option" where
  "scan_exp s =
     (case s of
        c # r \<Rightarrow>
          if c = CHR ''e'' \<or> c = CHR ''E'' then
            (let (sg, t) = (if has_prefix r ''+'' \<or> has_prefix r ''-'' then ([hd r], tl r) else ([], r))
             in if takeWhile is_digit t = [] then None
                else Some (c # sg @ takeWhile is_digit t, dropWhile is_digit t))
          else Some ([], s)
      | [] \<Rightarrow> Some ([], s))"

definition scan_number :: "string \<Rightarrow> (string \<times> string) option" where
  "scan_number s =
     (let (sg, s1) = scan_sign s in
      case scan_int s1 of
        None \<Rightarrow> None
      | Some (i, s2) \<Rightarrow>
          (case scan_frac s2 of
             None \<Rightarrow> None
           | Some (f, s3) \<Rightarrow>
               (case scan_exp s3 of None \<Rightarrow> None | Some (e, s4) \<Rightarrow> Some (sg @ i @ f @ e, s4))))"

lemma split_digits: "length (takeWhile is_digit s) + length (dropWhile is_digit s) = length s"
  by (metis length_append takeWhile_dropWhile_id)

lemma scan_int_length: "scan_int s = Some (i, r) \<Longrightarrow> length r < length s"
  by (auto simp: scan_int_def length_dropWhile_le less_Suc_eq_le split: list.splits if_splits)

lemma scan_frac_length: "scan_frac s = Some (i, r) \<Longrightarrow> length r \<le> length s"
  by (auto simp: scan_frac_def le_SucI length_dropWhile_le split: list.splits if_splits)

lemma scan_exp_length: "scan_exp s = Some (i, r) \<Longrightarrow> length r \<le> length s"
proof -
  have "length (dropWhile is_digit (tl x)) \<le> length x" for x
    by (rule order_trans [OF length_dropWhile_le]) simp
  then show "scan_exp s = Some (i, r) \<Longrightarrow> ?thesis"
    by (auto simp: scan_exp_def Let_def le_SucI length_dropWhile_le split: list.splits if_splits prod.splits)
qed

lemma scan_number_length:
  assumes "scan_number s = Some (l, r)"
  shows "length r < length s"
proof -
  obtain sg s1 i s2 f s3 e where "scan_sign s = (sg, s1)" and i: "scan_int s1 = Some (i, s2)"
    and f: "scan_frac s2 = Some (f, s3)" and e: "scan_exp s3 = Some (e, r)"
    using assms by (auto simp: scan_number_def split: prod.splits option.splits)
  then have "length s1 \<le> length s" by (auto simp: scan_sign_def split: if_splits)
  with scan_int_length [OF i] scan_frac_length [OF f] scan_exp_length [OF e] show ?thesis by simp
qed

section \<open>Parsing\<close>

definition max_depth :: nat where
  "max_depth = 10000"

definition literal :: "string \<Rightarrow> json \<Rightarrow> string \<Rightarrow> (json \<times> string) option" where
  "literal w v s = (if has_prefix s w then Some (v, drop (length w) s) else None)"

fun parse_value :: "nat \<Rightarrow> nat \<Rightarrow> string \<Rightarrow> (json \<times> string) option"
  and parse_elems :: "nat \<Rightarrow> nat \<Rightarrow> string \<Rightarrow> (json list \<times> string) option"
  and parse_members :: "nat \<Rightarrow> nat \<Rightarrow> string \<Rightarrow> ((string \<times> json) list \<times> string) option" where
  "parse_value 0 d s = None"
| "parse_value (Suc n) d s =
     (case skip_ws s of
        [] \<Rightarrow> None
      | c # r \<Rightarrow>
          if c = CHR 0x7B then
            (if d = 0 then None
             else if has_prefix (skip_ws r) [CHR 0x7D] then Some (JObj [], tl (skip_ws r))
             else map_option (map_prod JObj id) (parse_members n (d - 1) r))
          else if c = CHR 0x5B then
            (if d = 0 then None
             else if has_prefix (skip_ws r) [CHR 0x5D] then Some (JArr [], tl (skip_ws r))
             else map_option (map_prod JArr id) (parse_elems n (d - 1) r))
          else if c = dquote then map_option (map_prod JStr id) (dec_body r)
          else if c = CHR ''t'' then literal ''true'' (JBool True) (c # r)
          else if c = CHR ''f'' then literal ''false'' (JBool False) (c # r)
          else if c = CHR ''n'' then literal ''null'' JNull (c # r)
          else map_option (map_prod JNum id) (scan_number (c # r)))"
| "parse_elems 0 d s = None"
| "parse_elems (Suc n) d s =
     (case parse_value n d s of
        None \<Rightarrow> None
      | Some (v, r) \<Rightarrow>
          (case skip_ws r of
             [] \<Rightarrow> None
           | c # t \<Rightarrow>
               if c = CHR 0x5D then Some ([v], t)
               else if c = CHR '','' then map_option (map_prod (Cons v) id) (parse_elems n d t)
               else None))"
| "parse_members 0 d s = None"
| "parse_members (Suc n) d s =
     (if \<not> has_prefix (skip_ws s) [dquote] then None
      else case dec_body (tl (skip_ws s)) of
        None \<Rightarrow> None
      | Some (k, r) \<Rightarrow>
          if \<not> has_prefix (skip_ws r) '':'' then None
          else (case parse_value n d (tl (skip_ws r)) of
             None \<Rightarrow> None
           | Some (v, r2) \<Rightarrow>
               (case skip_ws r2 of
                  [] \<Rightarrow> None
                | c # t \<Rightarrow>
                    if c = CHR 0x7D then Some ([(k, v)], t)
                    else if c = CHR '','' then map_option (map_prod (Cons (k, v)) id) (parse_members n d t)
                    else None)))"

declare parse_value.simps [simp del] parse_elems.simps [simp del] parse_members.simps [simp del]

definition read_value :: "string \<Rightarrow> (json \<times> string) option" where
  "read_value s = parse_value (2 * length s + 2) max_depth s"

section \<open>What is read is consumed\<close>

lemma put_Some: "put p x = Some (s, r) \<longleftrightarrow> (\<exists>t. x = Some (t, r) \<and> s = p @ t)"
  by (auto simp: put_def)

lemma dec_body_step:
  assumes "dec_body s = Some (x, r)"
  shows "s = dquote # r \<or> (\<exists>n t. 0 < n \<and> s \<noteq> [] \<and> dec_body (drop n s) = Some (t, r))"
proof (cases "s = [] \<or> hd s = dquote")
  case True
  with assms show ?thesis by (subst (asm) dec_body.simps) (cases s; auto)
next
  case False
  then have ne: "s \<noteq> []" and q: "hd s \<noteq> dquote" by auto
  obtain n p where n: "0 < n" and d: "put p (dec_body (drop n s)) = Some (x, r)"
  proof -
    have "\<exists>n p. 0 < n \<and> put p (dec_body (drop n s)) = Some (x, r)"
    proof (rule ccontr)
      assume a: "\<not> ?thesis"
      then have no: "0 < n \<Longrightarrow> put p (dec_body (drop n s)) \<noteq> Some (x, r)" for n p by blast
      have "put p (dec_body (tl s)) \<noteq> Some (x, r)" for p using no [of 1] by (simp add: drop_Suc)
      with assms ne q no show False
        by (subst (asm) dec_body.simps) (auto split: if_splits option.splits)
    qed
    with that show ?thesis by blast
  qed
  with ne show ?thesis by (auto simp: put_Some)
qed

lemma dec_body_length: "dec_body s = Some (x, r) \<Longrightarrow> length r < length s"
proof (induction s arbitrary: x rule: length_induct)
  case (1 s)
  from dec_body_step [OF "1.prems"] show ?case
  proof (elim disjE exE conjE)
    fix n t
    assume "0 < n" "s \<noteq> []" and d: "dec_body (drop n s) = Some (t, r)"
    then have "length (drop n s) < length s" by (cases s; cases n) auto
    with "1.IH" d show ?thesis by (meson less_trans)
  qed simp
qed

lemma literal_length: "w \<noteq> [] \<Longrightarrow> literal w v s = Some (x, r) \<Longrightarrow> length r < length s"
  by (auto simp: literal_def has_prefix_iff split: if_splits)

lemma skip_ws_tl: "skip_ws s = c # r \<Longrightarrow> length r < length s"
  using skip_ws_le [of s] by simp

lemma parse_lengths:
  shows "parse_value n d s = Some (v, r) \<Longrightarrow> length r < length s"
    and "parse_elems n d s = Some (vs, r) \<Longrightarrow> length r < length s"
    and "parse_members n d s = Some (ms, r) \<Longrightarrow> length r < length s"
proof (induction n d s and n d s and n d s arbitrary: v r and vs r and ms r
    rule: parse_value_parse_elems_parse_members.induct)
  case (2 n d s)
  then obtain c t where t: "skip_ws s = c # t" by (cases "skip_ws s") (auto simp: parse_value.simps)
  have l: "length t < length s" using skip_ws_tl [OF t] .
  have w: "length (tl (skip_ws t)) \<le> length t" using skip_ws_le [of t] by simp
  note hyps = "2.IH"(1) [OF t] "2.IH"(2) [OF t]
  from "2.prems" t have "length r \<le> length t"
    using w hyps literal_length [of "''true''" "JBool True" "c # t"] literal_length [of "''false''" "JBool False" "c # t"]
      literal_length [of "''null''" JNull "c # t"] scan_number_length [of "c # t"]
      dec_body_length [of t]
    by (fastforce simp: parse_value.simps less_Suc_eq_le split: if_splits)
  with l show ?case by simp
next
  case (4 n d s)
  from "4.prems" obtain v r1 where v: "parse_value n d s = Some (v, r1)"
    by (auto simp: parse_elems.simps split: option.splits)
  obtain c t where t: "skip_ws r1 = c # t"
    using "4.prems" v by (cases "skip_ws r1") (auto simp: parse_elems.simps)
  have "length t < length s" using "4.IH"(1) [OF v] skip_ws_tl [OF t] by simp
  moreover have "length r \<le> length t"
    using "4.prems" v t "4.IH"(2) [OF v _ t] by (fastforce simp: parse_elems.simps split: if_splits)
  ultimately show ?case by simp
next
  case (6 n d s)
  let ?s = "tl (skip_ws s)"
  have q: "has_prefix (skip_ws s) [dquote]" using "6.prems" by (auto simp: parse_members.simps split: if_splits)
  obtain k r1 where k: "dec_body ?s = Some (k, r1)"
    using "6.prems" q by (auto simp: parse_members.simps split: option.splits)
  have c: "has_prefix (skip_ws r1) '':''" using "6.prems" q k by (auto simp: parse_members.simps split: if_splits)
  obtain v r2 where v: "parse_value n d (tl (skip_ws r1)) = Some (v, r2)"
    using "6.prems" q k c by (auto simp: parse_members.simps split: option.splits)
  obtain e t where t: "skip_ws r2 = e # t"
    using "6.prems" q k c v by (cases "skip_ws r2") (auto simp: parse_members.simps)
  have 1: "length ?s \<le> length s" using skip_ws_le [of s] by simp
  have 2: "length (tl (skip_ws r1)) \<le> length r1" using skip_ws_le [of r1] by simp
  have "length t < length s"
    using 1 2 dec_body_length [OF k] "6.IH"(1) [OF _ k _ _ v] q c skip_ws_tl [OF t] by simp
  moreover have "length r \<le> length t"
    using "6.prems" q k c v t "6.IH"(2) [OF _ k _ _ v _ t] by (fastforce simp: parse_members.simps split: if_splits)
  ultimately show ?case by simp
qed (simp_all add: parse_value.simps parse_elems.simps parse_members.simps)

section \<open>Fuel\<close>

lemma parse_fuel_step:
  shows "2 * length s + 2 \<le> n \<Longrightarrow> parse_value (Suc n) d s = parse_value n d s"
    and "2 * length s + 3 \<le> n \<Longrightarrow> parse_elems (Suc n) d s = parse_elems n d s"
    and "2 * length s + 3 \<le> n \<Longrightarrow> parse_members (Suc n) d s = parse_members n d s"
proof (induction n d s and n d s and n d s rule: parse_value_parse_elems_parse_members.induct)
  case (2 n d s)
  show ?case
  proof (cases "skip_ws s")
    case Nil
    then show ?thesis by (simp add: parse_value.simps)
  next
    case (Cons c t)
    have "2 * length t + 3 \<le> n" using skip_ws_tl [OF Cons] "2.prems" by simp
    with "2.IH"(1) [OF Cons] "2.IH"(2) [OF Cons] Cons show ?thesis
      by (simp add: parse_value.simps)
  qed
next
  case (4 n d s)
  have v: "parse_value (Suc n) d s = parse_value n d s" using "4.IH"(1) "4.prems" by simp
  have "parse_elems (Suc n) d t = parse_elems n d t"
    if p: "parse_value n d s = Some (x, r)" and t: "skip_ws r = c # t" and c: "c = CHR '',''" for x r c t
    using "4.IH"(2) [OF p _ t] parse_lengths(1) [OF p] skip_ws_tl [OF t] c "4.prems" by simp
  then show ?case
    unfolding parse_elems.simps v by (auto split: option.splits list.splits)
next
  case (6 n d s)
  have s: "length (tl (skip_ws s)) \<le> length s" using skip_ws_le [of s] by simp
  have v: "parse_value (Suc n) d (tl (skip_ws r)) = parse_value n d (tl (skip_ws r))"
    if "has_prefix (skip_ws s) [dquote]" and k: "dec_body (tl (skip_ws s)) = Some (k, r)"
      and "has_prefix (skip_ws r) '':''" for k r
    using "6.IH"(1) [OF _ k] that skip_ws_le [of r] dec_body_length [OF k] s "6.prems" by simp
  have m: "parse_members (Suc n) d t = parse_members n d t"
    if "has_prefix (skip_ws s) [dquote]" and k: "dec_body (tl (skip_ws s)) = Some (k, r)"
      and "has_prefix (skip_ws r) '':''" and p: "parse_value n d (tl (skip_ws r)) = Some (x, r2)"
      and t: "skip_ws r2 = c # t" and c: "c = CHR '',''" for k r x r2 c t
    using "6.IH"(2) [OF _ k _ _ p _ t] that parse_lengths(1) [OF p] skip_ws_tl [OF t] skip_ws_le [of r]
      dec_body_length [OF k] s "6.prems" by simp
  from v m show ?case
    unfolding parse_members.simps [of "Suc n"] parse_members.simps [of n]
    by (auto split: option.splits list.splits if_splits)
qed simp_all

lemma parse_fuel: "2 * length s + 2 \<le> n \<Longrightarrow> parse_value n d s = parse_value (2 * length s + 2) d s"
  by (induction n rule: dec_induct) (simp_all add: parse_fuel_step)

lemma read_value_fuel: "2 * length s + 2 \<le> n \<Longrightarrow> parse_value n max_depth s = read_value s"
  unfolding read_value_def by (rule parse_fuel)

lemma read_value_length: "read_value s = Some (v, r) \<Longrightarrow> length r < length s"
  unfolding read_value_def by (rule parse_lengths(1))

section \<open>Writing\<close>

fun print_json :: "bool \<Rightarrow> json \<Rightarrow> string" where
  "print_json html JNull = ''null''"
| "print_json html (JBool b) = (if b then ''true'' else ''false'')"
| "print_json html (JNum l) = l"
| "print_json html (JStr s) = enc_str html s"
| "print_json html (JArr vs) = [CHR 0x5B] @ join_on (CHR '','') (map (print_json html) vs) @ [CHR 0x5D]"
| "print_json html (JObj ms) =
     [CHR 0x7B] @ join_on (CHR '','') (map (\<lambda>(k, v). enc_str html k @ '':'' @ print_json html v) ms) @ [CHR 0x7D]"

text \<open>What reading back a written tree gives: strings lose their invalid bytes.\<close>

fun sanitize_json :: "json \<Rightarrow> json" where
  "sanitize_json (JStr s) = JStr (sanitize s)"
| "sanitize_json (JArr vs) = JArr (map sanitize_json vs)"
| "sanitize_json (JObj ms) = JObj (map (\<lambda>(k, v). (sanitize k, sanitize_json v)) ms)"
| "sanitize_json v = v"

text \<open>Trees the program writes: literals of 64-bit integers only, nested at most \<open>d\<close> deep.\<close>

fun writable :: "nat \<Rightarrow> json \<Rightarrow> bool" where
  "writable d (JNum l) = (\<exists>i. l = fmt_int i \<and> - (2 ^ 63) \<le> i \<and> i < 2 ^ 63)"
| "writable d (JArr vs) = (0 < d \<and> (\<forall>v \<in> set vs. writable (d - 1) v))"
| "writable d (JObj ms) = (0 < d \<and> (\<forall>(k, v) \<in> set ms. writable (d - 1) v))"
| "writable d v = True"

section \<open>Round trip\<close>

lemma nat_digits_no_zero: "0 < n \<Longrightarrow> \<exists>c r. nat_digits n = c # r \<and> c \<noteq> CHR ''0'' \<and> is_digit c"
proof (induction n rule: nat_digits.induct)
  case (1 n)
  show ?case
  proof (cases "n < 10")
    case True
    have "char_of (48 + n) \<noteq> CHR ''0''"
    proof
      assume "char_of (48 + n) = CHR ''0''"
      with digit_val_char_of [OF True] have "digit_val (CHR ''0'') = n" by simp
      with "1.prems" show False by (simp add: digit_val_def)
    qed
    with True show ?thesis by (subst nat_digits.simps) (simp add: is_digit_char_of)
  next
    case False
    then have "0 < n div 10" by (simp add: div_greater_zero_iff)
    with "1.IH" [OF False] obtain c r where "nat_digits (n div 10) = c # r \<and> c \<noteq> CHR ''0'' \<and> is_digit c"
      by blast
    with False show ?thesis by (subst nat_digits.simps) simp
  qed
qed

definition stops :: "string \<Rightarrow> bool" where
  "stops r \<longleftrightarrow> (case r of [] \<Rightarrow> True
     | c # _ \<Rightarrow> \<not> is_digit c \<and> c \<noteq> CHR ''.'' \<and> c \<noteq> CHR ''e'' \<and> c \<noteq> CHR ''E'')"

lemma scan_int_digits: "stops r \<Longrightarrow> scan_int (nat_digits n @ r) = Some (nat_digits n, r)"
proof (cases "n = 0")
  case True
  have "nat_digits 0 = ''0''" by (subst nat_digits.simps) (simp; code_simp)
  then show ?thesis using True by (simp add: scan_int_def)
next
  assume s: "stops r"
  case False
  then obtain c t where c: "nat_digits n = c # t" "c \<noteq> CHR ''0''" "is_digit c"
    using nat_digits_no_zero [of n] by auto
  have "list_all is_digit (nat_digits n)" using nat_digits_digits by (auto simp: list_all_iff)
  moreover have "takeWhile is_digit r = []" "dropWhile is_digit r = r"
    using s by (cases r; simp add: stops_def)+
  ultimately have "takeWhile is_digit (nat_digits n @ r) = nat_digits n" "dropWhile is_digit (nat_digits n @ r) = r"
    by (auto simp: list_all_iff takeWhile_append dropWhile_append)
  with c show ?thesis by (simp add: scan_int_def)
qed

lemma stops_scan: "stops r \<Longrightarrow> scan_frac r = Some ([], r) \<and> scan_exp r = Some ([], r)"
  by (cases r) (auto simp: stops_def scan_frac_def scan_exp_def)

lemma scan_number_fmt_int: "stops r \<Longrightarrow> scan_number (fmt_int i @ r) = Some (fmt_int i, r)"
proof -
  assume s: "stops r"
  have "\<not> has_prefix (nat_digits n @ r) ''-''" for n
    using nat_digits_digits [of "hd (nat_digits n)" n] by (cases "nat_digits n") (auto simp: is_digit_code)
  then show ?thesis
    using scan_int_digits [OF s] stops_scan [OF s]
    by (simp add: scan_number_def fmt_int_def scan_sign_def)
qed

lemma fmt_int_start: "\<exists>c t. fmt_int i = c # t \<and> (is_digit c \<or> c = CHR ''-'')"
  using fmt_int_nonempty [of i] fmt_int_chars [of "hd (fmt_int i)" i] by (cases "fmt_int i") auto

lemma not_ws_start:
  "skip_ws (print_json html j @ r) = print_json html j @ r"
  if "writable d j"
proof -
  have "\<exists>c t. print_json html j @ r = c # t \<and> \<not> is_ws c"
  proof (cases j)
    case (JNum l)
    with that obtain i where l: "l = fmt_int i" by auto
    then obtain c t where c: "l = c # t" "is_digit c \<or> c = CHR ''-''" using fmt_int_start [of i] by blast
    then have "\<not> is_ws c" by (auto simp: is_ws_def is_digit_code)
    with JNum c show ?thesis by simp
  qed (auto simp: enc_str_def is_ws_def)
  then show ?thesis by auto
qed

lemma stops_simps [simp]: "stops []" "stops (CHR '','' # r)" "stops (CHR 0x5D # r)" "stops (CHR 0x7D # r)"
  by (simp_all add: stops_def is_digit_code)

lemma dec_enc_str: "dec_body (enc_body html s @ dquote # r) = Some (sanitize s, r)"
  by (rule dec_enc_body)



lemma parse_num:
  assumes "stops r"
  shows "parse_value (Suc n) d (fmt_int i @ r) = Some (JNum (fmt_int i), r)"
proof -
  obtain c t where c: "fmt_int i = c # t" "is_digit c \<or> c = CHR ''-''" using fmt_int_start by blast
  have "c \<noteq> CHR 0x7B" "c \<noteq> CHR 0x5B" "c \<noteq> dquote" "c \<noteq> CHR ''t''" "c \<noteq> CHR ''f''" "c \<noteq> CHR ''n''" "\<not> is_ws c"
    using c(2) by (auto simp: is_digit_code is_ws_def)
  then show ?thesis
    using scan_number_fmt_int [OF assms, of i] c(1) by (simp add: parse_value.simps)
qed

lemma parse_elems_print:
  assumes "\<And>v n r. v \<in> set vs \<Longrightarrow> stops r \<Longrightarrow> 2 * length (print_json html v @ r) + 2 \<le> n \<Longrightarrow>
      parse_value n d (print_json html v @ r) = Some (sanitize_json v, r)"
    and "vs \<noteq> []" and "2 * length (join_on (CHR '','') (map (print_json html) vs) @ CHR 0x5D # r) + 3 \<le> n"
  shows "parse_elems n d (join_on (CHR '','') (map (print_json html) vs) @ CHR 0x5D # r) =
      Some (map sanitize_json vs, r)"
  using assms
proof (induction vs arbitrary: n)
  case (Cons v vs)
  obtain m where m: "n = Suc m" using Cons.prems(3) by (cases n) auto
  show ?case
  proof (cases "vs = []")
    case True
    with Cons.prems m show ?thesis
      using Cons.prems(1) [of v "CHR 0x5D # r" m] by (simp add: parse_elems.simps is_ws_def)
  next
    case False
    let ?j = "join_on (CHR '','') (map (print_json html) vs)"
    have j: "join_on (CHR '','') (map (print_json html) (v # vs)) = print_json html v @ CHR '','' # ?j"
      using False by (simp add: join_on_Cons)
    have "parse_value m d (print_json html v @ CHR '','' # ?j @ CHR 0x5D # r) =
        Some (sanitize_json v, CHR '','' # ?j @ CHR 0x5D # r)"
      using Cons.prems(1) [of v "CHR '','' # ?j @ CHR 0x5D # r" m] Cons.prems(3) j m by simp
    moreover have "parse_elems m d (?j @ CHR 0x5D # r) = Some (map sanitize_json vs, r)"
      using Cons.IH [of m] Cons.prems False j m by simp
    ultimately show ?thesis unfolding j m by (simp add: parse_elems.simps is_ws_def)
  qed
qed simp

lemma parse_members_print:
  assumes "\<And>k v n r. (k, v) \<in> set ms \<Longrightarrow> stops r \<Longrightarrow> 2 * length (print_json html v @ r) + 2 \<le> n \<Longrightarrow>
      parse_value n d (print_json html v @ r) = Some (sanitize_json v, r)"
    and "ms \<noteq> []"
    and "2 * length (join_on (CHR '','') (map (\<lambda>(k, v). enc_str html k @ '':'' @ print_json html v) ms) @ CHR 0x7D # r) + 3 \<le> n"
  shows "parse_members n d (join_on (CHR '','') (map (\<lambda>(k, v). enc_str html k @ '':'' @ print_json html v) ms) @ CHR 0x7D # r) =
      Some (map (\<lambda>(k, v). (sanitize k, sanitize_json v)) ms, r)"
  using assms
proof (induction ms arbitrary: n)
  case (Cons kv ms)
  obtain k v where kv: "kv = (k, v)" by fastforce
  obtain m where m: "n = Suc m" using Cons.prems(3) by (cases n) auto
  show ?case
  proof (cases "ms = []")
    case True
    with Cons.prems m kv show ?thesis
      using Cons.prems(1) [of k v "CHR 0x7D # r" m] by (simp add: parse_members.simps is_ws_def enc_str_def dec_enc_str)
  next
    case False
    let ?f = "\<lambda>(k, v). enc_str html k @ '':'' @ print_json html v"
    let ?j = "join_on (CHR '','') (map ?f ms)"
    have j: "join_on (CHR '','') (map ?f (kv # ms)) = enc_str html k @ '':'' @ print_json html v @ CHR '','' # ?j"
      using False kv by (simp add: join_on_Cons)
    have "parse_value m d (print_json html v @ CHR '','' # ?j @ CHR 0x7D # r) =
        Some (sanitize_json v, CHR '','' # ?j @ CHR 0x7D # r)"
      using Cons.prems(1) [of k v "CHR '','' # ?j @ CHR 0x7D # r" m] Cons.prems(3) kv m
      unfolding j by (simp add: enc_str_def)
    moreover have "parse_members m d (?j @ CHR 0x7D # r) = Some (map (\<lambda>(k, v). (sanitize k, sanitize_json v)) ms, r)"
    proof (rule Cons.IH)
      show "2 * length (?j @ CHR 0x7D # r) + 3 \<le> m" using Cons.prems(3) m unfolding j by simp
    qed (use Cons.prems(1) False in auto)
    ultimately show ?thesis unfolding j m
      using kv by (simp add: parse_members.simps is_ws_def enc_str_def dec_enc_str)
  qed
qed simp

lemma join_on_nonempty: "xs \<noteq> [] \<Longrightarrow> [] \<notin> set xs \<Longrightarrow> join_on c xs \<noteq> []"
  by (cases "(c, xs)" rule: join_on.cases) auto

lemma parse_print_fuel:
  "writable d j \<Longrightarrow> stops r \<Longrightarrow> 2 * length (print_json html j @ r) + 2 \<le> n \<Longrightarrow>
   parse_value n d (print_json html j @ r) = Some (sanitize_json j, r)"
proof (induction j arbitrary: d r n)
  case (JNum l)
  then obtain i m where "l = fmt_int i" "n = Suc m" by (cases n) auto
  with JNum show ?case by (simp add: parse_num)
next
  case (JStr s)
  then obtain m where "n = Suc m" by (cases n) auto
  then show ?case by (simp add: parse_value.simps enc_str_def is_ws_def dec_enc_str)
next
  case (JArr vs)
  then obtain m where m: "n = Suc m" by (cases n) auto
  show ?case
  proof (cases "vs = []")
    case True
    with JArr.prems m show ?thesis by (simp add: parse_value.simps is_ws_def)
  next
    case False
    let ?j = "join_on (CHR '','') (map (print_json html) vs)"
    have ih: "parse_value k (d - 1) (print_json html v @ q) = Some (sanitize_json v, q)"
      if "v \<in> set vs" "stops q" "2 * length (print_json html v @ q) + 2 \<le> k" for v k q
      using JArr.IH [OF that(1) _ that(2,3)] JArr.prems(1) that(1) by simp
    have "parse_elems m (d - 1) (?j @ CHR 0x5D # r) = Some (map sanitize_json vs, r)"
      by (rule parse_elems_print [OF ih False]) (use JArr.prems(3) m in auto)
    moreover have "\<not> has_prefix (skip_ws (?j @ CHR 0x5D # r)) [CHR 0x5D]"
    proof -
      obtain v vs' where v: "vs = v # vs'" using False by (cases vs) auto
      have w: "writable (d - 1) v" using JArr.prems(1) v by simp
      obtain q where q: "?j @ CHR 0x5D # r = print_json html v @ q"
        by (cases vs') (auto simp: v join_on_Cons)
      have "\<not> has_prefix (print_json html v @ q) [CHR 0x5D]"
      proof (cases v)
        case (JNum l)
        with w obtain i where "l = fmt_int i" by auto
        moreover obtain c t where "fmt_int i = c # t" "is_digit c \<or> c = CHR ''-''" using fmt_int_start by blast
        ultimately show ?thesis using JNum by (auto simp: is_digit_code)
      qed (auto simp: enc_str_def)
      then show ?thesis unfolding q not_ws_start [OF w] .
    qed
    ultimately show ?thesis using JArr.prems(1) m by (simp add: parse_value.simps is_ws_def)
  qed
next
  case (JObj ms)
  then obtain m where m: "n = Suc m" by (cases n) auto
  show ?case
  proof (cases "ms = []")
    case True
    with JObj.prems m show ?thesis by (simp add: parse_value.simps is_ws_def)
  next
    case False
    let ?j = "join_on (CHR '','') (map (\<lambda>(k, v). enc_str html k @ '':'' @ print_json html v) ms)"
    have ih: "parse_value k (d - 1) (print_json html v @ q) = Some (sanitize_json v, q)"
      if "(x, v) \<in> set ms" "stops q" "2 * length (print_json html v @ q) + 2 \<le> k" for x v k q
      using JObj.IH [OF that(1) _ _ that(2,3)] JObj.prems(1) that(1) by auto
    have "parse_members m (d - 1) (?j @ CHR 0x7D # r) = Some (map (\<lambda>(k, v). (sanitize k, sanitize_json v)) ms, r)"
      by (rule parse_members_print [OF ih False]) (use JObj.prems(3) m in auto)
    moreover have "\<not> has_prefix (skip_ws (?j @ CHR 0x7D # r)) [CHR 0x7D]"
    proof -
      obtain k v ms' where v: "ms = (k, v) # ms'" using False by (cases ms) auto
      obtain q where "?j @ CHR 0x7D # r = dquote # q"
        by (cases ms') (auto simp: v join_on_Cons enc_str_def)
      then show ?thesis by (simp add: is_ws_def)
    qed
    ultimately show ?thesis using JObj.prems(1) m by (simp add: parse_value.simps is_ws_def)
  qed
next
  case JNull
  then obtain m where "n = Suc m" by (cases n) auto
  then show ?case by (simp add: parse_value.simps literal_def is_ws_def)
next
  case (JBool b)
  then obtain m where "n = Suc m" by (cases n) auto
  then show ?case by (cases b) (simp_all add: parse_value.simps literal_def is_ws_def)
qed

theorem read_print:
  "writable max_depth j \<Longrightarrow> stops r \<Longrightarrow> read_value (print_json html j @ r) = Some (sanitize_json j, r)"
  unfolding read_value_def by (rule parse_print_fuel) auto

fun valid_json :: "json \<Rightarrow> bool" where
  "valid_json (JStr s) = valid_utf8 s"
| "valid_json (JArr vs) = list_all valid_json vs"
| "valid_json (JObj ms) = list_all (\<lambda>(k, v). valid_utf8 k \<and> valid_json v) ms"
| "valid_json v = True"

lemma sanitize_json_valid: "valid_json j \<Longrightarrow> sanitize_json j = j"
proof (induction j)
  case (JArr vs)
  then show ?case by (auto simp: list_all_iff intro: map_idI)
next
  case (JObj ms)
  then show ?case by (auto simp: list_all_iff sanitize_valid intro!: map_idI)
qed (simp_all add: sanitize_valid)

section \<open>Typed reading\<close>

text \<open>
  How \<open>Decode\<close> stores a tree into a Go variable of a given type that holds \<open>old\<close>: \<open>null\<close> leaves
  it as it is, a value of another kind is an error (\<open>None\<close>).  Integers are literals without
  fraction and exponent that fit 64 bits (\<open>int\<close> has 64 bits on the supported platforms).
\<close>

definition into_string :: "string \<Rightarrow> json \<Rightarrow> string option" where
  "into_string old j = (case j of JStr s \<Rightarrow> Some s | JNull \<Rightarrow> Some old | _ \<Rightarrow> None)"

definition lit_int :: "string \<Rightarrow> int option" where
  "lit_int l =
     (let (sg, ds) = scan_sign l in
      if ds = [] \<or> \<not> list_all is_digit ds then None
      else let i = (if sg = [] then int (digits_val ds) else - int (digits_val ds))
           in if - (2 ^ 63) \<le> i \<and> i < 2 ^ 63 then Some i else None)"

definition into_int64 :: "int \<Rightarrow> json \<Rightarrow> int option" where
  "into_int64 old j = (case j of JNum l \<Rightarrow> lit_int l | JNull \<Rightarrow> Some old | _ \<Rightarrow> None)"

lemma lit_int_fmt: "- (2 ^ 63) \<le> i \<Longrightarrow> i < 2 ^ 63 \<Longrightarrow> lit_int (fmt_int i) = Some i"
proof -
  assume r: "- (2 ^ 63) \<le> i" "i < 2 ^ 63"
  have d: "list_all is_digit (nat_digits n)" for n using nat_digits_digits by (auto simp: list_all_iff)
  have "\<not> has_prefix (nat_digits n) ''-''" for n
    using nat_digits_digits [of "hd (nat_digits n)" n] by (cases "nat_digits n") (auto simp: is_digit_code)
  with r d show ?thesis
    by (auto simp: lit_int_def fmt_int_def scan_sign_def Let_def)
qed

text \<open>
  Field lookup folds case: ASCII letters, and the two characters outside ASCII that fold to one
  (U+017F to S, U+212A to K).
\<close>

definition upper_ascii :: "char \<Rightarrow> char" where
  "upper_ascii c = (if 97 \<le> code c \<and> code c \<le> 122 then char_of (code c - 32) else c)"

fun fold_name :: "string \<Rightarrow> string" where
  "fold_name (a # b # c # r) =
     (if [a, b, c] = [CHR 0xE2, CHR 0x84, CHR 0xAA] then CHR ''K'' # fold_name r
      else if [a, b] = [CHR 0xC5, CHR 0xBF] then CHR ''S'' # fold_name (c # r)
      else upper_ascii a # fold_name (b # c # r))"
| "fold_name [a, b] =
     (if [a, b] = [CHR 0xC5, CHR 0xBF] then ''S'' else [upper_ascii a, upper_ascii b])"
| "fold_name [a] = [upper_ascii a]"
| "fold_name [] = []"

definition find_field :: "string list \<Rightarrow> string \<Rightarrow> string option" where
  "find_field names k =
     (if k \<in> set names then Some k else find (\<lambda>n. fold_name n = fold_name k) names)"

text \<open>
  Decoding an object into a struct: members in the order of the text, so the last duplicate
  wins; unknown members are skipped, or an error under \<open>DisallowUnknownFields\<close>.
\<close>

fun into_members ::
  "bool \<Rightarrow> string list \<Rightarrow> (string \<Rightarrow> json \<Rightarrow> 's \<Rightarrow> 's option) \<Rightarrow> (string \<times> json) list \<Rightarrow> 's \<Rightarrow> 's option" where
  "into_members strict names f [] s = Some s"
| "into_members strict names f ((k, v) # ms) s =
     (case find_field names k of
        None \<Rightarrow> if strict then None else into_members strict names f ms s
      | Some n \<Rightarrow>
          (case f n v s of None \<Rightarrow> None | Some s' \<Rightarrow> into_members strict names f ms s'))"

definition into_struct ::
  "bool \<Rightarrow> string list \<Rightarrow> (string \<Rightarrow> json \<Rightarrow> 's \<Rightarrow> 's option) \<Rightarrow> json \<Rightarrow> 's \<Rightarrow> 's option" where
  "into_struct strict names f j s =
     (case j of JNull \<Rightarrow> Some s | JObj ms \<Rightarrow> into_members strict names f ms s | _ \<Rightarrow> None)"

text \<open>
  Decoding a number into \<open>any\<close> converts it to \<open>float64\<close> and fails when it rounds to infinity:
  from halfway between the largest float and its successor on.
\<close>

definition float_limit :: nat where
  "float_limit = 2 ^ 1024 - 2 ^ 970"

definition float_overflow :: "string \<Rightarrow> bool" where
  "float_overflow l =
     (let s = snd (scan_sign l);
          ip = takeWhile is_digit s; r1 = dropWhile is_digit s;
          fp = (if has_prefix r1 ''.'' then takeWhile is_digit (tl r1) else []);
          r2 = (if has_prefix r1 ''.'' then dropWhile is_digit (tl r1) else r1);
          e0 = (if r2 = [] then [] else tl r2);
          neg = has_prefix e0 ''-'';
          ev = int (digits_val (if has_prefix e0 ''-'' \<or> has_prefix e0 ''+'' then tl e0 else e0));
          m = digits_val (ip @ fp);
          e = (if neg then - ev else ev) - int (length fp)
      in if 0 \<le> e then float_limit \<le> m * 10 ^ nat e else float_limit * 10 ^ nat (- e) \<le> m)"

lemma float_overflow_digits:
  assumes "list_all is_digit ds" and "snd (scan_sign l) = ds"
  shows "float_overflow l = (float_limit \<le> digits_val ds)"
proof -
  have "takeWhile is_digit ds = ds" "dropWhile is_digit ds = []"
    using assms(1) by (auto simp: list_all_iff takeWhile_eq_all_conv dropWhile_eq_Nil_conv)
  moreover have "\<not> has_prefix [] [c]" for c by (simp add: has_prefix_def)
  moreover have "digits_val [] = 0" by (simp add: digits_val_def)
  ultimately show ?thesis
    unfolding float_overflow_def assms(2) Let_def by (simp only: if_False simp_thms append_Nil2 list.size diff_self order_refl if_True nat_0 power_0 mult_1_right)
qed

lemma fmt_int_no_overflow:
  assumes "- (2 ^ 63) \<le> i" and "i < 2 ^ 63"
  shows "\<not> float_overflow (fmt_int i)"
proof -
  have d: "list_all is_digit (nat_digits (nat \<bar>i\<bar>))" using nat_digits_digits by (auto simp: list_all_iff)
  have s: "\<not> has_prefix (nat_digits n) ''-''" for n
    using nat_digits_digits [of "hd (nat_digits n)" n] by (cases "nat_digits n") (auto simp: is_digit_code)
  have f: "snd (scan_sign (fmt_int i)) = nat_digits (nat \<bar>i\<bar>)"
    using s by (cases "i < 0") (simp_all add: fmt_int_def scan_sign_def)
  have "(2 ^ 63 :: nat) < 2 ^ 970" by (rule power_strict_increasing) simp_all
  also have "(2 ^ 970 :: nat) + 2 ^ 970 \<le> 2 ^ 1024"
  proof -
    have "(2 ^ 970 :: nat) + 2 ^ 970 = 2 ^ Suc 970" by (simp only: power_Suc mult_2)
    also have "\<dots> \<le> 2 ^ 1024" by (rule power_increasing) simp_all
    finally show ?thesis .
  qed
  then have "(2 ^ 970 :: nat) \<le> float_limit" unfolding float_limit_def by (rule add_le_imp_le_diff)
  finally have l: "(2 ^ 63 :: nat) < float_limit" .
  have "int (nat \<bar>i\<bar>) \<le> int (2 ^ 63)" using assms by (simp add: abs_le_iff)
  then have "nat \<bar>i\<bar> \<le> 2 ^ 63" by (simp only: of_nat_le_iff)
  with l have "nat \<bar>i\<bar> < float_limit" by (rule le_less_trans [rotated])
  then show ?thesis unfolding float_overflow_digits [OF d f] by (simp only: digits_val_nat_digits not_le)
qed

lemma join_on_concat: "join_on c (x # xs) = x @ concat (map (\<lambda>y. c # y) xs)"
  by (induction xs arbitrary: x) auto

end
