(* ===== verification/Decoder.thy ===== *)
theory Decoder
  imports Json
begin

text \<open>
  The streaming reader \<open>json.Decoder\<close>, which the program reads its plans and manifests with: the
  unread input, the offset of the next byte (\<open>InputOffset\<close>), and the token state with its stack,
  as in the library's \<open>stream.go\<close>.  \<open>has_more\<close>, \<open>token\<close> and \<open>decode\<close> are its methods \<open>More\<close>, \<open>Token\<close>
  and \<open>Decode\<close>; an error of theirs is \<open>None\<close> (the program passes every such error on, and never
  uses the decoder afterwards).  The input is the whole text: reading it in pieces makes no
  difference to the library's results.
\<close>

datatype token_state =
    TopValue | ArrayStart | ArrayValue | ArrayComma
  | ObjectStart | ObjectKey | ObjectColon | ObjectValue | ObjectComma

datatype jtoken = TDelim char | TStr string | TNum string | TBool bool | TNull

record decoder =
  j_rest :: string
  j_off :: nat
  j_state :: token_state
  j_stack :: "token_state list"

abbreviation lbrace :: char where "lbrace \<equiv> CHR 0x7B"
abbreviation rbrace :: char where "rbrace \<equiv> CHR 0x7D"
abbreviation lbrack :: char where "lbrack \<equiv> CHR 0x5B"
abbreviation rbrack :: char where "rbrack \<equiv> CHR 0x5D"
abbreviation comma :: char where "comma \<equiv> CHR '',''"
abbreviation colon :: char where "colon \<equiv> CHR '':''"

definition new_decoder :: "string \<Rightarrow> decoder" where
  "new_decoder s = \<lparr>j_rest = s, j_off = 0, j_state = TopValue, j_stack = []\<rparr>"

definition value_allowed :: "token_state \<Rightarrow> bool" where
  "value_allowed st \<longleftrightarrow> st \<in> {TopValue, ArrayStart, ArrayValue, ObjectValue}"

definition value_end :: "token_state \<Rightarrow> token_state" where
  "value_end st =
     (case st of ArrayStart \<Rightarrow> ArrayComma | ArrayValue \<Rightarrow> ArrayComma | ObjectValue \<Rightarrow> ObjectComma | _ \<Rightarrow> st)"

text \<open>Continue with the given input; the offset moves by what was consumed.\<close>

definition advance_to :: "string \<Rightarrow> decoder \<Rightarrow> decoder" where
  "advance_to r d = d\<lparr>j_rest := r, j_off := j_off d + (length (j_rest d) - length r)\<rparr>"

definition peek :: "decoder \<Rightarrow> (char \<times> decoder) option" where
  "peek d = (case skip_ws (j_rest d) of [] \<Rightarrow> None | c # r \<Rightarrow> Some (c, advance_to (c # r) d))"

definition has_more :: "decoder \<Rightarrow> bool" where
  "has_more d = (case peek d of None \<Rightarrow> False | Some (c, _) \<Rightarrow> c \<noteq> rbrack \<and> c \<noteq> rbrace)"

text \<open>Dropping the character that \<open>peek\<close> found.\<close>

definition drop_char :: "decoder \<Rightarrow> decoder" where
  "drop_char d = advance_to (tl (j_rest d)) d"

definition prepare_for_decode :: "decoder \<Rightarrow> decoder option" where
  "prepare_for_decode d =
     (case j_state d of
        ArrayComma \<Rightarrow>
          (case peek d of
             Some (c, d') \<Rightarrow> if c = comma then Some ((drop_char d')\<lparr>j_state := ArrayValue\<rparr>) else None
           | None \<Rightarrow> None)
      | ObjectColon \<Rightarrow>
          (case peek d of
             Some (c, d') \<Rightarrow> if c = colon then Some ((drop_char d')\<lparr>j_state := ObjectValue\<rparr>) else None
           | None \<Rightarrow> None)
      | _ \<Rightarrow> Some d)"

text \<open>\<open>Decode\<close>: the tree of the next value; the caller stores it into its variable.\<close>

definition decode :: "decoder \<Rightarrow> (json \<times> decoder) option" where
  "decode d =
     (case prepare_for_decode d of
        None \<Rightarrow> None
      | Some d1 \<Rightarrow>
          if \<not> value_allowed (j_state d1) then None
          else (case read_value (j_rest d1) of
             None \<Rightarrow> None
           | Some (v, r) \<Rightarrow> Some (v, (advance_to r d1)\<lparr>j_state := value_end (j_state d1)\<rparr>)))"

definition scalar_token :: "json \<Rightarrow> jtoken option" where
  "scalar_token v =
     (case v of
        JNull \<Rightarrow> Some TNull | JBool b \<Rightarrow> Some (TBool b) | JStr s \<Rightarrow> Some (TStr s)
      | JNum l \<Rightarrow> if float_overflow l then None else Some (TNum l)
      | _ \<Rightarrow> None)"

definition open_token :: "char \<Rightarrow> token_state \<Rightarrow> decoder \<Rightarrow> (jtoken \<times> decoder) option" where
  "open_token c st d =
     (if value_allowed (j_state d)
      then Some (TDelim c, (drop_char d)\<lparr>j_stack := j_state d # j_stack d, j_state := st\<rparr>)
      else None)"

definition close_token :: "char \<Rightarrow> token_state set \<Rightarrow> decoder \<Rightarrow> (jtoken \<times> decoder) option" where
  "close_token c sts d =
     (if j_state d \<in> sts
      then (case j_stack d of
              [] \<Rightarrow> None
            | st # more_sts \<Rightarrow>
                Some (TDelim c, (drop_char d)\<lparr>j_stack := more_sts, j_state := value_end st\<rparr>))
      else None)"

text \<open>
  One token that is not a separator; \<open>d\<close> stands at its first character \<open>c\<close>.  (The stack is not
  empty in the states that allow a closing delimiter, so that branch of \<open>close_token\<close> is idle.)
\<close>

definition token_at :: "char \<Rightarrow> decoder \<Rightarrow> (jtoken \<times> decoder) option" where
  "token_at c d =
     (if c = lbrack then open_token c ArrayStart d
      else if c = rbrack then close_token c {ArrayStart, ArrayComma} d
      else if c = lbrace then open_token c ObjectStart d
      else if c = rbrace then close_token c {ObjectStart, ObjectComma} d
      else if c = colon \<or> c = comma then None
      else if c = dquote \<and> (j_state d = ObjectStart \<or> j_state d = ObjectKey) then
        (case decode (d\<lparr>j_state := TopValue\<rparr>) of
           Some (JStr k, d') \<Rightarrow> Some (TStr k, d'\<lparr>j_state := ObjectColon\<rparr>)
         | _ \<Rightarrow> None)
      else if \<not> value_allowed (j_state d) then None
      else (case decode d of
              None \<Rightarrow> None
            | Some (v, d') \<Rightarrow> (case scalar_token v of None \<Rightarrow> None | Some t \<Rightarrow> Some (t, d'))))"

text \<open>
  \<open>Token\<close> skips a separator that its state asks for and reads on; in the state after it no
  separator is allowed, so the loop of the source runs at most twice.
\<close>

definition token :: "decoder \<Rightarrow> (jtoken \<times> decoder) option" where
  "token d =
     (case peek d of
        None \<Rightarrow> None
      | Some (c, d1) \<Rightarrow>
          (let next = (if c = colon \<and> j_state d1 = ObjectColon then Some ObjectValue
                       else if c = comma \<and> j_state d1 = ArrayComma then Some ArrayValue
                       else if c = comma \<and> j_state d1 = ObjectComma then Some ObjectKey
                       else None)
           in case next of
                None \<Rightarrow> token_at c d1
              | Some st \<Rightarrow>
                  (case peek ((drop_char d1)\<lparr>j_state := st\<rparr>) of
                     None \<Rightarrow> None
                   | Some (c2, d2) \<Rightarrow> token_at c2 d2)))"

section \<open>Progress\<close>

lemma advance_to_rest [simp]:
  "j_rest (advance_to r d) = r" "j_state (advance_to r d) = j_state d" "j_stack (advance_to r d) = j_stack d"
  by (simp_all add: advance_to_def)

lemma drop_char_simps [simp]:
  "j_rest (drop_char d) = tl (j_rest d)" "j_state (drop_char d) = j_state d" "j_stack (drop_char d) = j_stack d"
  by (simp_all add: drop_char_def)

lemma peek_length:
  "peek d = Some (c, d') \<Longrightarrow> length (j_rest d') \<le> length (j_rest d) \<and> j_rest d' \<noteq> [] \<and> j_state d' = j_state d"
  using skip_ws_le [of "j_rest d"] by (auto simp: peek_def split: list.splits)

lemma prepare_length: "prepare_for_decode d = Some d' \<Longrightarrow> length (j_rest d') \<le> length (j_rest d)"
  by (auto simp: prepare_for_decode_def split: token_state.splits option.splits if_splits dest!: peek_length)

lemma decode_length: "decode d = Some (v, d') \<Longrightarrow> length (j_rest d') < length (j_rest d)"
  by (auto simp: decode_def split: option.splits if_splits dest!: prepare_length read_value_length)

lemma token_at_length: "token_at c d = Some (t, d') \<Longrightarrow> j_rest d \<noteq> [] \<Longrightarrow> length (j_rest d') < length (j_rest d)"
  by (auto simp: token_at_def open_token_def close_token_def dest!: decode_length
      split: if_splits option.splits prod.splits json.splits list.splits)

lemma token_length: "token d = Some (t, d') \<Longrightarrow> length (j_rest d') < length (j_rest d)"
  by (fastforce simp: token_def Let_def dest!: peek_length token_at_length
      split: option.splits if_splits prod.splits)

section \<open>Helpers and loops over a decoder\<close>

definition expect_delim :: "char \<Rightarrow> decoder \<Rightarrow> decoder option" where
  "expect_delim want d =
     (case token d of
        None \<Rightarrow> None
      | Some (t, d') \<Rightarrow> if t = TDelim want then Some d' else None)"

definition read_key :: "decoder \<Rightarrow> (string \<times> decoder) option" where
  "read_key d =
     (case token d of
        Some (TStr k, d') \<Rightarrow> Some (k, d')
      | _ \<Rightarrow> None)"

text \<open>The depth that \<open>skipValue\<close> counts.\<close>

definition depth_step :: "jtoken \<Rightarrow> int \<Rightarrow> int" where
  "depth_step t n =
     (case t of
        TDelim c \<Rightarrow> if c = lbrace \<or> c = lbrack then n + 1 else if c = rbrace \<or> c = rbrack then n - 1 else n
      | _ \<Rightarrow> n)"

function skip_tokens :: "int \<Rightarrow> decoder \<Rightarrow> decoder option" where
  "skip_tokens n d =
     (case token d of
        None \<Rightarrow> None
      | Some (t, d') \<Rightarrow> if depth_step t n = 0 then Some d' else skip_tokens (depth_step t n) d')"
  by pat_completeness auto
termination
  by (relation "measure (\<lambda>(n, d). length (j_rest d))") (auto dest: token_length)

declare skip_tokens.simps [simp del]

definition skip_value :: "decoder \<Rightarrow> decoder option" where
  "skip_value d = skip_tokens 0 d"

lemma expect_delim_length: "expect_delim c d = Some d' \<Longrightarrow> length (j_rest d') < length (j_rest d)"
  by (auto simp: expect_delim_def dest: token_length split: option.splits if_splits)

lemma read_key_length: "read_key d = Some (k, d') \<Longrightarrow> length (j_rest d') < length (j_rest d)"
  by (auto simp: read_key_def dest: token_length split: option.splits jtoken.splits)

lemma skip_tokens_length: "skip_tokens n d = Some d' \<Longrightarrow> length (j_rest d') < length (j_rest d)"
proof (induction n d rule: skip_tokens.induct)
  case (1 n d)
  from "1.prems" obtain t d1 where t: "token d = Some (t, d1)"
    by (subst (asm) skip_tokens.simps) (auto split: option.splits)
  with "1.prems" show ?case
    using token_length [OF t] "1.IH" [OF t]
    by (subst (asm) skip_tokens.simps) (fastforce split: if_splits)
qed

lemma skip_value_length: "skip_value d = Some d' \<Longrightarrow> length (j_rest d') < length (j_rest d)"
  unfolding skip_value_def by (rule skip_tokens_length)

text \<open>
  The loop \<open>for dec.More() { body }\<close>, with the loop's variables in \<open>s\<close>.  Every body of the program
  consumes input (the contract \<open>consuming\<close>), so the test that cuts the recursion off never does,
  and the loop ends.
\<close>

function for_more :: "('s \<Rightarrow> decoder \<Rightarrow> 'e + 's \<times> decoder) \<Rightarrow> 's \<Rightarrow> decoder \<Rightarrow> 'e + 's \<times> decoder" where
  "for_more body s d =
     (if has_more d
      then (case body s d of
              Inl e \<Rightarrow> Inl e
            | Inr (s', d') \<Rightarrow>
                if length (j_rest d') < length (j_rest d) then for_more body s' d' else Inr (s', d'))
      else Inr (s, d))"
  by pat_completeness auto
termination
  by (relation "measure (\<lambda>(b, s, d). length (j_rest d))") auto

declare for_more.simps [simp del]

locale consuming =
  fixes body :: "'s \<Rightarrow> decoder \<Rightarrow> 'e + 's \<times> decoder"
  assumes consumes: "body s d = Inr (s', d') \<Longrightarrow> length (j_rest d') < length (j_rest d)"
begin

lemma unfold_loop:
  "for_more body s d =
     (if has_more d then (case body s d of Inl e \<Rightarrow> Inl e | Inr (s', d') \<Rightarrow> for_more body s' d') else Inr (s, d))"
  by (subst for_more.simps) (auto split: sum.splits dest: consumes)

lemma loop_length: "for_more body s d = Inr (s', d') \<Longrightarrow> length (j_rest d') \<le> length (j_rest d)"
proof (induction "length (j_rest d)" arbitrary: s d rule: less_induct)
  case less
  from less.prems show ?case
    using less.hyps consumes
    by (subst (asm) unfold_loop) (fastforce split: if_splits sum.splits dest: less_imp_le)
qed

lemma loop_ends: "for_more body s d = Inr (s', d') \<Longrightarrow> \<not> has_more d'"
proof (induction "length (j_rest d)" arbitrary: s d rule: less_induct)
  case less
  from less.prems show ?case
    using less.hyps consumes
    by (subst (asm) unfold_loop) (fastforce split: if_splits sum.splits)
qed

lemma loop_invariant:
  assumes "for_more body s d = Inr (s', d')" and "P s"
    and "\<And>s d s' d'. P s \<Longrightarrow> body s d = Inr (s', d') \<Longrightarrow> P s'"
  shows "P s'"
  using assms(1,2)
proof (induction "length (j_rest d)" arbitrary: s d rule: less_induct)
  case less
  from less.prems show ?case
    using less.hyps consumes assms(3)
    by (subst (asm) unfold_loop) (fastforce split: if_splits sum.splits)
qed

end

section \<open>Reading a written text\<close>

abbreviation at :: "string \<Rightarrow> nat \<Rightarrow> token_state \<Rightarrow> token_state list \<Rightarrow> decoder" where
  "at r n st sk \<equiv> \<lparr>j_rest = r, j_off = n, j_state = st, j_stack = sk\<rparr>"

lemma peek_at: "\<not> is_ws c \<Longrightarrow> peek (at (c # r) n st sk) = Some (c, at (c # r) n st sk)"
  by (simp add: peek_def advance_to_def)

lemma drop_char_at: "drop_char (at (c # r) n st sk) = at r (Suc n) st sk"
  by (simp add: drop_char_def advance_to_def)

lemma has_more_at: "\<not> is_ws c \<Longrightarrow> has_more (at (c # r) n st sk) = (c \<noteq> rbrack \<and> c \<noteq> rbrace)"
  by (simp add: has_more_def peek_at)

lemma delims_not_ws [simp]:
  "\<not> is_ws lbrace" "\<not> is_ws rbrace" "\<not> is_ws lbrack" "\<not> is_ws rbrack" "\<not> is_ws comma" "\<not> is_ws colon" "\<not> is_ws dquote"
  by (simp_all add: is_ws_def)

lemma token_plain:
  "\<not> is_ws c \<Longrightarrow> c \<noteq> comma \<Longrightarrow> c \<noteq> colon \<Longrightarrow> token (at (c # r) n st sk) = token_at c (at (c # r) n st sk)"
  by (simp add: token_def peek_at Let_def)

lemma token_sep:
  "token (at (colon # r) n ObjectColon sk) = token (at r (Suc n) ObjectValue sk)"
  "token (at (comma # r) n ArrayComma sk) = token (at r (Suc n) ArrayValue sk)"
  "token (at (comma # r) n ObjectComma sk) = token (at r (Suc n) ObjectKey sk)"
  using peek_length [of "at r (Suc n) ObjectValue sk"] peek_length [of "at r (Suc n) ArrayValue sk"]
    peek_length [of "at r (Suc n) ObjectKey sk"]
  by (auto simp: token_def peek_at drop_char_at Let_def split: option.splits)

lemma decode_sep:
  "decode (at (colon # r) n ObjectColon sk) = decode (at r (Suc n) ObjectValue sk)"
  "decode (at (comma # r) n ArrayComma sk) = decode (at r (Suc n) ArrayValue sk)"
  by (simp_all add: decode_def prepare_for_decode_def peek_at drop_char_at)

lemma decode_print:
  assumes "value_allowed st" and "writable max_depth j" and "stops r"
  shows "decode (at (print_json html j @ r) n st sk) =
     Some (sanitize_json j, at r (n + length (print_json html j)) (value_end st) sk)"
proof -
  have "prepare_for_decode (at s n st sk) = Some (at s n st sk)" for s
    using assms(1) by (cases st) (auto simp: prepare_for_decode_def value_allowed_def)
  with assms show ?thesis
    by (simp add: decode_def read_print advance_to_def)
qed

text \<open>Reading the tokens of a written text, from each state that allows them.\<close>

lemma token_open_obj:
  "value_allowed st \<Longrightarrow> token (at (lbrace # r) n st sk) = Some (TDelim lbrace, at r (Suc n) ObjectStart (st # sk))"
  by (simp add: token_plain token_at_def open_token_def drop_char_at)

lemma token_open_arr:
  "value_allowed st \<Longrightarrow> token (at (lbrack # r) n st sk) = Some (TDelim lbrack, at r (Suc n) ArrayStart (st # sk))"
  by (simp add: token_plain token_at_def open_token_def drop_char_at)

lemma token_close_obj:
  "st \<in> {ObjectStart, ObjectComma} \<Longrightarrow>
   token (at (rbrace # r) n st (st' # sk)) = Some (TDelim rbrace, at r (Suc n) (value_end st') sk)"
  by (simp add: token_plain token_at_def close_token_def drop_char_at)

lemma token_close_arr:
  "st \<in> {ArrayStart, ArrayComma} \<Longrightarrow>
   token (at (rbrack # r) n st (st' # sk)) = Some (TDelim rbrack, at r (Suc n) (value_end st') sk)"
  by (simp add: token_plain token_at_def close_token_def drop_char_at)

lemma token_key:
  assumes "st \<in> {ObjectStart, ObjectKey}"
  shows "token (at (enc_str html k @ r) n st sk) =
     Some (TStr (sanitize k), at r (n + length (enc_str html k)) ObjectColon sk)"
proof -
  have v: "value_allowed TopValue" "value_end TopValue = TopValue" by (simp_all add: value_allowed_def value_end_def)
  have "decode (at (enc_str html k @ r) n TopValue sk) =
      Some (JStr (sanitize k), at r (n + length (enc_str html k)) TopValue sk)"
    using v unfolding decode_def prepare_for_decode_def
    by (simp add: read_value_def parse_value.simps enc_str_def dec_enc_body advance_to_def)
  then show ?thesis
    using assms by (simp add: enc_str_def token_plain token_at_def)
qed

lemma read_key_at:
  "st \<in> {ObjectStart, ObjectKey} \<Longrightarrow>
   read_key (at (enc_str html k @ r) n st sk) = Some (sanitize k, at r (n + length (enc_str html k)) ObjectColon sk)"
  by (simp add: read_key_def token_key)

lemma read_key_sep: "read_key (at (comma # r) n ObjectComma sk) = read_key (at r (Suc n) ObjectKey sk)"
  by (simp add: read_key_def token_sep)

lemma decode_scalar_token:
  assumes "value_allowed st" and "writable max_depth j" and "stops r"
    and "scalar_token (sanitize_json j) = Some t"
  shows "token (at (print_json html j @ r) n st sk) =
     Some (t, at r (n + length (print_json html j)) (value_end st) sk)"
proof -
  have "\<exists>c s. print_json html j @ r = c # s \<and> \<not> is_ws c \<and> c \<notin> {comma, colon, lbrace, rbrace, lbrack, rbrack}"
  proof (cases j)
    case (JNum l)
    with assms(2) obtain i where "l = fmt_int i" by auto
    moreover obtain c s where "fmt_int i = c # s" "is_digit c \<or> c = CHR ''-''" using fmt_int_start by blast
    ultimately show ?thesis using JNum by (auto simp: is_digit_code is_ws_def)
  qed (use assms(4) in \<open>auto simp: enc_str_def is_ws_def scalar_token_def\<close>)
  then obtain c s where c: "print_json html j @ r = c # s" "\<not> is_ws c"
      "c \<notin> {comma, colon, lbrace, rbrace, lbrack, rbrack}" by blast
  have st: "st \<noteq> ObjectStart" "st \<noteq> ObjectKey" using assms(1) by (auto simp: value_allowed_def)
  have "token (at (c # s) n st sk) = token_at c (at (c # s) n st sk)"
    using c by (intro token_plain) auto
  also have "\<dots> = (case decode (at (c # s) n st sk) of
              None \<Rightarrow> None
            | Some (v, d') \<Rightarrow> (case scalar_token v of None \<Rightarrow> None | Some t \<Rightarrow> Some (t, d')))"
    using c(3) st assms(1) by (simp add: token_at_def)
  finally show ?thesis
    using decode_print [OF assms(1,2,3), of html n sk] assms(4) by (simp add: c(1))
qed

lemma skip_sep:
  "skip_tokens k (at (colon # r) n ObjectColon sk) = skip_tokens k (at r (Suc n) ObjectValue sk)"
  "skip_tokens k (at (comma # r) n ArrayComma sk) = skip_tokens k (at r (Suc n) ArrayValue sk)"
  "skip_tokens k (at (comma # r) n ObjectComma sk) = skip_tokens k (at r (Suc n) ObjectKey sk)"
  by (subst (1 2) skip_tokens.simps, simp add: token_sep)+

definition skip_done :: "int \<Rightarrow> decoder \<Rightarrow> decoder option" where
  "skip_done k d = (if k = 0 then Some d else skip_tokens k d)"

lemma skip_scalar:
  assumes "value_allowed st" and "writable max_depth j" and "stops r"
    and "scalar_token (sanitize_json j) = Some t" and "\<And>c. t \<noteq> TDelim c"
  shows "skip_tokens k (at (print_json html j @ r) n st sk) =
     skip_done k (at r (n + length (print_json html j)) (value_end st) sk)"
proof -
  have "depth_step t k = k" using assms(5) by (cases t) (auto simp: depth_step_def)
  then show ?thesis
    by (subst skip_tokens.simps) (simp add: decode_scalar_token [OF assms(1,2,3,4)] skip_done_def)
qed

lemma skip_close:
  "st \<in> {ArrayStart, ArrayComma} \<Longrightarrow>
   skip_tokens (k + 1) (at (rbrack # r) n st (st' # sk)) = skip_done k (at r (Suc n) (value_end st') sk)"
  "st \<in> {ObjectStart, ObjectComma} \<Longrightarrow>
   skip_tokens (k + 1) (at (rbrace # r) n st (st' # sk)) = skip_done k (at r (Suc n) (value_end st') sk)"
  by (subst skip_tokens.simps, simp add: token_close_arr token_close_obj depth_step_def skip_done_def)+

lemma skip_open:
  assumes "value_allowed st" and "0 \<le> k"
  shows "skip_tokens k (at (lbrack # r) n st sk) = skip_tokens (k + 1) (at r (Suc n) ArrayStart (st # sk))"
    and "skip_tokens k (at (lbrace # r) n st sk) = skip_tokens (k + 1) (at r (Suc n) ObjectStart (st # sk))"
  using assms(2)
  by (subst skip_tokens.simps, simp add: token_open_arr [OF assms(1)] token_open_obj [OF assms(1)] depth_step_def)+

lemma skip_key:
  "st \<in> {ObjectStart, ObjectKey} \<Longrightarrow> k \<noteq> 0 \<Longrightarrow>
   skip_tokens k (at (enc_str html x @ colon # r) n st sk) =
     skip_tokens k (at r (n + length (enc_str html x) + 1) ObjectValue sk)"
  by (subst skip_tokens.simps) (simp add: token_key depth_step_def skip_sep)

abbreviation elems_text :: "bool \<Rightarrow> json list \<Rightarrow> string" where
  "elems_text html vs \<equiv> concat (map (\<lambda>v. comma # print_json html v) vs)"

abbreviation members_text :: "bool \<Rightarrow> (string \<times> json) list \<Rightarrow> string" where
  "members_text html ms \<equiv> concat (map (\<lambda>(k, v). comma # enc_str html k @ colon # print_json html v) ms)"

lemma stops_elems: "stops (elems_text html vs @ rbrack # r)"
  by (cases vs) simp_all

lemma stops_members: "stops (members_text html ms @ rbrace # r)"
  by (cases ms) (simp_all add: case_prod_beta)

lemma value_end_simps [simp]:
  "value_end ArrayStart = ArrayComma" "value_end ArrayValue = ArrayComma" "value_end ObjectValue = ObjectComma"
  "value_end TopValue = TopValue"
  by (simp_all add: value_end_def)

lemma value_allowed_simps [simp]:
  "value_allowed ArrayStart" "value_allowed ArrayValue" "value_allowed ObjectValue" "value_allowed TopValue"
  "\<not> value_allowed ArrayComma" "\<not> value_allowed ObjectComma" "\<not> value_allowed ObjectKey"
  "\<not> value_allowed ObjectStart" "\<not> value_allowed ObjectColon"
  by (simp_all add: value_allowed_def)

lemma skip_elems:
  assumes "\<And>v k n st r sk. v \<in> set vs \<Longrightarrow> value_allowed st \<Longrightarrow> stops r \<Longrightarrow> 0 \<le> k \<Longrightarrow>
      skip_tokens k (at (print_json html v @ r) n st sk) =
        skip_done k (at r (n + length (print_json html v)) (value_end st) sk)"
    and "0 \<le> k"
  shows "skip_tokens (k + 1) (at (elems_text html vs @ rbrack # r) n ArrayComma (st # sk)) =
     skip_done k (at r (n + length (elems_text html vs) + 1) (value_end st) sk)"
  using assms(1)
proof (induction vs arbitrary: n)
  case Nil
  show ?case using skip_close(1) [of ArrayComma k r n st sk] by simp
next
  case (Cons v vs)
  have "skip_tokens (k + 1) (at (print_json html v @ elems_text html vs @ rbrack # r) (Suc n) ArrayValue (st # sk)) =
      skip_done (k + 1) (at (elems_text html vs @ rbrack # r) (Suc n + length (print_json html v)) ArrayComma (st # sk))"
    using Cons.prems [of v ArrayValue "elems_text html vs @ rbrack # r" "k + 1"] assms(2) stops_elems by simp
  moreover have "skip_tokens (k + 1) (at (elems_text html vs @ rbrack # r) (Suc n + length (print_json html v)) ArrayComma (st # sk)) =
      skip_done k (at r (Suc n + length (print_json html v) + length (elems_text html vs) + 1) (value_end st) sk)"
    by (rule Cons.IH) (use Cons.prems in auto)
  moreover have "k + 1 \<noteq> 0" using assms(2) by simp
  ultimately show ?case by (simp add: skip_sep skip_done_def [of "k + 1"] add.assoc)
qed

lemma skip_members:
  assumes "\<And>x v k n st r sk. (x, v) \<in> set ms \<Longrightarrow> value_allowed st \<Longrightarrow> stops r \<Longrightarrow> 0 \<le> k \<Longrightarrow>
      skip_tokens k (at (print_json html v @ r) n st sk) =
        skip_done k (at r (n + length (print_json html v)) (value_end st) sk)"
    and "0 \<le> k"
  shows "skip_tokens (k + 1) (at (members_text html ms @ rbrace # r) n ObjectComma (st # sk)) =
     skip_done k (at r (n + length (members_text html ms) + 1) (value_end st) sk)"
  using assms(1)
proof (induction ms arbitrary: n)
  case Nil
  show ?case using skip_close(2) [of ObjectComma k r n st sk] by simp
next
  case (Cons m ms)
  obtain x v where m: "m = (x, v)" by fastforce
  let ?r = "members_text html ms @ rbrace # r" and ?n = "Suc n + length (enc_str html x) + 1"
  have k: "k + 1 \<noteq> 0" using assms(2) by simp
  have "skip_tokens (k + 1) (at (print_json html v @ ?r) ?n ObjectValue (st # sk)) =
      skip_done (k + 1) (at ?r (?n + length (print_json html v)) ObjectComma (st # sk))"
    using Cons.prems [of x v ObjectValue ?r "k + 1"] assms(2) m stops_members by simp
  moreover have "skip_tokens (k + 1) (at ?r (?n + length (print_json html v)) ObjectComma (st # sk)) =
      skip_done k (at r (?n + length (print_json html v) + length (members_text html ms) + 1) (value_end st) sk)"
    by (rule Cons.IH) (rule Cons.prems, auto)
  moreover have "skip_tokens (k + 1) (at (comma # enc_str html x @ colon # print_json html v @ ?r) n ObjectComma (st # sk)) =
      skip_tokens (k + 1) (at (print_json html v @ ?r) ?n ObjectValue (st # sk))"
    unfolding skip_sep by (rule skip_key) (use k in auto)
  ultimately show ?case using k by (simp add: m skip_done_def [of "k + 1"] add.assoc)
qed

lemma skip_tokens_print:
  "writable d j \<Longrightarrow> value_allowed st \<Longrightarrow> stops r \<Longrightarrow> 0 \<le> k \<Longrightarrow>
   skip_tokens k (at (print_json html j @ r) n st sk) =
     skip_done k (at r (n + length (print_json html j)) (value_end st) sk)"
proof (induction j arbitrary: d st r k n sk)
  case JNull
  then show ?case by (intro skip_scalar [of _ _ _ TNull]) (auto simp: scalar_token_def)
next
  case (JBool b)
  then show ?case by (intro skip_scalar [of _ _ _ "TBool b"]) (auto simp: scalar_token_def)
next
  case (JNum l)
  then show ?case by (intro skip_scalar [of _ _ _ "TNum l"]) (auto simp: scalar_token_def fmt_int_no_overflow)
next
  case (JStr s)
  then show ?case by (intro skip_scalar [of _ _ _ "TStr (sanitize s)"]) (auto simp: scalar_token_def)
next
  case (JArr vs)
  have k: "k + 1 \<noteq> 0" using JArr.prems(4) by simp
  have ih: "skip_tokens k (at (print_json html v @ r) n st sk) =
      skip_done k (at r (n + length (print_json html v)) (value_end st) sk)"
    if "v \<in> set vs" "value_allowed st" "stops r" "0 \<le> k" for v k n st r sk
    using JArr.IH [OF that(1) _ that(2,3,4)] JArr.prems(1) that(1) by auto
  show ?case
  proof (cases vs)
    case Nil
    with JArr.prems show ?thesis
      using skip_close(1) [of ArrayStart k r "Suc n" st sk] by (simp add: skip_open)
  next
    case (Cons v us)
    let ?r = "elems_text html us @ rbrack # r"
    have "skip_tokens (k + 1) (at (print_json html v @ ?r) (Suc n) ArrayStart (st # sk)) =
        skip_tokens (k + 1) (at ?r (Suc n + length (print_json html v)) ArrayComma (st # sk))"
      using ih [of v ArrayStart ?r "k + 1"] Cons k JArr.prems(4) stops_elems by (simp add: skip_done_def)
    also have "\<dots> = skip_done k (at r (Suc n + length (print_json html v) + length (elems_text html us) + 1) (value_end st) sk)"
      by (rule skip_elems [OF _ JArr.prems(4)]) (rule ih, auto simp: Cons)
    finally show ?thesis
      using JArr.prems by (simp add: Cons skip_open join_on_concat comp_def add.assoc)
  qed
next
  case (JObj ms)
  have k: "k + 1 \<noteq> 0" using JObj.prems(4) by simp
  have ih: "skip_tokens k (at (print_json html v @ r) n st sk) =
      skip_done k (at r (n + length (print_json html v)) (value_end st) sk)"
    if "(x, v) \<in> set ms" "value_allowed st" "stops r" "0 \<le> k" for x v k n st r sk
    using JObj.IH [OF that(1) _ _ that(2,3,4)] JObj.prems(1) that(1) by fastforce
  show ?case
  proof (cases ms)
    case Nil
    with JObj.prems show ?thesis
      using skip_close(2) [of ObjectStart k r "Suc n" st sk] by (simp add: skip_open)
  next
    case (Cons m us)
    obtain x v where m: "m = (x, v)" by fastforce
    let ?r = "members_text html us @ rbrace # r" and ?n = "Suc n + length (enc_str html x) + 1"
    have "skip_tokens (k + 1) (at (enc_str html x @ colon # print_json html v @ ?r) (Suc n) ObjectStart (st # sk)) =
        skip_tokens (k + 1) (at (print_json html v @ ?r) ?n ObjectValue (st # sk))"
      by (rule skip_key) (use k in auto)
    also have "\<dots> = skip_tokens (k + 1) (at ?r (?n + length (print_json html v)) ObjectComma (st # sk))"
      using ih [of x v ObjectValue ?r "k + 1"] Cons m k JObj.prems(4) stops_members by (simp add: skip_done_def)
    also have "\<dots> = skip_done k (at r (?n + length (print_json html v) + length (members_text html us) + 1) (value_end st) sk)"
      by (rule skip_members [OF _ JObj.prems(4)]) (rule ih, auto simp: Cons)
    finally show ?thesis
      using JObj.prems by (simp add: Cons m skip_open join_on_concat comp_def split_def add.assoc)
  qed
qed

theorem skip_value_print:
  assumes "writable d j" and "value_allowed st" and "stops r"
  shows "skip_value (at (print_json html j @ r) n st sk) =
     Some (at r (n + length (print_json html j)) (value_end st) sk)"
  unfolding skip_value_def using skip_tokens_print [OF assms, of 0] by (simp add: skip_done_def)

lemma skip_value_sep:
  "skip_value (at (colon # r) n ObjectColon sk) = skip_value (at r (Suc n) ObjectValue sk)"
  by (simp add: skip_value_def skip_sep)

section \<open>Walking a written object or array\<close>

text \<open>
  A loop over the members of a written object: \<open>S xs\<close> is the loop's state after the members
  \<open>xs\<close>, and \<open>step\<close> says that the body turns one into the next.  Likewise for an array.
\<close>

definition member_text :: "bool \<Rightarrow> string \<times> json \<Rightarrow> string" where
  "member_text html m = enc_str html (fst m) @ colon # print_json html (snd m)"

abbreviation object_text :: "bool \<Rightarrow> (string \<times> json) list \<Rightarrow> string" where
  "object_text html ms \<equiv> join_on comma (map (member_text html) ms)"

abbreviation array_text :: "bool \<Rightarrow> json list \<Rightarrow> string" where
  "array_text html vs \<equiv> join_on comma (map (print_json html) vs)"

lemma print_obj: "print_json html (JObj ms) = lbrace # object_text html ms @ [rbrace]"
  by (simp add: member_text_def split_def cong: map_cong)

lemma print_arr: "print_json html (JArr vs) = lbrack # array_text html vs @ [rbrack]"
  by simp

lemma join_on_snoc: "xs \<noteq> [] \<Longrightarrow> join_on c (xs @ [y]) = join_on c xs @ c # y"
  by (induction c xs rule: join_on.induct) auto

lemma member_start: "\<exists>t. member_text html m @ r = dquote # t"
  by (simp add: member_text_def enc_str_def)

lemma print_start:
  assumes "writable d j"
  shows "\<exists>c t. print_json html j @ r = c # t \<and> \<not> is_ws c \<and> c \<noteq> rbrack \<and> c \<noteq> rbrace \<and> c \<noteq> comma"
proof (cases j)
  case (JNum l)
  with assms obtain i where "l = fmt_int i" by auto
  moreover obtain c t where "fmt_int i = c # t" "is_digit c \<or> c = CHR ''-''" using fmt_int_start by blast
  ultimately show ?thesis using JNum by (auto simp: is_digit_code is_ws_def)
qed (auto simp: enc_str_def is_ws_def)

context consuming
begin

lemma walk_members:
  assumes sep: "\<And>s r n. body s (at (comma # r) n ObjectComma sk) = body s (at r (Suc n) ObjectKey sk)"
    and step: "\<And>xs m ys n st r. ms = xs @ m # ys \<Longrightarrow> st \<in> {ObjectStart, ObjectKey} \<Longrightarrow> stops r \<Longrightarrow>
        n = n0 + length (object_text html xs) + (if xs = [] then 0 else 1) \<Longrightarrow>
        body (S xs) (at (member_text html m @ r) n st sk) =
          Inr (S (xs @ [m]), at r (n + length (member_text html m)) ObjectComma sk)"
    and "ms = xs @ ys" and "xs \<noteq> []"
  shows "for_more body (S xs)
      (at (concat (map (\<lambda>m. comma # member_text html m) ys) @ rbrace # r)
          (n0 + length (object_text html xs)) ObjectComma sk) =
     Inr (S ms, at (rbrace # r) (n0 + length (object_text html ms)) ObjectComma sk)"
  using assms(3,4)
proof (induction ys arbitrary: xs)
  case Nil
  then show ?case by (subst unfold_loop) (simp add: has_more_at)
next
  case (Cons m ys)
  let ?r = "concat (map (\<lambda>m. comma # member_text html m) ys) @ rbrace # r"
    and ?n = "n0 + length (object_text html xs)"
  have "stops ?r" by (cases ys) simp_all
  then have "body (S xs) (at (comma # member_text html m @ ?r) ?n ObjectComma sk) =
      Inr (S (xs @ [m]), at ?r (Suc ?n + length (member_text html m)) ObjectComma sk)"
    unfolding sep using step [of xs m ys ObjectKey ?r "Suc ?n"] Cons.prems by simp
  moreover have "Suc ?n + length (member_text html m) = n0 + length (object_text html (xs @ [m]))"
    using Cons.prems(2) by (simp add: join_on_snoc)
  ultimately have "body (S xs) (at (comma # member_text html m @ ?r) ?n ObjectComma sk) =
      Inr (S (xs @ [m]), at ?r (n0 + length (object_text html (xs @ [m]))) ObjectComma sk)"
    by (simp only:)
  then show ?case
    using Cons.IH [of "xs @ [m]"] Cons.prems(1)
    by (subst unfold_loop) (simp add: has_more_at del: map_append)
qed

lemma walk_object:
  assumes sep: "\<And>s r n. body s (at (comma # r) n ObjectComma sk) = body s (at r (Suc n) ObjectKey sk)"
    and step: "\<And>xs m ys n st r. ms = xs @ m # ys \<Longrightarrow> st \<in> {ObjectStart, ObjectKey} \<Longrightarrow> stops r \<Longrightarrow>
        n = n0 + length (object_text html xs) + (if xs = [] then 0 else 1) \<Longrightarrow>
        body (S xs) (at (member_text html m @ r) n st sk) =
          Inr (S (xs @ [m]), at r (n + length (member_text html m)) ObjectComma sk)"
  shows "for_more body (S []) (at (object_text html ms @ rbrace # r) n0 ObjectStart sk) =
     Inr (S ms, at (rbrace # r) (n0 + length (object_text html ms))
       (if ms = [] then ObjectStart else ObjectComma) sk)"
proof (cases ms)
  case Nil
  then show ?thesis by (subst unfold_loop) (simp add: has_more_at)
next
  case (Cons m ys)
  let ?r = "concat (map (\<lambda>m. comma # member_text html m) ys) @ rbrace # r"
  have t: "object_text html ms @ rbrace # r = member_text html m @ ?r"
    by (simp add: Cons join_on_concat comp_def)
  have "stops ?r" by (cases ys) simp_all
  then have "body (S []) (at (member_text html m @ ?r) n0 ObjectStart sk) =
      Inr (S [m], at ?r (n0 + length (member_text html m)) ObjectComma sk)"
    using step [of "[]" m ys ObjectStart ?r n0] Cons by simp
  moreover have "has_more (at (member_text html m @ ?r) n0 ObjectStart sk)"
    using member_start [of html m ?r] by (auto simp: has_more_at)
  ultimately show ?thesis
    using walk_members [where xs = "[m]" and ys = ys and r = r, OF sep step] Cons
    unfolding t by (subst unfold_loop) simp
qed

lemma walk_elems:
  assumes sep: "\<And>s r n. body s (at (comma # r) n ArrayComma sk) = body s (at r (Suc n) ArrayValue sk)"
    and step: "\<And>xs v ys n st r. vs = xs @ v # ys \<Longrightarrow> st \<in> {ArrayStart, ArrayValue} \<Longrightarrow> stops r \<Longrightarrow>
        body (S xs) (at (print_json html v @ r) n st sk) =
          Inr (S (xs @ [v]), at r (n + length (print_json html v)) ArrayComma sk)"
    and "vs = xs @ ys"
  shows "for_more body (S xs) (at (elems_text html ys @ rbrack # r) n ArrayComma sk) =
     Inr (S vs, at (rbrack # r) (n + length (elems_text html ys)) ArrayComma sk)"
  using assms(3)
proof (induction ys arbitrary: xs n)
  case Nil
  then show ?case by (subst unfold_loop) (simp add: has_more_at)
next
  case (Cons v ys)
  let ?r = "elems_text html ys @ rbrack # r"
  have "body (S xs) (at (comma # print_json html v @ ?r) n ArrayComma sk) =
      Inr (S (xs @ [v]), at ?r (Suc n + length (print_json html v)) ArrayComma sk)"
    unfolding sep using step [of xs v ys ArrayValue ?r "Suc n"] Cons.prems stops_elems by simp
  then show ?case
    using Cons.IH [of "xs @ [v]"] Cons.prems
    by (subst unfold_loop) (simp add: has_more_at add.assoc)
qed

lemma walk_array:
  assumes sep: "\<And>s r n. body s (at (comma # r) n ArrayComma sk) = body s (at r (Suc n) ArrayValue sk)"
    and step: "\<And>xs v ys n st r. vs = xs @ v # ys \<Longrightarrow> st \<in> {ArrayStart, ArrayValue} \<Longrightarrow> stops r \<Longrightarrow>
        body (S xs) (at (print_json html v @ r) n st sk) =
          Inr (S (xs @ [v]), at r (n + length (print_json html v)) ArrayComma sk)"
    and w: "\<And>v. v \<in> set vs \<Longrightarrow> writable d v"
  shows "for_more body (S []) (at (array_text html vs @ rbrack # r) n ArrayStart sk) =
     Inr (S vs, at (rbrack # r) (n + length (array_text html vs)) (if vs = [] then ArrayStart else ArrayComma) sk)"
proof (cases vs)
  case Nil
  then show ?thesis by (subst unfold_loop) (simp add: has_more_at)
next
  case (Cons v ys)
  let ?r = "elems_text html ys @ rbrack # r"
  have t: "array_text html vs @ rbrack # r = print_json html v @ ?r"
    by (simp add: Cons join_on_concat comp_def)
  have "body (S []) (at (print_json html v @ ?r) n ArrayStart sk) =
      Inr (S [v], at ?r (n + length (print_json html v)) ArrayComma sk)"
    using step [of "[]" v ys ArrayStart ?r n] Cons stops_elems by simp
  moreover have "has_more (at (print_json html v @ ?r) n ArrayStart sk)"
    using print_start [OF w, of v html ?r] Cons by (auto simp: has_more_at)
  ultimately show ?thesis
    using walk_elems [where xs = "[v]" and ys = ys and r = r, OF sep step] Cons
    unfolding t by (subst unfold_loop) (simp add: join_on_concat comp_def add.assoc)
qed

end

end
