(* ===== verification/Canonform.thy ===== *)
theory Canonform
  imports Decoder "HOL-Library.List_Lexorder" "HOL-Library.Char_ord"
begin

text \<open>
  Package \<open>canonform\<close>: canonical JSON, the bytes that are hashed for the trust root and for a
  plan's self-hash.  Object keys are sorted by their bytes, nothing is HTML-escaped and there is no
  white space.  A value of a Go struct type is first written by \<open>json.Marshal\<close> and read back as a
  generic tree (\<open>canon_typed\<close>); a generic tree is encoded directly (\<open>canon_encode\<close>).
\<close>

text \<open>A Go map built from members in the order of a text: the last duplicate of a key wins.\<close>

fun last_wins :: "(string \<times> 'a) list \<Rightarrow> (string \<times> 'a) list" where
  "last_wins [] = []"
| "last_wins ((k, v) # ms) = (if k \<in> fst ` set ms then last_wins ms else (k, v) # last_wins ms)"

fun canon_encode :: "json \<Rightarrow> string" where
  "canon_encode JNull = ''null''"
| "canon_encode (JBool b) = (if b then ''true'' else ''false'')"
| "canon_encode (JStr s) = enc_str False s"
| "canon_encode (JNum l) = l"
| "canon_encode (JObj ms) =
     [lbrace] @ join_on comma (map (\<lambda>(k, e). enc_str False k @ [colon] @ e)
        (sort_key fst (last_wins (map (\<lambda>(k, v). (k, canon_encode v)) ms)))) @ [rbrace]"
| "canon_encode (JArr vs) = [lbrack] @ join_on comma (map canon_encode vs) @ [rbrack]"

text \<open>The fallback of \<open>encode\<close>: through \<open>json.Marshal\<close> and a decoder with \<open>UseNumber\<close>.\<close>

definition canon_typed :: "json \<Rightarrow> string option" where
  "canon_typed j = (case read_value (print_json True j) of None \<Rightarrow> None | Some (g, _) \<Rightarrow> Some (canon_encode g))"

section \<open>Canonical trees\<close>

text \<open>The tree with every object sorted: a canonical text is that tree, printed.\<close>

fun canon_tree :: "json \<Rightarrow> json" where
  "canon_tree (JArr vs) = JArr (map canon_tree vs)"
| "canon_tree (JObj ms) = JObj (sort_key fst (last_wins (map (\<lambda>(k, v). (k, canon_tree v)) ms)))"
| "canon_tree v = v"

lemma last_wins_map: "last_wins (map (\<lambda>(k, v). (k, f v)) ms) = map (\<lambda>(k, v). (k, f v)) (last_wins ms)"
proof (induction ms)
  case (Cons m ms)
  moreover have "fst ` set (map (\<lambda>(k, v). (k, f v)) ms) = fst ` set ms" by force
  ultimately show ?case by (cases m) (simp del: set_map)
qed simp

lemma set_last_wins: "set (last_wins ms) \<subseteq> set ms"
  by (induction ms rule: last_wins.induct) auto

lemma keys_last_wins: "fst ` set (last_wins ms) = fst ` set ms"
  by (induction ms rule: last_wins.induct) (auto simp: image_iff)

lemma distinct_last_wins: "distinct (map fst (last_wins ms))"
proof (induction ms rule: last_wins.induct)
  case (2 k v ms)
  then show ?case using keys_last_wins [of ms] by simp
qed simp

lemma last_wins_distinct: "distinct (map fst ms) \<Longrightarrow> last_wins ms = ms"
  by (induction ms rule: last_wins.induct) (auto simp: image_iff)

lemma insort_key_map: "insort_key fst (k, f v) (map (\<lambda>(k, v). (k, f v)) ms) = map (\<lambda>(k, v). (k, f v)) (insort_key fst (k, v) ms)"
  by (induction ms) auto

lemma sort_key_map: "sort_key fst (map (\<lambda>(k, v). (k, f v)) ms) = map (\<lambda>(k, v). (k, f v)) (sort_key fst ms)"
  by (induction ms) (auto simp: insort_key_map)

theorem canon_encode_print: "canon_encode j = print_json False (canon_tree j)"
proof (induction j)
  case (JArr vs)
  then show ?case by (simp add: comp_def cong: map_cong)
next
  case (JObj ms)
  have "map (\<lambda>(k, v). (k, canon_encode v)) ms = map (\<lambda>(k, v). (k, print_json False (canon_tree v))) ms"
    using JObj.IH by (intro map_cong refl) auto
  then have "canon_encode (JObj ms) = [lbrace] @ join_on comma (map (\<lambda>(k, e). enc_str False k @ [colon] @ e)
        (sort_key fst (last_wins (map (\<lambda>(k, v). (k, print_json False (canon_tree v))) ms)))) @ [rbrace]"
    by (simp only: canon_encode.simps)
  then show ?case
    unfolding canon_tree.simps print_json.simps last_wins_map sort_key_map map_map
    by (simp add: comp_def split_def)
qed simp_all

lemma canon_tree_idem: "canon_tree (canon_tree j) = canon_tree j"
proof (induction j)
  case (JArr vs)
  then show ?case by (simp add: comp_def cong: map_cong)
next
  case (JObj ms)
  let ?ms = "sort_key fst (last_wins (map (\<lambda>(k, v). (k, canon_tree v)) ms))"
  have "set ?ms \<subseteq> set (map (\<lambda>(k, v). (k, canon_tree v)) ms)"
    unfolding set_sort by (rule set_last_wins)
  then have "\<And>k v. (k, v) \<in> set ?ms \<Longrightarrow> canon_tree v = v" using JObj.IH by fastforce
  then have "map (\<lambda>(k, v). (k, canon_tree v)) ?ms = ?ms" by (intro map_idI) auto
  moreover have "last_wins ?ms = ?ms"
    by (rule last_wins_distinct) (simp add: distinct_map distinct_last_wins [unfolded distinct_map])
  moreover have "sort_key fst ?ms = ?ms" by (simp add: sorted_sort_id sort_key_id_if_sorted)
  ultimately show ?case by simp
qed simp_all

lemma writable_canon: "writable d j \<Longrightarrow> writable d (canon_tree j)"
proof (induction d j rule: writable.induct)
  case (3 d ms)
  then show ?case using set_last_wins by fastforce
qed auto

lemma valid_canon: "valid_json j \<Longrightarrow> valid_json (canon_tree j)"
proof (induction j)
  case (JObj ms)
  then show ?case using set_last_wins by (fastforce simp: list_all_iff)
qed (auto simp: list_all_iff)

lemma writable_sanitize: "writable d j \<Longrightarrow> writable d (sanitize_json j)"
  by (induction d j rule: writable.induct) auto

text \<open>Encoding a struct is encoding its tree, strings sanitised.\<close>

theorem canon_typed_eq: "writable max_depth j \<Longrightarrow> canon_typed j = Some (canon_encode (sanitize_json j))"
  using read_print [of j "[]" True] by (simp add: canon_typed_def)

text \<open>A canonical text is canonical: reading it back and encoding it again changes nothing.\<close>

theorem canon_fixpoint:
  "writable max_depth j \<Longrightarrow> valid_json j \<Longrightarrow>
   \<exists>g. read_value (canon_encode j) = Some (g, []) \<and> canon_encode g = canon_encode j"
  using read_print [OF writable_canon, of j "[]" False]
  by (simp add: canon_encode_print canon_tree_idem sanitize_json_valid valid_canon)

end
