(* ===== verification/PlanTypes.thy ===== *)
theory PlanTypes
  imports Prelude
begin

text \<open>
  The plan artifact of package \<open>internal/plan\<close> (types.go) and the errors of reading one
  (stream.go, self_hash.go).  A divergence is Go's struct with all five fields; which of them are
  meaningful depends on its kind, and the shape rules of marshal.go and stream.go check that.
\<close>

record canonical_identity =
  ci_block_height :: int
  ci_manifest_hash :: string
  ci_core_version :: string

record plan_page =
  pp_offset :: int
  pp_hash :: string

record divergence =
  d_kind :: string
  d_path :: string
  d_pages :: "plan_page list"
  d_expected_hash :: string
  d_expected_source :: string

record plan =
  p_format_version :: int
  p_identity :: canonical_identity
  p_manifest_url :: string
  p_pocketdb_path :: string
  p_divergences :: "divergence list option"
  p_self_hash :: string

definition kind_sqlite_pages :: string where
  "kind_sqlite_pages = ''sqlite_pages''"

definition kind_whole_file :: string where
  "kind_whole_file = ''whole_file''"

definition plan_format_version :: int where
  "plan_format_version = 2"

datatype plan_err =
    PlanDecode
  | UnrecognizedFormatVersion int int
  | PlanShape nat string
  | MalformedHash nat string string string
  | SelfHashMismatch string string

lemma kinds_distinct [simp]:
  "kind_sqlite_pages \<noteq> kind_whole_file" "kind_whole_file \<noteq> kind_sqlite_pages"
  by (simp_all add: kind_sqlite_pages_def kind_whole_file_def)

end
