(* ===== verification/Sha256.thy ===== *)
theory Sha256
  imports Prelude
begin

text \<open>
  Packages \<open>crypto/sha256\<close> and \<open>encoding/hex\<close>: FIPS 180-4 SHA-256 on 32-bit words and the
  lowercase hex encoding.  \<open>sha256_hex\<close> is what the program calls
  \<open>hex.EncodeToString(sha256.Sum256(b))\<close> everywhere.  The proofs of the development use only the
  two facts at the end: a digest is 64 characters, all of them lowercase hex digits.
  No property assumes that the digest is injective.
\<close>

unbundle bit_operations_syntax

type_synonym u32 = "32 word"

definition sha_k :: "u32 list" where
  "sha_k = [
   1116352408, 1899447441, 3049323471, 3921009573, 961987163, 1508970993, 2453635748, 2870763221,
   3624381080, 310598401, 607225278, 1426881987, 1925078388, 2162078206, 2614888103, 3248222580,
   3835390401, 4022224774, 264347078, 604807628, 770255983, 1249150122, 1555081692, 1996064986,
   2554220882, 2821834349, 2952996808, 3210313671, 3336571891, 3584528711, 113926993, 338241895,
   666307205, 773529912, 1294757372, 1396182291, 1695183700, 1986661051, 2177026350, 2456956037,
   2730485921, 2820302411, 3259730800, 3345764771, 3516065817, 3600352804, 4094571909, 275423344,
   430227734, 506948616, 659060556, 883997877, 958139571, 1322822218, 1537002063, 1747873779,
   1955562222, 2024104815, 2227730452, 2361852424, 2428436474, 2756734187, 3204031479, 3329325298]"

datatype sha_state = Sha (sha_a: u32) (sha_b: u32) (sha_c: u32) (sha_d: u32)
                         (sha_e: u32) (sha_f: u32) (sha_g: u32) (sha_h: u32)

definition sha_init :: sha_state where
  "sha_init = Sha 0x6a09e667 0xbb67ae85 0x3c6ef372 0xa54ff53a 0x510e527f 0x9b05688c 0x1f83d9ab 0x5be0cd19"

definition rotr :: "nat \<Rightarrow> u32 \<Rightarrow> u32" where
  "rotr n x = (drop_bit n x OR push_bit (32 - n) x)"

definition big_sigma0 :: "u32 \<Rightarrow> u32" where
  "big_sigma0 x = ((rotr 2 x XOR rotr 13 x) XOR rotr 22 x)"

definition big_sigma1 :: "u32 \<Rightarrow> u32" where
  "big_sigma1 x = ((rotr 6 x XOR rotr 11 x) XOR rotr 25 x)"

definition small_sigma0 :: "u32 \<Rightarrow> u32" where
  "small_sigma0 x = ((rotr 7 x XOR rotr 18 x) XOR drop_bit 3 x)"

definition small_sigma1 :: "u32 \<Rightarrow> u32" where
  "small_sigma1 x = ((rotr 17 x XOR rotr 19 x) XOR drop_bit 10 x)"

definition sha_ch :: "u32 \<Rightarrow> u32 \<Rightarrow> u32 \<Rightarrow> u32" where
  "sha_ch x y z = ((x AND y) XOR (NOT x AND z))"

definition sha_maj :: "u32 \<Rightarrow> u32 \<Rightarrow> u32 \<Rightarrow> u32" where
  "sha_maj x y z = (((x AND y) XOR (x AND z)) XOR (y AND z))"

text \<open>One round with round constant \<open>k\<close> and schedule word \<open>w\<close>.\<close>

definition sha_round :: "u32 \<Rightarrow> u32 \<Rightarrow> sha_state \<Rightarrow> sha_state" where
  "sha_round k w s =
     (let t1 = sha_h s + big_sigma1 (sha_e s) + sha_ch (sha_e s) (sha_f s) (sha_g s) + k + w;
          t2 = big_sigma0 (sha_a s) + sha_maj (sha_a s) (sha_b s) (sha_c s)
      in Sha (t1 + t2) (sha_a s) (sha_b s) (sha_c s) (sha_d s + t1) (sha_e s) (sha_f s) (sha_g s))"

text \<open>The message schedule as a sliding window of the last sixteen words.\<close>

fun sha_rounds :: "u32 list \<Rightarrow> u32 list \<Rightarrow> sha_state \<Rightarrow> sha_state" where
  "sha_rounds [] win s = s"
| "sha_rounds (k # ks) win s =
     (let w = win ! 0;
          nw = small_sigma1 (win ! 14) + win ! 9 + small_sigma0 (win ! 1) + w
      in sha_rounds ks (tl win @ [nw]) (sha_round k w s))"

definition sha_add :: "sha_state \<Rightarrow> sha_state \<Rightarrow> sha_state" where
  "sha_add s t = Sha (sha_a s + sha_a t) (sha_b s + sha_b t) (sha_c s + sha_c t) (sha_d s + sha_d t)
                     (sha_e s + sha_e t) (sha_f s + sha_f t) (sha_g s + sha_g t) (sha_h s + sha_h t)"

fun be_words :: "bytes \<Rightarrow> u32 list" where
  "be_words (a # b # c # d # r) =
     (((of_char a * 256 + of_char b) * 256 + of_char c) * 256 + of_char d) # be_words r"
| "be_words _ = []"

fun be_bytes :: "nat \<Rightarrow> int \<Rightarrow> bytes" where
  "be_bytes 0 n = []"
| "be_bytes (Suc k) n = be_bytes k (n div 256) @ [char_of (n mod 256)]"

definition sha_pad :: "bytes \<Rightarrow> bytes" where
  "sha_pad m = m @ [CHR 0x80] @ replicate ((119 - length m mod 64) mod 64) (CHR 0x00)
                 @ be_bytes 8 (8 * int (length m))"

function sha_blocks :: "u32 list \<Rightarrow> sha_state \<Rightarrow> sha_state" where
  "sha_blocks ws s =
     (if ws = [] then s
      else sha_blocks (drop 16 ws) (sha_add s (sha_rounds sha_k (take 16 ws) s)))"
  by pat_completeness auto
termination by (relation "measure (\<lambda>(ws, s). length ws)") auto

declare sha_blocks.simps [simp del]

definition sha256_words :: "bytes \<Rightarrow> sha_state" where
  "sha256_words m = sha_blocks (be_words (sha_pad m)) sha_init"

section \<open>Hex encoding\<close>

definition hex_table :: string where
  "hex_table = ''0123456789abcdef''"

definition hex_digit :: "int \<Rightarrow> char" where
  "hex_digit n = hex_table ! nat n"

fun hex_int :: "nat \<Rightarrow> int \<Rightarrow> string" where
  "hex_int 0 n = []"
| "hex_int (Suc k) n = hex_int k (n div 16) @ [hex_digit (n mod 16)]"

definition hex_u32 :: "u32 \<Rightarrow> string" where
  "hex_u32 w = hex_int 8 (uint w)"

definition sha256_hex :: "bytes \<Rightarrow> string" where
  "sha256_hex m =
     (let s = sha256_words m
      in hex_u32 (sha_a s) @ hex_u32 (sha_b s) @ hex_u32 (sha_c s) @ hex_u32 (sha_d s)
         @ hex_u32 (sha_e s) @ hex_u32 (sha_f s) @ hex_u32 (sha_g s) @ hex_u32 (sha_h s))"

definition is_lower_hex :: "char \<Rightarrow> bool" where
  "is_lower_hex c \<longleftrightarrow> (CHR ''0'' \<le> c \<and> c \<le> CHR ''9'') \<or> (CHR ''a'' \<le> c \<and> c \<le> CHR ''f'')"

lemma hex_table_lower: "list_all is_lower_hex hex_table"
  by (simp add: hex_table_def is_lower_hex_def less_eq_char_def)

lemma hex_digit_lower: "0 \<le> n \<Longrightarrow> n < 16 \<Longrightarrow> is_lower_hex (hex_digit n)"
proof -
  assume "0 \<le> n" "n < 16"
  then have "hex_table ! nat n \<in> set hex_table" by (intro nth_mem) (simp add: hex_table_def)
  then show ?thesis using hex_table_lower by (simp add: hex_digit_def list_all_iff)
qed

lemma hex_int_length [simp]: "length (hex_int k n) = k"
  by (induction k arbitrary: n) auto

lemma hex_int_lower: "c \<in> set (hex_int k n) \<Longrightarrow> is_lower_hex c"
  by (induction k arbitrary: n) (auto intro: hex_digit_lower)

lemma sha256_hex_length [simp]: "length (sha256_hex m) = 64"
  by (simp add: sha256_hex_def hex_u32_def Let_def)

lemma sha256_hex_lower: "c \<in> set (sha256_hex m) \<Longrightarrow> is_lower_hex c"
  by (auto simp: sha256_hex_def hex_u32_def Let_def dest: hex_int_lower)

lemma sha256_hex_nonempty [simp]: "sha256_hex m \<noteq> []"
  using sha256_hex_length [of m] by (metis list.size(3) zero_neq_numeral)

lemma sha256_hex_no_slash: "CHR ''/'' \<notin> set (sha256_hex m)"
  using sha256_hex_lower [of "CHR ''/''" m] by (auto simp: is_lower_hex_def less_eq_char_def)

end
