(* ===== verification/Plan.thy ===== *)
theory Plan
  imports Canonform PlanTypes Sha256
begin

text \<open>
  Writing and authenticating a plan (\<open>internal/plan/marshal.go\<close> and \<open>self_hash.go\<close>).  The trees
  below are what \<open>json.Marshal\<close> writes for the struct types, with the field order and the
  \<open>omitempty\<close> rules of their tags; a nil slice of divergences is \<open>None\<close> and is written as \<open>null\<close>.
\<close>

definition page_tree :: "plan_page \<Rightarrow> json" where
  "page_tree p = JObj [(''offset'', JNum (fmt_int (pp_offset p))), (''expected_hash'', JStr (pp_hash p))]"

definition omit_empty :: "string \<Rightarrow> string \<Rightarrow> (string \<times> json) list" where
  "omit_empty k s = (if s = [] then [] else [(k, JStr s)])"

definition divergence_tree :: "divergence \<Rightarrow> json" where
  "divergence_tree d =
     JObj ([(''divergence_kind'', JStr (d_kind d)), (''path'', JStr (d_path d))]
       @ (if d_pages d = [] then [] else [(''pages'', JArr (map page_tree (d_pages d)))])
       @ omit_empty ''expected_hash'' (d_expected_hash d)
       @ omit_empty ''expected_source'' (d_expected_source d))"

definition identity_tree :: "canonical_identity \<Rightarrow> json" where
  "identity_tree c =
     JObj [(''block_height'', JNum (fmt_int (ci_block_height c))),
           (''manifest_hash'', JStr (ci_manifest_hash c)),
           (''pocketnet_core_version'', JStr (ci_core_version c))]"

definition plan_tree :: "plan \<Rightarrow> json" where
  "plan_tree p =
     JObj [(''format_version'', JNum (fmt_int (p_format_version p))),
           (''canonical_identity'', identity_tree (p_identity p)),
           (''manifest_url'', JStr (p_manifest_url p)),
           (''pocketdb_path'', JStr (p_pocketdb_path p)),
           (''divergences'', case p_divergences p of None \<Rightarrow> JNull | Some ds \<Rightarrow> JArr (map divergence_tree ds)),
           (''self_hash'', JStr (p_self_hash p))]"

text \<open>\<open>Marshal\<close>; the errors of the library, which cannot occur here, are \<open>None\<close>.\<close>

definition plan_marshal :: "plan \<Rightarrow> string option" where
  "plan_marshal p =
     (case read_value (print_json True (plan_tree p)) of
        None \<Rightarrow> None
      | Some (generic, _) \<Rightarrow> Some (canon_encode generic))"

definition delete_key :: "string \<Rightarrow> json \<Rightarrow> json" where
  "delete_key k j = (case j of JObj ms \<Rightarrow> JObj (filter (\<lambda>m. fst m \<noteq> k) ms) | _ \<Rightarrow> j)"

definition marshal_without_self_hash :: "plan \<Rightarrow> string option" where
  "marshal_without_self_hash p =
     (case read_value (print_json True (plan_tree p)) of
        None \<Rightarrow> None
      | Some (generic, _) \<Rightarrow> Some (canon_encode (delete_key ''self_hash'' generic)))"

definition compute_self_hash :: "plan \<Rightarrow> string option" where
  "compute_self_hash p = map_option sha256_hex (marshal_without_self_hash p)"

definition verify_self_hash :: "plan \<Rightarrow> plan_err + unit" where
  "verify_self_hash p =
     (case compute_self_hash p of
        None \<Rightarrow> Inl PlanDecode
      | Some computed \<Rightarrow>
          if computed \<noteq> p_self_hash p then Inl (SelfHashMismatch computed (p_self_hash p)) else Inr ())"

section \<open>Plans that Go can hold\<close>

text \<open>The integer fields have 64 bits.\<close>

definition int64 :: "int \<Rightarrow> bool" where
  "int64 i \<longleftrightarrow> - (2 ^ 63) \<le> i \<and> i < 2 ^ 63"

definition wf_divergence :: "divergence \<Rightarrow> bool" where
  "wf_divergence d \<longleftrightarrow> (\<forall>p \<in> set (d_pages d). int64 (pp_offset p))"

definition wf_plan :: "plan \<Rightarrow> bool" where
  "wf_plan p \<longleftrightarrow> int64 (p_format_version p) \<and> int64 (ci_block_height (p_identity p)) \<and>
     (case p_divergences p of None \<Rightarrow> True | Some ds \<Rightarrow> \<forall>d \<in> set ds. wf_divergence d)"

lemma writable_page: "int64 (pp_offset p) \<Longrightarrow> writable (Suc n) (page_tree p)"
  by (auto simp: page_tree_def int64_def)

lemma writable_divergence: "wf_divergence d \<Longrightarrow> writable (Suc (Suc (Suc n))) (divergence_tree d)"
  by (auto simp: divergence_tree_def wf_divergence_def omit_empty_def writable_page)

lemma writable_identity: "int64 (ci_block_height c) \<Longrightarrow> writable (Suc n) (identity_tree c)"
  by (auto simp: identity_tree_def int64_def)

lemma writable_plan_deep: "wf_plan p \<Longrightarrow> writable (Suc (Suc (Suc (Suc (Suc n))))) (plan_tree p)"
  unfolding plan_tree_def
  by (auto simp: wf_plan_def int64_def intro: writable_identity writable_divergence split: option.splits)

lemma max_depth_Suc: "max_depth = Suc (Suc (Suc (Suc (Suc 9995))))"
  by (simp add: max_depth_def)

lemma writable_plan: "wf_plan p \<Longrightarrow> writable max_depth (plan_tree p)"
  unfolding max_depth_Suc by (rule writable_plan_deep)

section \<open>The canonical text of a plan\<close>

definition strs_ok :: "plan \<Rightarrow> bool" where
  "strs_ok p \<longleftrightarrow> valid_json (plan_tree p)"

lemma plan_marshal_eq: "wf_plan p \<Longrightarrow> plan_marshal p = Some (canon_encode (sanitize_json (plan_tree p)))"
  using canon_typed_eq [OF writable_plan] by (simp add: plan_marshal_def canon_typed_def)

lemma marshal_without_eq:
  "wf_plan p \<Longrightarrow>
   marshal_without_self_hash p = Some (canon_encode (delete_key ''self_hash'' (sanitize_json (plan_tree p))))"
  using read_print [OF writable_plan, of p "[]" True] by (simp add: marshal_without_self_hash_def)

lemma sanitize_ascii_string: "list_all (\<lambda>c. code c < 128) s \<Longrightarrow> sanitize s = s"
  by (intro sanitize_valid valid_utf8_ascii) (simp add: list_all_iff)

lemma sanitize_keys [simp]:
  "sanitize ''offset'' = ''offset''" "sanitize ''expected_hash'' = ''expected_hash''"
  "sanitize ''divergence_kind'' = ''divergence_kind''" "sanitize ''path'' = ''path''"
  "sanitize ''pages'' = ''pages''" "sanitize ''expected_source'' = ''expected_source''"
  "sanitize ''block_height'' = ''block_height''" "sanitize ''manifest_hash'' = ''manifest_hash''"
  "sanitize ''pocketnet_core_version'' = ''pocketnet_core_version''"
  "sanitize ''format_version'' = ''format_version''" "sanitize ''canonical_identity'' = ''canonical_identity''"
  "sanitize ''manifest_url'' = ''manifest_url''" "sanitize ''pocketdb_path'' = ''pocketdb_path''"
  "sanitize ''divergences'' = ''divergences''" "sanitize ''self_hash'' = ''self_hash''"
  "sanitize ''sqlite_pages'' = ''sqlite_pages''" "sanitize ''whole_file'' = ''whole_file''"
  "sanitize ''fetch_full'' = ''fetch_full''"
  by (rule sanitize_ascii_string, simp)+

definition page_canon :: "plan_page \<Rightarrow> json" where
  "page_canon p = JObj [(''expected_hash'', JStr (sanitize (pp_hash p))), (''offset'', JNum (fmt_int (pp_offset p)))]"

definition divergence_canon :: "divergence \<Rightarrow> json" where
  "divergence_canon d =
     JObj ([(''divergence_kind'', JStr (sanitize (d_kind d)))]
       @ omit_empty ''expected_hash'' (sanitize (d_expected_hash d))
       @ omit_empty ''expected_source'' (sanitize (d_expected_source d))
       @ (if d_pages d = [] then [] else [(''pages'', JArr (map page_canon (d_pages d)))])
       @ [(''path'', JStr (sanitize (d_path d)))])"

definition identity_canon :: "canonical_identity \<Rightarrow> json" where
  "identity_canon c =
     JObj [(''block_height'', JNum (fmt_int (ci_block_height c))),
           (''manifest_hash'', JStr (sanitize (ci_manifest_hash c))),
           (''pocketnet_core_version'', JStr (sanitize (ci_core_version c)))]"

definition divergences_canon :: "divergence list option \<Rightarrow> json" where
  "divergences_canon ds = (case ds of None \<Rightarrow> JNull | Some ds \<Rightarrow> JArr (map divergence_canon ds))"

text \<open>The members of a plan that its self-hash covers, in canonical order.\<close>

definition payload_members :: "plan \<Rightarrow> (string \<times> json) list" where
  "payload_members p =
     [(''canonical_identity'', identity_canon (p_identity p)),
      (''divergences'', divergences_canon (p_divergences p)),
      (''format_version'', JNum (fmt_int (p_format_version p))),
      (''manifest_url'', JStr (sanitize (p_manifest_url p))),
      (''pocketdb_path'', JStr (sanitize (p_pocketdb_path p)))]"

lemma sanitize_eq_Nil [simp]: "sanitize s = [] \<longleftrightarrow> s = []"
proof
  assume a: "sanitize s = []"
  show "s = []"
  proof (rule ccontr)
    assume "s \<noteq> []"
    with a show False by (subst (asm) sanitize.simps) (auto simp: replacement_def split: if_splits)
  qed
qed simp

lemma page_canon_eq: "canon_tree (sanitize_json (page_tree p)) = page_canon p"
  by (simp add: page_tree_def page_canon_def)

lemma divergence_canon_eq: "canon_tree (sanitize_json (divergence_tree d)) = divergence_canon d"
  by (simp add: divergence_tree_def divergence_canon_def omit_empty_def page_canon_eq comp_def)

lemma identity_canon_eq: "canon_tree (sanitize_json (identity_tree c)) = identity_canon c"
  by (simp add: identity_tree_def identity_canon_def)

lemma plan_canon_eq:
  "canon_tree (sanitize_json (plan_tree p)) =
     JObj (payload_members p @ [(''self_hash'', JStr (sanitize (p_self_hash p)))])"
  by (simp add: plan_tree_def payload_members_def divergences_canon_def identity_canon_eq
      divergence_canon_eq comp_def split: option.split)

lemma payload_canon_eq:
  "canon_tree (delete_key ''self_hash'' (sanitize_json (plan_tree p))) = JObj (payload_members p)"
  by (simp add: plan_tree_def payload_members_def divergences_canon_def identity_canon_eq delete_key_def
      divergence_canon_eq comp_def split: option.split)

end
