(* ===== verification/GoPath.thy ===== *)
theory GoPath
  imports Prelude
begin

text \<open>
  Package \<open>path/filepath\<close> on Unix, as far as the program uses it: the lexical functions
  \<open>Clean\<close>, \<open>Join\<close>, \<open>Dir\<close> and \<open>Abs\<close> (\<open>path.Dir\<close> is the same function there; \<open>FromSlash\<close>
  is the identity).  \<open>Clean\<close> is given by its documented rules: one pass over the segments with
  a stack, dropping empty and \<open>.\<close> segments and letting \<open>..\<close> pop the segment before it.
  The lemmas say when a joined path stays below its root.
\<close>

abbreviation slash :: char where
  "slash \<equiv> CHR ''/''"

definition clean_step :: "bool \<Rightarrow> string list \<Rightarrow> string \<Rightarrow> string list" where
  "clean_step rooted st seg =
     (if seg = '''' \<or> seg = ''.'' then st
      else if seg = ''..'' then
        (if st \<noteq> [] \<and> hd st \<noteq> ''..'' then tl st
         else if rooted then st
         else seg # st)
      else seg # st)"

definition clean_comps :: "bool \<Rightarrow> string list \<Rightarrow> string list" where
  "clean_comps rooted segs = rev (foldl (clean_step rooted) [] segs)"

definition go_clean :: "string \<Rightarrow> string" where
  "go_clean s =
     (if s = [] then ''.''
      else let rooted = (hd s = slash);
               cs = clean_comps rooted (split_on slash s)
           in if rooted then slash # join_on slash cs
              else if cs = [] then ''.''
              else join_on slash cs)"

definition go_join :: "string list \<Rightarrow> string" where
  "go_join es =
     (case dropWhile (\<lambda>e. e = []) es of [] \<Rightarrow> [] | e # es' \<Rightarrow> go_clean (join_on slash (e # es')))"

definition go_dir :: "string \<Rightarrow> string" where
  "go_dir s = go_clean (rev (dropWhile (\<lambda>c. c \<noteq> slash) (rev s)))"

definition is_abs :: "string \<Rightarrow> bool" where
  "is_abs s \<longleftrightarrow> has_prefix s ''/''"

definition go_abs :: "string \<Rightarrow> string \<Rightarrow> string" where
  "go_abs cwd s = (if is_abs s then go_clean s else go_join [cwd, s])"

section \<open>Plain segments\<close>

definition plain_seg :: "string \<Rightarrow> bool" where
  "plain_seg seg \<longleftrightarrow> seg \<noteq> [] \<and> seg \<noteq> ''.'' \<and> seg \<noteq> ''..'' \<and> slash \<notin> set seg"

definition plain_path :: "string \<Rightarrow> bool" where
  "plain_path p \<longleftrightarrow> list_all plain_seg (split_on slash p)"

lemma clean_step_plain: "plain_seg seg \<Longrightarrow> clean_step r st seg = seg # st"
  by (auto simp: clean_step_def plain_seg_def)

lemma foldl_clean_plain:
  "list_all plain_seg segs \<Longrightarrow> foldl (clean_step r) st segs = rev segs @ st"
  by (induction segs arbitrary: st) (auto simp: clean_step_plain)

lemma clean_comps_append_plain:
  "list_all plain_seg segs \<Longrightarrow> clean_comps r (xs @ segs) = clean_comps r xs @ segs"
  by (simp add: clean_comps_def foldl_clean_plain)

text \<open>What a cleaned path consists of: plain segments, after leading \<open>..\<close> of a relative one.\<close>

definition clean_stack :: "bool \<Rightarrow> string list \<Rightarrow> bool" where
  "clean_stack r st \<longleftrightarrow>
     (\<exists>n segs. st = rev segs @ replicate n ''..'' \<and> list_all plain_seg segs \<and> (r \<longrightarrow> n = 0))"

lemma clean_step_stack:
  assumes "clean_stack r st" and "slash \<notin> set seg"
  shows "clean_stack r (clean_step r st seg)"
proof -
  from assms(1) obtain n segs where st: "st = rev segs @ replicate n ''..''"
    and pl: "list_all plain_seg segs" and rn: "r \<longrightarrow> n = 0"
    by (auto simp: clean_stack_def)
  consider (skip) "seg = [] \<or> seg = ''.''" | (up) "seg = ''..''" | (plain) "plain_seg seg"
    using assms(2) by (auto simp: plain_seg_def)
  then show ?thesis
  proof cases
    case skip
    with assms(1) show ?thesis by (auto simp: clean_step_def)
  next
    case plain
    with st pl rn show ?thesis
      unfolding clean_stack_def clean_step_plain [OF plain]
      by (intro exI [of _ n] exI [of _ "segs @ [seg]"]) auto
  next
    case up
    show ?thesis
    proof (cases segs rule: rev_cases)
      case Nil
      then show ?thesis using st rn up
        unfolding clean_stack_def clean_step_def
        by (intro exI [of _ "if r then 0 else Suc n"] exI [of _ "[]"]) (cases n; auto)
    next
      case (snoc ys y)
      with pl have "plain_seg y" "list_all plain_seg ys" by auto
      then show ?thesis using st rn up snoc
        unfolding clean_stack_def clean_step_def
        by (intro exI [of _ n] exI [of _ ys]) (auto simp: plain_seg_def)
    qed
  qed
qed

lemma foldl_clean_stack:
  "clean_stack r st \<Longrightarrow> (\<And>s. s \<in> set segs \<Longrightarrow> slash \<notin> set s) \<Longrightarrow>
   clean_stack r (foldl (clean_step r) st segs)"
  by (induction segs arbitrary: st) (auto intro: clean_step_stack)

lemma clean_comps_shape:
  "\<exists>n segs. clean_comps r (split_on slash s) = replicate n ''..'' @ segs \<and>
     list_all plain_seg segs \<and> (r \<longrightarrow> n = 0)"
proof -
  have "clean_stack r []" unfolding clean_stack_def by (intro exI [of _ 0] exI [of _ "[]"]) simp
  then have "clean_stack r (foldl (clean_step r) [] (split_on slash s))"
    by (rule foldl_clean_stack) (rule split_on_parts)
  then show ?thesis unfolding clean_stack_def clean_comps_def by (metis rev_append rev_replicate rev_rev_ident)
qed

lemma clean_rooted_plain:
  "list_all plain_seg (clean_comps True (split_on slash s))"
  using clean_comps_shape [of True s] by auto

lemma hd_join_plain:
  "segs \<noteq> [] \<Longrightarrow> list_all plain_seg segs \<Longrightarrow>
   join_on slash segs \<noteq> [] \<and> hd (join_on slash segs) \<noteq> slash"
  by (cases segs; cases "tl segs")
     (auto simp: plain_seg_def join_on_Cons hd_append dest: hd_in_set)

lemma split_join_plain:
  "segs \<noteq> [] \<Longrightarrow> list_all plain_seg segs \<Longrightarrow> split_on slash (join_on slash segs) = segs"
  by (rule split_join) (auto simp: plain_seg_def list_all_iff)

lemma go_clean_rooted_comps:
  assumes "list_all plain_seg cs"
  shows "go_clean (slash # join_on slash cs) = slash # join_on slash cs"
proof (cases "cs = []")
  case True
  then show ?thesis by (simp add: go_clean_def clean_comps_def clean_step_def)
next
  case False
  then have "split_on slash (slash # join_on slash cs) = [] # cs"
    using assms by (simp add: split_join_plain)
  moreover have "clean_comps True ([] # cs) = cs"
    using foldl_clean_plain [OF assms, of True "[]"] by (simp add: clean_comps_def clean_step_def)
  ultimately show ?thesis by (simp add: go_clean_def)
qed

lemma go_clean_rooted:
  "is_abs s \<Longrightarrow> \<exists>cs. go_clean s = slash # join_on slash cs \<and> list_all plain_seg cs \<and>
     clean_comps True (split_on slash s) = cs"
  using clean_rooted_plain [of s] by (cases s) (auto simp: go_clean_def is_abs_def Let_def)

lemma go_clean_abs_idem: "is_abs s \<Longrightarrow> go_clean (go_clean s) = go_clean s"
  using go_clean_rooted [of s] by (auto simp: go_clean_rooted_comps)

lemma is_abs_clean: "is_abs s \<Longrightarrow> is_abs (go_clean s)"
  using go_clean_rooted [of s] by (auto simp: is_abs_def)

section \<open>Joining below a root\<close>

definition below :: "string \<Rightarrow> string \<Rightarrow> string" where
  "below d p = (if d = ''/'' then slash # p else d @ slash # p)"

lemma plain_path_nonempty: "plain_path p \<Longrightarrow> p \<noteq> []"
  by (auto simp: plain_path_def plain_seg_def)

lemma plain_pathI:
  "segs \<noteq> [] \<Longrightarrow> list_all plain_seg segs \<Longrightarrow> plain_path (join_on slash segs)"
  by (simp add: plain_path_def split_join_plain)

theorem go_join_below:
  assumes "is_abs root" and "plain_path p"
  shows "go_join [root, p] = below (go_clean root) p"
proof -
  obtain cs where cs: "go_clean root = slash # join_on slash cs"
    and pl: "list_all plain_seg cs" and cc: "clean_comps True (split_on slash root) = cs"
    using go_clean_rooted [OF assms(1)] by blast
  have pp: "list_all plain_seg (split_on slash p)" using assms(2) by (simp add: plain_path_def)
  have r: "root \<noteq> []" "hd root = slash" using assms(1) by (cases root; auto simp: is_abs_def)+
  have "go_join [root, p] = go_clean (root @ slash # p)"
    using r by (simp add: go_join_def)
  also have "\<dots> = slash # join_on slash (cs @ split_on slash p)"
    using r cc pp
    by (simp add: go_clean_def split_on_append clean_comps_append_plain)
  also have "\<dots> = below (go_clean root) p"
  proof (cases "cs = []")
    case True
    then show ?thesis using cs by (simp add: below_def)
  next
    case False
    moreover have "join_on slash cs \<noteq> []" using hd_join_plain [OF False pl] by simp
    ultimately show ?thesis using cs by (simp add: below_def join_on_append)
  qed
  finally show ?thesis .
qed

lemma below_inj: "below d p = below d q \<Longrightarrow> p = q"
  by (auto simp: below_def split: if_splits)

lemma has_prefix_below: "has_prefix (below d p) d"
  by (auto simp: below_def has_prefix_iff)

lemma is_abs_below: "is_abs d \<Longrightarrow> is_abs (below d p)"
  by (auto simp: below_def is_abs_def has_prefix_iff)

section \<open>Dir\<close>

lemma go_dir_snoc:
  "slash \<notin> set n \<Longrightarrow> go_dir (x @ slash # n) = go_clean (x @ ''/'')"
proof -
  assume "slash \<notin> set n"
  then have "dropWhile (\<lambda>c. c \<noteq> slash) (rev n @ slash # rev x) = slash # rev x"
    by (subst dropWhile_append2) auto
  then show ?thesis by (simp add: go_dir_def)
qed

lemma go_clean_trailing: "is_abs x \<Longrightarrow> go_clean (x @ ''/'') = go_clean x"
proof -
  assume "is_abs x"
  then obtain y where x: "x = slash # y" by (cases x) (auto simp: is_abs_def)
  have "split_on slash (x @ ''/'') = split_on slash x @ [[]]"
    using split_on_append [of slash x "[]"] by simp
  then have "clean_comps True (split_on slash (x @ ''/'')) = clean_comps True (split_on slash x)"
    by (simp add: clean_comps_def clean_step_def)
  then show ?thesis using x by (simp add: go_clean_def)
qed

lemma go_dir_abs:
  assumes "is_abs d" and "slash \<notin> set n"
  shows "go_dir (d @ slash # n) = go_clean d"
  using assms by (simp add: go_dir_snoc go_clean_trailing)

lemma go_dir_below:
  assumes "is_abs d" and "go_clean d = d" and "slash \<notin> set n"
  shows "go_dir (below d n) = d"
proof (cases "d = ''/''")
  case True
  have "go_dir (slash # n) = go_clean ''/''"
    using go_dir_snoc [of n "[]"] assms(3) by simp
  with True assms(2) show ?thesis by (simp add: below_def)
next
  case False
  with assms show ?thesis by (simp add: below_def go_dir_abs)
qed

lemma is_abs_dir: "is_abs s \<Longrightarrow> is_abs (go_dir s)"
proof -
  assume "is_abs s"
  then obtain y where s: "s = slash # y" by (cases s) (auto simp: is_abs_def)
  have "rev (dropWhile (\<lambda>c. c \<noteq> slash) (rev s)) = slash # rev (dropWhile (\<lambda>c. c \<noteq> slash) (rev y))
      \<or> rev (dropWhile (\<lambda>c. c \<noteq> slash) (rev s)) = ''/''"
    by (simp add: s dropWhile_append)
  then have "is_abs (rev (dropWhile (\<lambda>c. c \<noteq> slash) (rev s)))"
    by (auto simp: is_abs_def)
  then show ?thesis unfolding go_dir_def by (rule is_abs_clean)
qed

lemma go_clean_dir: "is_abs s \<Longrightarrow> go_clean (go_dir s) = go_dir s"
proof -
  assume "is_abs s"
  then obtain y where s: "s = slash # y" by (cases s) (auto simp: is_abs_def)
  have "is_abs (rev (dropWhile (\<lambda>c. c \<noteq> slash) (rev s)))"
    by (auto simp: is_abs_def s dropWhile_append)
  then show ?thesis unfolding go_dir_def by (rule go_clean_abs_idem)
qed

end
