(* ===== verification/Os.thy ===== *)
theory Os
  imports GoPath
begin

text \<open>
  The world the program acts on: package \<open>os\<close> over an in-memory file system, and the answers
  of the network.

  A name maps to a directory or to an \<^emph>\<open>inode\<close>, and an inode number maps to contents: two names
  of one inode are hard links of each other, and a write through one is seen through the other.
  This aliasing matters, because the program takes its backup copies with \<open>os.Link\<close>.

  Every call can fail for a reason outside the model (full disk, permissions, a bad sector):
  call number \<open>n\<close> consults \<open>faults n\<close>, and a failing call may leave the part of its work that
  the fault describes (how many bytes, which names).  The fault plan, the random suffixes and the
  network are arbitrary functions, so a theorem about all worlds covers every such environment.
  Symbolic links, permissions bits and the removal or renaming of directories by \<open>os.Remove\<close> and
  \<open>os.Rename\<close> are not modelled: the program uses both on files only.  A name below a regular file is one that
  does not exist; the error Linux gives for it is one of the faults.
\<close>

datatype node = DirN | FileN nat

datatype errno = EIO | EACCES | ENOSPC

datatype os_err = NotExist | BadOp | Sys errno

datatype fault = Fault errno nat "string \<Rightarrow> bool"

datatype http_reply = NetErr | Reply int int bytes bool
  \<comment> \<open>status, declared content length (\<open>-1\<close> if absent), body, whether reading the body fails at its end\<close>

record os =
  names :: "string \<Rightarrow> node option"
  store :: "nat \<Rightarrow> bytes"
  next_ino :: nat
  ticks :: nat
  faults :: "nat \<Rightarrow> fault option"
  rnd :: "nat \<Rightarrow> string"
  net :: "nat \<Rightarrow> string \<Rightarrow> http_reply"

type_synonym 'a io = "os \<Rightarrow> (os_err + 'a) \<times> os"

definition tick :: "os \<Rightarrow> os" where
  "tick w = w\<lparr>ticks := Suc (ticks w)\<rparr>"

definition syscall :: "(nat \<Rightarrow> (string \<Rightarrow> bool) \<Rightarrow> os \<Rightarrow> os) \<Rightarrow> 'a io \<Rightarrow> 'a io" where
  "syscall partial body w =
     (case faults w (ticks w) of
        Some (Fault e k ns) \<Rightarrow> (Inl (Sys e), partial k ns (tick w))
      | None \<Rightarrow> body (tick w))"

definition node_at :: "os \<Rightarrow> string \<Rightarrow> node option" where
  "node_at w p = (if p = ''/'' \<or> p = ''.'' then Some DirN else names w p)"

definition is_dir :: "os \<Rightarrow> string \<Rightarrow> bool" where
  "is_dir w p \<longleftrightarrow> node_at w p = Some DirN"

text \<open>The contents seen through a name.\<close>

definition file_data :: "os \<Rightarrow> string \<Rightarrow> bytes option" where
  "file_data w p = (case node_at w p of Some (FileN i) \<Rightarrow> Some (store w i) | _ \<Rightarrow> None)"

section \<open>The calls\<close>

definition os_stat :: "string \<Rightarrow> node io" where
  "os_stat p = syscall (\<lambda>_ _ w. w)
     (\<lambda>w. (case node_at w p of None \<Rightarrow> Inl NotExist | Some n \<Rightarrow> Inr n, w))"

definition read_file :: "string \<Rightarrow> bytes io" where
  "read_file p = syscall (\<lambda>_ _ w. w)
     (\<lambda>w. (case node_at w p of
             None \<Rightarrow> Inl NotExist | Some DirN \<Rightarrow> Inl BadOp | Some (FileN i) \<Rightarrow> Inr (store w i), w))"

definition new_file :: "string \<Rightarrow> os \<Rightarrow> nat \<times> os" where
  "new_file p w = (next_ino w,
     w\<lparr>names := (names w)(p := Some (FileN (next_ino w))),
       store := (store w)(next_ino w := []), next_ino := Suc (next_ino w)\<rparr>)"

text \<open>\<open>OpenFile\<close> with \<open>O_CREATE\<close>; with \<open>O_TRUNC\<close> (as in \<open>os.Create\<close>); with \<open>O_EXCL\<close>.\<close>

definition open_create :: "string \<Rightarrow> nat io" where
  "open_create p = syscall (\<lambda>_ _ w. w)
     (\<lambda>w. case node_at w p of
            Some (FileN i) \<Rightarrow> (Inr i, w)
          | Some DirN \<Rightarrow> (Inl BadOp, w)
          | None \<Rightarrow> if is_dir w (go_dir p) then (let (i, w') = new_file p w in (Inr i, w'))
                    else (Inl NotExist, w))"

definition open_trunc :: "string \<Rightarrow> nat io" where
  "open_trunc p = syscall (\<lambda>_ _ w. w)
     (\<lambda>w. case node_at w p of
            Some (FileN i) \<Rightarrow> (Inr i, w\<lparr>store := (store w)(i := [])\<rparr>)
          | Some DirN \<Rightarrow> (Inl BadOp, w)
          | None \<Rightarrow> if is_dir w (go_dir p) then (let (i, w') = new_file p w in (Inr i, w'))
                    else (Inl NotExist, w))"

definition open_excl :: "string \<Rightarrow> nat io" where
  "open_excl p = syscall (\<lambda>_ _ w. w)
     (\<lambda>w. case node_at w p of
            Some _ \<Rightarrow> (Inl BadOp, w)
          | None \<Rightarrow> if is_dir w (go_dir p) then (let (i, w') = new_file p w in (Inr i, w'))
                    else (Inl NotExist, w))"

text \<open>\<open>WriteAt\<close>: bytes before the offset are kept (a gap is filled with zeros), bytes after stay.\<close>

definition splice :: "bytes \<Rightarrow> nat \<Rightarrow> bytes \<Rightarrow> bytes" where
  "splice old off new =
     (if new = [] then old
      else take off old @ replicate (off - length old) (CHR 0x00) @ new @ drop (off + length new) old)"

definition write_ino :: "nat \<Rightarrow> nat \<Rightarrow> bytes \<Rightarrow> unit io" where
  "write_ino i off dat = syscall
     (\<lambda>k _ w. w\<lparr>store := (store w)(i := splice (store w i) off (take k dat))\<rparr>)
     (\<lambda>w. (Inr (), w\<lparr>store := (store w)(i := splice (store w i) off dat)\<rparr>))"

text \<open>A sequential write to an open file appends to what it has written.\<close>

definition append_ino :: "nat \<Rightarrow> bytes \<Rightarrow> unit io" where
  "append_ino i dat = syscall
     (\<lambda>k _ w. w\<lparr>store := (store w)(i := store w i @ take k dat)\<rparr>)
     (\<lambda>w. (Inr (), w\<lparr>store := (store w)(i := store w i @ dat)\<rparr>))"

text \<open>A call whose only effect is success or failure: \<open>Sync\<close>, \<open>Close\<close>, \<open>Seek\<close>.\<close>

definition os_noop :: "unit io" where
  "os_noop = syscall (\<lambda>_ _ w. w) (\<lambda>w. (Inr (), w))"

text \<open>\<open>Rename\<close>.  On POSIX, when both names are links of one inode nothing happens.\<close>

definition os_rename :: "string \<Rightarrow> string \<Rightarrow> unit io" where
  "os_rename src dst = syscall (\<lambda>_ _ w. w)
     (\<lambda>w. case names w src of
            None \<Rightarrow> (Inl NotExist, w)
          | Some DirN \<Rightarrow> (Inl BadOp, w)
          | Some (FileN i) \<Rightarrow>
              (case node_at w dst of
                 Some DirN \<Rightarrow> (Inl BadOp, w)
               | Some (FileN j) \<Rightarrow>
                   if i = j then (Inr (), w)
                   else (Inr (), w\<lparr>names := (names w)(dst := Some (FileN i), src := None)\<rparr>)
               | None \<Rightarrow>
                   if is_dir w (go_dir dst)
                   then (Inr (), w\<lparr>names := (names w)(dst := Some (FileN i), src := None)\<rparr>)
                   else (Inl NotExist, w)))"

definition os_remove :: "string \<Rightarrow> unit io" where
  "os_remove p = syscall (\<lambda>_ _ w. w)
     (\<lambda>w. case names w p of
            None \<Rightarrow> (Inl NotExist, w)
          | Some DirN \<Rightarrow> (Inl BadOp, w)
          | Some (FileN _) \<Rightarrow> (Inr (), w\<lparr>names := (names w)(p := None)\<rparr>))"

definition os_link :: "string \<Rightarrow> string \<Rightarrow> unit io" where
  "os_link src dst = syscall (\<lambda>_ _ w. w)
     (\<lambda>w. case names w src of
            None \<Rightarrow> (Inl NotExist, w)
          | Some DirN \<Rightarrow> (Inl BadOp, w)
          | Some (FileN i) \<Rightarrow>
              if node_at w dst \<noteq> None then (Inl BadOp, w)
              else if is_dir w (go_dir dst)
                then (Inr (), w\<lparr>names := (names w)(dst := Some (FileN i))\<rparr>)
              else (Inl NotExist, w))"

text \<open>\<open>MkdirAll\<close>: the path and every proper prefix of it that ends before a slash.\<close>

definition ancestors :: "string \<Rightarrow> string list" where
  "ancestors p = map (\<lambda>n. take n p) (filter (\<lambda>n. p ! n = slash) [1..<length p]) @ [p]"

definition mk_dirs :: "string list \<Rightarrow> os \<Rightarrow> os" where
  "mk_dirs ps w = w\<lparr>names := (\<lambda>q. if q \<in> set ps then Some DirN else names w q)\<rparr>"

definition mkdir_all :: "string \<Rightarrow> unit io" where
  "mkdir_all p = syscall
     (\<lambda>_ ns w. mk_dirs (filter (\<lambda>q. ns q \<and> node_at w q = None) (ancestors p)) w)
     (\<lambda>w. if list_all (\<lambda>q. node_at w q = None \<or> is_dir w q) (ancestors p)
          then (Inr (), mk_dirs (ancestors p) w)
          else (Inl BadOp, w))"

definition in_tree :: "string \<Rightarrow> string \<Rightarrow> bool" where
  "in_tree p q \<longleftrightarrow> q = p \<or> has_prefix q (p @ ''/'')"

definition remove_all :: "string \<Rightarrow> unit io" where
  "remove_all p = syscall
     (\<lambda>_ ns w. w\<lparr>names := (\<lambda>q. if in_tree p q \<and> ns q then None else names w q)\<rparr>)
     (\<lambda>w. (Inr (), w\<lparr>names := (\<lambda>q. if in_tree p q then None else names w q)\<rparr>))"

text \<open>A best-effort removal of every file that satisfies a predicate (a \<open>Glob\<close> and its loop).\<close>

definition remove_matching :: "(string \<Rightarrow> bool) \<Rightarrow> unit io" where
  "remove_matching P = syscall
     (\<lambda>_ ns w. w\<lparr>names := (\<lambda>q. if P q \<and> ns q \<and> names w q \<noteq> Some DirN then None else names w q)\<rparr>)
     (\<lambda>w. (Inr (), w\<lparr>names := (\<lambda>q. if P q \<and> names w q \<noteq> Some DirN then None else names w q)\<rparr>))"

text \<open>Opening for reading, and the loop of \<open>io.Copy\<close> from one open file to another.\<close>

definition open_read :: "string \<Rightarrow> nat io" where
  "open_read p = syscall (\<lambda>_ _ w. w)
     (\<lambda>w. (case node_at w p of
             None \<Rightarrow> Inl NotExist | Some DirN \<Rightarrow> Inl BadOp | Some (FileN i) \<Rightarrow> Inr i, w))"

definition copy_ino :: "nat \<Rightarrow> nat \<Rightarrow> unit io" where
  "copy_ino src dst = syscall
     (\<lambda>k _ w. w\<lparr>store := (store w)(dst := store w dst @ take k (store w src))\<rparr>)
     (\<lambda>w. (Inr (), w\<lparr>store := (store w)(dst := store w dst @ store w src)\<rparr>))"

text \<open>\<open>os.WriteFile\<close>.\<close>

definition write_file :: "string \<Rightarrow> bytes \<Rightarrow> unit io" where
  "write_file p dat w =
     (case open_trunc p w of
        (Inl e, w1) \<Rightarrow> (Inl e, w1)
      | (Inr i, w1) \<Rightarrow> append_ino i dat w1)"

text \<open>A random suffix, as hex characters or as \<open>os.CreateTemp\<close> makes one.\<close>

definition rand_suffix :: "string io" where
  "rand_suffix = syscall (\<lambda>_ _ w. w) (\<lambda>w. (Inr (rnd w (ticks w)), w))"

text \<open>
  \<open>os.CreateTemp\<close> draws names until one is free and gives up after ten thousand; \<open>rnd\<close> is
  the last name it drew.
\<close>

definition create_temp :: "string \<Rightarrow> string \<Rightarrow> string \<Rightarrow> (string \<times> nat) io" where
  "create_temp dir pre suf w =
     (let p = go_join [dir, pre @ rnd w (ticks w) @ suf] in
      case open_excl p w of
        (Inl e, w1) \<Rightarrow> (Inl e, w1)
      | (Inr i, w1) \<Rightarrow> (Inr (p, i), w1))"

section \<open>Shared facts\<close>

text \<open>The part of a world that calls change: its files.  The rest is the environment.\<close>

definition fs :: "os \<Rightarrow> (string \<Rightarrow> node option) \<times> (nat \<Rightarrow> bytes) \<times> nat" where
  "fs w = (names w, store w, next_ino w)"

definition quiet :: "os \<Rightarrow> bool" where
  "quiet w \<longleftrightarrow> faults w = (\<lambda>_. None)"

text \<open>Inode numbers in use are below the next fresh one, so a new file is linked nowhere else.\<close>

definition wf_os :: "os \<Rightarrow> bool" where
  "wf_os w \<longleftrightarrow> (\<forall>p i. names w p = Some (FileN i) \<longrightarrow> i < next_ino w)"

lemma tick_simps [simp]:
  "names (tick w) = names w" "store (tick w) = store w" "next_ino (tick w) = next_ino w"
  "faults (tick w) = faults w" "rnd (tick w) = rnd w" "net (tick w) = net w" "fs (tick w) = fs w"
  "node_at (tick w) p = node_at w p" "file_data (tick w) p = file_data w p"
  "is_dir (tick w) p = is_dir w p" "quiet (tick w) = quiet w" "wf_os (tick w) = wf_os w"
  by (simp_all add: tick_def fs_def node_at_def file_data_def is_dir_def quiet_def wf_os_def
      cong: option.case_cong node.case_cong)

lemma fs_iff: "fs w = fs w' \<longleftrightarrow> names w = names w' \<and> store w = store w' \<and> next_ino w = next_ino w'"
  by (auto simp: fs_def)

lemma fs_node_at: "fs w = fs w' \<Longrightarrow> node_at w p = node_at w' p"
  by (simp add: fs_def node_at_def)

lemma fs_file_data: "fs w = fs w' \<Longrightarrow> file_data w p = file_data w' p"
  by (simp add: fs_def node_at_def file_data_def cong: option.case_cong node.case_cong)

lemma syscall_quiet: "quiet w \<Longrightarrow> syscall pt body w = body (tick w)"
  by (simp add: syscall_def quiet_def)

lemma syscall_cases:
  obtains (fault) e k ns where "faults w (ticks w) = Some (Fault e k ns)"
      "syscall pt body w = (Inl (Sys e), pt k ns (tick w))"
  | (runs) "faults w (ticks w) = None" "syscall pt body w = body (tick w)"
proof (cases "faults w (ticks w)")
  case None
  then show thesis using runs by (simp add: syscall_def)
next
  case (Some f)
  then show thesis using fault by (cases f) (auto simp: syscall_def)
qed

lemma syscall_frame:
  "(\<And>k ns. P (pt k ns (tick w))) \<Longrightarrow> P (snd (body (tick w))) \<Longrightarrow> P (snd (syscall pt body w))"
  by (cases rule: syscall_cases [of w pt body]) auto

lemma syscall_read_only:
  "fs (snd (body (tick w))) = fs w \<Longrightarrow> fs (snd (syscall (\<lambda>_ _ w. w) body w)) = fs w"
  by (rule syscall_frame) auto

lemma syscall_Inr:
  assumes "syscall pt body w = (Inr x, w')"
  shows "body (tick w) = (Inr x, w')"
  using assms by (cases rule: syscall_cases [of w pt body]) auto

lemma syscall_Inl:
  assumes "syscall pt body w = (Inl e, w')"
  shows "(\<exists>k ns. w' = pt k ns (tick w)) \<or> body (tick w) = (Inl e, w')"
  using assms by (cases rule: syscall_cases [of w pt body]) auto

lemma os_stat_fs [os_frame]: "fs (snd (os_stat p w)) = fs w"
  unfolding os_stat_def by (rule syscall_read_only) simp

lemma read_file_fs [os_frame]: "fs (snd (read_file p w)) = fs w"
  unfolding read_file_def by (rule syscall_read_only) simp

lemma open_read_fs [os_frame]: "fs (snd (open_read p w)) = fs w"
  unfolding open_read_def by (rule syscall_read_only) simp

lemma os_noop_fs [os_frame]: "fs (snd (os_noop w)) = fs w"
  unfolding os_noop_def by (rule syscall_read_only) simp

lemma rand_suffix_fs [os_frame]: "fs (snd (rand_suffix w)) = fs w"
  unfolding rand_suffix_def by (rule syscall_read_only) simp

lemma read_file_Inr: "read_file p w = (Inr d, w') \<Longrightarrow> file_data w p = Some d"
  unfolding read_file_def by (drule syscall_Inr) (auto simp: file_data_def split: option.splits node.splits)

lemma read_file_quiet [os_simps]:
  "quiet w \<Longrightarrow> file_data w p = Some d \<Longrightarrow> read_file p w = (Inr d, tick w)"
  by (auto simp: read_file_def syscall_quiet file_data_def split: option.splits node.splits)

lemma os_stat_Inl_NotExist: "os_stat p w = (Inl NotExist, w') \<Longrightarrow> node_at w p = None"
  unfolding os_stat_def
  by (rule syscall_cases [of w "\<lambda>_ _ w. w"
        "\<lambda>w. (case node_at w p of None \<Rightarrow> Inl NotExist | Some n \<Rightarrow> Inr n, w)"])
     (auto split: option.splits)

lemma os_stat_Inr: "os_stat p w = (Inr n, w') \<Longrightarrow> node_at w p = Some n"
  unfolding os_stat_def by (drule syscall_Inr) (auto split: option.splits)

lemma os_stat_quiet [os_simps]:
  "quiet w \<Longrightarrow> os_stat p w = (case node_at w p of None \<Rightarrow> Inl NotExist | Some n \<Rightarrow> Inr n, tick w)"
  by (simp add: os_stat_def syscall_quiet)

lemma file_data_eqI: "node_at w p = node_at w' q \<Longrightarrow> store w = store w' \<Longrightarrow> file_data w p = file_data w' q"
  by (simp add: file_data_def cong: option.case_cong node.case_cong)

lemma file_data_Some_iff: "file_data w p = Some d \<longleftrightarrow> (\<exists>i. node_at w p = Some (FileN i) \<and> store w i = d)"
  by (auto simp: file_data_def split: option.splits node.splits)

lemma node_at_file: "p \<noteq> ''/'' \<Longrightarrow> p \<noteq> ''.'' \<Longrightarrow> node_at w p = names w p"
  by (simp add: node_at_def)

text \<open>\<open>splice\<close>: what a positioned write leaves in a file.\<close>

lemma splice_Nil [simp]: "splice old off [] = old"
  by (simp add: splice_def)

lemma splice_length: "length (splice old off new) = (if new = [] then length old else max (length old) (off + length new))"
  by (auto simp: splice_def)

lemma splice_nth_in:
  "off \<le> n \<Longrightarrow> n < off + length new \<Longrightarrow> splice old off new ! n = new ! (n - off)"
  by (auto simp: splice_def nth_append min_def)

lemma splice_nth_out:
  "n < length old \<Longrightarrow> n < off \<or> off + length new \<le> n \<Longrightarrow> splice old off new ! n = old ! n"
  by (auto simp: splice_def nth_append)

lemma splice_read_back:
  "take (length new) (drop off (splice old off new)) = new"
  by (cases "new = []") (auto simp: splice_def)


section \<open>Concrete worlds\<close>

text \<open>A fault-free world with the given directories and files, for evaluating the model.\<close>

definition world_of :: "string list \<Rightarrow> (string \<times> bytes) list \<Rightarrow> os" where
  "world_of ds xs =
     \<lparr>names = (\<lambda>p. if p \<in> set ds then Some DirN
                  else map_of (zip (map fst xs) (map FileN [0..<length xs])) p),
      store = (\<lambda>i. if i < length xs then snd (xs ! i) else []),
      next_ino = length xs, ticks = 0, faults = (\<lambda>_. None), rnd = (\<lambda>_. ''r''), net = (\<lambda>_ _. NetErr)\<rparr>"

lemma quiet_world_of [simp]: "quiet (world_of ds xs)"
  by (simp add: world_of_def quiet_def)

lemma wf_world_of [simp]: "wf_os (world_of ds xs)"
proof -
  have "map_of (zip ks (map FileN [0..<n])) p = Some (FileN i) \<Longrightarrow> i < n" for ks p i and n :: nat
    by (drule map_of_SomeD, drule set_zip_rightD) auto
  then show ?thesis by (auto simp: wf_os_def world_of_def split: if_splits)
qed

end
