(* ===== verification/PlanStream.thy ===== *)
theory PlanStream
  imports Plan Os
begin

text \<open>
  The streaming reader of a plan (\<open>internal/plan/stream.go\<close>): the version gate, the self-hash check
  over a byte prefix of the file, the header pass and the page pass.  Each is a walk over a
  \<^typ>\<open>decoder\<close>; every loop \<open>for dec.More()\<close> is \<^const>\<open>for_more\<close> with the loop's body, and each body
  meets the contract \<^theory_text>\<open>consuming\<close>.
\<close>

section \<open>Decoding into the plan's types\<close>

definition decode_into :: "(json \<Rightarrow> 'a option) \<Rightarrow> decoder \<Rightarrow> ('a \<times> decoder) option" where
  "decode_into f d =
     (case decode d of
        None \<Rightarrow> None
      | Some (j, d') \<Rightarrow> (case f j of None \<Rightarrow> None | Some x \<Rightarrow> Some (x, d')))"

lemma decode_into_length: "decode_into f d = Some (x, d') \<Longrightarrow> length (j_rest d') < length (j_rest d)"
  by (auto simp: decode_into_def dest: decode_length split: option.splits)

definition store_identity :: "string \<Rightarrow> json \<Rightarrow> canonical_identity \<Rightarrow> canonical_identity option" where
  "store_identity n j c =
     (if n = ''block_height'' then map_option (\<lambda>i. c\<lparr>ci_block_height := i\<rparr>) (into_int64 (ci_block_height c) j)
      else if n = ''manifest_hash'' then map_option (\<lambda>s. c\<lparr>ci_manifest_hash := s\<rparr>) (into_string (ci_manifest_hash c) j)
      else map_option (\<lambda>s. c\<lparr>ci_core_version := s\<rparr>) (into_string (ci_core_version c) j))"

definition into_identity :: "canonical_identity \<Rightarrow> json \<Rightarrow> canonical_identity option" where
  "into_identity c j =
     into_struct False [''block_height'', ''manifest_hash'', ''pocketnet_core_version''] store_identity j c"

definition store_page :: "string \<Rightarrow> json \<Rightarrow> plan_page \<Rightarrow> plan_page option" where
  "store_page n j p =
     (if n = ''offset'' then map_option (\<lambda>i. p\<lparr>pp_offset := i\<rparr>) (into_int64 (pp_offset p) j)
      else map_option (\<lambda>s. p\<lparr>pp_hash := s\<rparr>) (into_string (pp_hash p) j))"

text \<open>A page is decoded by a decoder with \<open>DisallowUnknownFields\<close>, into a zero page.\<close>

definition into_page :: "json \<Rightarrow> plan_page option" where
  "into_page j = into_struct True [''offset'', ''expected_hash''] store_page j \<lparr>pp_offset = 0, pp_hash = []\<rparr>"

section \<open>The version gate\<close>

record plan_header =
  ph_version :: int
  ph_identity :: canonical_identity
  ph_url :: string
  ph_path :: string
  ph_self :: string

definition zero_header :: plan_header where
  "zero_header = \<lparr>ph_version = 0,
     ph_identity = \<lparr>ci_block_height = 0, ci_manifest_hash = [], ci_core_version = []\<rparr>,
     ph_url = [], ph_path = [], ph_self = []\<rparr>"

definition gate_member :: "plan_header \<times> bool \<Rightarrow> decoder \<Rightarrow> plan_err + (plan_header \<times> bool) \<times> decoder" where
  "gate_member s d =
     (let (h, seen) = s in
      case read_key d of
        None \<Rightarrow> Inl PlanDecode
      | Some (key, d1) \<Rightarrow>
          if key = ''canonical_identity'' then
            (case decode_into (into_identity (ph_identity h)) d1 of
               None \<Rightarrow> Inl PlanDecode | Some (c, d2) \<Rightarrow> Inr ((h\<lparr>ph_identity := c\<rparr>, seen), d2))
          else if key = ''divergences'' then
            (case skip_value d1 of None \<Rightarrow> Inl PlanDecode | Some d2 \<Rightarrow> Inr ((h, seen), d2))
          else if key = ''format_version'' then
            (if seen then Inl PlanDecode
             else case decode_into (into_int64 (ph_version h)) d1 of
               None \<Rightarrow> Inl PlanDecode | Some (i, d2) \<Rightarrow> Inr ((h\<lparr>ph_version := i\<rparr>, True), d2))
          else if key = ''manifest_url'' then
            (case decode_into (into_string (ph_url h)) d1 of
               None \<Rightarrow> Inl PlanDecode | Some (s, d2) \<Rightarrow> Inr ((h\<lparr>ph_url := s\<rparr>, seen), d2))
          else if key = ''pocketdb_path'' then
            (case decode_into (into_string (ph_path h)) d1 of
               None \<Rightarrow> Inl PlanDecode | Some (s, d2) \<Rightarrow> Inr ((h\<lparr>ph_path := s\<rparr>, seen), d2))
          else if key = ''self_hash'' then
            (case decode_into (into_string (ph_self h)) d1 of
               None \<Rightarrow> Inl PlanDecode | Some (s, d2) \<Rightarrow> Inr ((h\<lparr>ph_self := s\<rparr>, seen), d2))
          else (case skip_value d1 of None \<Rightarrow> Inl PlanDecode | Some d2 \<Rightarrow> Inr ((h, seen), d2)))"

definition gate_format_version :: "string \<Rightarrow> plan_err + plan_header" where
  "gate_format_version text =
     (case expect_delim lbrace (new_decoder text) of
        None \<Rightarrow> Inl PlanDecode
      | Some d \<Rightarrow>
          (case for_more gate_member (zero_header, False) d of
             Inl e \<Rightarrow> Inl e
           | Inr ((h, seen), _) \<Rightarrow> if \<not> seen then Inl PlanDecode else Inr h))"

section \<open>The self-hash\<close>

text \<open>The loop's variables: \<open>lastOffset\<close>, \<open>boundary\<close>, \<open>embedded\<close> and \<open>sawSelfHash\<close>.\<close>

definition locate_member ::
  "nat \<times> nat \<times> string \<times> bool \<Rightarrow> decoder \<Rightarrow> plan_err + (nat \<times> nat \<times> string \<times> bool) \<times> decoder" where
  "locate_member s d =
     (let (lastOff, boundary, embedded, saw) = s in
      case read_key d of
        None \<Rightarrow> Inl PlanDecode
      | Some (key, d1) \<Rightarrow>
          if key = ''self_hash'' then
            (case decode_into (into_string embedded) d1 of
               None \<Rightarrow> Inl PlanDecode
             | Some (v, d2) \<Rightarrow> Inr ((j_off d2, lastOff, v, True), d2))
          else
            (case skip_value d1 of
               None \<Rightarrow> Inl PlanDecode
             | Some d2 \<Rightarrow> Inr ((j_off d2, boundary, embedded, saw), d2)))"

definition locate_self_hash :: "string \<Rightarrow> plan_err + nat \<times> string" where
  "locate_self_hash text =
     (case expect_delim lbrace (new_decoder text) of
        None \<Rightarrow> Inl PlanDecode
      | Some d \<Rightarrow>
          (case for_more locate_member (0, 0, [], False) d of
             Inl e \<Rightarrow> Inl e
           | Inr ((lastOff, boundary, embedded, saw), _) \<Rightarrow>
               Inr (if saw then boundary else lastOff, embedded)))"

definition hash_prefix :: "string \<Rightarrow> nat \<Rightarrow> string option" where
  "hash_prefix text boundary =
     (if length text < boundary then None else Some (sha256_hex (take boundary text @ [rbrace])))"

text \<open>The plan file is opened and read twice, as in the source.\<close>

definition verify_self_hash_streaming :: "string \<Rightarrow> os \<Rightarrow> (plan_err + unit) \<times> os" where
  "verify_self_hash_streaming planPath w =
     (case read_file planPath w of
        (Inl _, w1) \<Rightarrow> (Inl PlanDecode, w1)
      | (Inr text, w1) \<Rightarrow>
          (case locate_self_hash text of
             Inl e \<Rightarrow> (Inl e, w1)
           | Inr (boundary, embedded) \<Rightarrow>
               (case read_file planPath w1 of
                  (Inl _, w2) \<Rightarrow> (Inl PlanDecode, w2)
                | (Inr text2, w2) \<Rightarrow>
                    (case hash_prefix text2 boundary of
                       None \<Rightarrow> (Inl PlanDecode, w2)
                     | Some computed \<Rightarrow>
                         if computed \<noteq> embedded then (Inl (SelfHashMismatch computed embedded), w2)
                         else (Inr (), w2)))))"

section \<open>Hash format\<close>

definition is_canon_hash :: "string \<Rightarrow> bool" where
  "is_canon_hash v \<longleftrightarrow> length v = 64 \<and> list_all is_lower_hex v"

definition is_upper_hex :: "char \<Rightarrow> bool" where
  "is_upper_hex c \<longleftrightarrow> CHR ''A'' \<le> c \<and> c \<le> CHR ''F''"

definition hash_reason :: "string \<Rightarrow> string" where
  "hash_reason v =
     (if v = [] then ''empty''
      else if length v \<noteq> 64 then ''not 64 hex chars''
      else if list_ex is_upper_hex v then ''contains uppercase''
      else ''contains non-hex character'')"

definition validate_page_hash :: "nat \<Rightarrow> int \<Rightarrow> string \<Rightarrow> plan_err + unit" where
  "validate_page_hash divIndex offset v =
     (if is_canon_hash v then Inr ()
      else Inl (MalformedHash divIndex (''page offset '' @ fmt_int offset) v (hash_reason v)))"

section \<open>The header pass\<close>

record divergence_header =
  dh_index :: nat
  dh_kind :: string
  dh_path :: string
  dh_hash :: string
  dh_source :: string
  dh_pages :: bool

text \<open>
  The text of a shape error starts with the divergence; the constructor carries the index and
  the rest of the message.
\<close>

definition validate_header_shape :: "divergence_header \<Rightarrow> plan_err + unit" where
  "validate_header_shape h =
     (if dh_kind h = kind_sqlite_pages then
        (if dh_hash h \<noteq> [] \<or> dh_source h \<noteq> [] then
           Inl (PlanShape (dh_index h) ''sqlite_pages must not carry expected_hash or expected_source'')
         else if \<not> dh_pages h then Inl (PlanShape (dh_index h) ''sqlite_pages must have non-empty pages'')
         else Inr ())
      else if dh_kind h = kind_whole_file then
        (if dh_pages h then Inl (PlanShape (dh_index h) ''whole_file must not carry pages'')
         else if dh_hash h = [] then Inl (PlanShape (dh_index h) ''whole_file missing expected_hash'')
         else if \<not> is_canon_hash (dh_hash h) then
           Inl (MalformedHash (dh_index h) ''expected_hash'' (dh_hash h) (hash_reason (dh_hash h)))
         else Inr ())
      else Inl (PlanShape (dh_index h) (''unknown kind '' @ dh_kind h)))"

definition skip_element :: "unit \<Rightarrow> decoder \<Rightarrow> plan_err + unit \<times> decoder" where
  "skip_element u d = (case skip_value d of None \<Rightarrow> Inl PlanDecode | Some d' \<Rightarrow> Inr (u, d'))"

definition skip_array_report_non_empty :: "decoder \<Rightarrow> (bool \<times> decoder) option" where
  "skip_array_report_non_empty d =
     (case expect_delim lbrack d of
        None \<Rightarrow> None
      | Some d1 \<Rightarrow>
          (case for_more skip_element () d1 of
             Inl _ \<Rightarrow> None
           | Inr (_, d2) \<Rightarrow>
               (case expect_delim rbrack d2 of None \<Rightarrow> None | Some d3 \<Rightarrow> Some (has_more d1, d3))))"

definition header_member :: "divergence_header \<Rightarrow> decoder \<Rightarrow> plan_err + divergence_header \<times> decoder" where
  "header_member h d =
     (case read_key d of
        None \<Rightarrow> Inl PlanDecode
      | Some (key, d1) \<Rightarrow>
          if key = ''divergence_kind'' then
            (case decode_into (into_string (dh_kind h)) d1 of
               None \<Rightarrow> Inl PlanDecode | Some (s, d2) \<Rightarrow> Inr (h\<lparr>dh_kind := s\<rparr>, d2))
          else if key = ''path'' then
            (case decode_into (into_string (dh_path h)) d1 of
               None \<Rightarrow> Inl PlanDecode | Some (s, d2) \<Rightarrow> Inr (h\<lparr>dh_path := s\<rparr>, d2))
          else if key = ''expected_hash'' then
            (case decode_into (into_string (dh_hash h)) d1 of
               None \<Rightarrow> Inl PlanDecode | Some (s, d2) \<Rightarrow> Inr (h\<lparr>dh_hash := s\<rparr>, d2))
          else if key = ''expected_source'' then
            (case decode_into (into_string (dh_source h)) d1 of
               None \<Rightarrow> Inl PlanDecode | Some (s, d2) \<Rightarrow> Inr (h\<lparr>dh_source := s\<rparr>, d2))
          else if key = ''pages'' then
            (case skip_array_report_non_empty d1 of
               None \<Rightarrow> Inl PlanDecode | Some (b, d2) \<Rightarrow> Inr (h\<lparr>dh_pages := b\<rparr>, d2))
          else Inl PlanDecode)"

definition read_one_divergence_header :: "nat \<Rightarrow> decoder \<Rightarrow> plan_err + divergence_header \<times> decoder" where
  "read_one_divergence_header idx d =
     (case expect_delim lbrace d of
        None \<Rightarrow> Inl PlanDecode
      | Some d1 \<Rightarrow>
          (case for_more header_member
                  \<lparr>dh_index = idx, dh_kind = [], dh_path = [], dh_hash = [], dh_source = [], dh_pages = False\<rparr> d1 of
             Inl e \<Rightarrow> Inl e
           | Inr (h, d2) \<Rightarrow>
               (case expect_delim rbrace d2 of None \<Rightarrow> Inl PlanDecode | Some d3 \<Rightarrow> Inr (h, d3))))"

definition header_element ::
  "divergence_header list \<Rightarrow> decoder \<Rightarrow> plan_err + divergence_header list \<times> decoder" where
  "header_element out d =
     (case read_one_divergence_header (length out) d of
        Inl e \<Rightarrow> Inl e
      | Inr (h, d') \<Rightarrow>
          (case validate_header_shape h of Inl e \<Rightarrow> Inl e | Inr _ \<Rightarrow> Inr (out @ [h], d')))"

definition read_divergence_headers :: "decoder \<Rightarrow> plan_err + divergence_header list \<times> decoder" where
  "read_divergence_headers d =
     (case expect_delim lbrack d of
        None \<Rightarrow> Inl PlanDecode
      | Some d1 \<Rightarrow>
          (case for_more header_element [] d1 of
             Inl e \<Rightarrow> Inl e
           | Inr (out, d2) \<Rightarrow>
               (case expect_delim rbrack d2 of None \<Rightarrow> Inl PlanDecode | Some d3 \<Rightarrow> Inr (out, d3))))"

definition headers_member ::
  "divergence_header list \<Rightarrow> decoder \<Rightarrow> plan_err + divergence_header list \<times> decoder" where
  "headers_member hs d =
     (case read_key d of
        None \<Rightarrow> Inl PlanDecode
      | Some (key, d1) \<Rightarrow>
          if key = ''divergences'' then read_divergence_headers d1
          else (case skip_value d1 of None \<Rightarrow> Inl PlanDecode | Some d2 \<Rightarrow> Inr (hs, d2)))"

definition stream_divergence_headers :: "string \<Rightarrow> plan_err + divergence_header list" where
  "stream_divergence_headers text =
     (case expect_delim lbrace (new_decoder text) of
        None \<Rightarrow> Inl PlanDecode
      | Some d \<Rightarrow> map_sum id fst (for_more headers_member [] d))"

section \<open>The page pass\<close>

text \<open>
  \<open>StreamSQLitePages\<close> hands each pages array to a callback with an iterator.  Every callback of
  the program reads its pages to the end or stops at an error, which ends the walk; so what the
  callbacks see is a sequence of events, cut short where a callback stops.  The walk yields that
  sequence and the error that ended it, if one did.
\<close>

datatype page_event = OpenPages nat | OnePage nat plan_page

definition page_element ::
  "nat \<Rightarrow> page_event list \<Rightarrow> decoder \<Rightarrow> (plan_err \<times> page_event list) + page_event list \<times> decoder" where
  "page_element idx evs d =
     (case decode_into into_page d of
        None \<Rightarrow> Inl (PlanDecode, evs)
      | Some (p, d') \<Rightarrow> Inr (evs @ [OnePage idx p], d'))"

definition pages_member ::
  "nat \<Rightarrow> page_event list \<Rightarrow> decoder \<Rightarrow> (plan_err \<times> page_event list) + page_event list \<times> decoder" where
  "pages_member idx evs d =
     (case read_key d of
        None \<Rightarrow> Inl (PlanDecode, evs)
      | Some (key, d1) \<Rightarrow>
          if key = ''pages'' then
            (case expect_delim lbrack d1 of
               None \<Rightarrow> Inl (PlanDecode, evs)
             | Some d2 \<Rightarrow>
                 (case for_more (page_element idx) (evs @ [OpenPages idx]) d2 of
                    Inl e \<Rightarrow> Inl e
                  | Inr (evs', d3) \<Rightarrow>
                      (case expect_delim rbrack d3 of
                         None \<Rightarrow> Inl (PlanDecode, evs') | Some d4 \<Rightarrow> Inr (evs', d4))))
          else (case skip_value d1 of None \<Rightarrow> Inl (PlanDecode, evs) | Some d2 \<Rightarrow> Inr (evs, d2)))"

definition stream_one_divergence_pages ::
  "nat \<Rightarrow> page_event list \<Rightarrow> decoder \<Rightarrow> (plan_err \<times> page_event list) + page_event list \<times> decoder" where
  "stream_one_divergence_pages idx evs d =
     (case expect_delim lbrace d of
        None \<Rightarrow> Inl (PlanDecode, evs)
      | Some d1 \<Rightarrow>
          (case for_more (pages_member idx) evs d1 of
             Inl e \<Rightarrow> Inl e
           | Inr (evs', d2) \<Rightarrow>
               (case expect_delim rbrace d2 of None \<Rightarrow> Inl (PlanDecode, evs') | Some d3 \<Rightarrow> Inr (evs', d3))))"

definition pages_element ::
  "nat \<times> page_event list \<Rightarrow> decoder \<Rightarrow> (plan_err \<times> page_event list) + (nat \<times> page_event list) \<times> decoder" where
  "pages_element s d =
     (let (idx, evs) = s in
      case stream_one_divergence_pages idx evs d of
        Inl e \<Rightarrow> Inl e
      | Inr (evs', d') \<Rightarrow> Inr ((Suc idx, evs'), d'))"

definition stream_sqlite_divergences ::
  "page_event list \<Rightarrow> decoder \<Rightarrow> (plan_err \<times> page_event list) + page_event list \<times> decoder" where
  "stream_sqlite_divergences evs d =
     (case expect_delim lbrack d of
        None \<Rightarrow> Inl (PlanDecode, evs)
      | Some d1 \<Rightarrow>
          (case for_more pages_element (0, evs) d1 of
             Inl e \<Rightarrow> Inl e
           | Inr ((_, evs'), d2) \<Rightarrow>
               (case expect_delim rbrack d2 of None \<Rightarrow> Inl (PlanDecode, evs') | Some d3 \<Rightarrow> Inr (evs', d3))))"

definition stream_member ::
  "page_event list \<Rightarrow> decoder \<Rightarrow> (plan_err \<times> page_event list) + page_event list \<times> decoder" where
  "stream_member evs d =
     (case read_key d of
        None \<Rightarrow> Inl (PlanDecode, evs)
      | Some (key, d1) \<Rightarrow>
          if key = ''divergences'' then stream_sqlite_divergences evs d1
          else (case skip_value d1 of None \<Rightarrow> Inl (PlanDecode, evs) | Some d2 \<Rightarrow> Inr (evs, d2)))"

definition stream_sqlite_pages :: "string \<Rightarrow> page_event list \<times> plan_err option" where
  "stream_sqlite_pages text =
     (case expect_delim lbrace (new_decoder text) of
        None \<Rightarrow> ([], Some PlanDecode)
      | Some d \<Rightarrow>
          (case for_more stream_member [] d of
             Inl (e, evs) \<Rightarrow> (evs, Some e)
           | Inr (evs, _) \<Rightarrow> (evs, None)))"

section \<open>Every body consumes input\<close>

lemmas consume_dests = read_key_length skip_value_length expect_delim_length decode_into_length

text \<open>A step result that leaves less than \<open>n\<close> to read, and how it follows from the shape of the step.\<close>

definition shrinks :: "nat \<Rightarrow> 'e + 's \<times> decoder \<Rightarrow> bool" where
  "shrinks n r \<longleftrightarrow> (\<forall>s d. r = Inr (s, d) \<longrightarrow> length (j_rest d) < n)"

lemma shrinksI:
  "shrinks n (Inl e)" "length (j_rest d) < n \<Longrightarrow> shrinks n (Inr (s, d))"
  "shrinks n x \<Longrightarrow> shrinks n y \<Longrightarrow> shrinks n (if b then x else y)"
  "(\<And>x d'. o' = Some (x, d') \<Longrightarrow> shrinks n (f x d')) \<Longrightarrow> shrinks n (case o' of None \<Rightarrow> Inl e | Some (x, d') \<Rightarrow> f x d')"
  "(\<And>d'. o2 = Some d' \<Longrightarrow> shrinks n (g d')) \<Longrightarrow> shrinks n (case o2 of None \<Rightarrow> Inl e | Some d' \<Rightarrow> g d')"
  by (auto simp: shrinks_def split: option.split)

lemma shrinksD: "shrinks n r \<Longrightarrow> r = Inr (s, d) \<Longrightarrow> length (j_rest d) < n"
  by (simp add: shrinks_def)

lemma gate_member_shrinks: "shrinks (length (j_rest d)) (gate_member s d)"
  unfolding gate_member_def Let_def by (cases s, simp, intro shrinksI) (auto dest!: consume_dests)

interpretation gate: consuming gate_member
  by unfold_locales (rule shrinksD [OF gate_member_shrinks])

lemma locate_member_shrinks: "shrinks (length (j_rest d)) (locate_member s d)"
  unfolding locate_member_def Let_def by (cases s, simp, intro shrinksI) (auto dest!: consume_dests)

interpretation locate: consuming locate_member
  by unfold_locales (rule shrinksD [OF locate_member_shrinks])

interpretation skip_elem: consuming skip_element
  by unfold_locales (auto simp: skip_element_def split: option.splits dest!: consume_dests)

lemma skip_array_length:
  "skip_array_report_non_empty d = Some (b, d') \<Longrightarrow> length (j_rest d') < length (j_rest d)"
  by (auto simp: skip_array_report_non_empty_def split: option.splits sum.splits
      dest!: consume_dests skip_elem.loop_length)

lemma header_member_shrinks: "shrinks (length (j_rest d)) (header_member s d)"
  unfolding header_member_def Let_def by (intro shrinksI) (auto dest!: consume_dests skip_array_length)

interpretation header: consuming header_member
  by unfold_locales (rule shrinksD [OF header_member_shrinks])

lemma read_one_length:
  "read_one_divergence_header i d = Inr (h, d') \<Longrightarrow> length (j_rest d') < length (j_rest d)"
  by (auto simp: read_one_divergence_header_def split: option.splits sum.splits
      dest!: consume_dests header.loop_length)

interpretation header_elem: consuming header_element
  by unfold_locales (auto simp: header_element_def split: sum.splits dest!: read_one_length)

lemma read_headers_length: "read_divergence_headers d = Inr (hs, d') \<Longrightarrow> length (j_rest d') < length (j_rest d)"
  by (auto simp: read_divergence_headers_def split: option.splits sum.splits
      dest!: consume_dests header_elem.loop_length)

interpretation headers: consuming headers_member
  by unfold_locales
     (auto simp: headers_member_def split: option.splits if_splits dest!: consume_dests read_headers_length)

interpretation page_elem: consuming "page_element idx"
  by unfold_locales (auto simp: page_element_def split: option.splits dest!: consume_dests)

interpretation pages_mem: consuming "pages_member idx"
  by unfold_locales
     (auto simp: pages_member_def split: option.splits sum.splits if_splits
       dest!: consume_dests page_elem.loop_length)

lemma one_pages_length:
  "stream_one_divergence_pages i evs d = Inr (evs', d') \<Longrightarrow> length (j_rest d') < length (j_rest d)"
  by (auto simp: stream_one_divergence_pages_def split: option.splits sum.splits
      dest!: consume_dests pages_mem.loop_length)

interpretation pages_elem: consuming pages_element
  by unfold_locales (auto simp: pages_element_def Let_def split: prod.splits sum.splits dest!: one_pages_length)

lemma sqlite_divs_length:
  "stream_sqlite_divergences evs d = Inr (evs', d') \<Longrightarrow> length (j_rest d') < length (j_rest d)"
  by (auto simp: stream_sqlite_divergences_def split: option.splits sum.splits prod.splits
      dest!: consume_dests pages_elem.loop_length)

interpretation stream_mem: consuming stream_member
  by unfold_locales
     (auto simp: stream_member_def split: option.splits if_splits dest!: consume_dests sqlite_divs_length)

end
