(* ===== verification/Manifest.thy ===== *)
theory Manifest
  imports GoPath Sha256
begin

text \<open>
  Package \<open>internal/manifest\<close> without its I/O: the typed view of the canonical manifest
  (types.go), the path hygiene of entries (pathvalidate.go), the format version gate
  (format_version.go), the trust root comparison (verify.go) and the presence check of
  \<open>trust_anchors\<close> (trust_anchors.go).  Integers of the document are the values of Go's \<open>int64\<close>;
  they are \<open>int\<close> here and the JSON decoder checks their range.
\<close>

section \<open>types.go\<close>

record man_identity =
  mi_block_height :: int
  mi_core_version :: string
  mi_created_at :: string

record man_page =
  mp_offset :: int
  mp_hash :: string

record man_entry =
  me_kind :: string
  me_path :: string
  me_pages :: "man_page list"
  me_change_counter :: "int option"
  me_hash :: string

record manifest =
  m_format_version :: int
  m_identity :: man_identity
  m_entries :: "man_entry list"
  m_trust_anchors :: bytes

definition entry_kind_sqlite_pages :: string where
  "entry_kind_sqlite_pages = ''sqlite_pages''"

definition entry_kind_whole_file :: string where
  "entry_kind_whole_file = ''whole_file''"

section \<open>Errors\<close>

datatype man_err =
    FormatVersionUnrecognized int int
  | TrustRootMismatch string string
  | InvalidPath string string
  | SpoolCapacity "64 word" "64 word" "64 word"
  | FetchRejected string int
  | NilManifest
  | MissingTrustAnchors
  | ManifestOther string

definition is_format_version_unrecognized :: "man_err \<Rightarrow> bool" where
  "is_format_version_unrecognized e = (case e of FormatVersionUnrecognized _ _ \<Rightarrow> True | _ \<Rightarrow> False)"

definition is_trust_root_mismatch :: "man_err \<Rightarrow> bool" where
  "is_trust_root_mismatch e = (case e of TrustRootMismatch _ _ \<Rightarrow> True | _ \<Rightarrow> False)"

definition is_spool_capacity :: "man_err \<Rightarrow> bool" where
  "is_spool_capacity e = (case e of SpoolCapacity _ _ _ \<Rightarrow> True | _ \<Rightarrow> False)"

definition is_manifest_invalid_path :: "man_err \<Rightarrow> bool" where
  "is_manifest_invalid_path e = (case e of InvalidPath _ _ \<Rightarrow> True | _ \<Rightarrow> False)"

section \<open>format_version.go, verify.go, trust_anchors.go\<close>

definition check_format_version_value :: "int \<Rightarrow> man_err + unit" where
  "check_format_version_value v = (if v \<noteq> 1 then Inl (FormatVersionUnrecognized v 1) else Inr ())"

definition check_format_version :: "manifest option \<Rightarrow> man_err + unit" where
  "check_format_version m =
     (case m of None \<Rightarrow> Inl NilManifest | Some mf \<Rightarrow> check_format_version_value (m_format_version mf))"

definition verify_manifest :: "bytes \<Rightarrow> string \<Rightarrow> man_err + unit" where
  "verify_manifest b pinnedHash =
     (let got = sha256_hex b in
      if got \<noteq> pinnedHash then Inl (TrustRootMismatch got pinnedHash) else Inr ())"

definition validate_trust_anchors_raw :: "bytes \<Rightarrow> man_err + unit" where
  "validate_trust_anchors_raw raw = (if length raw = 0 then Inl MissingTrustAnchors else Inr ())"

definition parse_trust_anchors :: "manifest option \<Rightarrow> man_err + bytes" where
  "parse_trust_anchors m =
     (case m of
        None \<Rightarrow> Inl NilManifest
      | Some mf \<Rightarrow>
          (case validate_trust_anchors_raw (m_trust_anchors mf) of
             Inl e \<Rightarrow> Inl e
           | Inr _ \<Rightarrow> Inr (m_trust_anchors mf)))"

section \<open>pathvalidate.go\<close>

abbreviation backslash :: char where
  "backslash \<equiv> CHR 0x5C"

definition is_ascii_letter :: "char \<Rightarrow> bool" where
  "is_ascii_letter b \<longleftrightarrow> (CHR ''A'' \<le> b \<and> b \<le> CHR ''Z'') \<or> (CHR ''a'' \<le> b \<and> b \<le> CHR ''z'')"

fun check_segments :: "string list \<Rightarrow> string option" where
  "check_segments [] = None"
| "check_segments (seg # segs) =
     (if seg = '''' then Some ''empty segment''
      else if seg = ''..'' then Some ''contains \"..\" segment''
      else if seg = ''.'' then Some ''contains \".\" segment''
      else check_segments segs)"

definition validate_entry_path :: "string \<Rightarrow> man_err + unit" where
  "validate_entry_path p =
     (if has_prefix p [backslash, backslash] then Inl (InvalidPath p ''drive-letter/UNC prefix'')
      else if length p \<ge> 2 \<and> p ! 1 = CHR '':'' \<and> is_ascii_letter (p ! 0)
        then Inl (InvalidPath p ''drive-letter/UNC prefix'')
      else if has_prefix p ''/'' then Inl (InvalidPath p ''leading separator'')
      else if str_contains p [backslash] then Inl (InvalidPath p ''contains backslash'')
      else case check_segments (split_on slash p) of
             Some reason \<Rightarrow> Inl (InvalidPath p reason)
           | None \<Rightarrow> Inr ())"

section \<open>Properties\<close>

lemma check_segments_None:
  "check_segments segs = None \<longleftrightarrow> (\<forall>s \<in> set segs. s \<noteq> [] \<and> s \<noteq> ''..'' \<and> s \<noteq> ''.'')"
  by (induction segs) auto

lemma check_segments_plain: "check_segments (split_on slash p) = None \<longleftrightarrow> plain_path p"
  by (auto simp: check_segments_None plain_path_def plain_seg_def list_all_iff dest: split_on_parts)

lemma plain_not_rooted: "plain_path p \<Longrightarrow> \<not> has_prefix p ''/''"
  by (cases p) (auto simp: plain_path_def plain_seg_def)

text \<open>
  A path is accepted exactly when all its segments are plain, it has no backslash and it does not
  begin with a drive letter.
\<close>

lemma validate_entry_path_iff:
  "validate_entry_path p = Inr () \<longleftrightarrow>
     plain_path p \<and> backslash \<notin> set p \<and>
     \<not> (length p \<ge> 2 \<and> p ! 1 = CHR '':'' \<and> is_ascii_letter (p ! 0))"
proof -
  have "has_prefix p [backslash, backslash] \<Longrightarrow> backslash \<in> set p"
    by (auto simp: has_prefix_iff)
  then show ?thesis
    using plain_not_rooted [of p] check_segments_plain [of p]
    by (auto simp: validate_entry_path_def str_contains_single split: option.splits if_splits)
qed

lemma validate_entry_path_error:
  "validate_entry_path p = Inl e \<Longrightarrow> \<exists>r. e = InvalidPath p r"
  by (auto simp: validate_entry_path_def split: if_splits option.splits)

lemma verify_manifest_ok: "verify_manifest b h = Inr () \<longleftrightarrow> sha256_hex b = h"
  by (simp add: verify_manifest_def Let_def)

end
