(* ===== verification/HashUtil.thy ===== *)
theory HashUtil
  imports Os Sha256
begin

text \<open>
  Package \<open>internal/hashutil\<close>: the digest of a whole file and of the pages of a page file.
  \<open>HashSQLitePages\<close> returns an iterator; it is the list of what the iterator yields, an error being
  its last element.  Reading the open file can stop early with a fault, so the list is computed from
  the bytes that could be read and the error that ended them.
\<close>

definition hash_whole_file :: "string \<Rightarrow> string io" where
  "hash_whole_file path w =
     (case read_file path w of
        (Inl e, w1) \<Rightarrow> (Inl e, w1)
      | (Inr dat, w1) \<Rightarrow> (Inr (sha256_hex dat), w1))"

record page_hash =
  ph_offset :: int
  ph_hash :: string

datatype page_err = UnexpectedEOF int nat | ReadErr os_err | BadPageSize int

definition read_stream :: "nat \<Rightarrow> os \<Rightarrow> (bytes \<times> os_err option) \<times> os" where
  "read_stream i w =
     (case faults w (ticks w) of
        Some (Fault e k ns) \<Rightarrow> ((take k (store w i), Some (Sys e)), tick w)
      | None \<Rightarrow> ((store w i, None), tick w))"

function page_seq :: "nat \<Rightarrow> int \<Rightarrow> bytes \<Rightarrow> os_err option \<Rightarrow> (page_err + page_hash) list" where
  "page_seq ps off dat err =
     (if ps = 0 then []
      else if length dat < ps then
        (case err of
           Some e \<Rightarrow> [Inl (ReadErr e)]
         | None \<Rightarrow> if dat = [] then [] else [Inl (UnexpectedEOF off (length dat))])
      else Inr \<lparr>ph_offset = off, ph_hash = sha256_hex (take ps dat)\<rparr>
           # page_seq ps (off + int ps) (drop ps dat) err)"
  by pat_completeness auto
termination by (relation "measure (\<lambda>(ps, off, dat, err). length dat)") auto

declare page_seq.simps [simp del]

definition hash_sqlite_pages ::
  "string \<Rightarrow> int \<Rightarrow> os \<Rightarrow> (page_err + (page_err + page_hash) list) \<times> os" where
  "hash_sqlite_pages path pageSize w =
     (if pageSize \<le> 0 then (Inl (BadPageSize pageSize), w)
      else case open_read path w of
             (Inl e, w1) \<Rightarrow> (Inl (ReadErr e), w1)
           | (Inr i, w1) \<Rightarrow>
               (let ((dat, err), w2) = read_stream i w1
                in (Inr (page_seq (nat pageSize) 0 dat err), w2)))"

section \<open>The shape of the yielded sequence\<close>

text \<open>The pages that were hashed, without a final error.\<close>

definition oks :: "('e + 'a) list \<Rightarrow> 'a list" where
  "oks xs = concat (map (\<lambda>x. case x of Inl _ \<Rightarrow> [] | Inr a \<Rightarrow> [a]) xs)"

lemma oks_simps [simp]: "oks [] = []" "oks (Inl e # xs) = oks xs" "oks (Inr a # xs) = a # oks xs"
  by (simp_all add: oks_def)

lemma oks_map_Inr [simp]: "oks (map Inr xs) = xs"
  by (induction xs) auto

text \<open>Errors only at the end: what every iterator of the program guarantees.\<close>

fun error_last :: "('e + 'a) list \<Rightarrow> bool" where
  "error_last [] = True"
| "error_last (Inl _ # xs) = (xs = [])"
| "error_last (Inr _ # xs) = error_last xs"

lemma error_last_map_Inr [simp]: "error_last (map Inr xs)"
  by (induction xs) auto

lemma page_seq_error_last: "error_last (page_seq ps off dat err)"
proof (induction ps off dat err rule: page_seq.induct)
  case (1 ps off dat err)
  then show ?case by (subst page_seq.simps) (auto split: option.splits)
qed

text \<open>Page number \<open>k\<close> of the file starts at byte \<open>k * ps\<close>.\<close>

definition file_page :: "nat \<Rightarrow> bytes \<Rightarrow> nat \<Rightarrow> bytes" where
  "file_page ps dat k = take ps (drop (k * ps) dat)"

lemma file_page_drop: "file_page ps (drop ps dat) k = file_page ps dat (Suc k)"
  by (simp add: file_page_def add.commute)

lemma page_seq_oks:
  assumes "0 < ps"
  shows "oks (page_seq ps off dat err) =
     map (\<lambda>k. \<lparr>ph_offset = off + int (k * ps), ph_hash = sha256_hex (file_page ps dat k)\<rparr>)
         [0..<length dat div ps]"
  using assms
proof (induction ps off dat err rule: page_seq.induct)
  case (1 ps off dat err)
  show ?case
  proof (cases "length dat < ps")
    case True
    with 1 show ?thesis by (subst page_seq.simps) (auto split: option.splits)
  next
    case False
    have l: "length dat div ps = Suc (length (drop ps dat) div ps)"
      using False "1.prems" by (simp add: le_div_geq)
    have "oks (page_seq ps off dat err) =
        \<lparr>ph_offset = off, ph_hash = sha256_hex (take ps dat)\<rparr> # oks (page_seq ps (off + int ps) (drop ps dat) err)"
      using False "1.prems" by (subst page_seq.simps) simp
    also have "\<dots> = \<lparr>ph_offset = off, ph_hash = sha256_hex (take ps dat)\<rparr> #
        map (\<lambda>k. \<lparr>ph_offset = off + int ps + int (k * ps), ph_hash = sha256_hex (file_page ps (drop ps dat) k)\<rparr>)
         [0..<length (drop ps dat) div ps]"
      using "1.IH" "1.prems" False by simp
    also have "\<dots> = map (\<lambda>k. \<lparr>ph_offset = off + int (k * ps), ph_hash = sha256_hex (file_page ps dat k)\<rparr>)
         (0 # map Suc [0..<length (drop ps dat) div ps])"
      by (simp add: file_page_drop algebra_simps) (simp add: file_page_def)
    also have "0 # map Suc [0..<length (drop ps dat) div ps] = [0..<length dat div ps]"
      by (simp only: l map_Suc_upt upt_conv_Cons zero_less_Suc)
    finally show ?thesis .
  qed
qed

text \<open>A file of whole pages yields no error unless reading it failed.\<close>

lemma page_seq_aligned:
  "0 < ps \<Longrightarrow> ps dvd length dat \<Longrightarrow> page_seq ps off dat None = map Inr (oks (page_seq ps off dat None))"
proof (induction ps off dat "None :: os_err option" rule: page_seq.induct)
  case (1 ps off dat)
  show ?case
  proof (cases "length dat < ps")
    case True
    with "1.prems" have "dat = []" using dvd_imp_le [of ps "length dat"] by auto
    with "1.prems"(1) show ?thesis by (simp add: page_seq.simps)
  next
    case False
    with "1.prems" have "ps dvd length (drop ps dat)" by (simp add: dvd_diff_nat)
    with 1 False show ?thesis by (simp add: page_seq.simps [of ps off dat None])
  qed
qed

end
