(* ===== verification/ManifestStream.thy ===== *)
theory ManifestStream
  imports PlanStream Manifest HashUtil
begin

text \<open>
  The streaming reader of the manifest (\<open>internal/manifest/stream.go\<close>): the top-level walk, the walk
  over one entry with its callback, and the iterator over a pages array.

  The callback (\<open>EntryProcessor\<close>) is a parameter: it gets the entry's header as read so far, the
  sequence its pages iterator yields (\<open>None\<close> for entries without pages) and the caller's state, and
  returns its error or the header with the path it assumed.  A callback may stop reading pages early;
  the reader then drains the rest, so the position after the array is the same, and only the error
  of a malformed page that nobody looked at is lost.  That is how \<open>make_pages_iter\<close> can read ahead:
  it keeps the decoder behind the last page it read, from which the reader drains.
\<close>

section \<open>Headers\<close>

record man_header =
  mh_version :: int
  mh_identity :: man_identity
  mh_trust :: bytes

record entry_header =
  eh_kind :: string
  eh_path :: string
  eh_hash :: string
  eh_counter :: "int option"
  eh_assumed :: string

definition zero_man_header :: man_header where
  "zero_man_header = \<lparr>mh_version = 0,
     mh_identity = \<lparr>mi_block_height = 0, mi_core_version = [], mi_created_at = []\<rparr>, mh_trust = []\<rparr>"

definition zero_entry_header :: entry_header where
  "zero_entry_header = \<lparr>eh_kind = [], eh_path = [], eh_hash = [], eh_counter = None, eh_assumed = []\<rparr>"

datatype 'x stream_err = SManifest man_err | SCallback 'x

type_synonym page_iter = "(man_err + man_page) list"

type_synonym ('x, 's) processor =
  "entry_header \<Rightarrow> page_iter option \<Rightarrow> 's \<Rightarrow> ('x stream_err + entry_header) \<times> 's"

definition decode_failed :: "'x stream_err" where
  "decode_failed = SManifest (ManifestOther ''decode'')"

section \<open>Decoding into the manifest's types\<close>

definition store_man_identity :: "string \<Rightarrow> json \<Rightarrow> man_identity \<Rightarrow> man_identity option" where
  "store_man_identity n j c =
     (if n = ''block_height'' then map_option (\<lambda>i. c\<lparr>mi_block_height := i\<rparr>) (into_int64 (mi_block_height c) j)
      else if n = ''pocketnet_core_version'' then
        map_option (\<lambda>s. c\<lparr>mi_core_version := s\<rparr>) (into_string (mi_core_version c) j)
      else map_option (\<lambda>s. c\<lparr>mi_created_at := s\<rparr>) (into_string (mi_created_at c) j))"

definition into_man_identity :: "man_identity \<Rightarrow> json \<Rightarrow> man_identity option" where
  "into_man_identity c j =
     into_struct False [''block_height'', ''pocketnet_core_version'', ''created_at''] store_man_identity j c"

definition store_man_page :: "string \<Rightarrow> json \<Rightarrow> man_page \<Rightarrow> man_page option" where
  "store_man_page n j p =
     (if n = ''offset'' then map_option (\<lambda>i. p\<lparr>mp_offset := i\<rparr>) (into_int64 (mp_offset p) j)
      else map_option (\<lambda>s. p\<lparr>mp_hash := s\<rparr>) (into_string (mp_hash p) j))"

definition into_man_page :: "json \<Rightarrow> man_page option" where
  "into_man_page j = into_struct False [''offset'', ''hash''] store_man_page j \<lparr>mp_offset = 0, mp_hash = []\<rparr>"

text \<open>The bytes of the value that a \<open>Decode\<close> into \<open>json.RawMessage\<close> stores.\<close>

definition raw_value :: "decoder \<Rightarrow> decoder \<Rightarrow> bytes" where
  "raw_value d d' =
     (let used = skip_ws (take (length (j_rest d) - length (j_rest d')) (j_rest d))
      in if j_state d = ObjectColon then skip_ws (tl used) else used)"

section \<open>Pages\<close>

definition man_page_element ::
  "page_iter \<Rightarrow> decoder \<Rightarrow> (page_iter \<times> decoder option) + page_iter \<times> decoder" where
  "man_page_element it d =
     (case decode d of
        None \<Rightarrow> Inl (it @ [Inl (ManifestOther ''decode'')], None)
      | Some (j, d') \<Rightarrow>
          (case into_man_page j of
             None \<Rightarrow> Inl (it @ [Inl (ManifestOther ''decode'')], Some d')
           | Some p \<Rightarrow> Inr (it @ [Inr p], d')))"

definition make_pages_iter :: "decoder \<Rightarrow> page_iter \<times> decoder option" where
  "make_pages_iter d =
     (case for_more man_page_element [] d of
        Inl r \<Rightarrow> r
      | Inr (it, d') \<Rightarrow> (it, Some d'))"

definition drop_value :: "unit \<Rightarrow> decoder \<Rightarrow> unit + unit \<times> decoder" where
  "drop_value u d = (case decode d of None \<Rightarrow> Inl () | Some (_, d') \<Rightarrow> Inr ((), d'))"

definition drain_to_array_end :: "decoder \<Rightarrow> decoder option" where
  "drain_to_array_end d =
     (case for_more drop_value () d of
        Inl _ \<Rightarrow> None
      | Inr (_, d') \<Rightarrow> expect_delim rbrack d')"

section \<open>One entry\<close>

text \<open>
  The loop's variables: the header, whether the callback has run, and the caller's state.  An error
  carries the state that the callback left.
\<close>

type_synonym ('x, 's) entry_step = "('x stream_err \<times> 's) + (entry_header \<times> bool \<times> 's) \<times> decoder"

definition entry_pages ::
  "('x, 's) processor \<Rightarrow> entry_header \<Rightarrow> 's \<Rightarrow> decoder \<Rightarrow> ('x, 's) entry_step" where
  "entry_pages fn hdr s d =
     (if eh_kind hdr \<noteq> entry_kind_sqlite_pages then Inl (decode_failed, s)
      else case expect_delim lbrack d of
        None \<Rightarrow> Inl (decode_failed, s)
      | Some d1 \<Rightarrow>
          (let (it, behind) = make_pages_iter d1 in
           case fn hdr (Some it) s of
             (Inl e, s1) \<Rightarrow> Inl (e, s1)
           | (Inr hdr1, s1) \<Rightarrow>
               (case Option.bind behind drain_to_array_end of
                  None \<Rightarrow> Inl (decode_failed, s1)
                | Some d2 \<Rightarrow> Inr ((hdr1, True, s1), d2))))"

definition entry_member ::
  "('x, 's) processor \<Rightarrow> entry_header \<times> bool \<times> 's \<Rightarrow> decoder \<Rightarrow> ('x, 's) entry_step" where
  "entry_member fn st d =
     (let (hdr, called, s) = st in
      case read_key d of
        None \<Rightarrow> Inl (decode_failed, s)
      | Some (key, d1) \<Rightarrow>
          if key = ''change_counter'' then
            (case decode_into (into_int64 0) d1 of
               None \<Rightarrow> Inl (decode_failed, s)
             | Some (v, d2) \<Rightarrow> Inr ((hdr\<lparr>eh_counter := Some v\<rparr>, called, s), d2))
          else if key = ''entry_kind'' then
            (case decode_into (into_string []) d1 of
               None \<Rightarrow> Inl (decode_failed, s)
             | Some (v, d2) \<Rightarrow> Inr ((hdr\<lparr>eh_kind := v\<rparr>, called, s), d2))
          else if key = ''hash'' then
            (case decode_into (into_string []) d1 of
               None \<Rightarrow> Inl (decode_failed, s)
             | Some (v, d2) \<Rightarrow> Inr ((hdr\<lparr>eh_hash := v\<rparr>, called, s), d2))
          else if key = ''path'' then
            (case decode_into (into_string []) d1 of
               None \<Rightarrow> Inl (decode_failed, s)
             | Some (v, d2) \<Rightarrow>
                 (case validate_entry_path v of
                    Inl e \<Rightarrow> Inl (SManifest e, s)
                  | Inr _ \<Rightarrow> Inr ((hdr\<lparr>eh_path := v\<rparr>, called, s), d2)))
          else if key = ''pages'' then entry_pages fn hdr s d1
          else (case decode d1 of
             None \<Rightarrow> Inl (decode_failed, s)
           | Some (_, d2) \<Rightarrow> Inr ((hdr, called, s), d2)))"

definition stream_entry :: "('x, 's) processor \<Rightarrow> 's \<Rightarrow> decoder \<Rightarrow> ('x stream_err \<times> 's) + 's \<times> decoder" where
  "stream_entry fn s d =
     (case expect_delim lbrace d of
        None \<Rightarrow> Inl (decode_failed, s)
      | Some d1 \<Rightarrow>
          (case for_more (entry_member fn) (zero_entry_header, False, s) d1 of
             Inl e \<Rightarrow> Inl e
           | Inr ((hdr, called, s1), d2) \<Rightarrow>
               (case expect_delim rbrace d2 of
                  None \<Rightarrow> Inl (decode_failed, s1)
                | Some d3 \<Rightarrow>
                    (case (if called then (Inr hdr, s1) else fn hdr None s1) of
                       (Inl e, s2) \<Rightarrow> Inl (e, s2)
                     | (Inr hdr2, s2) \<Rightarrow>
                         if eh_assumed hdr2 \<noteq> [] \<and> eh_path hdr2 \<noteq> eh_assumed hdr2
                         then Inl (SManifest (ManifestOther ''wrong-file page attribution''), s2)
                         else Inr (s2, d3)))))"

section \<open>The document\<close>

definition stream_entries ::
  "('x, 's) processor \<Rightarrow> 's \<Rightarrow> decoder \<Rightarrow> ('x stream_err \<times> 's) + 's \<times> decoder" where
  "stream_entries fn s d =
     (case expect_delim lbrack d of
        None \<Rightarrow> Inl (decode_failed, s)
      | Some d1 \<Rightarrow>
          (case for_more (stream_entry fn) s d1 of
             Inl e \<Rightarrow> Inl e
           | Inr (s1, d2) \<Rightarrow>
               (case expect_delim rbrack d2 of
                  None \<Rightarrow> Inl (decode_failed, s1) | Some d3 \<Rightarrow> Inr (s1, d3))))"

definition manifest_member ::
  "('x, 's) processor \<Rightarrow> man_header \<times> 's \<Rightarrow> decoder \<Rightarrow> ('x stream_err \<times> 's) + (man_header \<times> 's) \<times> decoder" where
  "manifest_member fn st d =
     (let (hdr, s) = st in
      case read_key d of
        None \<Rightarrow> Inl (decode_failed, s)
      | Some (key, d1) \<Rightarrow>
          if key = ''canonical_identity'' then
            (case decode_into (into_man_identity (mh_identity hdr)) d1 of
               None \<Rightarrow> Inl (decode_failed, s)
             | Some (c, d2) \<Rightarrow> Inr ((hdr\<lparr>mh_identity := c\<rparr>, s), d2))
          else if key = ''entries'' then
            (case stream_entries fn s d1 of
               Inl e \<Rightarrow> Inl e
             | Inr (s1, d2) \<Rightarrow> Inr ((hdr, s1), d2))
          else if key = ''format_version'' then
            (case decode_into (into_int64 (mh_version hdr)) d1 of
               None \<Rightarrow> Inl (decode_failed, s)
             | Some (v, d2) \<Rightarrow> Inr ((hdr\<lparr>mh_version := v\<rparr>, s), d2))
          else if key = ''trust_anchors'' then
            (case decode d1 of
               None \<Rightarrow> Inl (decode_failed, s)
             | Some (_, d2) \<Rightarrow> Inr ((hdr\<lparr>mh_trust := raw_value d1 d2\<rparr>, s), d2))
          else (case decode d1 of
             None \<Rightarrow> Inl (decode_failed, s)
           | Some (_, d2) \<Rightarrow> Inr ((hdr, s), d2)))"

definition stream_manifest ::
  "('x, 's) processor \<Rightarrow> 's \<Rightarrow> decoder \<Rightarrow> ('x stream_err + man_header) \<times> 's" where
  "stream_manifest fn s d =
     (case expect_delim lbrace d of
        None \<Rightarrow> (Inl decode_failed, s)
      | Some d1 \<Rightarrow>
          (case for_more (manifest_member fn) (zero_man_header, s) d1 of
             Inl (e, s1) \<Rightarrow> (Inl e, s1)
           | Inr ((hdr, s1), d2) \<Rightarrow>
               (case expect_delim rbrace d2 of
                  None \<Rightarrow> (Inl decode_failed, s1) | Some _ \<Rightarrow> (Inr hdr, s1))))"

section \<open>Every body consumes input\<close>

interpretation man_page_elem: consuming man_page_element
  by unfold_locales (auto simp: man_page_element_def split: option.splits dest!: decode_length)

interpretation drop_elem: consuming drop_value
  by unfold_locales (auto simp: drop_value_def split: option.splits dest!: decode_length)

lemma drain_length: "drain_to_array_end d = Some d' \<Longrightarrow> length (j_rest d') < length (j_rest d)"
  by (auto simp: drain_to_array_end_def split: sum.splits dest!: drop_elem.loop_length expect_delim_length)

lemma for_more_page_error:
  "for_more man_page_element it d = Inl (it', Some d') \<Longrightarrow> length (j_rest d') \<le> length (j_rest d)"
proof (induction "length (j_rest d)" arbitrary: it d rule: less_induct)
  case less
  show ?case
  proof (cases "man_page_element it d")
    case (Inl e)
    with less.prems show ?thesis
      by (subst (asm) man_page_elem.unfold_loop)
         (auto simp: man_page_element_def split: if_splits option.splits dest!: decode_length)
  next
    case (Inr x)
    obtain it1 d1 where x: "x = (it1, d1)" by fastforce
    have l: "length (j_rest d1) < length (j_rest d)" using man_page_elem.consumes Inr x by blast
    from less.prems Inr x have "for_more man_page_element it1 d1 = Inl (it', Some d')"
      by (subst (asm) man_page_elem.unfold_loop) (auto split: if_splits)
    from less.hyps [OF l this] l show ?thesis by simp
  qed
qed

lemma pages_iter_length: "make_pages_iter d = (it, Some d') \<Longrightarrow> length (j_rest d') \<le> length (j_rest d)"
  by (auto simp: make_pages_iter_def split: sum.splits dest: for_more_page_error man_page_elem.loop_length)

lemma entry_pages_length:
  "entry_pages fn hdr s d = Inr (st, d') \<Longrightarrow> length (j_rest d') < length (j_rest d)"
  by (auto simp: entry_pages_def Let_def bind_eq_Some_conv split: if_splits option.splits prod.splits sum.splits
      dest!: drain_length pages_iter_length expect_delim_length)

interpretation entry_mem: consuming "entry_member fn"
  by unfold_locales
     (auto simp: entry_member_def Let_def split: prod.splits option.splits if_splits sum.splits
       dest!: consume_dests entry_pages_length decode_length)

lemma stream_entry_length:
  "stream_entry fn s d = Inr (s', d') \<Longrightarrow> length (j_rest d') < length (j_rest d)"
  by (auto simp: stream_entry_def split: option.splits sum.splits prod.splits if_splits
      dest!: expect_delim_length entry_mem.loop_length)

interpretation entries_elem: consuming "stream_entry fn"
  by unfold_locales (rule stream_entry_length)

lemma stream_entries_length:
  "stream_entries fn s d = Inr (s', d') \<Longrightarrow> length (j_rest d') < length (j_rest d)"
  by (auto simp: stream_entries_def split: option.splits sum.splits prod.splits
      dest!: expect_delim_length entries_elem.loop_length)

interpretation manifest_mem: consuming "manifest_member fn"
  by unfold_locales
     (auto simp: manifest_member_def Let_def split: prod.splits option.splits if_splits sum.splits
       dest!: consume_dests stream_entries_length decode_length)

section \<open>What reaches the callback\<close>

context consuming begin

lemma loop_outcome:
  assumes "P s" and "\<And>s d s' d'. P s \<Longrightarrow> body s d = Inr (s', d') \<Longrightarrow> P s'"
    and "\<And>s d e. P s \<Longrightarrow> body s d = Inl e \<Longrightarrow> Q e"
  shows "case for_more body s d of Inl e \<Rightarrow> Q e | Inr (s', _) \<Rightarrow> P s'"
  using assms(1)
proof (induction "length (j_rest d)" arbitrary: s d rule: less_induct)
  case less
  show ?case
  proof (cases "body s d")
    case (Inl e)
    with less.prems assms(3) show ?thesis by (subst unfold_loop) simp
  next
    case (Inr x)
    obtain s1 d1 where x: "x = (s1, d1)" by fastforce
    from less.hyps [of d1 s1] consumes assms(2) less.prems Inr x show ?thesis
      by (subst unfold_loop) auto
  qed
qed

end

text \<open>
  A step leaves its state in order: \<open>P\<close> holds of the caller's state that an error carries, \<open>Q\<close> of the
  loop variables of a success.
\<close>

definition leaves :: "('s \<Rightarrow> bool) \<Rightarrow> ('t \<Rightarrow> bool) \<Rightarrow> ('e \<times> 's) + 't \<times> decoder \<Rightarrow> bool" where
  "leaves P Q r \<longleftrightarrow> (case r of Inl (e, s) \<Rightarrow> P s | Inr (st, d) \<Rightarrow> Q st)"

lemma leaves_simps [simp]: "leaves P Q (Inl (e, s)) = P s" "leaves P Q (Inr (st, d)) = Q st"
  by (simp_all add: leaves_def)

lemma leavesD:
  "leaves P Q r \<Longrightarrow> r = Inl (e, s) \<Longrightarrow> P s"
  "leaves P Q r \<Longrightarrow> r = Inr (st, d) \<Longrightarrow> Q st"
  by simp_all

lemma leaves_cases:
  assumes "leaves P Q r"
  obtains e s where "r = Inl (e, s)" "P s" | st d where "r = Inr (st, d)" "Q st"
  using assms by (auto simp: leaves_def split: sum.splits)

lemma loop_leaves:
  assumes "consuming body" and "Q st" and step: "\<And>st d. Q st \<Longrightarrow> leaves P Q (body st d)"
  shows "leaves P Q (for_more body st d)"
proof -
  have "case for_more body st d of Inl e \<Rightarrow> P (snd e) | Inr (st', _) \<Rightarrow> Q st'"
    by (rule consuming.loop_outcome [OF assms(1), where P = Q, OF assms(2)])
       (use step in \<open>force simp: leaves_def split: sum.splits\<close>)+
  then show ?thesis by (auto simp: leaves_def split: sum.splits)
qed

definition clean_header :: "entry_header \<Rightarrow> bool" where
  "clean_header hdr \<longleftrightarrow> eh_path hdr = [] \<or> validate_entry_path (eh_path hdr) = Inr ()"

lemma clean_same_path: "eh_path h = eh_path h' \<Longrightarrow> clean_header h = clean_header h'"
  by (simp add: clean_header_def)

lemma clean_header_updates [simp]:
  "clean_header (h\<lparr>eh_counter := v\<rparr>) = clean_header h" "clean_header (h\<lparr>eh_kind := k\<rparr>) = clean_header h"
  "clean_header (h\<lparr>eh_hash := k\<rparr>) = clean_header h" "clean_header zero_entry_header"
  by (simp_all add: clean_header_def zero_entry_header_def)

text \<open>The offsets that a pages iterator yields have 64 bits.\<close>

definition pages_ok :: "page_iter option \<Rightarrow> bool" where
  "pages_ok it \<longleftrightarrow> (case it of None \<Rightarrow> True | Some ps \<Rightarrow> \<forall>p \<in> set (oks ps). int64 (mp_offset p))"

lemma into_int64_range: "into_int64 old j = Some i \<Longrightarrow> int64 old \<Longrightarrow> int64 i"
  by (auto simp: into_int64_def lit_int_def int64_def Let_def split: json.splits prod.splits if_splits)

lemma into_members_keeps:
  assumes "into_members b ns f ms s = Some s'" and "P s"
    and "\<And>n v s s'. P s \<Longrightarrow> f n v s = Some s' \<Longrightarrow> P s'"
  shows "P s'"
  using assms
proof (induction b ns f ms s rule: into_members.induct)
  case (2 b ns f k v ms s)
  show ?case
  proof (cases "find_field ns k")
    case None
    with 2 show ?thesis by (auto split: if_splits)
  next
    case (Some n)
    with "2.prems"(1) obtain s1 where s1: "f n v s = Some s1" "into_members b ns f ms s1 = Some s'"
      by (auto split: option.splits)
    show ?thesis
      by (rule "2.IH"(2) [OF Some s1]) (use "2.prems"(2,3) s1(1) in blast)+
  qed
qed simp

lemma into_struct_keeps:
  assumes "into_struct b ns f j s = Some s'" and "P s"
    and "\<And>n v s s'. P s \<Longrightarrow> f n v s = Some s' \<Longrightarrow> P s'"
  shows "P s'"
  using assms by (auto simp: into_struct_def split: json.splits intro: into_members_keeps [where P = P])

lemma into_man_page_range: "into_man_page j = Some p \<Longrightarrow> int64 (mp_offset p)"
  unfolding into_man_page_def
  by (rule into_struct_keeps [where P = "\<lambda>p. int64 (mp_offset p)"])
     (auto simp: store_man_page_def int64_def [of 0] map_option_case into_int64_range split: if_splits option.splits)

lemma oks_append: "oks (xs @ ys) = oks xs @ oks ys"
  by (simp add: oks_def)

lemma make_pages_ok: "make_pages_iter d = (it, r) \<Longrightarrow> pages_ok (Some it)"
proof -
  assume m: "make_pages_iter d = (it, r)"
  let ?ok = "\<lambda>it. \<forall>p \<in> set (oks it). int64 (mp_offset p)"
  have "case for_more man_page_element [] d of Inl e \<Rightarrow> ?ok (fst e) | Inr (it, _) \<Rightarrow> ?ok it"
    by (rule man_page_elem.loop_outcome [where P = ?ok])
       (auto simp: man_page_element_def oks_append into_man_page_range split: option.splits)
  with m show ?thesis by (auto simp: make_pages_iter_def pages_ok_def split: sum.splits)
qed

text \<open>
  The contract of a callback.  Given a header whose path is absent or accepted, and pages with 64-bit
  offsets, a success keeps the invariant \<open>P\<close> of its state and an error leaves at least \<open>E\<close>, which
  the invariant implies; and it does not change the path.
\<close>

locale entry_callback =
  fixes fn :: "('x, 's) processor" and P E :: "'s \<Rightarrow> bool"
  assumes keeps: "fn hdr it s = (Inr hdr', s') \<Longrightarrow> clean_header hdr \<Longrightarrow> pages_ok it \<Longrightarrow> P s \<Longrightarrow> P s'"
    and fails: "fn hdr it s = (Inl e, s') \<Longrightarrow> clean_header hdr \<Longrightarrow> pages_ok it \<Longrightarrow> P s \<Longrightarrow> E s'"
    and weaker: "P s \<Longrightarrow> E s"
    and path_kept: "fn hdr it s = (Inr hdr', s') \<Longrightarrow> eh_path hdr' = eh_path hdr"
begin

definition entry_inv :: "entry_header \<times> bool \<times> 's \<Rightarrow> bool" where
  "entry_inv st \<longleftrightarrow> clean_header (fst st) \<and> P (snd (snd st))"

lemma fn_clean: "fn hdr it s = (Inr hdr', s') \<Longrightarrow> clean_header hdr \<Longrightarrow> clean_header hdr'"
  using path_kept clean_same_path by metis

lemma entry_pages_leaves:
  assumes "clean_header hdr" and "P s"
  shows "leaves E entry_inv (entry_pages fn hdr s d)"
  using assms
  by (auto simp: entry_pages_def entry_inv_def Let_def
      split: sum.split prod.split option.split
      intro: weaker keeps [OF _ _ make_pages_ok] fails [OF _ _ make_pages_ok] fn_clean)

lemma entry_member_leaves:
  assumes "entry_inv st"
  shows "leaves E entry_inv (entry_member fn st d)"
proof -
  obtain hdr called s where st: "st = (hdr, called, s)" by (cases st)
  have "clean_header hdr" "P s" "E s" using assms weaker by (auto simp: entry_inv_def st)
  then show ?thesis
    unfolding st
    by (simp add: entry_member_def entry_pages_leaves split: option.split sum.split)
       (simp add: entry_inv_def clean_header_def)
qed

lemma stream_entry_leaves: "P s \<Longrightarrow> leaves E P (stream_entry fn s d)"
proof (cases "expect_delim lbrace d")
  case (Some d1)
  assume "P s"
  then have i: "entry_inv (zero_entry_header, False, s)" by (simp add: entry_inv_def)
  note loop = loop_leaves [OF entry_mem.consuming_axioms i entry_member_leaves, of d1]
  show ?thesis
  proof (cases "for_more (entry_member fn) (zero_entry_header, False, s) d1")
    case (Inl e)
    with Some loop show ?thesis by (cases e) (simp add: stream_entry_def)
  next
    case (Inr x)
    obtain hdr called s1 d2 where x: "x = ((hdr, called, s1), d2)" by (cases x) auto
    have h: "clean_header hdr" "P s1" "pages_ok None" using loop Inr x by (simp_all add: entry_inv_def pages_ok_def)
    have k: "P s2" if "fn hdr None s1 = (Inr h2, s2)" for h2 s2 using keeps [OF that h(1,3,2)] .
    have f: "E s2" if "fn hdr None s1 = (Inl e, s2)" for e s2 using fails [OF that h(1,3,2)] .
    obtain r s2 where fr: "(if called then (Inr hdr, s1) else fn hdr None s1) = (r, s2)" by fastforce
    have "if is_ok r then P s2 else E s2" using fr h(2) k f by (cases r) (auto split: if_splits)
    with Some Inr x fr weaker show ?thesis
      by (cases "expect_delim rbrace d2"; cases r) (simp_all add: stream_entry_def h(2))
  qed
qed (simp add: stream_entry_def weaker)

lemma stream_entries_leaves:
  assumes "P s"
  shows "leaves E P (stream_entries fn s d)"
proof -
  have "leaves E P (for_more (stream_entry fn) s d1)" for d1
    by (rule loop_leaves [where Q = P, OF entries_elem.consuming_axioms assms stream_entry_leaves])
  with assms show ?thesis
    by (auto simp: stream_entries_def weaker split: option.split sum.split prod.split dest: leavesD intro: weaker)
qed

lemma manifest_member_leaves:
  assumes "P (snd st)"
  shows "leaves E (\<lambda>st. P (snd st)) (manifest_member fn st d)"
proof -
  obtain hdr s where st: "st = (hdr, s)" by (cases st)
  have e: "leaves E P (stream_entries fn s d1)" for d1 using assms st by (simp add: stream_entries_leaves)
  have "leaves E (\<lambda>st. P (snd st)) (case stream_entries fn s d1 of
      Inl e \<Rightarrow> Inl e | Inr (s1, d2) \<Rightarrow> Inr ((hdr, s1), d2))" for d1
    using e [of d1] by (cases "stream_entries fn s d1") auto
  with assms show ?thesis unfolding st by (simp add: manifest_member_def weaker split: option.split)
qed

lemma stream_manifest_keeps:
  assumes "P s" and "stream_manifest fn s d = (r, s')"
  shows "if is_ok r then P s' else E s'"
proof -
  have loop: "leaves E (\<lambda>st. P (snd st)) (for_more (manifest_member fn) (zero_man_header, s) d1)" for d1
    by (rule loop_leaves [where Q = "\<lambda>st. P (snd st)", OF manifest_mem.consuming_axioms])
       (simp_all add: assms manifest_member_leaves)
  have body: "if is_ok r then P s' else E s'"
    if "(case for_more (manifest_member fn) (zero_man_header, s) d1 of
      Inl (e, s1) \<Rightarrow> (Inl e, s1)
    | Inr ((hdr, s1), d2) \<Rightarrow>
        (case expect_delim rbrace d2 of None \<Rightarrow> (Inl decode_failed, s1) | Some _ \<Rightarrow> (Inr hdr, s1))) = (r, s')" for d1
    by (rule leaves_cases [OF loop [of d1]]) (use that in \<open>auto simp: weaker split: option.splits\<close>)
  show ?thesis
    using assms body by (auto simp: stream_manifest_def weaker split: option.splits)
qed

end

end
