(* ===== verification/Staging.thy ===== *)
theory Staging
  imports Os Sha256
begin

text \<open>
  Package \<open>internal/staging\<close>: the staging directory of an apply run.
  It holds the sentinel file \<open>plan-hash\<close>, one empty file per finished task under \<open>markers/\<close>
  (named by the SHA-256 of the task's identifier), and the shadow copies under \<open>shadows/\<close>.
  The definitions follow staging.go, marker.go and shadow.go call by call.  The locale
  \<open>marker_store\<close> is the contract the apply loop relies on.
\<close>

section \<open>staging.go\<close>

definition ensure_subdirs :: "string \<Rightarrow> unit io" where
  "ensure_subdirs path w =
     (case mkdir_all (go_join [path, ''markers'']) w of
        (Inl e, w1) \<Rightarrow> (Inl e, w1)
      | (Inr _, w1) \<Rightarrow> mkdir_all (go_join [path, ''shadows'']) w1)"

definition plan_hash_file :: "string \<Rightarrow> string" where
  "plan_hash_file path = go_join [path, ''plan-hash'']"

text \<open>The part of \<open>CreateOrResume\<close> that starts from an empty directory.\<close>

definition create_fresh :: "string \<Rightarrow> string \<Rightarrow> (string \<times> bool) io" where
  "create_fresh path planHash w =
     (case mkdir_all path w of
        (Inl e, w1) \<Rightarrow> (Inl e, w1)
      | (Inr _, w1) \<Rightarrow>
          (case write_file (plan_hash_file path) planHash w1 of
             (Inl e, w2) \<Rightarrow> (Inl e, w2)
           | (Inr _, w2) \<Rightarrow>
               (case ensure_subdirs path w2 of
                  (Inl e, w3) \<Rightarrow> (Inl e, w3)
                | (Inr _, w3) \<Rightarrow> (Inr (path, False), w3))))"

definition create_or_resume :: "string \<Rightarrow> string \<Rightarrow> (string \<times> bool) io" where
  "create_or_resume path planHash w =
     (case os_stat path w of
        (Inl _, w1) \<Rightarrow> create_fresh path planHash w1
      | (Inr _, w1) \<Rightarrow>
          (case read_file (plan_hash_file path) w1 of
             (Inr dat, w2) \<Rightarrow>
               if dat = planHash then
                 (case ensure_subdirs path w2 of
                    (Inl e, w3) \<Rightarrow> (Inl e, w3)
                  | (Inr _, w3) \<Rightarrow> (Inr (path, True), w3))
               else
                 (case remove_all path w2 of
                    (Inl e, w3) \<Rightarrow> (Inl e, w3)
                  | (Inr _, w3) \<Rightarrow> create_fresh path planHash w3)
           | (Inl _, w2) \<Rightarrow>
               (case remove_all path w2 of
                  (Inl e, w3) \<Rightarrow> (Inl e, w3)
                | (Inr _, w3) \<Rightarrow> create_fresh path planHash w3)))"

section \<open>marker.go\<close>

definition marker_name :: "string \<Rightarrow> string" where
  "marker_name identifier = sha256_hex identifier"

definition marker_path :: "string \<Rightarrow> string \<Rightarrow> string" where
  "marker_path stagingDir identifier = go_join [stagingDir, ''markers'', marker_name identifier]"

definition write_marker :: "string \<Rightarrow> string \<Rightarrow> unit io" where
  "write_marker stagingDir identifier w =
     (case mkdir_all (go_join [stagingDir, ''markers'']) w of
        (Inl e, w1) \<Rightarrow> (Inl e, w1)
      | (Inr _, w1) \<Rightarrow>
          (case open_trunc (marker_path stagingDir identifier) w1 of
             (Inl e, w2) \<Rightarrow> (Inl e, w2)
           | (Inr _, w2) \<Rightarrow> os_noop w2))"

definition marker_exists :: "string \<Rightarrow> string \<Rightarrow> os \<Rightarrow> bool \<times> os" where
  "marker_exists stagingDir identifier w =
     (case os_stat (marker_path stagingDir identifier) w of
        (Inl _, w1) \<Rightarrow> (False, w1)
      | (Inr _, w1) \<Rightarrow> (True, w1))"

section \<open>shadow.go\<close>

definition copy_file :: "string \<Rightarrow> string \<Rightarrow> unit io" where
  "copy_file src dst w =
     (case open_read src w of
        (Inl e, w1) \<Rightarrow> (Inl e, w1)
      | (Inr i, w1) \<Rightarrow>
          (case open_trunc dst w1 of
             (Inl e, w2) \<Rightarrow> (Inl e, w2)
           | (Inr j, w2) \<Rightarrow>
               (case copy_ino i j w2 of
                  (Inl e, w3) \<Rightarrow> (Inl e, w3)
                | (Inr _, w3) \<Rightarrow> os_noop w3)))"

definition shadow_dest :: "string \<Rightarrow> string \<Rightarrow> string" where
  "shadow_dest stagingDir planRelPath = go_join [stagingDir, ''shadows'', planRelPath]"

definition take_shadow :: "string \<Rightarrow> string \<Rightarrow> string \<Rightarrow> bool list \<Rightarrow> unit io" where
  "take_shadow livePath stagingDir planRelPath isAbsent w =
     (if isAbsent \<noteq> [] \<and> hd isAbsent then (Inr (), w)
      else let dest = shadow_dest stagingDir planRelPath in
        case mkdir_all (go_dir dest) w of
          (Inl e, w1) \<Rightarrow> (Inl e, w1)
        | (Inr _, w1) \<Rightarrow>
            (case os_link livePath dest w1 of
               (Inr _, w2) \<Rightarrow> (Inr (), w2)
             | (Inl _, w2) \<Rightarrow> copy_file livePath dest w2))"

section \<open>What the calls do to contents and names\<close>

lemma mkdir_all_store [os_frame]:
  "store (snd (mkdir_all p w)) = store w \<and> next_ino (snd (mkdir_all p w)) = next_ino w"
  unfolding mkdir_all_def by (rule syscall_frame) (auto simp: mk_dirs_def)

lemma mk_dirs_file:
  assumes "\<And>q. q \<in> set ps \<Longrightarrow> node_at w q = None \<or> node_at w q = Some DirN"
  shows "node_at (mk_dirs ps w) q = Some (FileN i) \<longleftrightarrow> node_at w q = Some (FileN i)"
  using assms [of q] by (auto simp: mk_dirs_def node_at_def)

text \<open>\<open>MkdirAll\<close> neither creates, changes nor removes a file.\<close>

lemma mkdir_all_file [os_frame]:
  "node_at (snd (mkdir_all p w)) q = Some (FileN i) \<longleftrightarrow> node_at w q = Some (FileN i)"
  unfolding mkdir_all_def
proof (rule syscall_frame)
  fix k ns
  have "node_at (mk_dirs (filter (\<lambda>q. ns q \<and> node_at (tick w) q = None) (ancestors p)) (tick w)) q = Some (FileN i)
      \<longleftrightarrow> node_at (tick w) q = Some (FileN i)"
    by (rule mk_dirs_file) auto
  then show "node_at (mk_dirs (filter (\<lambda>q. ns q \<and> node_at (tick w) q = None) (ancestors p)) (tick w)) q = Some (FileN i)
      \<longleftrightarrow> node_at w q = Some (FileN i)" by simp
next
  have "list_all (\<lambda>q. node_at (tick w) q = None \<or> is_dir (tick w) q) (ancestors p) \<Longrightarrow>
      node_at (mk_dirs (ancestors p) (tick w)) q = Some (FileN i) \<longleftrightarrow> node_at (tick w) q = Some (FileN i)"
    by (rule mk_dirs_file) (auto simp: list_all_iff is_dir_def)
  then show "node_at (snd (if list_all (\<lambda>q. node_at (tick w) q = None \<or> is_dir (tick w) q) (ancestors p)
           then (Inr (), mk_dirs (ancestors p) (tick w)) else (Inl BadOp, tick w))) q = Some (FileN i) \<longleftrightarrow>
        node_at w q = Some (FileN i)"
    by simp
qed

lemma mkdir_all_data [os_frame]: "file_data (snd (mkdir_all p w)) q = file_data w q"
proof -
  have "file_data (snd (mkdir_all p w)) q = Some d \<longleftrightarrow> file_data w q = Some d" for d
    by (simp add: file_data_Some_iff mkdir_all_file mkdir_all_store)
  then show ?thesis by (metis option.exhaust)
qed

lemma self_in_ancestors: "p \<in> set (ancestors p)"
  by (simp add: ancestors_def)

lemma mkdir_all_Inr_dir: "mkdir_all p w = (Inr u, w') \<Longrightarrow> is_dir w' p"
  unfolding mkdir_all_def
  by (drule syscall_Inr)
     (auto simp: mk_dirs_def is_dir_def node_at_def self_in_ancestors split: if_splits)

lemma mkdir_all_keeps_node: "node_at w q \<noteq> None \<Longrightarrow> node_at (snd (mkdir_all p w)) q \<noteq> None"
  unfolding mkdir_all_def
  by (rule syscall_frame) (auto simp: mk_dirs_def node_at_def)

lemma open_trunc_Inr:
  assumes "open_trunc p w = (Inr i, w')"
  shows "node_at w' p = Some (FileN i)" "store w' i = []"
    "q \<noteq> p \<Longrightarrow> names w' q = names w q"
    "j \<noteq> i \<Longrightarrow> store w' j = store w j"
  using syscall_Inr [OF assms [unfolded open_trunc_def]]
  by (auto simp: node_at_def new_file_def split: option.splits node.splits if_splits)

lemma append_ino_names [os_frame]: "names (snd (append_ino i d w)) = names w"
  unfolding append_ino_def by (rule syscall_frame) auto

lemma append_ino_store [os_frame]: "j \<noteq> i \<Longrightarrow> store (snd (append_ino i d w)) j = store w j"
  unfolding append_ino_def by (rule syscall_frame) auto

lemma append_ino_Inr: "append_ino i d w = (Inr u, w') \<Longrightarrow> store w' i = store w i @ d"
  unfolding append_ino_def by (drule syscall_Inr) auto

lemma open_excl_Inr:
  assumes "open_excl p w = (Inr i, w')"
  shows "i = next_ino w" and "names w' p = Some (FileN i)" and "store w' i = []" and "node_at w p = None"
    and "q \<noteq> p \<Longrightarrow> names w' q = names w q" and "j \<noteq> i \<Longrightarrow> store w' j = store w j"
  using syscall_Inr [OF assms [unfolded open_excl_def]]
  by (auto simp: new_file_def split: option.splits if_splits)

lemma os_remove_frame:
  "store (snd (os_remove p w)) = store w \<and> (q \<noteq> p \<longrightarrow> names (snd (os_remove p w)) q = names w q)"
  unfolding os_remove_def by (rule syscall_frame) (auto split: option.splits node.splits)

lemma write_file_Inr:
  assumes "write_file p d w = (Inr u, w')"
  shows "file_data w' p = Some d"
proof -
  obtain i w1 where o: "open_trunc p w = (Inr i, w1)" and a: "append_ino i d w1 = (Inr u, w')"
    using assms by (auto simp: write_file_def split: prod.splits sum.splits)
  have "store w' i = d" using append_ino_Inr [OF a] open_trunc_Inr(2) [OF o] by simp
  moreover have "node_at w' p = Some (FileN i)"
    using open_trunc_Inr(1) [OF o] append_ino_names [of i d w1] a by (auto simp: node_at_def)
  ultimately show ?thesis by (auto simp: file_data_Some_iff)
qed

lemma marker_exists_fs [os_frame]: "fs (snd (marker_exists d i w)) = fs w"
  using os_stat_fs [of "marker_path d i" w]
  by (cases "os_stat (marker_path d i) w") (auto simp: marker_exists_def split: sum.splits)

definition has_marker :: "string \<Rightarrow> os \<Rightarrow> string \<Rightarrow> bool" where
  "has_marker d w i \<longleftrightarrow> node_at w (marker_path d i) \<noteq> None"

lemma marker_exists_quiet [os_simps]:
  "quiet w \<Longrightarrow> marker_exists d i w = (has_marker d w i, tick w)"
  by (auto simp: marker_exists_def os_stat_quiet has_marker_def split: option.splits)

lemma marker_exists_sound: "marker_exists d i w = (True, w') \<Longrightarrow> has_marker d w i"
  by (auto simp: marker_exists_def has_marker_def split: prod.splits sum.splits dest: os_stat_Inr)

lemma write_marker_Inr:
  assumes "write_marker d i w = (Inr u, w')"
  shows "has_marker d w' i" and "has_marker d w j \<Longrightarrow> has_marker d w' j"
proof -
  obtain v w1 k w2 where m: "mkdir_all (go_join [d, ''markers'']) w = (Inr v, w1)"
    and o: "open_trunc (marker_path d i) w1 = (Inr k, w2)" and n: "os_noop w2 = (Inr u, w')"
    using assms by (auto simp: write_marker_def split: prod.splits sum.splits)
  have f: "fs w' = fs w2" using os_noop_fs [of w2] n by simp
  show "has_marker d w' i"
    using open_trunc_Inr(1) [OF o] fs_node_at [OF f] by (simp add: has_marker_def)
  assume "has_marker d w j"
  then have 1: "node_at w1 (marker_path d j) \<noteq> None"
    using mkdir_all_keeps_node [of w "marker_path d j" "go_join [d, ''markers'']"] m
    by (simp add: has_marker_def)
  show "has_marker d w' j"
  proof (cases "marker_path d j = marker_path d i")
    case True
    then show ?thesis using open_trunc_Inr(1) [OF o] fs_node_at [OF f] by (simp add: has_marker_def)
  next
    case False
    then have "node_at w2 (marker_path d j) = node_at w1 (marker_path d j)"
      using open_trunc_Inr(3) [OF o] by (simp add: node_at_def)
    with 1 show ?thesis using fs_node_at [OF f] by (simp add: has_marker_def)
  qed
qed

section \<open>The contract of the marker store\<close>

text \<open>
  What the apply loop needs of the markers: a successful mark is seen, and no mark is lost.
  Hence marking never makes a finished task pending again, on which resuming a run rests.
\<close>

locale marker_store =
  fixes marked :: "'w \<Rightarrow> string \<Rightarrow> bool"
    and mark :: "string \<Rightarrow> 'w \<Rightarrow> ('e + unit) \<times> 'w"
  assumes mark_sets: "mark i w = (Inr u, w') \<Longrightarrow> marked w' i"
    and mark_keeps: "mark i w = (Inr u, w') \<Longrightarrow> marked w j \<Longrightarrow> marked w' j"
begin

lemma pending_shrinks:
  assumes "mark i w = (Inr u, w')"
  shows "set (filter (\<lambda>j. \<not> marked w' j) ids) \<subseteq> set (filter (\<lambda>j. \<not> marked w j) ids) - {i}"
  using mark_sets [OF assms] mark_keeps [OF assms] by auto

lemma pending_decreases:
  assumes "mark i w = (Inr u, w')" and "i \<in> set ids" and "\<not> marked w i"
  shows "length (filter (\<lambda>j. \<not> marked w' j) ids) < length (filter (\<lambda>j. \<not> marked w j) ids)"
proof -
  have sub: "filter (\<lambda>j. \<not> marked w' j) ids = filter (\<lambda>j. \<not> marked w' j) (filter (\<lambda>j. \<not> marked w j) ids)"
    using mark_keeps [OF assms(1)] by (auto simp: filter_filter intro: filter_cong)
  have "i \<in> set (filter (\<lambda>j. \<not> marked w j) ids)" and "\<not> \<not> marked w' i"
    using assms mark_sets [OF assms(1)] by auto
  then have "length (filter (\<lambda>j. \<not> marked w' j) (filter (\<lambda>j. \<not> marked w j) ids))
      < length (filter (\<lambda>j. \<not> marked w j) ids)"
    by (rule length_filter_less)
  with sub show ?thesis by simp
qed

end

interpretation markers: marker_store "has_marker d" "write_marker d"
  by unfold_locales (auto dest: write_marker_Inr)

section \<open>Shadows\<close>

lemma mkdir_all_wf: "wf_os w \<Longrightarrow> wf_os (snd (mkdir_all p w))"
  using mkdir_all_store [of p w]
  unfolding mkdir_all_def wf_os_def
  by (intro syscall_frame [where P = "\<lambda>w'. \<forall>q i. names w' q = Some (FileN i) \<longrightarrow> i < next_ino w'"])
     (auto simp: mk_dirs_def split: if_splits)

lemma os_link_Inr:
  assumes "os_link a b w = (Inr u, w')"
  shows "\<exists>i. names w a = Some (FileN i) \<and> names w' b = Some (FileN i)"
    and "store w' = store w" and "q \<noteq> b \<Longrightarrow> names w' q = names w q" and "node_at w b = None"
  using syscall_Inr [OF assms [unfolded os_link_def]]
  by (auto split: option.splits node.splits if_splits)

lemma os_link_Inl_fs: "os_link a b w = (Inl e, w') \<Longrightarrow> fs w' = fs w"
  unfolding os_link_def
  by (drule syscall_Inl) (auto split: option.splits node.splits if_splits simp: fs_def)

lemma open_read_Inr:
  "open_read p w = (Inr i, w') \<Longrightarrow> node_at w p = Some (FileN i) \<and> fs w' = fs w"
  using open_read_fs [of p w] unfolding open_read_def
  by (auto dest!: syscall_Inr split: option.splits node.splits)

lemma copy_ino_Inr:
  "copy_ino i j w = (Inr u, w') \<Longrightarrow>
   names w' = names w \<and> store w' j = store w j @ store w i \<and> (\<forall>k. k \<noteq> j \<longrightarrow> store w' k = store w k)"
  unfolding copy_ino_def by (drule syscall_Inr) auto

lemma open_trunc_fresh:
  assumes "open_trunc p w = (Inr i, w')" and "node_at w p = None"
  shows "i = next_ino w"
  using syscall_Inr [OF assms(1) [unfolded open_trunc_def]] assms(2)
  by (auto simp: new_file_def split: if_splits)

lemma copy_file_faithful:
  assumes "copy_file a b w = (Inr u, w')" and "wf_os w" and "node_at w b = None"
  shows "file_data w' b = file_data w a" and "file_data w' a = file_data w a"
proof -
  obtain i w1 j w2 v w3 where r: "open_read a w = (Inr i, w1)" and o: "open_trunc b w1 = (Inr j, w2)"
    and c: "copy_ino i j w2 = (Inr v, w3)" and n: "os_noop w3 = (Inr u, w')"
    using assms(1) by (auto simp: copy_file_def split: prod.splits sum.splits)
  have a: "node_at w a = Some (FileN i)" and f1: "fs w1 = fs w" using open_read_Inr [OF r] by auto
  have fn: "fs w' = fs w3" using os_noop_fs [of w3] n by simp
  have j: "j = next_ino w"
    using open_trunc_fresh [OF o] assms(3) fs_node_at [OF f1] f1 by (simp add: fs_iff)
  have "names w a = Some (FileN i)" using a by (auto simp: node_at_def split: if_splits)
  with assms(2) j have ij: "i \<noteq> j" by (auto simp: wf_os_def)
  have ab: "a \<noteq> b" using a assms(3) by auto
  have s2: "store w2 j = []" "store w2 i = store w1 i" using open_trunc_Inr [OF o] ij by auto
  have s3: "store w3 j = store w i" "store w3 i = store w i"
    using copy_ino_Inr [OF c] s2 ij f1 by (auto simp: fs_iff)
  have nb: "node_at w3 b = Some (FileN j)"
    using open_trunc_Inr(1) [OF o] copy_ino_Inr [OF c] by (auto simp: node_at_def)
  have na: "node_at w3 a = Some (FileN i)"
    using open_trunc_Inr(3) [OF o, of a] copy_ino_Inr [OF c] ab a f1 by (auto simp: node_at_def fs_iff)
  show "file_data w' b = file_data w a"
    using nb s3(1) a fs_file_data [OF fn, of b] by (simp add: file_data_def)
  show "file_data w' a = file_data w a"
    using na s3(2) a fs_file_data [OF fn, of a] by (simp add: file_data_def)
qed

text \<open>A shadow that was taken holds the live file's contents, whichever way it was made.\<close>

lemma take_shadow_faithful:
  assumes "take_shadow live d rel [] w = (Inr u, w')" and "wf_os w"
    and "node_at (snd (mkdir_all (go_dir (shadow_dest d rel)) w)) (shadow_dest d rel) = None"
    and "live \<noteq> ''/''" and "live \<noteq> ''.''"
  shows "file_data w' (shadow_dest d rel) = file_data w live \<and> file_data w' live = file_data w live"
proof -
  let ?d = "shadow_dest d rel"
  obtain v w1 where m: "mkdir_all (go_dir ?d) w = (Inr v, w1)"
    using assms(1) by (auto simp: take_shadow_def Let_def split: prod.splits sum.splits)
  have fd: "file_data w1 live = file_data w live"
    using mkdir_all_data [of "go_dir ?d" w live] m by simp
  have wf1: "wf_os w1" using mkdir_all_wf [OF assms(2), of "go_dir ?d"] m by simp
  have none: "node_at w1 ?d = None" using assms(3) m by simp
  obtain r w2 where l: "os_link live ?d w1 = (r, w2)" by fastforce
  show ?thesis
  proof (cases r)
    case (Inr x)
    with assms(1) m l have w': "w' = w2" by (simp add: take_shadow_def)
    note li = os_link_Inr [OF l [unfolded Inr]]
    obtain i where i: "names w1 live = Some (FileN i)" "names w2 ?d = Some (FileN i)" using li(1) by blast
    have d: "?d \<noteq> ''/''" "?d \<noteq> ''.''" using none by (auto simp: node_at_def split: if_splits)
    have "live \<noteq> ?d" using i none d by (auto simp: node_at_def)
    then have "names w2 live = Some (FileN i)" using li(3) [of live] i by simp
    with i d li(2) assms(4,5) show ?thesis
      unfolding w' fd [symmetric] by (simp add: file_data_def node_at_def)
  next
    case (Inl e)
    with assms(1) m l have c: "copy_file live ?d w2 = (Inr u, w')" by (simp add: take_shadow_def)
    have f: "fs w2 = fs w1" using os_link_Inl_fs [OF l [unfolded Inl]] .
    have "wf_os w2" using wf1 f by (simp add: wf_os_def fs_iff)
    from copy_file_faithful [OF c this] none fs_node_at [OF f, of ?d]
    have "file_data w' ?d = file_data w2 live" "file_data w' live = file_data w2 live" by simp_all
    with fs_file_data [OF f, of live] fd show ?thesis by simp
  qed
qed

text \<open>When the link succeeds the two names are one inode.\<close>

lemma take_shadow_links:
  assumes "take_shadow live d rel [] w = (Inr u, w')" and "quiet w" 
    and "names w live = Some (FileN i)" and "live \<noteq> ''/''" and "live \<noteq> ''.''"
    and "node_at (snd (mkdir_all (go_dir (shadow_dest d rel)) w)) (shadow_dest d rel) = None"
  shows "names w' (shadow_dest d rel) = Some (FileN i) \<and> names w' live = Some (FileN i) \<and> store w' = store w"
proof -
  let ?d = "shadow_dest d rel"
  obtain v w1 where m: "mkdir_all (go_dir ?d) w = (Inr v, w1)"
    using assms(1) by (auto simp: take_shadow_def Let_def split: prod.splits sum.splits)
  have q1: "quiet w1"
    using m assms(2) by (auto simp: mkdir_all_def syscall_quiet mk_dirs_def quiet_def split: if_splits)
  have live1: "names w1 live = Some (FileN i)"
    using mkdir_all_file [of "go_dir ?d" w live i] m assms(3,4,5) by (simp add: node_at_def)
  have none: "node_at w1 ?d = None" using assms(6) m by simp
  have dir: "is_dir w1 (go_dir ?d)" using mkdir_all_Inr_dir [OF m] .
  have st: "store w1 = store w" using mkdir_all_store [of "go_dir ?d" w] m by simp
  have "os_link live ?d w1 = (Inr (), (tick w1)\<lparr>names := (names w1)(?d := Some (FileN i))\<rparr>)"
    using q1 live1 none dir by (simp add: os_link_def syscall_quiet)
  with assms(1) m have "w' = (tick w1)\<lparr>names := (names w1)(?d := Some (FileN i))\<rparr>"
    by (simp add: take_shadow_def)
  with live1 st show ?thesis by simp
qed

end
