(* ===== verification/Rollback.thy ===== *)
theory Rollback
  imports Os
begin

text \<open>
  Package \<open>internal/rollback\<close>: restoring live files from their shadow copies.
  \<open>rollback_loop\<close> is the loop of \<open>Rollback\<close> over the reversed list; it collects the live paths
  whose rename failed.  The lemmas state what a run leaves alone and, for pairwise distinct paths,
  that a completed run has put the shadow's file under every taken live name.
\<close>

record shadow =
  shadow_path :: string
  live_path :: string
  taken :: bool

datatype rollback_status = ResultCompleted | ResultFailed

record rollback_result =
  rb_status :: rollback_status
  failed_paths :: "string list"

fun rollback_loop :: "shadow list \<Rightarrow> string list \<Rightarrow> os \<Rightarrow> string list \<times> os" where
  "rollback_loop [] failed w = (failed, w)"
| "rollback_loop (s # ss) failed w =
     (if \<not> taken s then rollback_loop ss failed w
      else case os_rename (shadow_path s) (live_path s) w of
             (Inl _, w1) \<Rightarrow> rollback_loop ss (failed @ [live_path s]) w1
           | (Inr _, w1) \<Rightarrow> rollback_loop ss failed w1)"

definition rollback :: "shadow list \<Rightarrow> os \<Rightarrow> rollback_result \<times> os" where
  "rollback ss w =
     (let (failed, w1) = rollback_loop (rev ss) [] w in
      if failed \<noteq> [] then (\<lparr>rb_status = ResultFailed, failed_paths = failed\<rparr>, w1)
      else (\<lparr>rb_status = ResultCompleted, failed_paths = []\<rparr>, w1))"

section \<open>Renames\<close>

lemma os_rename_store [os_frame]:
  "store (snd (os_rename a b w)) = store w \<and> next_ino (snd (os_rename a b w)) = next_ino w"
  unfolding os_rename_def
  by (rule syscall_frame) (auto split: option.splits node.splits)

lemma os_rename_names [os_frame]:
  "q \<noteq> a \<Longrightarrow> q \<noteq> b \<Longrightarrow> names (snd (os_rename a b w)) q = names w q"
  unfolding os_rename_def
  by (rule syscall_frame) (auto split: option.splits node.splits)

lemma os_rename_Inr_names:
  assumes "os_rename a b w = (Inr u, w')"
  shows "\<exists>i. names w a = Some (FileN i) \<and> node_at w' b = Some (FileN i)"
  using syscall_Inr [OF assms [unfolded os_rename_def]]
  by (auto simp: node_at_def split: option.splits node.splits if_splits)

lemma os_rename_Inr_data:
  assumes "os_rename a b w = (Inr u, w')" and "a \<noteq> ''/''" and "a \<noteq> ''.''"
  shows "file_data w' b = file_data w a \<and> file_data w a \<noteq> None"
proof -
  obtain i where i: "names w a = Some (FileN i)" "node_at w' b = Some (FileN i)"
    using os_rename_Inr_names [OF assms(1)] by blast
  moreover have "store w' = store w" using os_rename_store [of a b w] assms(1) by simp
  ultimately show ?thesis using assms(2,3) by (auto simp: file_data_def node_at_def)
qed

section \<open>The loop\<close>

lemma rollback_loop_store:
  "rollback_loop ss failed w = (failed', w') \<Longrightarrow> store w' = store w \<and> next_ino w' = next_ino w"
proof (induction ss arbitrary: failed w)
  case (Cons s ss)
  show ?case
  proof (cases "taken s")
    case False
    with Cons show ?thesis by simp
  next
    case True
    obtain r w1 where rw: "os_rename (shadow_path s) (live_path s) w = (r, w1)" by fastforce
    with os_rename_store [of "shadow_path s" "live_path s" w]
    have "store w1 = store w \<and> next_ino w1 = next_ino w" by simp
    with Cons True rw show ?thesis by (cases r) fastforce+
  qed
qed simp

lemma rollback_loop_names:
  "rollback_loop ss failed w = (failed', w') \<Longrightarrow>
   (\<And>s. s \<in> set ss \<Longrightarrow> taken s \<Longrightarrow> q \<noteq> shadow_path s \<and> q \<noteq> live_path s) \<Longrightarrow>
   names w' q = names w q"
proof (induction ss arbitrary: failed w)
  case (Cons s ss)
  show ?case
  proof (cases "taken s")
    case False
    with Cons show ?thesis by simp
  next
    case True
    obtain r w1 where rw: "os_rename (shadow_path s) (live_path s) w = (r, w1)" by fastforce
    then have "names w1 q = names w q"
      using os_rename_names [of q "shadow_path s" "live_path s" w] Cons.prems(2) [of s] True by simp
    with Cons True rw show ?thesis by (cases r) (fastforce)+
  qed
qed simp

lemma rollback_loop_failed_mono:
  "rollback_loop ss failed w = (failed', w') \<Longrightarrow> \<exists>xs. failed' = failed @ xs"
proof (induction ss arbitrary: failed w)
  case (Cons s ss)
  then show ?case
    by (fastforce split: if_splits prod.splits sum.splits)
qed simp

text \<open>Paths of the taken shadows: pairwise distinct and none of them the root.\<close>

definition shadow_paths :: "shadow list \<Rightarrow> string list" where
  "shadow_paths ss = concat (map (\<lambda>s. if taken s then [shadow_path s, live_path s] else []) ss)"

definition shadows_ok :: "shadow list \<Rightarrow> bool" where
  "shadows_ok ss \<longleftrightarrow> distinct (shadow_paths ss) \<and> ''/'' \<notin> set (shadow_paths ss) \<and> ''.'' \<notin> set (shadow_paths ss)"

lemma in_shadow_paths: "s \<in> set ss \<Longrightarrow> taken s \<Longrightarrow> shadow_path s \<in> set (shadow_paths ss) \<and> live_path s \<in> set (shadow_paths ss)"
  by (auto simp: shadow_paths_def)

lemma shadow_paths_rev_set: "set (shadow_paths (rev ss)) = set (shadow_paths ss)"
  by (auto simp: shadow_paths_def)

lemma shadow_paths_append: "shadow_paths (as @ bs) = shadow_paths as @ shadow_paths bs"
  by (simp add: shadow_paths_def)

lemma distinct_shadow_paths_rev: "distinct (shadow_paths (rev ss)) = distinct (shadow_paths ss)"
proof (induction ss)
  case (Cons s ss)
  have "shadow_paths (rev (s # ss)) = shadow_paths (rev ss) @ shadow_paths [s]"
    by (simp add: shadow_paths_append)
  moreover have "shadow_paths (s # ss) = shadow_paths [s] @ shadow_paths ss"
    by (simp add: shadow_paths_def)
  ultimately show ?case using Cons by (auto simp: shadow_paths_rev_set)
qed simp

lemma shadows_ok_rev: "shadows_ok (rev ss) = shadows_ok ss"
  by (simp add: shadows_ok_def distinct_shadow_paths_rev shadow_paths_rev_set)

lemma rollback_loop_restores:
  assumes "rollback_loop ss [] w = ([], w')" and "shadows_ok ss" and "s \<in> set ss" and "taken s"
  shows "names w' (live_path s) = names w (shadow_path s) \<and> file_data w (shadow_path s) \<noteq> None"
  using assms
proof (induction ss arbitrary: w)
  case (Cons x ss)
  have ok: "shadows_ok ss" using Cons.prems(2) by (auto simp: shadows_ok_def shadow_paths_def split: if_splits)
  show ?case
  proof (cases "taken x")
    case False
    with Cons ok show ?thesis by auto
  next
    case True
    obtain r w1 where rw: "os_rename (shadow_path x) (live_path x) w = (r, w1)" by fastforce
    have "\<exists>u. r = Inr u"
    proof (cases r)
      case (Inl e)
      with Cons.prems(1) True rw have "rollback_loop ss [live_path x] w1 = ([], w')" by simp
      from rollback_loop_failed_mono [OF this] show ?thesis by simp
    qed simp
    then obtain u where rw: "os_rename (shadow_path x) (live_path x) w = (Inr u, w1)" using rw by blast
    then have rest: "rollback_loop ss [] w1 = ([], w')" using Cons.prems(1) True by simp
    have sp: "shadow_path x \<noteq> ''/''" "shadow_path x \<noteq> ''.''" "live_path x \<noteq> ''/''" "live_path x \<noteq> ''.''"
      using Cons.prems(2) True by (auto simp: shadows_ok_def shadow_paths_def)
    have notin: "shadow_path x \<notin> set (shadow_paths ss)" "live_path x \<notin> set (shadow_paths ss)"
      using Cons.prems(2) True by (auto simp: shadows_ok_def shadow_paths_def)
    show ?thesis
    proof (cases "s = x")
      case True
      have "names w' (live_path x) = names w1 (live_path x)"
        using rest by (rule rollback_loop_names) (use notin in_shadow_paths in fastforce)
      moreover have "names w1 (live_path x) = names w (shadow_path x)"
        using os_rename_Inr_names [OF rw] sp by (auto simp: node_at_file)
      moreover have "file_data w (shadow_path x) \<noteq> None"
        using os_rename_Inr_data [OF rw sp(1,2)] by simp
      ultimately show ?thesis using True by simp
    next
      case False
      with Cons.prems have s: "s \<in> set ss" by simp
      have ih: "names w' (live_path s) = names w1 (shadow_path s) \<and> file_data w1 (shadow_path s) \<noteq> None"
        using Cons.IH [OF rest ok s] Cons.prems(4) .
      have ne: "shadow_path s \<noteq> shadow_path x" "shadow_path s \<noteq> live_path x"
        using notin in_shadow_paths [OF s Cons.prems(4)] by auto
      have n1: "names w1 (shadow_path s) = names w (shadow_path s)" and "store w1 = store w"
        using os_rename_names [of "shadow_path s" "shadow_path x" "live_path x" w]
          os_rename_store [of "shadow_path x" "live_path x" w] ne rw by simp_all
      then have "file_data w1 (shadow_path s) = file_data w (shadow_path s)"
        by (intro file_data_eqI) (simp_all add: node_at_def)
      with ih n1 show ?thesis by simp
    qed
  qed
qed simp

section \<open>Rollback\<close>

lemma rollback_completed_iff:
  "rb_status (fst (rollback ss w)) = ResultCompleted \<longleftrightarrow> failed_paths (fst (rollback ss w)) = []"
  by (cases "rollback_loop (rev ss) [] w") (simp add: rollback_def)

lemma rollback_store: "store (snd (rollback ss w)) = store w"
  using rollback_loop_store [of "rev ss" "[]" w]
  by (cases "rollback_loop (rev ss) [] w") (simp add: rollback_def)

lemma rollback_names:
  "(\<And>s. s \<in> set ss \<Longrightarrow> taken s \<Longrightarrow> q \<noteq> shadow_path s \<and> q \<noteq> live_path s) \<Longrightarrow>
   names (snd (rollback ss w)) q = names w q"
  using rollback_loop_names [of "rev ss" "[]" w _ _ q]
  by (cases "rollback_loop (rev ss) [] w") (simp add: rollback_def)

lemma rollback_restores:
  assumes "rb_status (fst (rollback ss w)) = ResultCompleted" and "shadows_ok ss"
    and "s \<in> set ss" and "taken s"
  shows "file_data (snd (rollback ss w)) (live_path s) = file_data w (shadow_path s)
       \<and> file_data w (shadow_path s) \<noteq> None"
proof -
  obtain w' where w': "rollback_loop (rev ss) [] w = ([], w')"
    using assms(1)
    by (cases "rollback_loop (rev ss) [] w") (auto simp: rollback_def split: if_splits)
  then have sw: "snd (rollback ss w) = w'" by (simp add: rollback_def)
  have "names w' (live_path s) = names w (shadow_path s) \<and> file_data w (shadow_path s) \<noteq> None"
    using rollback_loop_restores [OF w' _ _ assms(4)] assms(2,3) by (simp add: shadows_ok_rev)
  moreover have "store w' = store w" using rollback_loop_store [OF w'] by simp
  moreover have "live_path s \<noteq> ''/''" "live_path s \<noteq> ''.''" "shadow_path s \<noteq> ''/''" "shadow_path s \<noteq> ''.''"
    using assms(2) in_shadow_paths [OF assms(3,4)] by (auto simp: shadows_ok_def)
  ultimately show ?thesis using sw by (auto intro: file_data_eqI simp: node_at_file)
qed

end
