(* ===== verification/Frames.thy ===== *)
theory Frames
  imports Staging Rollback
begin

text \<open>
  What each system call leaves alone.  \<open>framed S w w'\<close>: between \<open>w\<close> and \<open>w'\<close> only the names of
  \<open>S\<close> may have changed what they refer to, no inode number was reused, and the environment is the
  same.  The relation is reflexive, transitive and monotone in \<open>S\<close>, so the frame of a
  composed operation is the union of the frames of its calls.  The rule collection
  \<open>call_frames\<close> has one entry per call.
\<close>

named_theorems call_frames \<open>the names each system call may change\<close>

definition framed :: "string set \<Rightarrow> os \<Rightarrow> os \<Rightarrow> bool" where
  "framed S w w' \<longleftrightarrow>
     (\<forall>q. q \<notin> S \<longrightarrow> names w' q = names w q) \<and> next_ino w \<le> next_ino w' \<and>
     (wf_os w \<longrightarrow> wf_os w') \<and> faults w' = faults w \<and> rnd w' = rnd w \<and> net w' = net w"

lemma framed_refl [simp]: "framed S w w"
  by (simp add: framed_def)

lemma framed_trans: "framed S w w' \<Longrightarrow> framed S w' w'' \<Longrightarrow> framed S w w''"
  by (auto simp: framed_def)

lemma framed_mono: "framed S w w' \<Longrightarrow> S \<subseteq> T \<Longrightarrow> framed T w w'"
  by (auto simp: framed_def)

lemma framed_join: "framed S w w' \<Longrightarrow> framed T w' w'' \<Longrightarrow> framed (S \<union> T) w w''"
  by (auto simp: framed_def)

lemma framed_names: "framed S w w' \<Longrightarrow> q \<notin> S \<Longrightarrow> names w' q = names w q"
  by (simp add: framed_def)

lemma framed_node: "framed S w w' \<Longrightarrow> q \<notin> S \<Longrightarrow> node_at w' q = node_at w q"
  by (simp add: framed_def node_at_def)

lemma node_at_names: "names w' = names w \<Longrightarrow> node_at w' p = node_at w p"
  by (simp add: node_at_def)

lemma framed_quiet: "framed S w w' \<Longrightarrow> quiet w' = quiet w"
  by (simp add: framed_def quiet_def)

lemma framed_wf: "framed S w w' \<Longrightarrow> wf_os w \<Longrightarrow> wf_os w'"
  by (simp add: framed_def)

lemma framed_syscall:
  assumes "\<And>k ns. framed S (tick w) (pt k ns (tick w))" and "framed S (tick w) (snd (body (tick w)))"
  shows "framed S w (snd (syscall pt body w))"
proof -
  have "framed S w (tick w)" by (simp add: framed_def tick_def wf_os_def)
  with assms show ?thesis by (intro syscall_frame [where P = "framed S w"]) (blast intro: framed_trans)+
qed

lemma framed_store: "framed S w (w\<lparr>store := f\<rparr>)"
  by (simp add: framed_def wf_os_def)

lemma framed_tick [simp]: "framed S w (tick w)"
  by (simp add: framed_def tick_def wf_os_def)

text \<open>Reading calls have the empty frame and change no contents.\<close>

lemma os_stat_framed [call_frames]: "framed {} w (snd (os_stat p w))"
  unfolding os_stat_def by (rule framed_syscall) simp_all

lemma read_file_framed [call_frames]: "framed {} w (snd (read_file p w))"
  unfolding read_file_def by (rule framed_syscall) simp_all

lemma open_read_framed [call_frames]: "framed {} w (snd (open_read p w))"
  unfolding open_read_def by (rule framed_syscall) simp_all

lemma os_noop_framed [call_frames]: "framed {} w (snd (os_noop w))"
  unfolding os_noop_def by (rule framed_syscall) simp_all

lemma write_ino_framed [call_frames]: "framed {} w (snd (write_ino i off d w))"
  unfolding write_ino_def by (rule framed_syscall) (simp_all add: framed_store)

lemma append_ino_framed [call_frames]: "framed {} w (snd (append_ino i d w))"
  unfolding append_ino_def by (rule framed_syscall) (simp_all add: framed_store)

lemma copy_ino_framed [call_frames]: "framed {} w (snd (copy_ino i j w))"
  unfolding copy_ino_def by (rule framed_syscall) (simp_all add: framed_store)

text \<open>Calls that create, move or remove a name.\<close>

lemma framed_new_file: "framed {p} w (snd (new_file p w))"
  by (auto simp: framed_def new_file_def wf_os_def less_Suc_eq)

lemma framed_new: "new_file p w = (i, w') \<Longrightarrow> framed {p} w w'"
  using framed_new_file [of p w] by simp

lemma open_create_framed [call_frames]: "framed {p} w (snd (open_create p w))"
  unfolding open_create_def
  by (rule framed_syscall)
     (auto split: option.split node.split prod.split intro: framed_new)

lemma open_trunc_framed [call_frames]: "framed {p} w (snd (open_trunc p w))"
  unfolding open_trunc_def
  by (rule framed_syscall)
     (auto split: option.split node.split prod.split simp: framed_store intro: framed_new)

lemma write_file_framed [call_frames]: "framed {p} w (snd (write_file p d w))"
proof -
  obtain r w1 where o: "open_trunc p w = (r, w1)" by fastforce
  have f: "framed {p} w w1" using open_trunc_framed [of p w] o by simp
  have "\<And>i. framed {p} w1 (snd (append_ino i d w1))"
    by (rule framed_mono [OF append_ino_framed]) simp
  with f o show ?thesis by (cases r) (auto simp: write_file_def intro: framed_trans)
qed

lemma os_remove_framed [call_frames]: "framed {p} w (snd (os_remove p w))"
  unfolding os_remove_def
  by (rule framed_syscall) (auto split: option.splits node.splits simp: framed_def wf_os_def)

lemma os_rename_framed [call_frames]: "framed {a, b} w (snd (os_rename a b w))"
  unfolding os_rename_def
  by (rule framed_syscall) (auto split: option.splits node.splits simp: framed_def wf_os_def)

lemma os_link_framed [call_frames]: "framed {b} w (snd (os_link a b w))"
  unfolding os_link_def
  by (rule framed_syscall) (auto split: option.splits node.splits simp: framed_def wf_os_def)

lemma mkdir_all_framed [call_frames]: "framed (set (ancestors p)) w (snd (mkdir_all p w))"
  unfolding mkdir_all_def
  by (rule framed_syscall) (auto simp: framed_def mk_dirs_def wf_os_def)

lemma remove_all_framed [call_frames]: "framed {q. in_tree p q} w (snd (remove_all p w))"
  unfolding remove_all_def
  by (rule framed_syscall) (auto simp: framed_def wf_os_def)

lemma remove_matching_framed [call_frames]: "framed {q. P q} w (snd (remove_matching P w))"
  unfolding remove_matching_def
  by (rule framed_syscall) (auto simp: framed_def wf_os_def)

lemma open_excl_framed [call_frames]: "framed {p} w (snd (open_excl p w))"
  unfolding open_excl_def
  by (rule framed_syscall) (auto split: option.split prod.split intro: framed_new)

lemma create_temp_framed [call_frames]:
  "framed {go_join [dir, pre @ rnd w (ticks w) @ suf]} w (snd (create_temp dir pre suf w))"
  using open_excl_framed [of "go_join [dir, pre @ rnd w (ticks w) @ suf]" w]
  by (auto simp: create_temp_def Let_def split: prod.split sum.split)

text \<open>Ancestors are no longer than the path, so a longer name is not among them.\<close>

lemma ancestors_length: "q \<in> set (ancestors p) \<Longrightarrow> length q \<le> length p"
  by (auto simp: ancestors_def)

lemma call_framed: "framed S w (snd x) \<Longrightarrow> x = (r, w') \<Longrightarrow> S \<subseteq> T \<Longrightarrow> framed T w w'"
  by (auto intro: framed_mono)

section \<open>Composed operations\<close>

lemma write_marker_framed [call_frames]:
  "framed (insert (marker_path d i) (set (ancestors (go_join [d, ''markers''])))) w (snd (write_marker d i w))"
    (is "framed ?S w _")
proof -
  obtain r1 w1 where m: "mkdir_all (go_join [d, ''markers'']) w = (r1, w1)" by fastforce
  obtain r2 w2 where o: "open_trunc (marker_path d i) w1 = (r2, w2)" by fastforce
  obtain r3 w3 where n: "os_noop w2 = (r3, w3)" by fastforce
  have "framed ?S w w1" using call_framed [OF mkdir_all_framed m] by blast
  moreover have "framed ?S w1 w2" using call_framed [OF open_trunc_framed o] by blast
  moreover have "framed ?S w2 w3" using call_framed [OF os_noop_framed n] by blast
  ultimately show ?thesis
    using m o n by (auto simp: write_marker_def split: sum.splits intro: framed_trans)
qed

lemma marker_exists_framed [call_frames]: "framed {} w (snd (marker_exists d i w))"
  using os_stat_framed [of w "marker_path d i"]
  by (cases "os_stat (marker_path d i) w") (auto simp: marker_exists_def split: sum.splits)

lemma take_shadow_framed [call_frames]:
  "framed (insert (shadow_dest d rel) (set (ancestors (go_dir (shadow_dest d rel))))) w
     (snd (take_shadow live d rel ab w))" (is "framed ?S w _")
proof -
  let ?d = "shadow_dest d rel"
  obtain r1 w1 where m: "mkdir_all (go_dir ?d) w = (r1, w1)" by fastforce
  obtain r2 w2 where l: "os_link live ?d w1 = (r2, w2)" by fastforce
  obtain r3 w3 where o: "open_read live w2 = (r3, w3)" by fastforce
  obtain r4 w4 where t: "open_trunc ?d w3 = (r4, w4)" by fastforce
  have 1: "framed ?S w w1" using call_framed [OF mkdir_all_framed m] by blast
  have 2: "framed ?S w w2" using framed_trans [OF 1] call_framed [OF os_link_framed l] by blast
  have 3: "framed ?S w w3" using framed_trans [OF 2] call_framed [OF open_read_framed o] by blast
  have 4: "framed ?S w w4" using framed_trans [OF 3] call_framed [OF open_trunc_framed t] by blast
  have 5: "framed ?S w w5" if "copy_ino i j w4 = (x, w5)" for i j x w5
    using framed_trans [OF 4] call_framed [OF copy_ino_framed that] by blast
  have 6: "framed ?S w (snd (os_noop w5))" if "copy_ino i j w4 = (x, w5)" for i j x w5
    by (rule framed_trans [OF 5 [OF that]]) (rule framed_mono [OF os_noop_framed], simp)
  show ?thesis
    using m l o t 1 2 3 4
    by (auto simp: take_shadow_def copy_file_def Let_def split: sum.split prod.split intro: 5 6)
qed

lemma take_shadow_quiet: "take_shadow live d rel ab w = (x, w') \<Longrightarrow> quiet w \<Longrightarrow> quiet w'"
  using framed_quiet [OF take_shadow_framed] by (metis snd_conv)

lemma rollback_loop_framed:
  "framed (set (shadow_paths ss)) w (snd (rollback_loop ss failed w))"
proof (induction ss arbitrary: failed w)
  case (Cons s ss)
  let ?S = "set (shadow_paths (s # ss))"
  have sub: "set (shadow_paths ss) \<subseteq> ?S" by (auto simp: shadow_paths_def)
  show ?case
  proof (cases "taken s")
    case False
    with framed_mono [OF Cons sub] show ?thesis by simp
  next
    case True
    obtain r w1 where rw: "os_rename (shadow_path s) (live_path s) w = (r, w1)" by fastforce
    have "framed ?S w w1"
      using call_framed [OF os_rename_framed rw] in_shadow_paths [of s "s # ss"] True by simp
    with framed_mono [OF Cons sub] rw True show ?thesis
      by (cases r) (auto intro: framed_trans)
  qed
qed simp

lemma rollback_framed [call_frames]: "framed (set (shadow_paths ss)) w (snd (rollback ss w))"
  using rollback_loop_framed [of "rev ss" w "[]"]
  by (cases "rollback_loop (rev ss) [] w") (auto simp: rollback_def shadow_paths_rev_set)

end
