(* ===== verification/Fetch.thy ===== *)
theory Fetch
  imports Frames
begin

text \<open>
  Package \<open>internal/fetch\<close>: downloading one chunk.  The decoders of the compressed formats are a
  parameter: given the bytes of the response body and whether reading it fails at its end, they
  refuse the stream or yield the decoded bytes and whether decoding failed after them.  A request
  answers what the environment \<open>net\<close> says; building a request from a malformed address counts
  as a failed request.  The log lines and the waiting itself have no effect on the state.
\<close>

record decoders =
  zstd_reader :: "bytes \<Rightarrow> bool \<Rightarrow> (bytes \<times> bool) option"
  gzip_reader :: "bytes \<Rightarrow> bool \<Rightarrow> (bytes \<times> bool) option"

datatype fetch_err = FetchDo | FetchStatus int | FetchReader | FetchCreate os_err | FetchCopy

definition http_get :: "string \<Rightarrow> os \<Rightarrow> http_reply \<times> os" where
  "http_get url w = (net w (ticks w) url, tick w)"

definition body_reader :: "decoders \<Rightarrow> string \<Rightarrow> bytes \<Rightarrow> bool \<Rightarrow> (bytes \<times> bool) option" where
  "body_reader dc url body broken =
     (if has_suffix url ''.zst'' then zstd_reader dc body broken
      else if has_suffix url ''.gz'' then gzip_reader dc body broken
      else Some (body, broken))"

definition fetch :: "decoders \<Rightarrow> string \<Rightarrow> string \<Rightarrow> os \<Rightarrow> (fetch_err + unit) \<times> os" where
  "fetch dc chunkURL dstPath w =
     (case http_get chunkURL w of
        (NetErr, w1) \<Rightarrow> (Inl FetchDo, w1)
      | (Reply status len body broken, w1) \<Rightarrow>
          if status \<noteq> 200 then (Inl (FetchStatus status), w1)
          else (case body_reader dc chunkURL body broken of
             None \<Rightarrow> (Inl FetchReader, w1)
           | Some (out, bad) \<Rightarrow>
               (case open_trunc dstPath w1 of
                  (Inl e, w2) \<Rightarrow> (Inl (FetchCreate e), w2)
                | (Inr i, w2) \<Rightarrow>
                    (case append_ino i out w2 of
                       (Inl _, w3) \<Rightarrow> (Inl FetchCopy, w3)
                     | (Inr _, w3) \<Rightarrow> if bad then (Inl FetchCopy, w3) else (Inr (), w3)))))"

text \<open>The loop of \<open>FetchWithRetry\<close>: \<open>n\<close> attempts are left and \<open>lastErr\<close> is the error of the one before.\<close>

fun retry_loop ::
  "nat \<Rightarrow> decoders \<Rightarrow> string \<Rightarrow> string \<Rightarrow> fetch_err option \<Rightarrow> os \<Rightarrow> fetch_err option \<times> os" where
  "retry_loop 0 dc url dst lastErr w = (lastErr, w)"
| "retry_loop (Suc n) dc url dst lastErr w =
     (case fetch dc url dst w of
        (Inl e, w1) \<Rightarrow> retry_loop n dc url dst (Some e) w1
      | (Inr _, w1) \<Rightarrow> (None, w1))"

definition fetch_with_retry :: "decoders \<Rightarrow> string \<Rightarrow> string \<Rightarrow> os \<Rightarrow> fetch_err option \<times> os" where
  "fetch_with_retry dc chunkURL dstPath w = retry_loop 5 dc chunkURL dstPath None w"

section \<open>The backoff\<close>

text \<open>
  Durations are nanoseconds.  \<open>rand.Float64\<close> is \<open>k / 2^53\<close> for a \<open>k\<close> below \<open>2^53\<close>, so
  \<open>r * 0.5 - 0.25\<close> is the double \<open>(2 k - 2^53) / 2^55\<close> exactly; the product with the base is
  rounded to 53 significant bits, half to even, and the conversion to an integer truncates.
\<close>

definition base_delays :: "int list" where
  "base_delays = [250000000, 500000000, 1000000000, 2000000000, 4000000000]"

function bit_length :: "nat \<Rightarrow> nat" where
  "bit_length n = (if n = 0 then 0 else Suc (bit_length (n div 2)))"
  by pat_completeness auto
termination by (relation "measure id") auto

declare bit_length.simps [simp del]

definition round53 :: "nat \<Rightarrow> nat" where
  "round53 n =
     (let e = bit_length n - 53; q = n div 2 ^ e; r = n mod 2 ^ e in
      (if 2 ^ e < 2 * r \<or> (2 * r = 2 ^ e \<and> odd q) then Suc q else q) * 2 ^ e)"

definition jitter :: "int \<Rightarrow> nat \<Rightarrow> int" where
  "jitter base k =
     (let x = base * (2 * int k - 2 ^ 53) in
      sgn x * int (round53 (nat \<bar>x\<bar>) div 2 ^ 55))"

definition compute_backoff :: "int \<Rightarrow> nat \<Rightarrow> int" where
  "compute_backoff attempt k =
     (let a = (if attempt < 0 then 0 else attempt);
          a' = (if a \<ge> int (length base_delays) then int (length base_delays) - 1 else a);
          base = base_delays ! nat a'
      in base + jitter base k)"

text \<open>Rounding is monotone and fixes numbers of at most 53 significant bits.\<close>

lemma bit_length_bounds: "n \<noteq> 0 \<Longrightarrow> 2 ^ (bit_length n - 1) \<le> n \<and> n < 2 ^ bit_length n"
proof (induction n rule: bit_length.induct)
  case (1 n)
  show ?case
  proof (cases "n div 2 = 0")
    case True
    with "1.prems" have "n = Suc 0" by simp
    then show ?thesis by (simp add: bit_length.simps [of "Suc 0"] bit_length.simps [of 0])
  next
    case False
    with 1 have ih: "2 ^ (bit_length (n div 2) - 1) \<le> n div 2" "n div 2 < 2 ^ bit_length (n div 2)" by auto
    have b: "bit_length n = Suc (bit_length (n div 2))" "bit_length (n div 2) \<noteq> 0"
      using "1.prems" False by (subst bit_length.simps, simp)+
    have "2 ^ bit_length (n div 2) \<le> n"
      using ih(1) b(2) by (cases "bit_length (n div 2)") auto
    moreover have "n < 2 * 2 ^ bit_length (n div 2)" using ih(2) by linarith
    ultimately show ?thesis by (simp add: b(1))
  qed
qed

text \<open>
  A rounded number does not pass a bound that is a multiple of the rounding unit.
\<close>

lemma round53_le:
  assumes "n \<le> b" and "2 ^ (bit_length n - 53) dvd b"
  shows "round53 n \<le> b"
proof -
  let ?u = "2 ^ (bit_length n - 53) :: nat"
  obtain m where b: "b = ?u * m" using assms(2) by (auto simp: dvd_def)
  have q: "n div ?u \<le> m" using assms(1) b
    by (metis div_le_mono nonzero_mult_div_cancel_left power_not_zero zero_neq_numeral)
  show ?thesis
  proof (cases "n div ?u = m")
    case True
    then have "n mod ?u = 0" using assms(1) b
      by (metis add_0_right add_le_cancel_left le_zero_eq mult_div_mod_eq)
    with True b show ?thesis by (auto simp: round53_def Let_def mult.commute)
  next
    case False
    with q have s: "Suc (n div ?u) \<le> m" by simp
    have "round53 n \<le> Suc (n div ?u) * ?u"
      unfolding round53_def Let_def by (intro mult_le_mono1) simp
    also have "\<dots> \<le> m * ?u" using s by (rule mult_le_mono1)
    finally show ?thesis using b by (simp add: mult.commute)
  qed
qed

lemma bit_length_le: "n < 2 ^ m \<Longrightarrow> bit_length n \<le> m"
proof (rule ccontr)
  assume n: "n < 2 ^ m" and "\<not> bit_length n \<le> m"
  then have m: "m \<le> bit_length n - 1" "n \<noteq> 0" by (auto simp: bit_length.simps [of 0] intro: gr0I)
  have "(2::nat) ^ m \<le> 2 ^ (bit_length n - 1)" using m(1) by (rule power_increasing) simp
  also have "\<dots> \<le> n" using bit_length_bounds [OF m(2)] by simp
  finally show False using n by simp
qed

lemma jitter_bound:
  assumes "0 \<le> base" and "base < 2 ^ 32" and "k < 2 ^ 53" and "4 dvd base"
  shows "\<bar>jitter base k\<bar> \<le> base div 4"
proof -
  let ?x = "base * (2 * int k - 2 ^ 53)"
  let ?n = "nat \<bar>?x\<bar>" and ?b = "nat base * 2 ^ 53"
  have k: "\<bar>2 * int k - 2 ^ 53\<bar> \<le> 2 ^ 53" using assms(3) by auto
  have "\<bar>?x\<bar> \<le> base * 2 ^ 53"
    using mult_left_mono [OF k assms(1)] assms(1) by (simp add: abs_mult)
  then have n: "?n \<le> ?b" using assms(1) by (simp add: nat_le_iff nat_mult_distrib)
  have "nat base < 2 ^ 32" using assms(1,2) by (simp add: nat_less_iff)
  then have "?n < 2 ^ 85" using n by simp
  then have "bit_length ?n - 53 \<le> 32" using bit_length_le [of ?n 85] by simp
  then have "(2::nat) ^ (bit_length ?n - 53) dvd 2 ^ 53" by (intro le_imp_power_dvd) simp
  then have "round53 ?n \<le> ?b" by (intro round53_le [OF n]) simp
  then have "round53 ?n div 2 ^ 55 \<le> ?b div 2 ^ 55" by (rule div_le_mono)
  also have "?b div 2 ^ 55 = nat base div 4"
    by (simp add: div_mult_mult1_if [of "2 ^ 53" _ 4, symmetric] mult.commute)
  finally have "int (round53 ?n div 2 ^ 55) \<le> int (nat base div 4)" by (simp only: of_nat_le_iff)
  also have "int (nat base div 4) = base div 4" using assms(1) by (simp add: zdiv_int)
  finally have le: "int (round53 ?n div 2 ^ 55) \<le> base div 4" .
  have "\<bar>jitter base k\<bar> \<le> int (round53 ?n div 2 ^ 55)"
    by (auto simp: jitter_def Let_def abs_mult sgn_if)
  with le show ?thesis by linarith
qed

section \<open>What a fetch does to the files\<close>

lemma http_get_framed: "http_get u w = (r, w') \<Longrightarrow> framed {} w w' \<and> fs w' = fs w"
  by (auto simp: http_get_def)

lemma fetch_framed: "framed {dst} w (snd (fetch dc url dst w))"
proof -
  obtain r w1 where g: "http_get url w = (r, w1)" by fastforce
  obtain r2 w2 where o: "open_trunc dst w1 = (r2, w2)" by fastforce
  have f1: "framed {dst} w w1" using http_get_framed [OF g] framed_mono by blast
  have f2: "framed {dst} w w2" using framed_trans [OF f1] call_framed [OF open_trunc_framed o] by blast
  have f3: "framed {dst} w w3" if "append_ino i d w2 = (x, w3)" for i d x w3
    using framed_trans [OF f2] call_framed [OF append_ino_framed that] by blast
  show ?thesis
    using g o f1 f2 by (auto simp: fetch_def split: http_reply.split option.split sum.split prod.split intro: f3)
qed

lemma retry_loop_framed: "framed {dst} w (snd (retry_loop n dc url dst l w))"
proof (induction n arbitrary: l w)
  case (Suc n)
  obtain r w1 where f: "fetch dc url dst w = (r, w1)" by fastforce
  then have "framed {dst} w w1" using fetch_framed [of dst w dc url] by simp
  with f Suc [of w1] show ?case by (cases r) (auto intro: framed_trans)
qed simp

lemma fetch_with_retry_framed [call_frames]: "framed {dst} w (snd (fetch_with_retry dc url dst w))"
  by (simp add: fetch_with_retry_def retry_loop_framed)

text \<open>A fetch that reports success has put the whole decoded body in the destination.\<close>

lemma fetch_ok:
  assumes "fetch dc url dst w = (Inr u, w')"
  shows "\<exists>len body broken out. net w (ticks w) url = Reply 200 len body broken \<and>
     body_reader dc url body broken = Some (out, False) \<and> file_data w' dst = Some out"
proof -
  obtain len body broken out i w2 where
    n: "net w (ticks w) url = Reply 200 len body broken" "body_reader dc url body broken = Some (out, False)" and
    o: "open_trunc dst (tick w) = (Inr i, w2)" and a: "append_ino i out w2 = (Inr (), w')"
    using assms by (auto simp: fetch_def http_get_def split: http_reply.splits if_splits option.splits
        sum.splits prod.splits)
  have "node_at w' dst = Some (FileN i)"
    using open_trunc_Inr(1) [OF o] append_ino_names [of i out w2] a
    by (simp add: node_at_def split: if_splits)
  moreover have "store w' i = out" using append_ino_Inr [OF a] open_trunc_Inr(2) [OF o] by simp
  ultimately show ?thesis using n by (auto simp: file_data_Some_iff)
qed

text \<open>At most five requests are made, and an error is the error of the last one.\<close>

lemma retry_loop_ok:
  "retry_loop n dc url dst l w = (None, w') \<Longrightarrow> l \<noteq> None \<Longrightarrow> \<exists>w0. fetch dc url dst w0 = (Inr (), w')"
proof (induction n arbitrary: l w)
  case (Suc n)
  then show ?case by (auto split: prod.splits sum.splits)
qed simp

lemma fetch_with_retry_ok:
  "fetch_with_retry dc url dst w = (None, w') \<Longrightarrow> \<exists>w0. fetch dc url dst w0 = (Inr (), w')"
  using retry_loop_ok [of 4 dc url dst]
  by (auto simp: fetch_with_retry_def eval_nat_numeral split: prod.splits sum.splits)

end
