(* ===== verification/ManifestFetch.thy ===== *)
theory ManifestFetch
  imports ManifestStream Fetch
begin

text \<open>
  Fetching the manifest (\<open>internal/manifest/spool.go\<close>, \<open>fetch.go\<close> and \<open>FetchAndProcess\<close> in
  \<open>stream.go\<close>): the response body is written to a spool file and hashed, the hash is compared with
  the pinned one, and only then is the spool parsed.

  The free space of a volume is a parameter, a function of the call number, because it changes.
  A body that breaks off before its end, for whatever reason (a stall included), is the last
  component of a reply; the phase timeouts only decide when that happens.  The spool is read
  and parsed in alternation by the program; the contents of an unlinked-but-open or otherwise
  untouched file do not change meanwhile, so reading it at once gives the same.
\<close>

type_synonym volume = "nat \<Rightarrow> string \<Rightarrow> 64 word option"
  \<comment> \<open>free bytes of a directory's volume, as \<open>freeBytes\<close> answers at a call number\<close>

definition https_prefix :: string where
  "https_prefix = ''https://''"

section \<open>\<open>Fetch\<close>\<close>

definition manifest_fetch :: "string \<Rightarrow> os \<Rightarrow> (man_err + bytes) \<times> os" where
  "manifest_fetch url w =
     (if \<not> has_prefix url https_prefix then (Inl (ManifestOther ''refusing non-https URL''), w)
      else case http_get url w of
        (NetErr, w1) \<Rightarrow> (Inl (ManifestOther ''fetch''), w1)
      | (Reply status len body broken, w1) \<Rightarrow>
          if status \<noteq> 200 then (Inl (ManifestOther ''HTTP''), w1)
          else if broken then (Inl (ManifestOther ''read body''), w1)
          else (Inr body, w1))"

section \<open>The spool\<close>

definition spool_prefix :: string where
  "spool_prefix = ''pocketnet-node-doctor-manifest-''"

definition spool_suffix :: string where
  "spool_suffix = ''.spool''"

definition capacity_margin :: "64 word" where
  "capacity_margin = push_bit 20 64"

text \<open>
  What \<open>filepath.Glob\<close> matches in \<open>dir\<close>; the star stands for characters other than a slash.  A
  directory whose own name has the special characters of a pattern is read literally.
\<close>

definition is_spool_of :: "string \<Rightarrow> string \<Rightarrow> bool" where
  "is_spool_of dir q \<longleftrightarrow>
     (let pre = go_join [dir, spool_prefix]; rest = drop (length pre) q in
      has_prefix q pre \<and> has_suffix rest spool_suffix \<and> slash \<notin> set rest)"

definition reclaim_stale_spools :: "string \<Rightarrow> os \<Rightarrow> os" where
  "reclaim_stale_spools dir w = snd (remove_matching (is_spool_of dir) w)"

definition new_spool_capacity_from_copy :: "volume \<Rightarrow> string \<Rightarrow> int \<Rightarrow> os \<Rightarrow> man_err" where
  "new_spool_capacity_from_copy free spoolDir declaredLen w =
     SpoolCapacity (word_of_int declaredLen + capacity_margin) (word_of_int declaredLen)
       (case free (ticks w) spoolDir of None \<Rightarrow> 0 | Some avail \<Rightarrow> avail)"

text \<open>An error of creating or writing the spool.\<close>

definition spool_io_error :: "volume \<Rightarrow> string \<Rightarrow> int \<Rightarrow> string \<Rightarrow> os_err \<Rightarrow> os \<Rightarrow> man_err" where
  "spool_io_error free spoolDir declaredLen what e w =
     (if e = Sys ENOSPC then new_spool_capacity_from_copy free spoolDir declaredLen w
      else ManifestOther what)"

text \<open>\<open>io.LimitReader\<close> with the limit \<open>declaredLen + 1\<close>, a 64-bit sum; no bytes when it is not positive.\<close>

definition copy_limit :: "int \<Rightarrow> nat" where
  "copy_limit declaredLen = nat (sint (word_of_int declaredLen + 1 :: 64 word))"

definition spool_body_to_verified ::
  "volume \<Rightarrow> bytes \<Rightarrow> bool \<Rightarrow> int \<Rightarrow> string \<Rightarrow> string \<Rightarrow> os \<Rightarrow> (man_err + string) \<times> os" where
  "spool_body_to_verified free body broken declaredLen spoolDir pinnedHash w =
     (case create_temp spoolDir spool_prefix spool_suffix w of
        (Inl e, w1) \<Rightarrow> (Inl (spool_io_error free spoolDir declaredLen ''create'' e w1), w1)
      | (Inr (name, i), w1) \<Rightarrow>
          (let copied = take (copy_limit declaredLen) body;
               (wr, w2) = append_ino i copied w1;
               (_, w3) = os_noop w2
           in case wr of
                Inl e \<Rightarrow>
                  (let (_, w4) = os_remove name w3
                   in (Inl (spool_io_error free spoolDir declaredLen ''spool copy'' e w4), w4))
              | Inr _ \<Rightarrow>
                  if broken \<and> length body < copy_limit declaredLen
                  then (Inl (ManifestOther ''spool copy''), snd (os_remove name w3))
                  else if int (length copied) > declaredLen
                  then (Inl (FetchRejected ''over-declared-length'' declaredLen), snd (os_remove name w3))
                  else if sha256_hex copied \<noteq> pinnedHash
                  then (Inl (TrustRootMismatch (sha256_hex copied) pinnedHash), snd (os_remove name w3))
                  else (Inr name, w3)))"

definition spool_and_verify ::
  "volume \<Rightarrow> string \<Rightarrow> string \<Rightarrow> string \<Rightarrow> os \<Rightarrow> (man_err + string) \<times> os" where
  "spool_and_verify free url pinnedHash spoolDir w =
     (if \<not> has_prefix url https_prefix then (Inl (ManifestOther ''refusing non-https URL''), w)
      else case http_get url (reclaim_stale_spools spoolDir w) of
        (NetErr, w1) \<Rightarrow> (Inl (ManifestOther ''fetch''), w1)
      | (Reply status declared body broken, w1) \<Rightarrow>
          if status \<noteq> 200 then (Inl (ManifestOther ''HTTP''), w1)
          else if declared < 0 then (Inl (FetchRejected ''no-content-length'' (- 1)), w1)
          else
            (let need = word_of_int declared + capacity_margin in
             case free (ticks w1) spoolDir of
               Some avail \<Rightarrow>
                 if avail < need then (Inl (SpoolCapacity need (word_of_int declared) avail), w1)
                 else spool_body_to_verified free body broken declared spoolDir pinnedHash w1
             | None \<Rightarrow> spool_body_to_verified free body broken declared spoolDir pinnedHash w1))"

section \<open>Parsing the spool\<close>

text \<open>
  The callback acts on the file system, so the state it threads is a pair: the caller's variables
  and the world.
\<close>

definition parse_from_spool ::
  "string \<Rightarrow> ('x, 'a \<times> os) processor \<Rightarrow> 'a \<times> os \<Rightarrow> ('x stream_err + man_header) \<times> 'a \<times> os" where
  "parse_from_spool spoolPath fn st =
     (let (a, w) = st in
      case open_read spoolPath w of
        (Inl _, w1) \<Rightarrow> (Inl (SManifest (ManifestOther ''open spool'')), a, w1)
      | (Inr i, w1) \<Rightarrow>
          (let ((dat, _), w2) = read_stream i w1;
               (r, a3, w3) = stream_manifest fn (a, w2) (new_decoder dat);
               r' = (case r of
                       Inl e \<Rightarrow> Inl e
                     | Inr hdr \<Rightarrow>
                         (case validate_trust_anchors_raw (mh_trust hdr) of
                            Inl e \<Rightarrow> Inl (SManifest e) | Inr _ \<Rightarrow> Inr hdr))
           in (r', a3, snd (os_remove spoolPath w3))))"

definition fetch_and_process ::
  "volume \<Rightarrow> string \<Rightarrow> string \<Rightarrow> string \<Rightarrow> ('x, 'a \<times> os) processor \<Rightarrow> 'a \<times> os
   \<Rightarrow> ('x stream_err + man_header) \<times> 'a \<times> os" where
  "fetch_and_process free url pinnedHash spoolDir fn st =
     (let (a, w) = st in
      case spool_and_verify free url pinnedHash spoolDir w of
        (Inl e, w1) \<Rightarrow> (Inl (SManifest e), a, w1)
      | (Inr spoolPath, w1) \<Rightarrow> parse_from_spool spoolPath fn (a, w1))"

lemma create_temp_Inr:
  assumes "create_temp dir pre suf w = (Inr (p, i), w')"
  shows "p = go_join [dir, pre @ rnd w (ticks w) @ suf]" and "open_excl p w = (Inr i, w')"
  using assms by (auto simp: create_temp_def Let_def split: prod.splits sum.splits)

end
