(* ===== verification/ExitCode.thy ===== *)
theory ExitCode
  imports Main
begin

text \<open>
  Package \<open>internal/exitcode\<close>: the codes the program returns to the shell, and their numbers.
\<close>

datatype exit_code =
    Success | GenericError | RunningNode | AheadOfCanonical | VersionMismatch | Capacity
  | PermissionReadOnly | ManifestFormatVersionUnrecognized
  | RollbackCompleted | RollbackFailed | NetworkBudgetExhausted | Reserved13
  | SupersededCanonical | PlanTampered

fun code_number :: "exit_code \<Rightarrow> int" where
  "code_number Success = 0"
| "code_number GenericError = 1"
| "code_number RunningNode = 2"
| "code_number AheadOfCanonical = 3"
| "code_number VersionMismatch = 4"
| "code_number Capacity = 5"
| "code_number PermissionReadOnly = 6"
| "code_number ManifestFormatVersionUnrecognized = 7"
| "code_number RollbackCompleted = 10"
| "code_number RollbackFailed = 11"
| "code_number NetworkBudgetExhausted = 12"
| "code_number Reserved13 = 13"
| "code_number SupersededCanonical = 14"
| "code_number PlanTampered = 15"

lemma code_number_inj: "code_number a = code_number b \<Longrightarrow> a = b"
  by (cases a; cases b; simp)

end
