(* ===== verification/Preflight.thy ===== *)
theory Preflight
  imports ManifestFetch ExitCode
begin

text \<open>
  Package \<open>internal/preflight\<close> on Linux: the predicates that refuse to diagnose.  What they ask of the
  host beyond its files is a record of answers: advisory locks, running processes, the output of
  \<open>pocketnet-core --version\<close>, the volume statistics, the write permission and the text of \<open>/proc/mounts\<close>.
  Answers that change over time are functions of the call number.
\<close>

section \<open>The host\<close>

datatype flock_answer = Acquired | WouldBlock | FlockErr

text \<open>A process; \<open>None\<close> where the query of its name or its open files failed.\<close>

record process =
  pr_pid :: int
  pr_name :: "string option"
  pr_files :: "string list option"

record volume_stat =
  vs_avail :: "64 word"
  vs_blocks :: "64 word"
  vs_bsize :: "64 word"

record host =
  ho_cwd :: "string option"
  ho_flock :: "nat \<Rightarrow> string \<Rightarrow> flock_answer"
  ho_procs :: "nat \<Rightarrow> process list option"
  ho_version :: "string option"
  ho_statfs :: "nat \<Rightarrow> string \<Rightarrow> volume_stat option"
  ho_writable :: "string \<Rightarrow> bool"
  ho_mounts :: "string option"

definition abs_path :: "host \<Rightarrow> string \<Rightarrow> string option" where
  "abs_path h p =
     (if is_abs p then Some (go_clean p) else map_option (\<lambda>c. go_abs c p) (ho_cwd h))"

text \<open>The products wrap, as in the code.\<close>

definition statfs_impl :: "host \<Rightarrow> string \<Rightarrow> os \<Rightarrow> (64 word \<times> 64 word) option" where
  "statfs_impl h p w =
     map_option (\<lambda>v. (vs_avail v * vs_bsize v, vs_blocks v * vs_bsize v)) (ho_statfs h (ticks w) p)"

definition free_bytes :: "host \<Rightarrow> volume" where
  "free_bytes h t p = map_option (\<lambda>v. vs_avail v * vs_bsize v) (ho_statfs h t p)"

section \<open>Results\<close>

text \<open>A refusal carries its exit code and, for the diagnostic text, what the text mentions.\<close>

datatype reason =
    ProbeFailed | InUseBy string int string | ForeignLock string | NilManifestFor string
  | NoCoreBinary | VersionsDiffer string string | StatfsFailed string | VolumeTooSmall string "64 word" "64 word"
  | NotWritable string | ReadOnlyMount string

datatype predicate_result = Pass | Refused exit_code reason

type_synonym predicate = "os \<Rightarrow> predicate_result \<times> os"

fun evaluate_from :: "nat \<Rightarrow> (string \<times> predicate) list \<Rightarrow> os \<Rightarrow> (string \<times> predicate_result \<times> nat) \<times> os" where
  "evaluate_from i [] w = (([], Pass, i), w)"
| "evaluate_from i ((name, fn) # ps) w =
     (case fn w of
        (Pass, w1) \<Rightarrow> evaluate_from (Suc i) ps w1
      | (Refused c r, w1) \<Rightarrow> ((name, Refused c r, Suc i), w1))"

definition evaluate_ordered :: "(string \<times> predicate) list \<Rightarrow> os \<Rightarrow> (string \<times> predicate_result \<times> nat) \<times> os" where
  "evaluate_ordered ps w = evaluate_from 0 ps w"

section \<open>Is a node running?\<close>

definition flock_probe :: "host \<Rightarrow> string \<Rightarrow> os \<Rightarrow> (unit + bool) \<times> os" where
  "flock_probe h path w =
     (case open_read path w of
        (Inl _, w1) \<Rightarrow> (Inr False, w1)
      | (Inr _, w1) \<Rightarrow>
          (case ho_flock h (ticks w1) path of
             WouldBlock \<Rightarrow> (Inr True, w1) | FlockErr \<Rightarrow> (Inl (), w1) | Acquired \<Rightarrow> (Inr False, w1)))"

fun scan_procs :: "string \<Rightarrow> process list \<Rightarrow> int \<times> string" where
  "scan_procs absPath [] = (0, [])"
| "scan_procs absPath (p # ps) =
     (case pr_name p of
        None \<Rightarrow> scan_procs absPath ps
      | Some name \<Rightarrow>
          if name \<noteq> ''pocketnet-core'' \<and> name \<noteq> ''pocketnetd'' then scan_procs absPath ps
          else (case pr_files p of
             None \<Rightarrow> (pr_pid p, name)
           | Some files \<Rightarrow> if list_ex (\<lambda>f. has_prefix f absPath) files then (pr_pid p, name) else scan_procs absPath ps))"

definition scan_for_pocketnet_core :: "host \<Rightarrow> string \<Rightarrow> os \<Rightarrow> int \<times> string" where
  "scan_for_pocketnet_core h pocketDBPath w =
     (case abs_path h pocketDBPath of
        None \<Rightarrow> (0, [])
      | Some absPath \<Rightarrow>
          (case ho_procs h (ticks w) of None \<Rightarrow> (0, []) | Some ps \<Rightarrow> scan_procs absPath ps))"

definition running_node_probe :: "host \<Rightarrow> string \<Rightarrow> os \<Rightarrow> (unit + bool \<times> int \<times> string) \<times> os" where
  "running_node_probe h pocketDBPath w =
     (case flock_probe h (go_join [pocketDBPath, ''main.sqlite3'']) w of
        (Inl e, w1) \<Rightarrow> (Inl e, w1)
      | (Inr locked, w1) \<Rightarrow>
          (let (pid, name) = scan_for_pocketnet_core h pocketDBPath w1 in
           if locked then (Inr (True, pid, name), w1)
           else if pid > 0 then (Inr (True, pid, name), w1)
           else (Inr (False, 0, []), w1)))"

definition running_node :: "host \<Rightarrow> string \<Rightarrow> predicate" where
  "running_node h pocketDBPath w =
     (case running_node_probe h pocketDBPath w of
        (Inl _, w1) \<Rightarrow> (Refused GenericError ProbeFailed, w1)
      | (Inr (locked, pid, name), w1) \<Rightarrow>
          if locked then
            (if pid > 0 then (Refused RunningNode (InUseBy name pid pocketDBPath), w1)
             else (Refused RunningNode (ForeignLock pocketDBPath), w1))
          else (Pass, w1))"

section \<open>Versions\<close>

definition is_space :: "char \<Rightarrow> bool" where
  "is_space c \<longleftrightarrow> c = CHR '' '' \<or> (CHR 0x09 \<le> c \<and> c \<le> CHR 0x0D)"

text \<open>\<open>strings.TrimSpace\<close> and \<open>strings.Fields\<close> on ASCII text.\<close>

definition trim_space :: "string \<Rightarrow> string" where
  "trim_space s = rev (dropWhile is_space (rev (dropWhile is_space s)))"

fun str_fields :: "string \<Rightarrow> string list" where
  "str_fields [] = []"
| "str_fields (c # s) =
     (if is_space c then str_fields s
      else case s of
        [] \<Rightarrow> [[c]]
      | d # _ \<Rightarrow> if is_space d then [c] # str_fields s
               else (case str_fields s of [] \<Rightarrow> [[c]] | f # rest \<Rightarrow> (c # f) # rest))"

definition version_lookup :: "host \<Rightarrow> string option" where
  "version_lookup h = map_option (\<lambda>out. trim_space (hd (split_on (CHR 0x0A) out))) (ho_version h)"

definition version_mismatch_value :: "host \<Rightarrow> string \<Rightarrow> predicate" where
  "version_mismatch_value h canonicalVersion w =
     (case version_lookup h of
        None \<Rightarrow> (Refused GenericError NoCoreBinary, w)
      | Some local \<Rightarrow>
          if local \<noteq> canonicalVersion then (Refused VersionMismatch (VersionsDiffer local canonicalVersion), w)
          else (Pass, w))"

definition version_mismatch :: "host \<Rightarrow> manifest option \<Rightarrow> predicate" where
  "version_mismatch h m w =
     (case m of
        None \<Rightarrow> (Refused GenericError (NilManifestFor ''version-mismatch''), w)
      | Some mf \<Rightarrow> version_mismatch_value h (mi_core_version (m_identity mf)) w)"

section \<open>Capacity\<close>

definition volume_capacity_from_total_bytes :: "host \<Rightarrow> string \<Rightarrow> 64 word \<Rightarrow> predicate" where
  "volume_capacity_from_total_bytes h pocketdbPath totalBytes w =
     (let required = totalBytes * 2 in
      case statfs_impl h pocketdbPath w of
        None \<Rightarrow> (Refused GenericError (StatfsFailed pocketdbPath), w)
      | Some (free, _) \<Rightarrow>
          if free < required then (Refused Capacity (VolumeTooSmall pocketdbPath free required), w)
          else (Pass, w))"

definition required_bytes :: "manifest \<Rightarrow> 64 word" where
  "required_bytes m =
     foldl (\<lambda>total e. if me_kind e = entry_kind_sqlite_pages
                      then total + word_of_nat (length (me_pages e)) * 4096 else total) 0 (m_entries m)"

definition volume_capacity :: "host \<Rightarrow> string \<Rightarrow> manifest option \<Rightarrow> predicate" where
  "volume_capacity h pocketDBPath m w =
     (case m of
        None \<Rightarrow> (Refused GenericError (NilManifestFor ''volume-capacity''), w)
      | Some mf \<Rightarrow> volume_capacity_from_total_bytes h pocketDBPath (required_bytes mf) w)"

section \<open>Permission\<close>

definition options_contain_ro :: "string \<Rightarrow> bool" where
  "options_contain_ro opts \<longleftrightarrow> list_ex (\<lambda>o'. o' = ''ro'') (split_on (CHR '','') opts)"

text \<open>One line of \<open>/proc/mounts\<close>: the best prefix so far and whether its mount is read-only.\<close>

definition mount_step :: "string \<Rightarrow> string \<times> bool \<Rightarrow> string \<Rightarrow> string \<times> bool" where
  "mount_step absPath best line =
     (let fields = str_fields line in
      if length fields < 4 then best
      else let mp = fields ! 1; opts = fields ! 3 in
        if has_prefix absPath mp \<and> length mp > length (fst best) then (mp, options_contain_ro opts) else best)"

definition mounted_read_only :: "string \<Rightarrow> string \<Rightarrow> bool" where
  "mounted_read_only absPath mounts = snd (foldl (mount_step absPath) ([], False) (split_on (CHR 0x0A) mounts))"

definition permission_probe :: "host \<Rightarrow> string \<Rightarrow> bool \<times> bool" where
  "permission_probe h path =
     (ho_writable h path,
      case abs_path h path of
        None \<Rightarrow> False
      | Some absPath \<Rightarrow> (case ho_mounts h of None \<Rightarrow> False | Some mounts \<Rightarrow> mounted_read_only absPath mounts))"

definition permission_read_only :: "host \<Rightarrow> string \<Rightarrow> predicate" where
  "permission_read_only h pocketDBPath w =
     (let (writable, ro) = permission_probe h pocketDBPath in
      if \<not> writable then (Refused PermissionReadOnly (NotWritable pocketDBPath), w)
      else if ro then (Refused PermissionReadOnly (ReadOnlyMount pocketDBPath), w)
      else (Pass, w))"

section \<open>The orders\<close>

definition post_manifest_order :: "host \<Rightarrow> string \<Rightarrow> manifest option \<Rightarrow> (string \<times> predicate) list" where
  "post_manifest_order h pocketDBPath m =
     [(''version-mismatch'', version_mismatch h m),
      (''volume-capacity'', volume_capacity h pocketDBPath m),
      (''permission-readonly'', permission_read_only h pocketDBPath)]"

definition pre_manifest :: "host \<Rightarrow> string \<Rightarrow> string \<times> predicate" where
  "pre_manifest h pocketDBPath = (''running-node'', running_node h pocketDBPath)"

end
