(* ===== verification/PlanRoundTrip.thy ===== *)
theory PlanRoundTrip
  imports PlanStream
begin

text \<open>
  Reading back a plan that \<open>plan.Marshal\<close> wrote: the four passes of \<open>stream.go\<close> on the canonical
  text.  Strings come back sanitised, which changes nothing when they are valid UTF-8.
\<close>

section \<open>Sanitised strings stay as they are\<close>

lemma valid_utf8_step: "0 < utf8_len s \<Longrightarrow> valid_utf8 (take (utf8_len s) s @ t) = valid_utf8 t"
proof -
  assume u: "0 < utf8_len s"
  have l: "length (take (utf8_len s) s) = utf8_len s" using utf8_len_le by simp
  have ne: "take (utf8_len s) s @ t \<noteq> []" using u l by auto
  have d: "drop (utf8_len s) (take (utf8_len s) s @ t) = t"
    using l by simp
  show ?thesis
    by (subst valid_utf8.simps) (use u ne d in \<open>simp only: utf8_len_append [OF u] if_False\<close>, simp)
qed

lemma utf8_len_replacement: "utf8_len replacement = 3"
  by (simp add: replacement_def utf8_len_def utf8_2_def utf8_3_def cont_byte_def)

lemma valid_utf8_sanitize: "valid_utf8 (sanitize s)"
proof (induction s rule: sanitize.induct)
  case (1 s)
  consider "s = []" | "s \<noteq> []" "utf8_len s = 0" | "s \<noteq> []" "0 < utf8_len s" by blast
  then show ?case
  proof cases
    case 1
    then show ?thesis by (simp add: valid_utf8.simps [of "[]"])
  next
    case 2
    have "valid_utf8 (replacement @ sanitize (tl s)) = valid_utf8 (sanitize (tl s))"
      using valid_utf8_step [of replacement "sanitize (tl s)"] utf8_len_replacement
      by (simp add: replacement_def)
    with 2 "1.IH"(1) show ?thesis by (subst sanitize.simps) simp
  next
    case 3
    then show ?thesis
      using "1.IH"(2) valid_utf8_step [of s] by (subst sanitize.simps) simp
  qed
qed

lemma sanitize_idem [simp]: "sanitize (sanitize s) = sanitize s"
  by (rule sanitize_valid [OF valid_utf8_sanitize])

section \<open>The text\<close>

definition payload_text :: "plan \<Rightarrow> string" where
  "payload_text p = lbrace # object_text False (payload_members p)"

definition plan_members :: "plan \<Rightarrow> (string \<times> json) list" where
  "plan_members p = payload_members p @ [(''self_hash'', JStr (sanitize (p_self_hash p)))]"

definition plan_text :: "plan \<Rightarrow> string" where
  "plan_text p = lbrace # object_text False (plan_members p) @ [rbrace]"

lemma plan_marshal_text: "wf_plan p \<Longrightarrow> plan_marshal p = Some (plan_text p)"
  by (simp add: plan_marshal_eq canon_encode_print plan_canon_eq print_obj plan_text_def plan_members_def
      del: print_json.simps)

lemma plan_text_payload:
  "plan_text p = payload_text p @ '',\"self_hash\":'' @ enc_str False (sanitize (p_self_hash p)) @ [rbrace]"
proof -
  have "enc_str False ''self_hash'' = ''\"self_hash\"''"
    by (simp add: enc_str_def enc_body.simps enc_ascii_def)
  then show ?thesis
    by (simp add: plan_text_def plan_members_def payload_text_def join_on_snoc member_text_def payload_members_def)
qed

lemma compute_self_hash_text: "wf_plan p \<Longrightarrow> compute_self_hash p = Some (sha256_hex (payload_text p @ [rbrace]))"
  by (simp add: compute_self_hash_def marshal_without_eq canon_encode_print payload_canon_eq print_obj payload_text_def
      del: print_json.simps)

section \<open>Which trees are written\<close>

lemma writable_page_canon: "int64 (pp_offset p) \<Longrightarrow> writable (Suc n) (page_canon p)"
  by (auto simp: page_canon_def int64_def)

lemma writable_divergence_canon: "wf_divergence d \<Longrightarrow> writable (Suc (Suc (Suc n))) (divergence_canon d)"
  by (auto simp: divergence_canon_def wf_divergence_def omit_empty_def writable_page_canon)

lemma writable_Suc: "writable d j \<Longrightarrow> writable (Suc d) j"
  by (induction d j rule: writable.induct) (auto simp: gr0_conv_Suc)

lemma writable_members: "wf_plan p \<Longrightarrow> m \<in> set (plan_members p) \<Longrightarrow> writable max_depth (snd m)"
proof -
  assume a: "wf_plan p" "m \<in> set (plan_members p)"
  have "writable max_depth (canon_tree (sanitize_json (plan_tree p)))"
    by (intro writable_canon writable_sanitize writable_plan a)
  then have "writable (max_depth - 1) (snd m)" using a(2) by (cases m) (auto simp: plan_canon_eq plan_members_def)
  moreover have "Suc (max_depth - 1) = max_depth" by (simp add: max_depth_def)
  ultimately show ?thesis using writable_Suc by metis
qed

section \<open>The steps on one member\<close>

lemma member_read_key:
  "st \<in> {ObjectStart, ObjectKey} \<Longrightarrow>
   read_key (at (member_text False (k, v) @ r) n st sk) =
     Some (sanitize k, at (colon # print_json False v @ r) (n + length (enc_str False k)) ObjectColon sk)"
  using read_key_at [of st False k "colon # print_json False v @ r" n sk] by (simp add: member_text_def)

lemma member_skip:
  "writable d v \<Longrightarrow> stops r \<Longrightarrow>
   skip_value (at (colon # print_json False v @ r) n ObjectColon sk) =
     Some (at r (Suc n + length (print_json False v)) ObjectComma sk)"
  by (simp add: skip_value_sep skip_value_print)

lemma member_decode:
  "writable max_depth v \<Longrightarrow> stops r \<Longrightarrow>
   decode_into f (at (colon # print_json False v @ r) n ObjectColon sk) =
     map_option (\<lambda>x. (x, at r (Suc n + length (print_json False v)) ObjectComma sk)) (f (sanitize_json v))"
  by (simp add: decode_into_def decode_sep decode_print split: option.split)

lemma member_length: "length (member_text False (k, v)) = length (enc_str False k) + Suc (length (print_json False v))"
  by (simp add: member_text_def)

lemma expect_open_obj:
  "value_allowed st \<Longrightarrow> expect_delim lbrace (at (lbrace # r) n st sk) = Some (at r (Suc n) ObjectStart (st # sk))"
  by (simp add: expect_delim_def token_open_obj)

lemma expect_open_arr:
  "value_allowed st \<Longrightarrow> expect_delim lbrack (at (lbrack # r) n st sk) = Some (at r (Suc n) ArrayStart (st # sk))"
  by (simp add: expect_delim_def token_open_arr)

lemma expect_close_obj:
  "st \<in> {ObjectStart, ObjectComma} \<Longrightarrow>
   expect_delim rbrace (at (rbrace # r) n st (st' # sk)) = Some (at r (Suc n) (value_end st') sk)"
  using token_close_obj by (auto simp: expect_delim_def)

lemma expect_close_arr:
  "st \<in> {ArrayStart, ArrayComma} \<Longrightarrow>
   expect_delim rbrack (at (rbrack # r) n st (st' # sk)) = Some (at r (Suc n) (value_end st') sk)"
  using token_close_arr by (auto simp: expect_delim_def)

lemma expect_sep:
  "expect_delim c (at (colon # r) n ObjectColon sk) = expect_delim c (at r (Suc n) ObjectValue sk)"
  "expect_delim c (at (comma # r) n ArrayComma sk) = expect_delim c (at r (Suc n) ArrayValue sk)"
  by (simp_all add: expect_delim_def token_sep)

declare print_json.simps [simp del]

section \<open>The version gate\<close>

text \<open>What one member of a plan text does to the gate's variables.\<close>

definition gate_upd :: "plan \<Rightarrow> plan_header \<times> bool \<Rightarrow> string \<Rightarrow> plan_header \<times> bool" where
  "gate_upd p s k =
     (let (h, seen) = s in
      if k = ''canonical_identity'' then
        (h\<lparr>ph_identity := \<lparr>ci_block_height = ci_block_height (p_identity p),
              ci_manifest_hash = sanitize (ci_manifest_hash (p_identity p)),
              ci_core_version = sanitize (ci_core_version (p_identity p))\<rparr>\<rparr>, seen)
      else if k = ''format_version'' then (h\<lparr>ph_version := p_format_version p\<rparr>, True)
      else if k = ''manifest_url'' then (h\<lparr>ph_url := sanitize (p_manifest_url p)\<rparr>, seen)
      else if k = ''pocketdb_path'' then (h\<lparr>ph_path := sanitize (p_pocketdb_path p)\<rparr>, seen)
      else if k = ''self_hash'' then (h\<lparr>ph_self := sanitize (p_self_hash p)\<rparr>, seen)
      else (h, seen))"

lemma into_int64_fmt: "int64 i \<Longrightarrow> into_int64 old (JNum (fmt_int i)) = Some i"
  by (simp add: into_int64_def lit_int_fmt int64_def)

lemma into_identity_canon:
  "int64 (ci_block_height c) \<Longrightarrow>
   into_identity c0 (identity_canon c) =
     Some \<lparr>ci_block_height = ci_block_height c, ci_manifest_hash = sanitize (ci_manifest_hash c),
           ci_core_version = sanitize (ci_core_version c)\<rparr>"
  by (simp add: into_identity_def into_struct_def identity_canon_def find_field_def store_identity_def
      into_int64_fmt into_string_def)

lemma sanitize_identity_canon [simp]: "sanitize_json (identity_canon c) = identity_canon c"
  by (simp add: identity_canon_def)

lemma plan_member_cases:
  assumes "m \<in> set (plan_members p)"
  obtains "m = (''canonical_identity'', identity_canon (p_identity p))"
    | "m = (''divergences'', divergences_canon (p_divergences p))"
    | "m = (''format_version'', JNum (fmt_int (p_format_version p)))"
    | "m = (''manifest_url'', JStr (sanitize (p_manifest_url p)))"
    | "m = (''pocketdb_path'', JStr (sanitize (p_pocketdb_path p)))"
    | "m = (''self_hash'', JStr (sanitize (p_self_hash p)))"
  using assms unfolding plan_members_def payload_members_def append_Cons append_Nil set_simps insert_iff empty_iff
  by (elim disjE) (assumption | simp only: )+

lemma gate_step:
  assumes "wf_plan p" and m: "m \<in> set (plan_members p)" and st: "st \<in> {ObjectStart, ObjectKey}" and "stops r"
    and "fst m = ''format_version'' \<Longrightarrow> \<not> snd s"
  shows "gate_member s (at (member_text False m @ r) n st sk) =
     Inr (gate_upd p s (fst m), at r (n + length (member_text False m)) ObjectComma sk)"
proof -
  obtain h seen where s: "s = (h, seen)" by fastforce
  have w: "writable max_depth (snd m)" using writable_members [OF assms(1) m] .
  have i: "int64 (p_format_version p)" "int64 (ci_block_height (p_identity p))"
    using assms(1) by (auto simp: wf_plan_def)
  from m show ?thesis
    by (cases rule: plan_member_cases)
       (use st w i assms(4,5) s in \<open>simp_all add: gate_member_def gate_upd_def member_read_key member_skip
          member_decode member_length into_identity_canon into_int64_fmt into_string_def\<close>)
qed

lemma distinct_plan_keys: "distinct (map fst (plan_members p))"
  by (simp add: plan_members_def payload_members_def)

lemma gate_seen: "snd (foldl (gate_upd p) s ks) = (snd s \<or> ''format_version'' \<in> set ks)"
  by (induction ks arbitrary: s) (auto simp: gate_upd_def Let_def split: prod.splits)

lemma foldl_gate:
  "foldl (gate_upd p) (zero_header, False) (map fst (plan_members p)) =
     (\<lparr>ph_version = p_format_version p,
       ph_identity = \<lparr>ci_block_height = ci_block_height (p_identity p),
              ci_manifest_hash = sanitize (ci_manifest_hash (p_identity p)),
              ci_core_version = sanitize (ci_core_version (p_identity p))\<rparr>,
       ph_url = sanitize (p_manifest_url p), ph_path = sanitize (p_pocketdb_path p),
       ph_self = sanitize (p_self_hash p)\<rparr>, True)"
  by (simp add: plan_members_def payload_members_def gate_upd_def zero_header_def)

lemma new_decoder_at: "new_decoder s = at s 0 TopValue []"
  by (simp add: new_decoder_def)

theorem gate_plan_text:
  assumes "wf_plan p"
  shows "gate_format_version (plan_text p) =
     Inr \<lparr>ph_version = p_format_version p,
       ph_identity = \<lparr>ci_block_height = ci_block_height (p_identity p),
              ci_manifest_hash = sanitize (ci_manifest_hash (p_identity p)),
              ci_core_version = sanitize (ci_core_version (p_identity p))\<rparr>,
       ph_url = sanitize (p_manifest_url p), ph_path = sanitize (p_pocketdb_path p),
       ph_self = sanitize (p_self_hash p)\<rparr>"
proof -
  let ?S = "\<lambda>xs :: (string \<times> json) list. foldl (gate_upd p) (zero_header, False) (map fst xs)"
  have "for_more gate_member (?S []) (at (object_text False (plan_members p) @ rbrace # []) 1 ObjectStart [TopValue]) =
      Inr (?S (plan_members p), at (rbrace # []) (1 + length (object_text False (plan_members p)))
        (if plan_members p = [] then ObjectStart else ObjectComma) [TopValue])"
  proof (rule gate.walk_object [where S = ?S])
    show "gate_member s (at (comma # r) n ObjectComma [TopValue]) = gate_member s (at r (Suc n) ObjectKey [TopValue])" for s r n
      by (simp add: gate_member_def read_key_sep)
  next
    fix xs m ys n st r
    assume ms: "plan_members p = xs @ m # ys" and st: "st \<in> {ObjectStart, ObjectKey}" "stops r"
    have "\<not> snd (?S xs)" if "fst m = ''format_version''"
      using distinct_plan_keys [of p] that unfolding ms gate_seen by auto
    then show "gate_member (?S xs) (at (member_text False m @ r) n st [TopValue]) =
        Inr (?S (xs @ [m]), at r (n + length (member_text False m)) ObjectComma [TopValue])"
      using gate_step [OF assms _ st, of m "?S xs"] ms by simp
  qed
  then show ?thesis
    by (simp add: gate_format_version_def plan_text_def new_decoder_at expect_open_obj foldl_gate
        plan_members_def [of p, THEN arg_cong [of _ _ "\<lambda>x. x = []"]])
qed

section \<open>The self-hash\<close>

lemma locate_step:
  assumes w: "writable max_depth (snd m)" and st: "st \<in> {ObjectStart, ObjectKey}" and "stops r"
  shows "sanitize (fst m) \<noteq> ''self_hash'' \<Longrightarrow>
     locate_member (lo, b, e, saw) (at (member_text False m @ r) n st sk) =
       Inr ((n + length (member_text False m), b, e, saw), at r (n + length (member_text False m)) ObjectComma sk)"
    and "m = (''self_hash'', JStr h) \<Longrightarrow>
     locate_member (lo, b, e, saw) (at (member_text False m @ r) n st sk) =
       Inr ((n + length (member_text False m), lo, sanitize h, True), at r (n + length (member_text False m)) ObjectComma sk)"
proof -
  obtain k v where m: "m = (k, v)" by fastforce
  show "sanitize (fst m) \<noteq> ''self_hash'' \<Longrightarrow>
     locate_member (lo, b, e, saw) (at (member_text False m @ r) n st sk) =
       Inr ((n + length (member_text False m), b, e, saw), at r (n + length (member_text False m)) ObjectComma sk)"
    using st w assms(3) m by (simp add: locate_member_def member_read_key member_skip member_length)
  assume "m = (''self_hash'', JStr h)"
  with st w assms(3) show
    "locate_member (lo, b, e, saw) (at (member_text False m @ r) n st sk) =
       Inr ((n + length (member_text False m), lo, sanitize h, True), at r (n + length (member_text False m)) ObjectComma sk)"
    by (simp add: locate_member_def member_read_key member_decode member_length into_string_def)
qed

text \<open>
  The walk for a text with any members around one \<open>self_hash\<close>: the boundary is the end of the
  members before it, and what comes after it plays no part.
\<close>

lemma locate_members:
  assumes ms: "ms = ps @ (''self_hash'', JStr h) # extra" and ps: "ps \<noteq> []"
    and other: "\<forall>m \<in> set ps \<union> set extra. sanitize (fst m) \<noteq> ''self_hash'' \<and> writable max_depth (snd m)"
  shows "locate_self_hash (lbrace # object_text False ms @ [rbrace]) =
     Inr (length (lbrace # object_text False ps), sanitize h)"
proof -
  let ?S = "\<lambda>xs :: (string \<times> json) list.
     (if xs = [] then 0 else Suc (length (object_text False xs)),
      if length ps < length xs then Suc (length (object_text False ps)) else 0,
      if length ps < length xs then sanitize h else [], length ps < length xs)"
  have "for_more locate_member (?S []) (at (object_text False ms @ rbrace # []) 1 ObjectStart [TopValue]) =
      Inr (?S ms, at (rbrace # []) (1 + length (object_text False ms))
        (if ms = [] then ObjectStart else ObjectComma) [TopValue])"
  proof (rule locate.walk_object [where S = ?S])
    show "locate_member s (at (comma # r) n ObjectComma [TopValue]) = locate_member s (at r (Suc n) ObjectKey [TopValue])" for s r n
      by (simp add: locate_member_def read_key_sep)
  next
    fix xs m ys n st and r :: string
    assume sp: "ms = xs @ m # ys" and st: "st \<in> {ObjectStart, ObjectKey}" "stops r"
      and n: "n = 1 + length (object_text False xs) + (if xs = [] then 0 else 1)"
    have len: "n + length (member_text False m) = Suc (length (object_text False (xs @ [m])))"
      using n by (cases "xs = []") (simp_all add: join_on_snoc)
    have m: "m = ms ! length xs" and l: "length xs < length ms" using sp by simp_all
    consider (self) "length xs = length ps" | (ps) "length xs < length ps" | (extra) "length ps < length xs" by linarith
    then show "locate_member (?S xs) (at (member_text False m @ r) n st [TopValue]) =
        Inr (?S (xs @ [m]), at r (n + length (member_text False m)) ObjectComma [TopValue])"
    proof cases
      case self
      with ms sp have "xs = ps" and ms': "m = (''self_hash'', JStr h)" by auto
      have "writable max_depth (snd m)" using ms' by simp
      from locate_step(2) [where n = n, OF this st ms'] show ?thesis
        unfolding len using \<open>xs = ps\<close> ps by simp
    next
      case ps
      with ms m have "m \<in> set ps" by (simp add: nth_append)
      with other have o: "sanitize (fst m) \<noteq> ''self_hash''" "writable max_depth (snd m)" by auto
      from locate_step(1) [where n = n, OF o(2) st o(1)] show ?thesis
        unfolding len using ps by simp
    next
      case extra
      with ms m l have "m \<in> set extra" by (auto simp: nth_append nth_Cons' split: if_splits)
      with other have o: "sanitize (fst m) \<noteq> ''self_hash''" "writable max_depth (snd m)" by auto
      from locate_step(1) [where n = n, OF o(2) st o(1)] show ?thesis
        unfolding len using extra by simp
    qed
  qed
  then show ?thesis
    using ms by (simp add: locate_self_hash_def new_decoder_at expect_open_obj)
qed

lemma payload_keys: "m \<in> set (payload_members p) \<Longrightarrow> sanitize (fst m) \<noteq> ''self_hash''"
  by (auto simp: payload_members_def)

theorem locate_plan_text:
  assumes "wf_plan p"
  shows "locate_self_hash (plan_text p) = Inr (length (payload_text p), sanitize (p_self_hash p))"
proof -
  have "locate_self_hash (lbrace # object_text False (plan_members p) @ [rbrace]) =
      Inr (length (lbrace # object_text False (payload_members p)), sanitize (sanitize (p_self_hash p)))"
    by (rule locate_members [where extra = "[]"])
       (use writable_members [OF assms] payload_keys [of _ p] in
          \<open>auto simp: plan_members_def, auto simp: payload_members_def\<close>)
  then show ?thesis by (simp add: plan_text_def payload_text_def)
qed

section \<open>The header pass\<close>

definition header_of :: "nat \<Rightarrow> divergence \<Rightarrow> divergence_header" where
  "header_of i d =
     \<lparr>dh_index = i, dh_kind = sanitize (d_kind d), dh_path = sanitize (d_path d),
      dh_hash = sanitize (d_expected_hash d), dh_source = sanitize (d_expected_source d),
      dh_pages = (d_pages d \<noteq> [])\<rparr>"

definition headers_of :: "divergence list \<Rightarrow> divergence_header list" where
  "headers_of ds = map (\<lambda>(i, d). header_of i d) (enumerate 0 ds)"

definition div_members :: "divergence \<Rightarrow> (string \<times> json) list" where
  "div_members d =
     [(''divergence_kind'', JStr (sanitize (d_kind d)))]
       @ omit_empty ''expected_hash'' (sanitize (d_expected_hash d))
       @ omit_empty ''expected_source'' (sanitize (d_expected_source d))
       @ (if d_pages d = [] then [] else [(''pages'', JArr (map page_canon (d_pages d)))])
       @ [(''path'', JStr (sanitize (d_path d)))]"

lemma div_member_cases:
  assumes "m \<in> set (div_members d)"
  obtains "m = (''divergence_kind'', JStr (sanitize (d_kind d)))"
    | "m = (''expected_hash'', JStr (sanitize (d_expected_hash d)))"
    | "m = (''expected_source'', JStr (sanitize (d_expected_source d)))"
    | "m = (''pages'', JArr (map page_canon (d_pages d)))" "d_pages d \<noteq> []"
    | "m = (''path'', JStr (sanitize (d_path d)))"
proof -
  have o: "m \<in> set (omit_empty k s) \<Longrightarrow> m = (k, JStr s)" for k s by (simp add: omit_empty_def split: if_split_asm)
  have "m \<in> set (if d_pages d = [] then [] else [x]) \<Longrightarrow> m = x \<and> d_pages d \<noteq> []" for x by (simp split: if_split_asm)
  with assms o show ?thesis unfolding div_members_def set_append using that by (metis UnE set_ConsD empty_iff empty_set)
qed

lemma divergence_canon_members: "divergence_canon d = JObj (div_members d)"
  by (simp add: divergence_canon_def div_members_def)

definition header_upd :: "divergence \<Rightarrow> divergence_header \<Rightarrow> string \<Rightarrow> divergence_header" where
  "header_upd d h k =
     (if k = ''divergence_kind'' then h\<lparr>dh_kind := sanitize (d_kind d)\<rparr>
      else if k = ''path'' then h\<lparr>dh_path := sanitize (d_path d)\<rparr>
      else if k = ''expected_hash'' then h\<lparr>dh_hash := sanitize (d_expected_hash d)\<rparr>
      else if k = ''expected_source'' then h\<lparr>dh_source := sanitize (d_expected_source d)\<rparr>
      else h\<lparr>dh_pages := True\<rparr>)"

lemma writable_div_members:
  "wf_divergence d \<Longrightarrow> m \<in> set (div_members d) \<Longrightarrow> writable (Suc (Suc n)) (snd m)"
  using writable_divergence_canon [of d n] by (cases m) (auto simp: divergence_canon_members)

lemma skip_array_canon:
  assumes "\<And>v. v \<in> set vs \<Longrightarrow> writable n v" and "stops r"
  shows "skip_array_report_non_empty (at (colon # print_json False (JArr vs) @ r) k ObjectColon sk) =
     Some (vs \<noteq> [], at r (Suc k + length (print_json False (JArr vs))) ObjectComma sk)"
proof -
  let ?d = "at (array_text False vs @ rbrack # r) (Suc (Suc k)) ArrayStart (ObjectValue # sk)"
  have "for_more skip_element ((\<lambda>xs :: json list. ()) []) ?d =
      Inr ((\<lambda>xs :: json list. ()) vs, at (rbrack # r) (Suc (Suc k) + length (array_text False vs))
        (if vs = [] then ArrayStart else ArrayComma) (ObjectValue # sk))"
  proof (rule skip_elem.walk_array [where S = "\<lambda>xs :: json list. ()"])
    show "skip_element s (at (comma # r) n ArrayComma (ObjectValue # sk)) =
        skip_element s (at r (Suc n) ArrayValue (ObjectValue # sk))" for s r n
      by (simp add: skip_element_def skip_value_def skip_sep)
  next
    fix xs v ys n st and r :: string
    assume "vs = xs @ v # ys" "st \<in> {ArrayStart, ArrayValue}" "stops r"
    then show "skip_element () (at (print_json False v @ r) n st (ObjectValue # sk)) =
        Inr ((), at r (n + length (print_json False v)) ArrayComma (ObjectValue # sk))"
      using assms(1) [of v] by (auto simp: skip_element_def skip_value_print)
  qed (use assms in auto)
  moreover have "has_more ?d = (vs \<noteq> [])"
  proof (cases vs)
    case (Cons v us)
    have "array_text False vs @ rbrack # r = print_json False v @ elems_text False us @ rbrack # r"
      by (simp add: Cons join_on_concat comp_def)
    moreover obtain c t where "print_json False v @ elems_text False us @ rbrack # r = c # t"
        "\<not> is_ws c" "c \<noteq> rbrack" "c \<noteq> rbrace"
      using print_start [OF assms(1), of v] Cons by fastforce
    ultimately show ?thesis using Cons by (simp add: has_more_at)
  qed (simp add: has_more_at)
  ultimately show ?thesis
    by (simp add: skip_array_report_non_empty_def print_arr expect_sep expect_open_arr expect_close_arr print_json.simps)
qed

lemma header_step:
  assumes "wf_divergence d" and m: "m \<in> set (div_members d)" and st: "st \<in> {ObjectStart, ObjectKey}" and "stops r"
  shows "header_member h (at (member_text False m @ r) n st sk) =
     Inr (header_upd d h (fst m), at r (n + length (member_text False m)) ObjectComma sk)"
proof -
  have w: "writable max_depth (snd m)" unfolding max_depth_Suc by (rule writable_div_members [OF assms(1) m])
  have pg: "\<And>v. v \<in> set (map page_canon (d_pages d)) \<Longrightarrow> writable 1 v"
    using assms(1) writable_page_canon [of _ 0] by (auto simp: wf_divergence_def)
  have arr: "skip_array_report_non_empty (at (colon # print_json False (JArr (map page_canon (d_pages d))) @ r) k ObjectColon sk) =
      Some (d_pages d \<noteq> [], at r (Suc k + length (print_json False (JArr (map page_canon (d_pages d))))) ObjectComma sk)" for k
  proof -
    have "skip_array_report_non_empty (at (colon # print_json False (JArr (map page_canon (d_pages d))) @ r) k ObjectColon sk) =
      Some (map page_canon (d_pages d) \<noteq> [],
            at r (Suc k + length (print_json False (JArr (map page_canon (d_pages d))))) ObjectComma sk)"
      by (rule skip_array_canon) (rule pg, assumption, rule assms(4))
    then show ?thesis by simp
  qed
  show ?thesis
    by (rule div_member_cases [OF m]) (use st w assms(4) in \<open>simp_all add: header_member_def header_upd_def member_read_key
          member_decode member_length into_string_def arr\<close>)
qed

lemma foldl_header:
  "foldl (header_upd d) \<lparr>dh_index = i, dh_kind = [], dh_path = [], dh_hash = [], dh_source = [], dh_pages = False\<rparr>
     (map fst (div_members d)) = header_of i d"
  by (simp add: div_members_def omit_empty_def header_upd_def header_of_def)

lemma read_one_header:
  assumes "wf_divergence d" and "st \<in> {ArrayStart, ArrayValue}" and "stops r"
  shows "read_one_divergence_header i (at (print_json False (divergence_canon d) @ r) n st sk) =
     Inr (header_of i d, at r (n + length (print_json False (divergence_canon d))) ArrayComma sk)"
proof -
  let ?h = "\<lparr>dh_index = i, dh_kind = [], dh_path = [], dh_hash = [], dh_source = [], dh_pages = False\<rparr>"
  let ?S = "\<lambda>xs :: (string \<times> json) list. foldl (header_upd d) ?h (map fst xs)"
  have v: "value_allowed st" "value_end st = ArrayComma" using assms(2) by auto
  have "for_more header_member (?S []) (at (object_text False (div_members d) @ rbrace # r) (Suc n) ObjectStart (st # sk)) =
      Inr (?S (div_members d), at (rbrace # r) (Suc n + length (object_text False (div_members d)))
        (if div_members d = [] then ObjectStart else ObjectComma) (st # sk))"
  proof (rule header.walk_object [where S = ?S])
    show "header_member s (at (comma # r) n ObjectComma (st # sk)) = header_member s (at r (Suc n) ObjectKey (st # sk))" for s r n
      by (simp add: header_member_def read_key_sep)
  next
    fix xs m ys k st' and r :: string
    assume "div_members d = xs @ m # ys" "st' \<in> {ObjectStart, ObjectKey}" "stops r"
    then show "header_member (?S xs) (at (member_text False m @ r) k st' (st # sk)) =
        Inr (?S (xs @ [m]), at r (k + length (member_text False m)) ObjectComma (st # sk))"
      using header_step [OF assms(1), of m st' r] by simp
  qed
  moreover have "div_members d \<noteq> []" by (simp add: div_members_def)
  ultimately show ?thesis
    using v by (simp add: read_one_divergence_header_def divergence_canon_members print_obj expect_open_obj
        expect_close_obj foldl_header)
qed

lemma array_split:
  assumes "map f ds = xs @ v # ys"
  shows "v = f (ds ! length xs)" and "length xs < length ds"
    and "take (Suc (length xs)) ds = take (length xs) ds @ [ds ! length xs]"
proof -
  have l: "length ds = length xs + Suc (length ys)" using arg_cong [OF assms, of length] by simp
  then show len: "length xs < length ds" by simp
  have "map f ds ! length xs = v" unfolding assms by simp
  with len show "v = f (ds ! length xs)" by simp
  show "take (Suc (length xs)) ds = take (length xs) ds @ [ds ! length xs]"
    by (rule take_Suc_conv_app_nth [OF len])
qed

lemma headers_of_snoc: "headers_of (ds @ [d]) = headers_of ds @ [header_of (length ds) d]"
  by (simp add: headers_of_def enumerate_append_eq)

lemma length_headers_of [simp]: "length (headers_of ds) = length ds"
  by (simp add: headers_of_def)

lemma header_element_sep:
  "header_element s (at (comma # r) n ArrayComma sk) = header_element s (at r (Suc n) ArrayValue sk)"
  by (simp add: header_element_def read_one_divergence_header_def expect_sep)

lemma read_headers_canon:
  assumes "\<forall>d \<in> set ds. wf_divergence d" and "\<forall>h \<in> set (headers_of ds). validate_header_shape h = Inr ()"
    and "stops r"
  shows "read_divergence_headers (at (colon # print_json False (JArr (map divergence_canon ds)) @ r) n ObjectColon sk) =
     Inr (headers_of ds, at r (Suc n + length (print_json False (JArr (map divergence_canon ds)))) ObjectComma sk)"
proof -
  let ?vs = "map divergence_canon ds" and ?sk = "ObjectValue # sk"
  let ?S = "\<lambda>xs :: json list. headers_of (take (length xs) ds)"
  have "for_more header_element (?S []) (at (array_text False ?vs @ rbrack # r) (Suc (Suc n)) ArrayStart ?sk) =
      Inr (?S ?vs, at (rbrack # r) (Suc (Suc n) + length (array_text False ?vs)) (if ?vs = [] then ArrayStart else ArrayComma) ?sk)"
  proof (rule header_elem.walk_array [where S = ?S])
    fix xs v ys k st and r :: string
    assume vs: "?vs = xs @ v # ys" and st: "st \<in> {ArrayStart, ArrayValue}" "stops r"
    let ?d = "ds ! length xs"
    note sp = array_split [OF vs]
    have d: "wf_divergence ?d" using assms(1) sp(2) by simp
    have "take (Suc (length xs)) ds @ drop (Suc (length xs)) ds = ds" by simp
    then have "header_of (length xs) ?d \<in> set (headers_of ds)"
      using headers_of_snoc [of "take (length xs) ds" ?d] sp(2,3)
      by (metis headers_of_def enumerate_append_eq in_set_conv_decomp length_take map_append min.absorb4 append_assoc append_Cons)
    then have "validate_header_shape (header_of (length xs) ?d) = Inr ()" using assms(2) by simp
    then show "header_element (?S xs) (at (print_json False v @ r) k st ?sk) =
        Inr (?S (xs @ [v]), at r (k + length (print_json False v)) ArrayComma ?sk)"
      using read_one_header [OF d st] sp headers_of_snoc [of "take (length xs) ds" ?d]
      by (simp add: header_element_def min_def)
  qed (use assms(1) writable_divergence_canon header_element_sep in auto)
  moreover have "headers_of (take 0 ds) = []" by (simp add: headers_of_def)
  ultimately show ?thesis
    by (simp add: read_divergence_headers_def print_arr print_json.simps expect_sep expect_open_arr expect_close_arr)
qed

lemma headers_member_sep:
  "headers_member s (at (comma # r) n ObjectComma sk) = headers_member s (at r (Suc n) ObjectKey sk)"
  by (simp add: headers_member_def read_key_sep)

theorem headers_plan_text:
  assumes "wf_plan p" and ds: "p_divergences p = Some ds"
    and "\<forall>h \<in> set (headers_of ds). validate_header_shape h = Inr ()"
  shows "stream_divergence_headers (plan_text p) = Inr (headers_of ds)"
proof -
  let ?ms = "plan_members p"
  let ?S = "\<lambda>xs :: (string \<times> json) list. if ''divergences'' \<in> fst ` set xs then headers_of ds else []"
  have wd: "\<forall>d \<in> set ds. wf_divergence d" using assms(1) ds by (simp add: wf_plan_def)
  have "for_more headers_member (?S []) (at (object_text False ?ms @ rbrace # []) 1 ObjectStart [TopValue]) =
      Inr (?S ?ms, at (rbrace # []) (1 + length (object_text False ?ms))
        (if ?ms = [] then ObjectStart else ObjectComma) [TopValue])"
  proof (rule headers.walk_object [where S = ?S])
    fix xs m ys n st and r :: string
    assume ms: "?ms = xs @ m # ys" and st: "st \<in> {ObjectStart, ObjectKey}" "stops r"
    have m: "m \<in> set ?ms" using ms by simp
    note w = writable_members [OF assms(1) m]
    show "headers_member (?S xs) (at (member_text False m @ r) n st [TopValue]) =
        Inr (?S (xs @ [m]), at r (n + length (member_text False m)) ObjectComma [TopValue])"
    proof (cases "fst m = ''divergences''")
      case True
      with m have "m = (''divergences'', JArr (map divergence_canon ds))"
        by (auto simp: plan_members_def payload_members_def divergences_canon_def ds)
      then show ?thesis
        using st read_headers_canon [OF wd assms(3) st(2)]
        by (simp add: headers_member_def member_read_key member_length)
    next
      case False
      moreover have "sanitize (fst m) = fst m" using m by (cases rule: plan_member_cases) simp_all
      moreover obtain k v where "m = (k, v)" by fastforce
      ultimately show ?thesis
        using st w by (auto simp: headers_member_def member_read_key member_length member_skip)
    qed
  qed (rule headers_member_sep)
  moreover have "''divergences'' \<in> fst ` set ?ms" "?ms \<noteq> []" by (simp_all add: plan_members_def payload_members_def)
  ultimately show ?thesis
    by (simp add: stream_divergence_headers_def plan_text_def new_decoder_at expect_open_obj)
qed

section \<open>The page pass\<close>

definition clean_page :: "plan_page \<Rightarrow> plan_page" where
  "clean_page p = \<lparr>pp_offset = pp_offset p, pp_hash = sanitize (pp_hash p)\<rparr>"

definition div_events :: "nat \<Rightarrow> divergence \<Rightarrow> page_event list" where
  "div_events i d = (if d_pages d = [] then [] else OpenPages i # map (\<lambda>p. OnePage i (clean_page p)) (d_pages d))"

definition events_of :: "divergence list \<Rightarrow> page_event list" where
  "events_of ds = concat (map (\<lambda>(i, d). div_events i d) (enumerate 0 ds))"

lemma into_page_canon: "int64 (pp_offset p) \<Longrightarrow> into_page (sanitize_json (page_canon p)) = Some (clean_page p)"
  by (simp add: into_page_def into_struct_def page_canon_def find_field_def store_page_def into_int64_fmt
      into_string_def clean_page_def)

lemma pages_array_canon:
  assumes "\<forall>p \<in> set ps. int64 (pp_offset p)" and "stops r"
  shows "for_more (page_element i) evs (at (array_text False (map page_canon ps) @ rbrack # r) n ArrayStart sk) =
     Inr (evs @ map (\<lambda>p. OnePage i (clean_page p)) ps,
          at (rbrack # r) (n + length (array_text False (map page_canon ps))) (if ps = [] then ArrayStart else ArrayComma) sk)"
proof -
  let ?vs = "map page_canon ps"
  let ?S = "\<lambda>xs :: json list. evs @ map (\<lambda>p. OnePage i (clean_page p)) (take (length xs) ps)"
  have "for_more (page_element i) (?S []) (at (array_text False ?vs @ rbrack # r) n ArrayStart sk) =
      Inr (?S ?vs, at (rbrack # r) (n + length (array_text False ?vs)) (if ?vs = [] then ArrayStart else ArrayComma) sk)"
  proof (rule page_elem.walk_array [where S = ?S])
    show "page_element i s (at (comma # r) n ArrayComma sk) = page_element i s (at r (Suc n) ArrayValue sk)" for s r n
      by (simp add: page_element_def decode_into_def decode_sep)
  next
    fix xs v ys k st and r :: string
    assume vs: "?vs = xs @ v # ys" and st: "st \<in> {ArrayStart, ArrayValue}" "stops r"
    let ?p = "ps ! length xs"
    note sp = array_split [OF vs]
    have i: "int64 (pp_offset ?p)" using assms(1) sp(2) by simp
    have "writable max_depth v" unfolding max_depth_Suc sp(1) by (rule writable_page_canon [OF i])
    then show "page_element i (?S xs) (at (print_json False v @ r) k st sk) =
        Inr (?S (xs @ [v]), at r (k + length (print_json False v)) ArrayComma sk)"
      using st sp into_page_canon [OF i] by (auto simp: page_element_def decode_into_def decode_print)
  qed (use assms(1) writable_page_canon [of _ 0] in auto)
  then show ?thesis by simp
qed

lemma pages_member_step:
  assumes "wf_divergence d" and m: "m \<in> set (div_members d)" and st: "st \<in> {ObjectStart, ObjectKey}" and "stops r"
  shows "pages_member i evs (at (member_text False m @ r) n st sk) =
     Inr (if fst m = ''pages'' then evs @ div_events i d else evs,
          at r (n + length (member_text False m)) ObjectComma sk)"
proof -
  have w: "writable max_depth (snd m)" unfolding max_depth_Suc by (rule writable_div_members [OF assms(1) m])
  have pg: "\<forall>p \<in> set (d_pages d). int64 (pp_offset p)" using assms(1) by (simp add: wf_divergence_def)
  show ?thesis
  proof (rule div_member_cases [OF m])
    assume "m = (''pages'', JArr (map page_canon (d_pages d)))" "d_pages d \<noteq> []"
    then show ?thesis
      using st pages_array_canon [OF pg assms(4)]
      by (simp add: pages_member_def member_read_key member_length print_arr expect_sep expect_open_arr
          expect_close_arr div_events_def)
  qed (use st w assms(4) in \<open>simp_all add: pages_member_def member_read_key member_length member_skip\<close>)
qed

lemma one_pages_canon:
  assumes "wf_divergence d" and "st \<in> {ArrayStart, ArrayValue}" and "stops r"
  shows "stream_one_divergence_pages i evs (at (print_json False (divergence_canon d) @ r) n st sk) =
     Inr (evs @ div_events i d, at r (n + length (print_json False (divergence_canon d))) ArrayComma sk)"
proof -
  let ?S = "\<lambda>xs :: (string \<times> json) list. if ''pages'' \<in> fst ` set xs then evs @ div_events i d else evs"
  have v: "value_allowed st" "value_end st = ArrayComma" using assms(2) by auto
  have dk: "distinct (map fst (div_members d))" by (simp add: div_members_def omit_empty_def)
  have "for_more (pages_member i) (?S []) (at (object_text False (div_members d) @ rbrace # r) (Suc n) ObjectStart (st # sk)) =
      Inr (?S (div_members d), at (rbrace # r) (Suc n + length (object_text False (div_members d)))
        (if div_members d = [] then ObjectStart else ObjectComma) (st # sk))"
  proof (rule pages_mem.walk_object [where S = ?S])
    show "pages_member i s (at (comma # r) n ObjectComma (st # sk)) = pages_member i s (at r (Suc n) ObjectKey (st # sk))" for s r n
      by (simp add: pages_member_def read_key_sep)
  next
    fix xs m ys k st' and r :: string
    assume ms: "div_members d = xs @ m # ys" and "st' \<in> {ObjectStart, ObjectKey}" "stops r"
    moreover have "fst m \<notin> fst ` set xs" using dk unfolding ms by auto
    moreover then have "''pages'' \<notin> fst ` set xs" if "fst m = ''pages''" using that by simp
    ultimately show "pages_member i (?S xs) (at (member_text False m @ r) k st' (st # sk)) =
        Inr (?S (xs @ [m]), at r (k + length (member_text False m)) ObjectComma (st # sk))"
      using pages_member_step [OF assms(1), of m st' r] by auto
  qed
  moreover have "div_members d \<noteq> []" by (simp add: div_members_def)
  moreover have "''pages'' \<in> fst ` set (div_members d) \<longleftrightarrow> d_pages d \<noteq> []"
    by (auto simp: div_members_def omit_empty_def)
  moreover have "div_events i d = []" if "d_pages d = []" using that by (simp add: div_events_def)
  ultimately show ?thesis
    using v by (auto simp: stream_one_divergence_pages_def divergence_canon_members print_obj expect_open_obj
        expect_close_obj)
qed

lemma events_of_snoc: "events_of (ds @ [d]) = events_of ds @ div_events (length ds) d"
  by (simp add: events_of_def enumerate_append_eq)

lemma sqlite_divs_canon:
  assumes "\<forall>d \<in> set ds. wf_divergence d" and "stops r"
  shows "stream_sqlite_divergences evs (at (colon # print_json False (JArr (map divergence_canon ds)) @ r) n ObjectColon sk) =
     Inr (evs @ events_of ds, at r (Suc n + length (print_json False (JArr (map divergence_canon ds)))) ObjectComma sk)"
proof -
  let ?vs = "map divergence_canon ds" and ?sk = "ObjectValue # sk"
  let ?S = "\<lambda>xs :: json list. (length (take (length xs) ds), evs @ events_of (take (length xs) ds))"
  have "for_more pages_element (?S []) (at (array_text False ?vs @ rbrack # r) (Suc (Suc n)) ArrayStart ?sk) =
      Inr (?S ?vs, at (rbrack # r) (Suc (Suc n) + length (array_text False ?vs)) (if ?vs = [] then ArrayStart else ArrayComma) ?sk)"
  proof (rule pages_elem.walk_array [where S = ?S])
    show "pages_element s (at (comma # r) n ArrayComma ?sk) = pages_element s (at r (Suc n) ArrayValue ?sk)" for s r n
      by (simp add: pages_element_def stream_one_divergence_pages_def expect_sep Let_def split: prod.split)
  next
    fix xs v ys k st and r :: string
    assume vs: "?vs = xs @ v # ys" and st: "st \<in> {ArrayStart, ArrayValue}" "stops r"
    note sp = array_split [OF vs]
    have d: "wf_divergence (ds ! length xs)" using assms(1) sp(2) by simp
    show "pages_element (?S xs) (at (print_json False v @ r) k st ?sk) =
        Inr (?S (xs @ [v]), at r (k + length (print_json False v)) ArrayComma ?sk)"
      using one_pages_canon [OF d st] sp events_of_snoc [of "take (length xs) ds" "ds ! length xs"]
      by (simp add: pages_element_def min_def)
  qed (use assms(1) writable_divergence_canon in auto)
  moreover have "events_of (take 0 ds) = []" by (simp add: events_of_def)
  ultimately show ?thesis
    by (simp add: stream_sqlite_divergences_def print_arr print_json.simps expect_sep expect_open_arr expect_close_arr)
qed

theorem pages_plan_text:
  assumes "wf_plan p" and ds: "p_divergences p = Some ds"
  shows "stream_sqlite_pages (plan_text p) = (events_of ds, None)"
proof -
  let ?ms = "plan_members p"
  let ?S = "\<lambda>xs :: (string \<times> json) list. if ''divergences'' \<in> fst ` set xs then events_of ds else []"
  have wd: "\<forall>d \<in> set ds. wf_divergence d" using assms(1) ds by (simp add: wf_plan_def)
  have "for_more stream_member (?S []) (at (object_text False ?ms @ rbrace # []) 1 ObjectStart [TopValue]) =
      Inr (?S ?ms, at (rbrace # []) (1 + length (object_text False ?ms))
        (if ?ms = [] then ObjectStart else ObjectComma) [TopValue])"
  proof (rule stream_mem.walk_object [where S = ?S])
    show "stream_member s (at (comma # r) n ObjectComma [TopValue]) = stream_member s (at r (Suc n) ObjectKey [TopValue])" for s r n
      by (simp add: stream_member_def read_key_sep)
  next
    fix xs m ys n st and r :: string
    assume ms: "?ms = xs @ m # ys" and st: "st \<in> {ObjectStart, ObjectKey}" "stops r"
    have m: "m \<in> set ?ms" and fresh: "fst m \<notin> fst ` set xs"
      using ms distinct_plan_keys [of p] by auto
    note w = writable_members [OF assms(1) m]
    show "stream_member (?S xs) (at (member_text False m @ r) n st [TopValue]) =
        Inr (?S (xs @ [m]), at r (n + length (member_text False m)) ObjectComma [TopValue])"
    proof (cases "fst m = ''divergences''")
      case True
      with m have "m = (''divergences'', JArr (map divergence_canon ds))"
        by (auto simp: plan_members_def payload_members_def divergences_canon_def ds)
      then show ?thesis
        using st fresh sqlite_divs_canon [OF wd st(2)]
        by (simp add: stream_member_def member_read_key member_length)
    next
      case False
      moreover have "sanitize (fst m) = fst m" using m by (cases rule: plan_member_cases) simp_all
      moreover obtain k v where "m = (k, v)" by fastforce
      ultimately show ?thesis
        using st w by (auto simp: stream_member_def member_read_key member_length member_skip)
    qed
  qed
  moreover have "''divergences'' \<in> fst ` set ?ms" "?ms \<noteq> []" by (simp_all add: plan_members_def payload_members_def)
  ultimately show ?thesis
    by (simp add: stream_sqlite_pages_def plan_text_def new_decoder_at expect_open_obj)
qed

end
