(* ===== verification/Compare.thy ===== *)
theory Compare
  imports HashUtil Manifest PlanTypes
begin

text \<open>
  The comparison phase of package \<open>internal/diagnose\<close> (file_compare.go, page_compare.go).
  \<open>compare_pages\<close> is the materialising comparison and \<open>compare_pages_streaming\<close> the streaming one;
  an \<open>iter.Seq2\<close> is the list of what it yields, an error ending it.  Both are shown to compute the
  same specification: the canonical pages that the local file does not hold, in order.
\<close>

section \<open>file_compare.go\<close>

datatype cmp_err =
    WrongKind string
  | CmpHash page_err
  | CmpFile os_err
  | CmpManifest man_err

definition join_rel :: "string \<Rightarrow> string \<Rightarrow> string" where
  "join_rel pocketdbRoot entryPath =
     (if has_prefix entryPath ''pocketdb/''
      then go_join [pocketdbRoot, trim_prefix entryPath ''pocketdb/'']
      else go_join [go_dir pocketdbRoot, entryPath])"

definition compare_file_by_path_hash ::
  "string \<Rightarrow> string \<Rightarrow> string \<Rightarrow> os \<Rightarrow> (cmp_err + divergence option) \<times> os" where
  "compare_file_by_path_hash pocketdbRoot path expectedHash w =
     (let resolved = join_rel pocketdbRoot path;
          (st, w1) = os_stat resolved w
      in if st = Inl NotExist then
           (Inr (Some \<lparr>d_kind = kind_whole_file, d_path = path, d_pages = [],
                       d_expected_hash = expectedHash, d_expected_source = ''fetch_full''\<rparr>), w1)
         else case hash_whole_file resolved w1 of
                (Inl e, w2) \<Rightarrow> (Inl (CmpFile e), w2)
              | (Inr got, w2) \<Rightarrow>
                  if got \<noteq> expectedHash then
                    (Inr (Some \<lparr>d_kind = kind_whole_file, d_path = path, d_pages = [],
                                d_expected_hash = expectedHash, d_expected_source = ''''\<rparr>), w2)
                  else (Inr None, w2))"

definition compare_file :: "string \<Rightarrow> man_entry \<Rightarrow> os \<Rightarrow> (cmp_err + divergence option) \<times> os" where
  "compare_file pocketdbRoot entry w =
     (if me_kind entry \<noteq> entry_kind_whole_file then (Inl (WrongKind (me_path entry)), w)
      else compare_file_by_path_hash pocketdbRoot (me_path entry) (me_hash entry) w)"

text \<open>
  \<open>sort.Slice\<close> by offset (which is not stable: pages with equal offsets may come in any order;
  the model keeps the order they had).
\<close>

definition sort_pages :: "plan_page list \<Rightarrow> plan_page list" where
  "sort_pages pages = sort_key pp_offset pages"

section \<open>page_compare.go: ComparePages\<close>

definition to_plan_page :: "man_page \<Rightarrow> plan_page" where
  "to_plan_page p = \<lparr>pp_offset = mp_offset p, pp_hash = mp_hash p\<rparr>"

text \<open>
  The merge loop: local pages, the manifest pages from the index \<open>manifIdx\<close> on, and the divergent
  pages found so far.  The loop ends at the end of either side or at a page-alignment error; what
  is left of the manifest is then divergent.
\<close>

fun merge_compare ::
  "(page_err + page_hash) list \<Rightarrow> man_page list \<Rightarrow> plan_page list \<Rightarrow> cmp_err + plan_page list" where
  "merge_compare [] manif divergent = Inr (divergent @ map to_plan_page manif)"
| "merge_compare (Inl (UnexpectedEOF off n) # seq) manif divergent =
     Inr (divergent @ map to_plan_page manif)"
| "merge_compare (Inl e # seq) manif divergent = Inl (CmpHash e)"
| "merge_compare (Inr ph # seq) manif divergent =
     (let gaps = takeWhile (\<lambda>m. mp_offset m < ph_offset ph) manif;
          manif1 = dropWhile (\<lambda>m. mp_offset m < ph_offset ph) manif;
          divergent1 = divergent @ map to_plan_page gaps
      in case manif1 of
           [] \<Rightarrow> Inr divergent1
         | m # manif2 \<Rightarrow>
             if mp_offset m = ph_offset ph then
               merge_compare seq manif2
                 (if ph_hash ph \<noteq> mp_hash m
                  then divergent1 @ [\<lparr>pp_offset = ph_offset ph, pp_hash = mp_hash m\<rparr>]
                  else divergent1)
             else merge_compare seq manif1 divergent1)"

definition page_size :: int where
  "page_size = 4096"

definition compare_pages :: "string \<Rightarrow> man_entry \<Rightarrow> os \<Rightarrow> (cmp_err + plan_page list) \<times> os" where
  "compare_pages pocketdbRoot entry w =
     (if me_kind entry \<noteq> entry_kind_sqlite_pages then (Inl (WrongKind (me_path entry)), w)
      else let path = join_rel pocketdbRoot (me_path entry);
               (st, w1) = os_stat path w
        in if st = Inl NotExist then (Inr (map to_plan_page (me_pages entry)), w1)
           else case hash_sqlite_pages path page_size w1 of
                  (Inl e, w2) \<Rightarrow> (Inl (CmpHash e), w2)
                | (Inr seq, w2) \<Rightarrow>
                    (case merge_compare seq (me_pages entry) [] of
                       Inl e \<Rightarrow> (Inl e, w2)
                     | Inr divergent \<Rightarrow> (Inr (sort_pages divergent), w2)))"

section \<open>page_compare.go: ComparePagesStreaming\<close>

text \<open>
  The manifest side is a pull iterator: the page in hand (\<open>haveManif\<close> and \<open>curManif\<close> as an option)
  and what is still to come.  \<open>advance\<close> is \<open>advanceManif\<close>: an error ends everything after one
  last yield.
\<close>

type_synonym man_iter = "(man_err + man_page) list"
type_synonym page_yield = "(cmp_err + plan_page) list"

fun advance :: "man_iter \<Rightarrow> cmp_err + (man_page option \<times> man_iter)" where
  "advance [] = Inr (None, [])"
| "advance (Inl e # ms) = Inl (CmpManifest e)"
| "advance (Inr m # ms) = Inr (Some m, ms)"

text \<open>File missing: every manifest page is divergent.\<close>

fun drain_missing :: "man_iter \<Rightarrow> page_yield" where
  "drain_missing [] = []"
| "drain_missing (Inl e # ms) = [Inl (CmpManifest e)]"
| "drain_missing (Inr m # ms) = Inr (to_plan_page m) # drain_missing ms"

text \<open>The loop after the local file: yield the page in hand, then pull the next.\<close>

fun drain_rest :: "man_page \<Rightarrow> man_iter \<Rightarrow> page_yield" where
  "drain_rest cur [] = [Inr (to_plan_page cur)]"
| "drain_rest cur (Inl e # ms) = [Inr (to_plan_page cur), Inl (CmpManifest e)]"
| "drain_rest cur (Inr m # ms) = Inr (to_plan_page cur) # drain_rest m ms"

definition drain :: "man_page option \<Rightarrow> man_iter \<Rightarrow> page_yield" where
  "drain cur ms = (case cur of None \<Rightarrow> [] | Some c \<Rightarrow> drain_rest c ms)"

text \<open>The inner loop over gaps; \<open>None\<close> as second result when the manifest iterator failed.\<close>

fun skip_gaps ::
  "int \<Rightarrow> man_page option \<Rightarrow> man_iter \<Rightarrow> page_yield \<times> (man_page option \<times> man_iter) option" where
  "skip_gaps off None ms = ([], Some (None, ms))"
| "skip_gaps off (Some c) [] =
     (if mp_offset c < off then ([Inr (to_plan_page c)], Some (None, []))
      else ([], Some (Some c, [])))"
| "skip_gaps off (Some c) (Inl e # ms) =
     (if mp_offset c < off then ([Inr (to_plan_page c), Inl (CmpManifest e)], None)
      else ([], Some (Some c, Inl e # ms)))"
| "skip_gaps off (Some c) (Inr m # ms) =
     (if mp_offset c < off then
        (let (ys, r) = skip_gaps off (Some m) ms in (Inr (to_plan_page c) # ys, r))
      else ([], Some (Some c, Inr m # ms)))"

fun compare_stream :: "(page_err + page_hash) list \<Rightarrow> man_page option \<Rightarrow> man_iter \<Rightarrow> page_yield" where
  "compare_stream [] cur ms = drain cur ms"
| "compare_stream (Inl (UnexpectedEOF off n) # seq) cur ms = drain cur ms"
| "compare_stream (Inl e # seq) cur ms = [Inl (CmpHash e)]"
| "compare_stream (Inr ph # seq) cur ms =
     (case skip_gaps (ph_offset ph) cur ms of
        (ys, None) \<Rightarrow> ys
      | (ys, Some (None, ms1)) \<Rightarrow> ys @ drain None ms1
      | (ys, Some (Some c, ms1)) \<Rightarrow>
          if mp_offset c = ph_offset ph then
            (let zs = (if ph_hash ph \<noteq> mp_hash c
                       then [Inr \<lparr>pp_offset = ph_offset ph, pp_hash = mp_hash c\<rparr>] else [])
             in case advance ms1 of
                  Inl e \<Rightarrow> ys @ zs @ [Inl e]
                | Inr (cur2, ms2) \<Rightarrow> ys @ zs @ compare_stream seq cur2 ms2)
          else ys @ compare_stream seq (Some c) ms1)"

definition compare_pages_streaming :: "string \<Rightarrow> string \<Rightarrow> man_iter \<Rightarrow> os \<Rightarrow> page_yield \<times> os" where
  "compare_pages_streaming pocketdbRoot path manifPageIter w =
     (let resolved = join_rel pocketdbRoot path;
          (st, w1) = os_stat resolved w
      in if st = Inl NotExist then (drain_missing manifPageIter, w1)
         else case hash_sqlite_pages resolved page_size w1 of
                (Inl e, w2) \<Rightarrow> ([Inl (CmpHash e)], w2)
              | (Inr seq, w2) \<Rightarrow>
                  (case advance manifPageIter of
                     Inl e \<Rightarrow> ([Inl e], w2)
                   | Inr (cur, ms) \<Rightarrow> (compare_stream seq cur ms, w2)))"

section \<open>The streaming comparison computes what the materialising one does\<close>

text \<open>What a consumer that drains an iterator obtains: the first error, or all pages.\<close>

fun collect :: "('e + 'a) list \<Rightarrow> 'e + 'a list" where
  "collect [] = Inr []"
| "collect (Inl e # xs) = Inl e"
| "collect (Inr p # xs) = (case collect xs of Inl e \<Rightarrow> Inl e | Inr ps \<Rightarrow> Inr (p # ps))"

definition prepend :: "'a list \<Rightarrow> 'e + 'a list \<Rightarrow> 'e + 'a list" where
  "prepend ys r = (case r of Inl e \<Rightarrow> Inl e | Inr ps \<Rightarrow> Inr (ys @ ps))"

lemma prepend_simps [simp]:
  "prepend ys (Inl e) = Inl e" "prepend ys (Inr ps) = Inr (ys @ ps)"
  by (simp_all add: prepend_def)

lemma prepend_Nil [simp]: "prepend [] r = r"
  by (cases r) auto

lemma prepend_prepend [simp]: "prepend xs (prepend ys r) = prepend (xs @ ys) r"
  by (cases r) auto

lemma collect_append: "collect (map Inr ys @ zs) = prepend ys (collect zs)"
  by (induction ys) (auto split: sum.splits simp: prepend_def)

lemma collect_map_Inr [simp]: "collect (map Inr ys) = Inr ys"
  using collect_append [of ys "[]"] by simp

lemma collect_map_Inr_comp [simp]: "collect (map (Inr \<circ> f) ys) = Inr (map f ys)"
  using collect_map_Inr [of "map f ys"] by simp

text \<open>A pull iterator over a list without errors, with its first page already in hand.\<close>

definition in_hand :: "man_page list \<Rightarrow> man_page option \<times> man_iter" where
  "in_hand ms = (case ms of [] \<Rightarrow> (None, []) | m # r \<Rightarrow> (Some m, map Inr r))"

lemma in_hand_simps [simp]:
  "in_hand [] = (None, [])" "in_hand (m # r) = (Some m, map Inr r)"
  by (simp_all add: in_hand_def)

lemma advance_map [simp]: "advance (map Inr ms) = Inr (in_hand ms)"
  by (cases ms) auto

lemma drain_rest_map: "drain_rest m (map Inr r) = map Inr (map to_plan_page (m # r))"
  by (induction r arbitrary: m) auto

lemma drain_in_hand: "in_hand ms = (cur, it) \<Longrightarrow> drain cur it = map Inr (map to_plan_page ms)"
  by (cases ms) (auto simp: drain_def drain_rest_map)

lemma skip_gaps_in_hand:
  "in_hand ms = (cur, it) \<Longrightarrow>
   skip_gaps off cur it =
     (map Inr (map to_plan_page (takeWhile (\<lambda>m. mp_offset m < off) ms)),
      Some (in_hand (dropWhile (\<lambda>m. mp_offset m < off) ms)))"
proof (induction ms arbitrary: cur it)
  case (Cons m ms)
  show ?case
  proof (cases ms)
    case Nil
    with Cons.prems show ?thesis by auto
  next
    case (Cons m' r)
    have "skip_gaps off (Some m') (map Inr r) =
      (map Inr (map to_plan_page (takeWhile (\<lambda>m. mp_offset m < off) ms)),
       Some (in_hand (dropWhile (\<lambda>m. mp_offset m < off) ms)))"
      using Cons.IH [of "Some m'" "map Inr r"] Cons by simp
    with Cons.prems Cons show ?thesis by auto
  qed
qed simp

lemma merge_compare_stream:
  assumes "in_hand ms = (cur, it)"
  shows "merge_compare seq ms acc = prepend acc (collect (compare_stream seq cur it))"
  using assms
proof (induction seq ms acc arbitrary: cur it rule: merge_compare.induct)
  case (1 ms acc)
  then show ?case by (simp add: drain_in_hand)
next
  case (2 off n seq ms acc)
  then show ?case by (simp add: drain_in_hand)
next
  case (4 ph seq ms acc)
  let ?g = "takeWhile (\<lambda>m. mp_offset m < ph_offset ph) ms"
  let ?r = "dropWhile (\<lambda>m. mp_offset m < ph_offset ph) ms"
  note sg = skip_gaps_in_hand [OF "4.prems", of "ph_offset ph"]
  show ?case
  proof (cases ?r)
    case Nil
    with sg show ?thesis by (simp add: drain_def Let_def del: dropWhile_eq_Nil_conv)
  next
    case (Cons m ms2)
    show ?thesis
    proof (cases "mp_offset m = ph_offset ph")
      case True
      obtain cur2 it2 where h2: "in_hand ms2 = (cur2, it2)" by fastforce
      let ?z = "if ph_hash ph \<noteq> mp_hash m then [\<lparr>pp_offset = ph_offset ph, pp_hash = mp_hash m\<rparr>] else []"
      have "merge_compare (Inr ph # seq) ms acc =
          merge_compare seq ms2 ((acc @ map to_plan_page ?g) @ ?z)"
        using Cons True by (simp add: Let_def)
      also have "\<dots> = prepend ((acc @ map to_plan_page ?g) @ ?z) (collect (compare_stream seq cur2 it2))"
        using "4.IH"(1) [OF refl refl refl Cons True h2] by (cases "ph_hash ph \<noteq> mp_hash m") simp_all
      also have "\<dots> = prepend acc (collect (map Inr (map to_plan_page ?g) @ map Inr ?z @ compare_stream seq cur2 it2))"
        by (simp only: collect_append prepend_prepend append_assoc)
      also have "map Inr (map to_plan_page ?g) @ map Inr ?z @ compare_stream seq cur2 it2 =
          compare_stream (Inr ph # seq) cur it"
        using sg Cons True h2 by (simp add: Let_def)
      finally show ?thesis .
    next
      case False
      have "merge_compare (Inr ph # seq) ms acc = merge_compare seq ?r (acc @ map to_plan_page ?g)"
        using Cons False by (simp add: Let_def)
      also have "\<dots> = prepend (acc @ map to_plan_page ?g) (collect (compare_stream seq (Some m) (map Inr ms2)))"
        using "4.IH"(2) [OF refl refl refl Cons False] Cons by simp
      also have "\<dots> = prepend acc (collect (map Inr (map to_plan_page ?g) @ compare_stream seq (Some m) (map Inr ms2)))"
        by (simp only: collect_append prepend_prepend append_assoc)
      also have "map Inr (map to_plan_page ?g) @ compare_stream seq (Some m) (map Inr ms2) =
          compare_stream (Inr ph # seq) cur it"
        using sg Cons False by simp
      finally show ?thesis .
    qed
  qed
qed simp_all

section \<open>What the comparison computes\<close>

definition holds_page :: "page_hash list \<Rightarrow> man_page \<Rightarrow> bool" where
  "holds_page phs m \<longleftrightarrow> (\<exists>ph \<in> set phs. ph_offset ph = mp_offset m \<and> ph_hash ph = mp_hash m)"

definition only_eof :: "(page_err + page_hash) list \<Rightarrow> bool" where
  "only_eof seq \<longleftrightarrow> (\<forall>e. Inl e \<in> set seq \<longrightarrow> (\<exists>off n. e = UnexpectedEOF off n))"

lemma holds_page_Cons:
  "holds_page (ph # phs) m \<longleftrightarrow> (ph_offset ph = mp_offset m \<and> ph_hash ph = mp_hash m) \<or> holds_page phs m"
  by (auto simp: holds_page_def)

lemma not_holds_before:
  "(\<And>ph. ph \<in> set phs \<Longrightarrow> mp_offset m < ph_offset ph) \<Longrightarrow> \<not> holds_page phs m"
  by (force simp: holds_page_def)



lemma merge_compare_spec:
  assumes "sorted_wrt (<) (map ph_offset (oks seq))" and "error_last seq" and "only_eof seq"
    and "sorted_wrt (<) (map mp_offset ms)"
  shows "merge_compare seq ms acc = Inr (acc @ map to_plan_page (filter (\<lambda>m. \<not> holds_page (oks seq) m) ms))"
  using assms
proof (induction seq ms acc rule: merge_compare.induct)
  case (1 ms acc)
  then show ?case by (simp add: holds_page_def)
next
  case (2 off n seq ms acc)
  then show ?case by (simp add: holds_page_def)
next
  case (4 ph seq ms acc)
  let ?lt = "\<lambda>m. mp_offset m < ph_offset ph"
  let ?g = "takeWhile ?lt ms" and ?r = "dropWhile ?lt ms"
  let ?F = "filter (\<lambda>m. \<not> holds_page (oks (Inr ph # seq)) m)"
  have later: "\<And>p. p \<in> set (oks seq) \<Longrightarrow> ph_offset ph < ph_offset p"
    using "4.prems"(1) by simp
  have asc: "sorted_wrt (<) (map ph_offset (oks seq))" "error_last seq" "only_eof seq"
    using "4.prems" by (auto simp: only_eof_def)
  have gaps: "?F ?g = ?g"
  proof (rule filter_True, rule ballI)
    fix m assume "m \<in> set ?g"
    then have "mp_offset m < ph_offset ph" by (metis set_takeWhileD)
    then show "\<not> holds_page (oks (Inr ph # seq)) m"
      by (intro not_holds_before) (auto dest: later)
  qed
  have "?F ms = ?F (?g @ ?r)" by simp
  also have "\<dots> = ?g @ ?F ?r" by (simp only: filter_append gaps)
  finally have split: "?F ms = ?g @ ?F ?r" .
  have sorted_r: "sorted_wrt (<) (map mp_offset ?r)"
  proof -
    have "sorted_wrt (<) (map mp_offset (?g @ ?r))" using "4.prems"(4) by simp
    then show ?thesis unfolding map_append sorted_wrt_append by blast
  qed
  show ?case
  proof (cases ?r)
    case Nil
    with split show ?thesis by (simp add: Let_def del: dropWhile_eq_Nil_conv)
  next
    case (Cons m ms2)
    have s2: "sorted_wrt (<) (map mp_offset ms2)" and m2: "\<And>x. x \<in> set ms2 \<Longrightarrow> mp_offset m < mp_offset x"
      using sorted_r Cons by auto
    have ge: "\<not> mp_offset m < ph_offset ph" using hd_dropWhile [of ?lt ms] Cons by simp
    have rest: "?F ms2 = filter (\<lambda>m. \<not> holds_page (oks seq) m) ms2"
      using m2 ge by (intro filter_cong) (fastforce simp: holds_page_Cons)+
    show ?thesis
    proof (cases "mp_offset m = ph_offset ph")
      case True
      have "\<not> holds_page (oks seq) m" using later True by (intro not_holds_before) simp
      then have hm: "holds_page (oks (Inr ph # seq)) m \<longleftrightarrow> ph_hash ph = mp_hash m"
        using True by (auto simp: holds_page_Cons)
      have "merge_compare (Inr ph # seq) ms acc = merge_compare seq ms2
          (if ph_hash ph \<noteq> mp_hash m
           then (acc @ map to_plan_page ?g) @ [\<lparr>pp_offset = ph_offset ph, pp_hash = mp_hash m\<rparr>]
           else acc @ map to_plan_page ?g)"
        using Cons True by (simp add: Let_def)
      also have "\<dots> = Inr ((if ph_hash ph \<noteq> mp_hash m
           then (acc @ map to_plan_page ?g) @ [\<lparr>pp_offset = ph_offset ph, pp_hash = mp_hash m\<rparr>]
           else acc @ map to_plan_page ?g) @ map to_plan_page (?F ms2))"
        using "4.IH"(1) [OF refl refl refl Cons True asc s2] rest by simp
      also have "\<dots> = Inr (acc @ map to_plan_page (?F ms))"
        unfolding split Cons using hm True by (simp add: to_plan_page_def)
      finally show ?thesis .
    next
      case False
      with ge have "ph_offset ph < mp_offset m" by simp
      then have all: "?F ?r = filter (\<lambda>m. \<not> holds_page (oks seq) m) ?r"
        unfolding Cons using m2 by (intro filter_cong) (fastforce simp: holds_page_Cons)+
      have "merge_compare (Inr ph # seq) ms acc = merge_compare seq ?r (acc @ map to_plan_page ?g)"
        using Cons False by (simp add: Let_def)
      also have "\<dots> = Inr ((acc @ map to_plan_page ?g) @ map to_plan_page (?F ?r))"
        using "4.IH"(2) [OF refl refl refl Cons False asc sorted_r] all by simp
      finally show ?thesis unfolding split by simp
    qed
  qed
qed (auto simp: only_eof_def)

text \<open>
  The law of a page source that the merge rests on: strictly ascending offsets, an error only as
  the last element.
\<close>

locale page_source =
  fixes seq :: "(page_err + page_hash) list"
  assumes ascending: "sorted_wrt (<) (map ph_offset (oks seq))"
    and ends: "error_last seq"
begin

lemma merge_spec:
  "only_eof seq \<Longrightarrow> sorted_wrt (<) (map mp_offset ms) \<Longrightarrow>
   merge_compare seq ms [] = Inr (map to_plan_page (filter (\<lambda>m. \<not> holds_page (oks seq) m) ms))"
  using merge_compare_spec [OF ascending ends] by simp

lemma stream_spec:
  assumes "only_eof seq" and "sorted_wrt (<) (map mp_offset ms)" and "in_hand ms = (cur, it)"
  shows "collect (compare_stream seq cur it) =
     Inr (map to_plan_page (filter (\<lambda>m. \<not> holds_page (oks seq) m) ms))"
  using merge_compare_stream [OF assms(3), of seq "[]"] merge_spec [OF assms(1,2)] by simp

end

text \<open>The pages of a file, whatever read error ended them.\<close>

lemma page_seq_ascending: "0 < ps \<Longrightarrow> sorted_wrt (<) (map ph_offset (oks (page_seq ps off dat err)))"
  by (simp add: page_seq_oks comp_def sorted_wrt_map sorted_wrt_iff_nth_less)

interpretation file_pages: page_source "page_seq (nat page_size) 0 dat err"
  by unfold_locales (auto simp: page_seq_ascending page_seq_error_last page_size_def)

lemma page_seq_only_eof: "only_eof (page_seq ps off dat None)"
proof (induction ps off dat "None :: os_err option" rule: page_seq.induct)
  case (1 ps off dat)
  then show ?case by (subst page_seq.simps) (auto simp: only_eof_def)
qed

text \<open>The local file holds a canonical page: a whole page at that offset with that digest.\<close>

definition page_in_file :: "bytes \<Rightarrow> man_page \<Rightarrow> bool" where
  "page_in_file dat m \<longleftrightarrow>
     (\<exists>k < length dat div nat page_size.
        mp_offset m = int (k * nat page_size) \<and> mp_hash m = sha256_hex (file_page (nat page_size) dat k))"

lemma holds_page_file: "holds_page (oks (page_seq (nat page_size) 0 dat err)) m = page_in_file dat m"
  by (subst page_seq_oks) (auto simp: page_size_def holds_page_def page_in_file_def)

definition missing_pages :: "bytes option \<Rightarrow> man_page list \<Rightarrow> plan_page list" where
  "missing_pages local ms =
     (case local of None \<Rightarrow> map to_plan_page ms
      | Some dat \<Rightarrow> map to_plan_page (filter (\<lambda>m. \<not> page_in_file dat m) ms))"

lemma sorted_offsets_filter:
  "sorted_wrt (<) (map mp_offset ms) \<Longrightarrow> sorted_wrt (<) (map mp_offset (filter P ms))"
  by (induction ms) auto

lemma map_offset_to_plan: "map pp_offset (map to_plan_page xs) = map mp_offset xs"
  by (simp add: to_plan_page_def)

lemma sorted_missing:
  "sorted_wrt (<) (map mp_offset ms) \<Longrightarrow> sorted_wrt (<) (map pp_offset (missing_pages local ms))"
  by (cases local) (simp_all add: missing_pages_def map_offset_to_plan sorted_offsets_filter del: map_map)

lemma sort_pages_id: "sorted_wrt (<) (map pp_offset ps) \<Longrightarrow> sort_pages ps = ps"
  unfolding sort_pages_def
  by (rule sort_key_id_if_sorted) (metis sorted_wrt_mono_rel less_imp_le)

lemma hash_sqlite_pages_quiet:
  assumes "quiet w" and "file_data w p = Some dat"
  shows "hash_sqlite_pages p page_size w = (Inr (page_seq (nat page_size) 0 dat None), tick (tick w))"
proof -
  obtain i where i: "node_at w p = Some (FileN i)" "store w i = dat"
    using assms(2) by (auto simp: file_data_Some_iff)
  have "open_read p w = (Inr i, tick w)" using assms(1) i by (simp add: open_read_def syscall_quiet)
  moreover have "read_stream i (tick w) = ((dat, None), tick (tick w))"
    using assms(1) i by (simp add: read_stream_def quiet_def)
  ultimately show ?thesis by (simp add: hash_sqlite_pages_def page_size_def)
qed

text \<open>
  C14. On a fault-free world, for canonical pages in ascending offset order, \<open>ComparePages\<close> returns exactly
  the canonical pages that the local file does not hold, in order; all of them when the file is missing.
\<close>

theorem compare_pages_correct:
  assumes "quiet w" and "me_kind entry = entry_kind_sqlite_pages"
    and "sorted_wrt (<) (map mp_offset (me_pages entry))"
    and "node_at w (join_rel root (me_path entry)) \<noteq> Some DirN"
  shows "fst (compare_pages root entry w) =
     Inr (missing_pages (file_data w (join_rel root (me_path entry))) (me_pages entry))"
proof (cases "node_at w (join_rel root (me_path entry))")
  case None
  with assms show ?thesis
    by (simp add: compare_pages_def os_stat_quiet missing_pages_def file_data_def Let_def)
next
  case (Some n)
  with assms(4) obtain i where i: "node_at w (join_rel root (me_path entry)) = Some (FileN i)"
    by (cases n) auto
  then have d: "file_data w (join_rel root (me_path entry)) = Some (store w i)"
    by (simp add: file_data_def)
  have m: "missing_pages (Some (store w i)) (me_pages entry) =
      map to_plan_page (filter (\<lambda>m. \<not> page_in_file (store w i) m) (me_pages entry))"
    by (simp add: missing_pages_def)
  have "merge_compare (page_seq (nat page_size) 0 (store w i) None) (me_pages entry) [] =
      Inr (missing_pages (Some (store w i)) (me_pages entry))"
    using file_pages.merge_spec [OF page_seq_only_eof assms(3)] by (simp add: holds_page_file m)
  moreover have "hash_sqlite_pages (join_rel root (me_path entry)) page_size (tick w) =
      (Inr (page_seq (nat page_size) 0 (store w i) None), tick (tick (tick w)))"
    using hash_sqlite_pages_quiet [of "tick w"] assms(1) d by simp
  ultimately show ?thesis
    using assms(1,2) i d sort_pages_id [OF sorted_missing [OF assms(3)]]
    by (simp add: compare_pages_def os_stat_quiet Let_def)
qed

lemma drain_missing_map: "drain_missing (map Inr ms) = map Inr (map to_plan_page ms)"
  by (induction ms) auto

text \<open>
  C28. \<open>ComparePagesStreaming\<close> yields the pages and errors of \<open>ComparePages\<close>, on every world, whatever faults
  strike, up to the final sort by offset.
\<close>

theorem compare_pages_stream_agree:
  assumes "me_kind entry = entry_kind_sqlite_pages"
  shows "fst (compare_pages root entry w) =
    (let r = collect (fst (compare_pages_streaming root (me_path entry) (map Inr (me_pages entry)) w))
     in if fst (os_stat (join_rel root (me_path entry)) w) = Inl NotExist then r
        else map_sum id sort_pages r)"
proof -
  let ?p = "join_rel root (me_path entry)"
  obtain st w1 where st: "os_stat ?p w = (st, w1)" by fastforce
  show ?thesis
  proof (cases "st = Inl NotExist")
    case True
    with st assms show ?thesis
      by (simp add: compare_pages_def compare_pages_streaming_def drain_missing_map Let_def)
  next
    case False
    obtain r w2 where h: "hash_sqlite_pages ?p page_size w1 = (r, w2)" by fastforce
    obtain cur it where c: "in_hand (me_pages entry) = (cur, it)" by fastforce
    show ?thesis
    proof (cases r)
      case (Inl e)
      with st False h assms show ?thesis
        by (simp add: compare_pages_def compare_pages_streaming_def Let_def)
    next
      case (Inr seq)
      with st False h assms c merge_compare_stream [OF c, of seq "[]"] show ?thesis
        by (auto simp: compare_pages_def compare_pages_streaming_def Let_def split: sum.splits)
    qed
  qed
qed

section \<open>Whole files, and where entries point\<close>

lemma hash_whole_file_eq:
  "hash_whole_file p w =
     (case faults w (ticks w) of
        Some (Fault e _ _) \<Rightarrow> Inl (Sys e)
      | None \<Rightarrow> (case node_at w p of
           None \<Rightarrow> Inl NotExist | Some DirN \<Rightarrow> Inl BadOp | Some (FileN i) \<Rightarrow> Inr (sha256_hex (store w i))), tick w)"
  by (simp add: hash_whole_file_def read_file_def syscall_def split: option.split fault.split node.split)

text \<open>
  C29. \<open>CompareFileByPathHash\<close> on every branch, with whatever faults. Only when \<open>Stat\<close> itself says that the file does
  not exist is it reported as a full fetch; any other answer of \<open>Stat\<close>, an error too, leads to the hash. There an
  error of reading is the result, be it a fault, a directory, or a file that is missing after all; a file
  with another digest is divergent, and one with the expected digest is not reported. Nothing is changed.
\<close>

theorem compare_file_correct:
  "compare_file_by_path_hash root path h w =
     (let p = join_rel root path;
          d = \<lparr>d_kind = kind_whole_file, d_path = path, d_pages = [], d_expected_hash = h, d_expected_source = ''''\<rparr>
      in if faults w (ticks w) = None \<and> node_at w p = None
         then (Inr (Some (d\<lparr>d_expected_source := ''fetch_full''\<rparr>)), tick w)
         else (case faults w (Suc (ticks w)) of
             Some (Fault e _ _) \<Rightarrow> Inl (CmpFile (Sys e))
           | None \<Rightarrow>
               (case node_at w p of
                  None \<Rightarrow> Inl (CmpFile NotExist)
                | Some DirN \<Rightarrow> Inl (CmpFile BadOp)
                | Some (FileN i) \<Rightarrow> Inr (if sha256_hex (store w i) = h then None else Some d)), tick (tick w)))"
proof -
  have s: "os_stat p w = ((case faults w (ticks w) of Some (Fault e _ _) \<Rightarrow> Inl (Sys e)
      | None \<Rightarrow> (case node_at w p of None \<Rightarrow> Inl NotExist | Some n \<Rightarrow> Inr n)), tick w)" for p
    by (simp add: os_stat_def syscall_def split: option.split fault.split)
  have t: "faults (tick w) = faults w" "ticks (tick w) = Suc (ticks w)" "store (tick w) = store w"
      "node_at (tick w) p = node_at w p" for p
    by (simp_all add: tick_def node_at_def)
  show ?thesis
    by (cases "faults w (ticks w)"; cases "faults w (Suc (ticks w))"; cases "node_at w (join_rel root path)")
       (auto simp: compare_file_by_path_hash_def Let_def s hash_whole_file_eq t split: fault.split node.split)
qed

text \<open>The same without faults.\<close>

lemma compare_file_quiet:
  assumes "quiet w" and "node_at w (join_rel root path) \<noteq> Some DirN"
  shows "fst (compare_file_by_path_hash root path h w) =
     Inr (case file_data w (join_rel root path) of
            None \<Rightarrow> Some \<lparr>d_kind = kind_whole_file, d_path = path, d_pages = [],
                          d_expected_hash = h, d_expected_source = ''fetch_full''\<rparr>
          | Some dat \<Rightarrow>
              if sha256_hex dat = h then None
              else Some \<lparr>d_kind = kind_whole_file, d_path = path, d_pages = [],
                         d_expected_hash = h, d_expected_source = ''''\<rparr>)"
  using assms
  by (cases "node_at w (join_rel root path)"; cases "the (node_at w (join_rel root path))")
     (simp_all add: compare_file_by_path_hash_def os_stat_quiet hash_whole_file_eq file_data_def Let_def quiet_def)

lemma has_prefix_pocketdb_slash:
  assumes "has_prefix p ''pocketdb/''" and "plain_path p"
  shows "plain_path (trim_prefix p ''pocketdb/'')" and "p = ''pocketdb/'' @ trim_prefix p ''pocketdb/''"
proof -
  from assms(1) obtain r where r: "p = ''pocketdb/'' @ r" unfolding has_prefix_iff by blast
  have t: "trim_prefix p ''pocketdb/'' = r" unfolding r by (rule trim_prefix_append)
  show "p = ''pocketdb/'' @ trim_prefix p ''pocketdb/''" unfolding t by (rule r)
  have "split_on slash p = ''pocketdb'' # split_on slash r"
    using r split_on_append [of slash "''pocketdb''" r] by simp
  with assms(2) have "plain_path r" by (simp add: plain_path_def)
  with t show "plain_path (trim_prefix p ''pocketdb/'')" by simp
qed

text \<open>
  C30. An entry path that \<open>ValidateEntryPath\<close> accepts resolves to a name below the cleaned
  root, or below its parent, with no component of the path lost.
\<close>

theorem join_rel_below:
  assumes "validate_entry_path p = Inr ()" and "is_abs root"
  shows "join_rel root p =
     (if has_prefix p ''pocketdb/'' then below (go_clean root) (trim_prefix p ''pocketdb/'')
      else below (go_dir root) p)"
proof -
  have pl: "plain_path p" using assms(1) by (simp add: validate_entry_path_iff)
  show ?thesis
  proof (cases "has_prefix p ''pocketdb/''")
    case True
    then show ?thesis
      using go_join_below [OF assms(2) has_prefix_pocketdb_slash(1) [OF True pl]]
      by (simp only: join_rel_def if_True)
  next
    case False
    then show ?thesis
      using go_join_below [OF is_abs_dir [OF assms(2)] pl] go_clean_dir [OF assms(2)]
      by (simp only: join_rel_def if_False)
  qed
qed

section \<open>Concrete runs\<close>

definition demo_entry :: man_entry where
  "demo_entry = \<lparr>me_kind = entry_kind_sqlite_pages, me_path = ''pocketdb/m'',
     me_pages = [\<lparr>mp_offset = 0, mp_hash = sha256_hex (replicate 4096 (CHR ''a''))\<rparr>,
                 \<lparr>mp_offset = 4096, mp_hash = ''y''\<rparr>],
     me_change_counter = None, me_hash = ''''\<rparr>"

definition demo_world :: os where
  "demo_world = world_of [''/d'', ''/d/pocketdb''] [(''/d/pocketdb/m'', replicate 4096 (CHR ''a''))]"

lemma demo_join: "join_rel ''/d/pocketdb'' ''pocketdb/m'' = ''/d/pocketdb/m''"
  by code_simp

lemma demo_file:
  "file_data demo_world ''/d/pocketdb/m'' = Some (replicate 4096 (CHR ''a''))"
  "node_at demo_world ''/d/pocketdb/m'' = Some (FileN 0)" "quiet demo_world"
  by (simp_all add: demo_world_def) (simp_all add: world_of_def file_data_def node_at_def)

lemma compare_pages_correct_witness:
  "fst (compare_pages ''/d/pocketdb'' demo_entry demo_world) =
     Inr [\<lparr>pp_offset = 4096, pp_hash = ''y''\<rparr>]"
proof -
  have p: "page_in_file (replicate 4096 (CHR ''a'')) \<lparr>mp_offset = 0, mp_hash = sha256_hex (replicate 4096 (CHR ''a''))\<rparr>"
    unfolding page_in_file_def by (rule exI [of _ 0]) (simp add: page_size_def file_page_def del: replicate.simps)
  have q: "\<not> page_in_file (replicate 4096 (CHR ''a'')) \<lparr>mp_offset = 4096, mp_hash = ''y''\<rparr>"
    by (simp add: page_in_file_def page_size_def)
  show ?thesis
    using compare_pages_correct [of demo_world demo_entry "''/d/pocketdb''"] demo_file p q
    by (simp add: demo_entry_def demo_join missing_pages_def to_plan_page_def)
qed

lemma compare_pages_stream_agree_witness:
  "fst (compare_pages ''/d/pocketdb'' demo_entry demo_world) =
     map_sum id sort_pages (collect (fst (compare_pages_streaming ''/d/pocketdb'' ''pocketdb/m''
       (map Inr (me_pages demo_entry)) demo_world)))"
  using compare_pages_stream_agree [of demo_entry "''/d/pocketdb''" demo_world] demo_file
  by (simp add: demo_entry_def demo_join os_stat_quiet)

lemma join_rel_below_witness: "join_rel ''/d/pocketdb'' ''blocks/x'' = ''/d/blocks/x''"
proof -
  have "validate_entry_path ''blocks/x'' = Inr ()" "is_abs ''/d/pocketdb''" by code_simp+
  from join_rel_below [OF this] have "join_rel ''/d/pocketdb'' ''blocks/x'' = below (go_dir ''/d/pocketdb'') ''blocks/x''"
    by (simp add: has_prefix_def)
  also have "\<dots> = ''/d/blocks/x''" by code_simp
  finally show ?thesis .
qed

end
