(* ===== verification/PlanEmit.thy ===== *)
theory PlanEmit
  imports PlanRoundTrip Compare Staging Rollback
begin

text \<open>
  Writing the plan file (\<open>internal/diagnose/plan_emit.go\<close> and \<open>atomic_write.go\<close>).  The emitter
  streams the page divergences into a spool file as they are found and buffers the whole-file ones;
  \<open>Finalize\<close> assembles the plan in a temporary file, hashing what it writes, and renames it to its
  place.  An open file is its inode number; a nil \<open>*os.File\<close> is \<open>None\<close>.
\<close>

record plan_emitter =
  pe_out :: string
  pe_spool_path :: string
  pe_spool :: "nat option"
  pe_sqlite_count :: nat
  pe_whole :: "divergence list"
  pe_tmp :: string

datatype emit_err = EmitOs os_err | EmitFeed cmp_err | EmitCanon

definition new_plan_emitter :: "string \<Rightarrow> os \<Rightarrow> (emit_err + plan_emitter) \<times> os" where
  "new_plan_emitter out w =
     (case create_temp (go_dir out) ''pocketnet-node-doctor-planemit-'' ''.spool'' w of
        (Inl e, w1) \<Rightarrow> (Inl (EmitOs e), w1)
      | (Inr (p, i), w1) \<Rightarrow>
          (Inr \<lparr>pe_out = out, pe_spool_path = p, pe_spool = Some i, pe_sqlite_count = 0, pe_whole = [],
                pe_tmp = []\<rparr>, w1))"

section \<open>Streaming one divergence to the spool\<close>

definition spool_write :: "plan_emitter \<Rightarrow> string \<Rightarrow> unit io" where
  "spool_write e dat w = (case pe_spool e of None \<Rightarrow> (Inl BadOp, w) | Some i \<Rightarrow> append_ino i dat w)"

text \<open>Pieces written one after the other; a piece that could not be encoded is \<open>None\<close>.\<close>

fun write_pieces :: "(string \<Rightarrow> unit io) \<Rightarrow> string option list \<Rightarrow> os \<Rightarrow> (emit_err + unit) \<times> os" where
  "write_pieces wr [] w = (Inr (), w)"
| "write_pieces wr (None # ps) w = (Inl EmitCanon, w)"
| "write_pieces wr (Some s # ps) w =
     (case wr s w of (Inl e, w1) \<Rightarrow> (Inl (EmitOs e), w1) | (Inr _, w1) \<Rightarrow> write_pieces wr ps w1)"

text \<open>The separators before a page: the opening of the divergence, or a comma.\<close>

definition page_lead :: "plan_emitter \<Rightarrow> bool \<Rightarrow> string option list" where
  "page_lead e started =
     (if \<not> started
      then (if pe_sqlite_count e > 0 then [Some '','' ] else [])
           @ [Some ''{\"divergence_kind\":\"sqlite_pages\",\"pages\":['']
      else [Some '','' ])"

text \<open>The loop over the feed: the number of pages written, whether any was, and an error.\<close>

fun feed_pages ::
  "plan_emitter \<Rightarrow> page_yield \<Rightarrow> bool \<Rightarrow> nat \<Rightarrow> os \<Rightarrow> ((bool \<times> nat) \<times> emit_err option) \<times> os" where
  "feed_pages e [] started count w = (((started, count), None), w)"
| "feed_pages e (Inl err # ps) started count w = (((started, count), Some (EmitFeed err)), w)"
| "feed_pages e (Inr pg # ps) started count w =
     (case write_pieces (spool_write e) (page_lead e started @ [canon_typed (page_tree pg)]) w of
        (Inl err, w1) \<Rightarrow> (((started, count), Some err), w1)
      | (Inr _, w1) \<Rightarrow> feed_pages e ps True (Suc count) w1)"

definition emit_sqlite_pages ::
  "plan_emitter \<Rightarrow> string \<Rightarrow> page_yield \<Rightarrow> os \<Rightarrow> ((nat \<times> emit_err option) \<times> plan_emitter) \<times> os" where
  "emit_sqlite_pages e path pages w =
     (case feed_pages e pages False 0 w of
        (((_, count), Some err), w1) \<Rightarrow> (((count, Some err), e), w1)
      | (((started, count), None), w1) \<Rightarrow>
          if \<not> started then (((count, None), e), w1)
          else (case write_pieces (spool_write e) [Some ''],\"path\":'', Some (enc_str False path), Some ''}''] w1 of
                  (Inl err, w2) \<Rightarrow> (((count, Some err), e), w2)
                | (Inr _, w2) \<Rightarrow> (((count, None), e\<lparr>pe_sqlite_count := Suc (pe_sqlite_count e)\<rparr>), w2)))"

definition buffer_whole_file :: "plan_emitter \<Rightarrow> divergence \<Rightarrow> plan_emitter" where
  "buffer_whole_file e d = e\<lparr>pe_whole := pe_whole e @ [d]\<rparr>"

section \<open>Assembling the plan\<close>

definition head_pieces :: "canonical_identity \<Rightarrow> string option list" where
  "head_pieces ci =
     (case canon_typed (identity_tree ci) of
        None \<Rightarrow> [None]
      | Some b \<Rightarrow> [Some ''{\"canonical_identity\":'', Some b, Some '',\"divergences\":['' ])"

fun whole_pieces :: "bool \<Rightarrow> divergence list \<Rightarrow> string option list" where
  "whole_pieces have [] = []"
| "whole_pieces have (d # ds) =
     (if have then [Some '','' ] else []) @ [canon_typed (divergence_tree d)] @ whole_pieces True ds"

definition tail_pieces :: "string \<Rightarrow> string \<Rightarrow> string option list" where
  "tail_pieces url path =
     (case canon_typed (JNum (fmt_int plan_format_version)) of
        None \<Rightarrow> [None]
      | Some fv \<Rightarrow>
          [Some '',\"format_version\":'', Some fv, Some '',\"manifest_url\":'', Some (enc_str False url),
           Some '',\"pocketdb_path\":'', Some (enc_str False path)])"

definition pieces_text :: "string option list \<Rightarrow> string" where
  "pieces_text ps = concat (map (\<lambda>p. case p of None \<Rightarrow> [] | Some s \<Rightarrow> s) ps)"

text \<open>
  \<open>writePayload\<close> writes through \<open>io.MultiWriter\<close>: the bytes that reach the file also reach the
  hasher.  The result is what the hasher got.  The copy of the spool is one call here.
\<close>

definition write_payload ::
  "plan_emitter \<Rightarrow> canonical_identity \<Rightarrow> string \<Rightarrow> string \<Rightarrow> nat \<Rightarrow> os \<Rightarrow> (emit_err + string) \<times> os" where
  "write_payload e ci url path i w =
     (let rest = whole_pieces (pe_sqlite_count e > 0) (pe_whole e) @ [Some '']''] @ tail_pieces url path in
      case write_pieces (append_ino i) (head_pieces ci) w of
        (Inl err, w1) \<Rightarrow> (Inl err, w1)
      | (Inr _, w1) \<Rightarrow>
          (case pe_spool e of
             None \<Rightarrow> (Inl (EmitOs BadOp), w1)
           | Some sp \<Rightarrow>
               (case copy_ino sp i w1 of
                  (Inl err, w2) \<Rightarrow> (Inl (EmitOs err), w2)
                | (Inr _, w2) \<Rightarrow>
                    (case write_pieces (append_ino i) rest w2 of
                       (Inl err, w3) \<Rightarrow> (Inl err, w3)
                     | (Inr _, w3) \<Rightarrow>
                         (Inr (pieces_text (head_pieces ci) @ store w1 sp @ pieces_text rest), w3)))))"

definition remove_spool :: "plan_emitter \<Rightarrow> os \<Rightarrow> plan_emitter \<times> os" where
  "remove_spool e w =
     (let w1 = (if pe_spool e \<noteq> None then snd (os_noop w) else w);
          w2 = (if pe_spool_path e \<noteq> [] then snd (os_remove (pe_spool_path e) w1) else w1)
      in (e\<lparr>pe_spool := None, pe_spool_path := []\<rparr>, w2))"

definition emit_abort :: "plan_emitter \<Rightarrow> os \<Rightarrow> plan_emitter \<times> os" where
  "emit_abort e w =
     (let (e1, w1) = remove_spool e w in
      if pe_tmp e1 \<noteq> [] then (e1\<lparr>pe_tmp := []\<rparr>, snd (os_remove (pe_tmp e1) w1)) else (e1, w1))"

text \<open>The calls after the payload: the self-hash member, \<open>Sync\<close>, \<open>Close\<close> and \<open>Rename\<close>.\<close>

definition seal_plan :: "nat \<Rightarrow> string \<Rightarrow> string \<Rightarrow> string \<Rightarrow> unit io" where
  "seal_plan i payload tmp out w =
     (case append_ino i ('',\"self_hash\":\"'' @ sha256_hex (payload @ ''}'') @ ''\"}'') w of
        (Inl err, w1) \<Rightarrow> (Inl err, snd (os_noop w1))
      | (Inr _, w1) \<Rightarrow>
          (case os_noop w1 of
             (Inl err, w2) \<Rightarrow> (Inl err, snd (os_noop w2))
           | (Inr _, w2) \<Rightarrow>
               (case os_noop w2 of
                  (Inl err, w3) \<Rightarrow> (Inl err, w3)
                | (Inr _, w3) \<Rightarrow> os_rename tmp out w3)))"

definition emit_finalize ::
  "plan_emitter \<Rightarrow> canonical_identity \<Rightarrow> string \<Rightarrow> string \<Rightarrow> os \<Rightarrow> ((emit_err + unit) \<times> plan_emitter) \<times> os" where
  "emit_finalize e ci url path w =
     (case os_noop w of
        (Inl err, w1) \<Rightarrow> ((Inl (EmitOs err), e), w1)
      | (Inr _, w1) \<Rightarrow>
          (case os_noop w1 of
             (Inl err, w2) \<Rightarrow> ((Inl (EmitOs err), e), w2)
           | (Inr _, w2) \<Rightarrow>
               (case rand_suffix w2 of
                  (Inl err, w3) \<Rightarrow> ((Inl (EmitOs err), e), w3)
                | (Inr sfx, w3) \<Rightarrow>
                    (let e1 = e\<lparr>pe_tmp := pe_out e @ ''.tmp.'' @ sfx\<rparr> in
                     case open_excl (pe_tmp e1) w3 of
                       (Inl err, w4) \<Rightarrow> ((Inl (EmitOs err), e1), w4)
                     | (Inr i, w4) \<Rightarrow>
                         (case write_payload e1 ci url path i w4 of
                            (Inl err, w5) \<Rightarrow> ((Inl err, e1), snd (os_noop w5))
                          | (Inr payload, w5) \<Rightarrow>
                              (case seal_plan i payload (pe_tmp e1) (pe_out e1) w5 of
                                 (Inl err, w6) \<Rightarrow> ((Inl (EmitOs err), e1), w6)
                               | (Inr _, w6) \<Rightarrow>
                                   (let (e2, w7) = remove_spool (e1\<lparr>pe_tmp := []\<rparr>) w6
                                    in ((Inr (), e2), w7))))))))"

section \<open>\<open>WritePlanAtomic\<close>\<close>

definition write_plan_atomic :: "plan \<Rightarrow> string \<Rightarrow> os \<Rightarrow> (emit_err + unit) \<times> os" where
  "write_plan_atomic p out w =
     (case plan_marshal p of
        None \<Rightarrow> (Inl EmitCanon, w)
      | Some body \<Rightarrow>
          (case rand_suffix w of
             (Inl err, w1) \<Rightarrow> (Inl (EmitOs err), w1)
           | (Inr sfx, w1) \<Rightarrow>
               (let tmp = out @ ''.tmp.'' @ sfx in
                case open_excl tmp w1 of
                  (Inl err, w2) \<Rightarrow> (Inl (EmitOs err), w2)
                | (Inr i, w2) \<Rightarrow>
                    (case append_ino i body w2 of
                       (Inl err, w3) \<Rightarrow> (Inl (EmitOs err), snd (os_remove tmp (snd (os_noop w3))))
                     | (Inr _, w3) \<Rightarrow>
                         (case os_noop w3 of
                            (Inl err, w4) \<Rightarrow> (Inl (EmitOs err), snd (os_remove tmp (snd (os_noop w4))))
                          | (Inr _, w4) \<Rightarrow>
                              (case os_noop w4 of
                                 (Inl err, w5) \<Rightarrow> (Inl (EmitOs err), snd (os_remove tmp w5))
                               | (Inr _, w5) \<Rightarrow>
                                   (case os_rename tmp out w5 of
                                      (Inl err, w6) \<Rightarrow> (Inl (EmitOs err), snd (os_remove tmp w6))
                                    | (Inr _, w6) \<Rightarrow> (Inr (), w6))))))))"

section \<open>What the spool holds\<close>

definition sqlite_divergence :: "string \<Rightarrow> plan_page list \<Rightarrow> divergence" where
  "sqlite_divergence path pgs =
     \<lparr>d_kind = kind_sqlite_pages, d_path = path, d_pages = pgs, d_expected_hash = [], d_expected_source = []\<rparr>"

definition spool_text :: "divergence list \<Rightarrow> string" where
  "spool_text ds = array_text False (map divergence_canon ds)"

text \<open>The emitter has recorded the page divergences \<open>ds\<close>, and its spool is open.\<close>

definition emitting :: "plan_emitter \<Rightarrow> os \<Rightarrow> divergence list \<Rightarrow> bool" where
  "emitting e w ds \<longleftrightarrow>
     (\<exists>i. pe_spool e = Some i \<and> store w i = spool_text ds \<and> pe_sqlite_count e = length ds \<and>
          i < next_ino w \<and> pe_tmp e = [])"

lemma append_ino_next [simp]: "next_ino (snd (append_ino i d w)) = next_ino w"
  unfolding append_ino_def by (rule syscall_frame) auto

lemma write_pieces_Inr:
  assumes "write_pieces (append_ino i) ps w = (Inr u, w')"
  shows "None \<notin> set ps \<and> store w' i = store w i @ pieces_text ps \<and> names w' = names w \<and>
     next_ino w' = next_ino w \<and> (\<forall>j. j \<noteq> i \<longrightarrow> store w' j = store w j)"
  using assms
proof (induction "append_ino i" ps w rule: write_pieces.induct)
  case (3 s ps w)
  then obtain u1 w1 where a: "append_ino i s w = (Inr u1, w1)" and r: "write_pieces (append_ino i) ps w1 = (Inr u, w')"
    by (auto split: prod.splits sum.splits)
  have "store w1 i = store w i @ s" "names w1 = names w" "next_ino w1 = next_ino w"
      "\<forall>j. j \<noteq> i \<longrightarrow> store w1 j = store w j"
    using append_ino_Inr [OF a] append_ino_names [of i s w] append_ino_next [of i s w] append_ino_store [of _ i s w] a
    by auto
  with 3(1) [OF a [symmetric] refl r] show ?case by (auto simp: pieces_text_def)
qed (auto simp: pieces_text_def)

lemma spool_write_Some: "pe_spool e = Some i \<Longrightarrow> spool_write e = append_ino i"
  by (auto simp: spool_write_def fun_eq_iff)

lemma canon_page: "int64 (pp_offset p) \<Longrightarrow> canon_typed (page_tree p) = Some (print_json False (page_canon p))"
  using writable_page [of p 9999] canon_typed_eq [of "page_tree p"]
  by (simp add: canon_encode_print page_canon_eq max_depth_def)

lemma canon_divergence: "wf_divergence d \<Longrightarrow> canon_typed (divergence_tree d) = Some (print_json False (divergence_canon d))"
  using writable_divergence [of d 9997] canon_typed_eq [of "divergence_tree d"]
  by (simp add: canon_encode_print divergence_canon_eq max_depth_def)

lemma canon_identity: "int64 (ci_block_height c) \<Longrightarrow> canon_typed (identity_tree c) = Some (print_json False (identity_canon c))"
  using writable_identity [of c 9999] canon_typed_eq [of "identity_tree c"]
  by (simp add: canon_encode_print identity_canon_eq max_depth_def)

lemma canon_int: "int64 i \<Longrightarrow> canon_typed (JNum (fmt_int i)) = Some (fmt_int i)"
  using canon_typed_eq [of "JNum (fmt_int i)"] by (auto simp: int64_def)

definition lead_text :: "plan_emitter \<Rightarrow> string" where
  "lead_text e = (if pe_sqlite_count e > 0 then '','' else []) @ ''{\"divergence_kind\":\"sqlite_pages\",\"pages\":[''"

abbreviation page_text :: "plan_page \<Rightarrow> string" where
  "page_text p \<equiv> print_json False (page_canon p)"

definition pages_text :: "plan_emitter \<Rightarrow> bool \<Rightarrow> plan_page list \<Rightarrow> string" where
  "pages_text e started pgs =
     (if started then concat (map (\<lambda>p. comma # page_text p) pgs)
      else if pgs = [] then [] else lead_text e @ join_on comma (map page_text pgs))"

lemma pages_text_Cons:
  "pages_text e started (p # ps) = pieces_text (page_lead e started @ [Some (page_text p)]) @ pages_text e True ps"
  by (simp add: pages_text_def pieces_text_def page_lead_def lead_text_def join_on_concat comp_def)

lemma feed_pages_Inr:
  assumes "feed_pages e ys started n w = (((st, c), None), w')" and "pe_spool e = Some i"
    and "\<forall>p \<in> set (oks ys). int64 (pp_offset p)"
  shows "ys = map Inr (oks ys) \<and> c = n + length (oks ys) \<and> st = (started \<or> oks ys \<noteq> []) \<and>
     store w' i = store w i @ pages_text e started (oks ys) \<and> names w' = names w \<and> next_ino w' = next_ino w \<and>
     (\<forall>j. j \<noteq> i \<longrightarrow> store w' j = store w j)"
  using assms
proof (induction e ys started n w rule: feed_pages.induct)
  case (3 e pg ps started n w)
  note sw = spool_write_Some [OF "3.prems"(2)]
  have cp: "canon_typed (page_tree pg) = Some (page_text pg)" using "3.prems"(3) by (intro canon_page) simp
  obtain u w1 where r: "write_pieces (append_ino i) (page_lead e started @ [Some (page_text pg)]) w = (Inr u, w1)"
    using "3.prems"(1) by (auto simp: sw cp split: prod.splits sum.splits)
  have f: "feed_pages e ps True (Suc n) w1 = (((st, c), None), w')"
    using "3.prems"(1) r by (simp add: sw cp)
  have ih: "ps = map Inr (oks ps) \<and> c = Suc n + length (oks ps) \<and> st = (True \<or> oks ps \<noteq> []) \<and>
     store w' i = store w1 i @ pages_text e True (oks ps) \<and> names w' = names w1 \<and> next_ino w' = next_ino w1 \<and>
     (\<forall>j. j \<noteq> i \<longrightarrow> store w' j = store w1 j)"
    by (rule "3.IH" [of "Inr u" w1 u]) (use r f "3.prems" in \<open>auto simp: sw cp\<close>)
  show ?case using ih write_pieces_Inr [OF r] by (simp add: pages_text_Cons)
qed (auto simp: pages_text_def)

lemma div_text:
  "print_json False (divergence_canon (sqlite_divergence path pgs)) =
     (if pgs = [] then print_json False (divergence_canon (sqlite_divergence path []))
      else ''{\"divergence_kind\":\"sqlite_pages\",\"pages\":['' @ join_on comma (map page_text pgs)
           @ ''],\"path\":'' @ enc_str False (sanitize path) @ ''}'')"
proof -
  have k: "enc_str False ''divergence_kind'' = ''\"divergence_kind\"''" "enc_str False ''pages'' = ''\"pages\"''"
    "enc_str False ''path'' = ''\"path\"''" "enc_str False ''sqlite_pages'' = ''\"sqlite_pages\"''"
    by (simp_all add: enc_str_def enc_body.simps enc_ascii_def)
  show ?thesis
    by (simp add: divergence_canon_def sqlite_divergence_def omit_empty_def print_json.simps k kind_sqlite_pages_def
        comp_def)
qed

lemma spool_text_snoc:
  "spool_text (ds @ [d]) = spool_text ds @ (if ds = [] then [] else '','') @ print_json False (divergence_canon d)"
  by (cases "ds = []") (simp_all add: spool_text_def join_on_snoc)

text \<open>
  Recording one feed: the divergence is appended when the feed yields a page, and nothing is
  recorded when it yields none.  An error leaves the list as it was, with the spool unfinished.
\<close>

lemma emit_sqlite_pages_ok:
  assumes "emit_sqlite_pages e path ys w = (((c, None), e'), w')" and "emitting e w ds"
    and "\<forall>p \<in> set (oks ys). int64 (pp_offset p)" and "valid_utf8 path"
  shows "ys = map Inr (oks ys) \<and> c = length (oks ys) \<and>
     emitting e' w' (if oks ys = [] then ds else ds @ [sqlite_divergence path (oks ys)])"
proof -
  obtain i where i: "pe_spool e = Some i" "store w i = spool_text ds" "pe_sqlite_count e = length ds"
      "i < next_ino w" "pe_tmp e = []"
    using assms(2) by (auto simp: emitting_def)
  obtain st n w1 where f: "feed_pages e ys False 0 w = (((st, n), None), w1)" and c: "c = n"
    using assms(1) by (auto simp: emit_sqlite_pages_def split: prod.splits option.splits sum.splits if_splits)
  note fp = feed_pages_Inr [OF f i(1) assms(3)]
  show ?thesis
  proof (cases "oks ys = []")
    case True
    with fp have "\<not> st" by simp
    with assms(1) f have "e' = e" "w' = w1" by (auto simp: emit_sqlite_pages_def)
    with True fp i c show ?thesis by (auto simp: emitting_def pages_text_def)
  next
    case False
    with fp have st: st by simp
    obtain u where r: "write_pieces (append_ino i) [Some ''],\"path\":'', Some (enc_str False path), Some ''}''] w1 = (Inr u, w')"
      and e': "e' = e\<lparr>pe_sqlite_count := Suc (pe_sqlite_count e)\<rparr>"
      using assms(1) f st by (auto simp: emit_sqlite_pages_def spool_write_Some [OF i(1)] split: prod.splits sum.splits)
    have "store w' i = spool_text (ds @ [sqlite_divergence path (oks ys)])"
      using write_pieces_Inr [OF r] fp False i(2,3) sanitize_valid [OF assms(4)]
      by (simp add: spool_text_snoc pages_text_def lead_text_def pieces_text_def div_text [of path "oks ys"])
    with write_pieces_Inr [OF r] fp False i c e' show ?thesis by (auto simp: emitting_def)
  qed
qed

section \<open>The finished plan\<close>

lemma remove_spool_frame:
  "store (snd (remove_spool e w)) = store w \<and>
   (q \<noteq> pe_spool_path e \<longrightarrow> names (snd (remove_spool e w)) q = names w q)"
  using os_noop_fs [of w] os_remove_frame [of "pe_spool_path e" "snd (os_noop w)" q]
    os_remove_frame [of "pe_spool_path e" w q]
  by (auto simp: remove_spool_def Let_def fs_iff)

lemma pieces_text_append [simp]: "pieces_text (ps @ qs) = pieces_text ps @ pieces_text qs"
  by (simp add: pieces_text_def)

lemma pieces_text_simps [simp]: "pieces_text [] = []" "pieces_text (Some s # ps) = s @ pieces_text ps"
  by (simp_all add: pieces_text_def)

lemma whole_text:
  "\<forall>d \<in> set whole. wf_divergence d \<Longrightarrow>
   spool_text ds @ pieces_text (whole_pieces (0 < length ds) whole) = spool_text (ds @ whole)"
proof (induction whole arbitrary: ds)
  case (Cons d whole)
  then have "spool_text ds @ pieces_text (whole_pieces (0 < length ds) (d # whole)) =
      spool_text (ds @ [d]) @ pieces_text (whole_pieces (0 < length (ds @ [d])) whole)"
    by (simp add: spool_text_snoc canon_divergence)
  also have "\<dots> = spool_text ((ds @ [d]) @ whole)" using Cons by (intro Cons.IH) auto
  finally show ?case by simp
qed simp

definition emitted_plan ::
  "canonical_identity \<Rightarrow> string \<Rightarrow> string \<Rightarrow> divergence list \<Rightarrow> plan" where
  "emitted_plan ci url path ds =
     (let p = \<lparr>p_format_version = plan_format_version, p_identity = ci, p_manifest_url = url,
               p_pocketdb_path = path, p_divergences = Some ds, p_self_hash = []\<rparr>
      in p\<lparr>p_self_hash := sha256_hex (payload_text p @ [rbrace])\<rparr>)"



lemma payload_emitted:
  "payload_text (emitted_plan ci url path ds) =
     ''{\"canonical_identity\":'' @ print_json False (identity_canon ci) @ '',\"divergences\":['' @ spool_text ds @
     ''],\"format_version\":'' @ fmt_int plan_format_version @ '',\"manifest_url\":'' @ enc_str False (sanitize url) @
     '',\"pocketdb_path\":'' @ enc_str False (sanitize path)"
proof -
  have k: "enc_str False ''canonical_identity'' = ''\"canonical_identity\"''"
    "enc_str False ''divergences'' = ''\"divergences\"''" "enc_str False ''format_version'' = ''\"format_version\"''"
    "enc_str False ''manifest_url'' = ''\"manifest_url\"''" "enc_str False ''pocketdb_path'' = ''\"pocketdb_path\"''"
    by (simp_all add: enc_str_def enc_body.simps enc_ascii_def)
  show ?thesis
    by (simp add: emitted_plan_def Let_def payload_text_def payload_members_def member_text_def k
        divergences_canon_def print_arr print_json.simps spool_text_def)
qed

lemma self_hash_emitted:
  "p_self_hash (emitted_plan ci url path ds) = sha256_hex (payload_text (emitted_plan ci url path ds) @ [rbrace])"
  by (simp add: emitted_plan_def Let_def payload_text_def payload_members_def)

lemma sanitize_hex: "sanitize (sha256_hex x) = sha256_hex x"
proof (rule sanitize_ascii_string)
  have "is_lower_hex c \<Longrightarrow> code c < 128" for c by (auto simp: is_lower_hex_def less_eq_char_def)
  then show "list_all (\<lambda>c. code c < 128) (sha256_hex x)"
    using sha256_hex_lower by (auto simp: list_all_iff)
qed

lemma write_payload_ok:
  assumes "write_payload e ci url path i w = (Inr payload, w')" and "pe_spool e = Some sp" and "sp \<noteq> i"
    and "store w sp = spool_text ds" and "pe_sqlite_count e = length ds" and "store w i = []"
    and "int64 (ci_block_height ci)" and "\<forall>d \<in> set (pe_whole e). wf_divergence d"
    and "valid_utf8 url" and "valid_utf8 path"
  shows "payload = payload_text (emitted_plan ci url path (ds @ pe_whole e)) \<and> store w' i = payload \<and>
     names w' = names w"
proof -
  let ?rest = "whole_pieces (0 < length ds) (pe_whole e) @ [Some '']''] @ tail_pieces url path"
  obtain u w1 v w2 x where h: "write_pieces (append_ino i) (head_pieces ci) w = (Inr u, w1)"
    and c: "copy_ino sp i w1 = (Inr v, w2)" and r: "write_pieces (append_ino i) ?rest w2 = (Inr x, w')"
    and p: "payload = pieces_text (head_pieces ci) @ store w1 sp @ pieces_text ?rest"
    using assms(1,2,5) by (auto simp: write_payload_def Let_def split: prod.splits sum.splits)
  note h' = write_pieces_Inr [OF h] and c' = copy_ino_Inr [OF c] and r' = write_pieces_Inr [OF r]
  have hp: "pieces_text (head_pieces ci) =
      ''{\"canonical_identity\":'' @ print_json False (identity_canon ci) @ '',\"divergences\":[''"
    by (simp add: head_pieces_def canon_identity [OF assms(7)])
  have tp: "pieces_text (tail_pieces url path) =
      '',\"format_version\":'' @ fmt_int plan_format_version @ '',\"manifest_url\":'' @ enc_str False url @
      '',\"pocketdb_path\":'' @ enc_str False path"
    using canon_int [of plan_format_version] by (simp add: tail_pieces_def int64_def plan_format_version_def)
  have s1: "store w1 sp = spool_text ds" using h' assms(3,4) by auto
  have wt: "spool_text ds @ pieces_text (whole_pieces (0 < length ds) (pe_whole e)) = spool_text (ds @ pe_whole e)"
    by (rule whole_text [OF assms(8)])
  have "payload = ''{\"canonical_identity\":'' @ print_json False (identity_canon ci) @ '',\"divergences\":['' @
      (spool_text ds @ pieces_text (whole_pieces (0 < length ds) (pe_whole e))) @ '']'' @ pieces_text (tail_pieces url path)"
    unfolding p hp s1 by simp
  then have "payload = payload_text (emitted_plan ci url path (ds @ pe_whole e))"
    unfolding wt tp payload_emitted sanitize_valid [OF assms(9)] sanitize_valid [OF assms(10)] by simp
  moreover have "store w' i = payload" using h' c' r' assms(6) s1 unfolding p by simp
  moreover have "names w' = names w" using h' c' r' by simp
  ultimately show ?thesis by simp
qed

lemma seal_plan_ok:
  assumes "seal_plan i payload tmp out w = (Inr u, w')" and "names w tmp = Some (FileN i)" and "tmp \<noteq> ''/''" "tmp \<noteq> ''.''"
    and "store w i = payload"
  shows "file_data w' out = Some (payload @ '',\"self_hash\":\"'' @ sha256_hex (payload @ ''}'') @ ''\"}'')"
proof -
  obtain u1 w1 u2 w2 u3 w3 where a: "append_ino i ('',\"self_hash\":\"'' @ sha256_hex (payload @ ''}'') @ ''\"}'') w = (Inr u1, w1)"
    and n1: "os_noop w1 = (Inr u2, w2)" and n2: "os_noop w2 = (Inr u3, w3)" and r: "os_rename tmp out w3 = (Inr u, w')"
    using assms(1) by (auto simp: seal_plan_def split: prod.splits sum.splits)
  have f: "fs w3 = fs w1" using os_noop_fs [of w1] os_noop_fs [of w2] n1 n2 by simp
  have "names w1 tmp = Some (FileN i)" using assms(2) append_ino_names [of i _ w] a by (metis snd_conv)
  then have "file_data w1 tmp = Some (store w1 i)" using assms(3,4) by (simp add: file_data_def node_at_def)
  with f append_ino_Inr [OF a] assms(5) os_rename_Inr_data [OF r assms(3,4)] fs_file_data [OF f, of tmp]
  show ?thesis by simp
qed

lemma enc_hex: "enc_str False (sha256_hex x) = dquote # sha256_hex x @ [dquote]"
proof -
  have "list_all is_lower_hex s \<Longrightarrow> enc_body False s = s" for s
  proof (induction s)
    case (Cons c s)
    then have c: "is_lower_hex c" by simp
    then have r: "48 \<le> code c \<and> code c \<le> 57 \<or> 97 \<le> code c \<and> code c \<le> 102"
      by (simp add: is_lower_hex_def less_eq_char_def)
    then have "c \<noteq> dquote" "c \<noteq> bslash" "c \<noteq> CHR 0x08" "c \<noteq> CHR 0x0C" "c \<noteq> CHR 0x0A" "c \<noteq> CHR 0x0D" "c \<noteq> CHR 0x09"
      by fastforce+
    moreover have "\<not> code c < 32" using r by linarith
    ultimately have "enc_ascii False c = [c]" by (simp add: enc_ascii_def)
    moreover have "code c < 128" using r by linarith
    ultimately show ?case using Cons by (simp add: enc_body_ascii)
  qed (simp add: enc_body.simps [of False "[]"])
  moreover have "list_all is_lower_hex (sha256_hex x)" using sha256_hex_lower by (auto simp: list_all_iff)
  ultimately show ?thesis by (simp add: enc_str_def)
qed

text \<open>
  Whatever faults strike: when \<open>Finalize\<close> reports success, the plan file holds exactly the text
  that \<open>plan.Marshal\<close> gives for the plan with the recorded divergences and its self-hash.
\<close>

lemma emit_finalize_ok:
  assumes "emit_finalize e ci url path w = ((Inr u, e'), w')" and "emitting e w ds"
    and "int64 (ci_block_height ci)" and "\<forall>d \<in> set (pe_whole e). wf_divergence d"
    and "valid_utf8 url" and "valid_utf8 path" and "pe_out e \<noteq> pe_spool_path e"
  shows "file_data w' (pe_out e) = Some (plan_text (emitted_plan ci url path (ds @ pe_whole e)))"
proof -
  obtain sp where sp: "pe_spool e = Some sp" "store w sp = spool_text ds" "pe_sqlite_count e = length ds"
      "sp < next_ino w"
    using assms(2) by (auto simp: emitting_def)
  obtain u1 w1 u2 w2 sfx w3 where n1: "os_noop w = (Inr u1, w1)" and n2: "os_noop w1 = (Inr u2, w2)"
    and s: "rand_suffix w2 = (Inr sfx, w3)"
    using assms(1) by (auto simp: emit_finalize_def split: prod.splits sum.splits)
  let ?tmp = "pe_out e @ ''.tmp.'' @ sfx" and ?e1 = "e\<lparr>pe_tmp := pe_out e @ ''.tmp.'' @ sfx\<rparr>"
  obtain i w4 payload w5 v w6 where o: "open_excl ?tmp w3 = (Inr i, w4)"
    and p: "write_payload ?e1 ci url path i w4 = (Inr payload, w5)"
    and q: "seal_plan i payload ?tmp (pe_out e) w5 = (Inr v, w6)"
    and w': "w' = snd (remove_spool (?e1\<lparr>pe_tmp := []\<rparr>) w6)"
    using assms(1) by (auto simp: emit_finalize_def n1 n2 s Let_def split: prod.splits sum.splits)
  have f: "fs w3 = fs w" using os_noop_fs [of w] os_noop_fs [of w1] rand_suffix_fs [of w2] n1 n2 s by simp
  note o' = open_excl_Inr [OF o]
  have ne: "sp \<noteq> i" "store w4 sp = spool_text ds" using o'(1,6) sp f by (auto simp: fs_iff)
  have pl: "payload = payload_text (emitted_plan ci url path (ds @ pe_whole e))" "store w5 i = payload" "names w5 = names w4"
    using write_payload_ok [OF p _ ne(1) ne(2) _ o'(3) assms(3)] sp assms(4,5,6) by simp_all
  have tn: "?tmp \<noteq> ''/''" "?tmp \<noteq> ''.''"
  proof -
    have "length ?tmp \<noteq> 1" by simp
    then show "?tmp \<noteq> ''/''" "?tmp \<noteq> ''.''" by (metis length_Cons list.size(3) One_nat_def)+
  qed
  have "file_data w6 (pe_out e) = Some (payload @ '',\"self_hash\":\"'' @ sha256_hex (payload @ ''}'') @ ''\"}'')"
    by (rule seal_plan_ok [OF q _ tn pl(2)]) (unfold pl(3), rule o'(2))
  also have "payload @ '',\"self_hash\":\"'' @ sha256_hex (payload @ ''}'') @ ''\"}'' =
      plan_text (emitted_plan ci url path (ds @ pe_whole e))"
    by (simp add: plan_text_payload pl(1) self_hash_emitted sanitize_hex enc_hex)
  finally have "file_data w6 (pe_out e) = Some (plan_text (emitted_plan ci url path (ds @ pe_whole e)))" .
  moreover have "file_data w' (pe_out e) = file_data w6 (pe_out e)"
    using remove_spool_frame [of "?e1\<lparr>pe_tmp := []\<rparr>" w6 "pe_out e"] assms(7)
    unfolding w' by (auto simp: file_data_def node_at_def simp del: plan_emitter.update_convs cong: option.case_cong node.case_cong)
  ultimately show ?thesis by simp
qed

end
