(* ===== verification/Diagnose.thy ===== *)
theory Diagnose
  imports Preflight PlanEmit
begin

text \<open>
  The diagnose command (\<open>internal/diagnose/orchestrator.go\<close> and \<open>writability_probe.go\<close>): refuse if a node
  runs, probe the place of the plan, stream the manifest through the entry callback, evaluate the
  remaining predicates, and write the plan.  On every exit but success the emitter is aborted.
  Log lines are not modelled.
\<close>

section \<open>The writability probe\<close>

definition probe_name :: "string \<Rightarrow> string \<Rightarrow> string" where
  "probe_name dir suffix = go_join [dir, ''.pocketnet-node-doctor-writeprobe-'' @ suffix]"

definition probe_writable :: "string \<Rightarrow> unit io" where
  "probe_writable planOutPath w =
     (let dir = go_dir planOutPath in
      case os_stat dir w of
        (Inl e, w1) \<Rightarrow> (Inl e, w1)
      | (Inr _, w1) \<Rightarrow>
          (case rand_suffix w1 of
             (Inl e, w2) \<Rightarrow> (Inl e, w2)
           | (Inr suffix, w2) \<Rightarrow>
               (let probe = probe_name dir suffix in
                case open_excl probe w2 of
                  (Inl e, w3) \<Rightarrow> (Inl e, w3)
                | (Inr i, w3) \<Rightarrow>
                    (case append_ino i [CHR 0x00] w3 of
                       (Inl e, w4) \<Rightarrow> (Inl e, snd (os_remove probe (snd (os_noop w4))))
                     | (Inr _, w4) \<Rightarrow>
                         (let (_, w5) = os_noop w4;
                              (r, w6) = os_noop w5
                          in (r, snd (os_remove probe w6)))))))"

section \<open>The entry callback\<close>

text \<open>
  The variables that the callback captures.  \<open>totalBytes\<close> is a \<open>uint64\<close>; the two counters are bounded
  by the number of pages and entries of the manifest and are exact here.
\<close>

record diag_state =
  ds_emitter :: plan_emitter
  ds_total :: "64 word"
  ds_pages :: int
  ds_files :: int

datatype entry_err = EmitFailed emit_err | CompareFailed cmp_err | NilPages

definition sqlite_entry_path :: string where
  "sqlite_entry_path = ''pocketdb/main.sqlite3''"

text \<open>
  The comparison of a \<open>sqlite_pages\<close> entry that has no pages member: the iterator is nil, and pulling
  from it panics (\<open>None\<close>); only a local file that cannot be opened is reported before that.
\<close>

definition compare_nil_pages :: "string \<Rightarrow> string \<Rightarrow> os \<Rightarrow> page_yield option \<times> os" where
  "compare_nil_pages pocketdbRoot path w =
     (let resolved = join_rel pocketdbRoot path;
          (st, w1) = os_stat resolved w
      in if st = Inl NotExist then (None, w1)
         else case hash_sqlite_pages resolved page_size w1 of
                (Inl e, w2) \<Rightarrow> (Some [Inl (CmpHash e)], w2)
              | (Inr seq, w2) \<Rightarrow> (None, w2))"

definition page_feed :: "string \<Rightarrow> string \<Rightarrow> page_iter option \<Rightarrow> os \<Rightarrow> page_yield option \<times> os" where
  "page_feed pocketdbRoot path pages w =
     (case pages of
        None \<Rightarrow> compare_nil_pages pocketdbRoot path w
      | Some it \<Rightarrow> (let (ys, w1) = compare_pages_streaming pocketdbRoot path it w in (Some ys, w1)))"

definition sqlite_entry :: "string \<Rightarrow> (entry_err, diag_state \<times> os) processor" where
  "sqlite_entry pocketDBPath hdr pages st =
     (let (s, w) = st; hdr1 = hdr\<lparr>eh_assumed := sqlite_entry_path\<rparr> in
      case page_feed pocketDBPath sqlite_entry_path pages w of
        (None, w1) \<Rightarrow> (Inl (SCallback NilPages), (s, w1))
      | (Some ys, w1) \<Rightarrow>
          (case emit_sqlite_pages (ds_emitter s) sqlite_entry_path ys w1 of
             (((n, Some e), em), w2) \<Rightarrow> (Inl (SCallback (EmitFailed e)), (s\<lparr>ds_emitter := em\<rparr>, w2))
           | (((n, None), em), w2) \<Rightarrow>
               (Inr hdr1,
                (s\<lparr>ds_emitter := em,
                   ds_total := ds_total s + word_of_nat n * 4096,
                   ds_pages := (if n > 0 then ds_pages s + int n else ds_pages s),
                   ds_files := (if n > 0 then ds_files s + 1 else ds_files s)\<rparr>, w2))))"

definition whole_file_entry :: "string \<Rightarrow> (entry_err, diag_state \<times> os) processor" where
  "whole_file_entry pocketDBPath hdr pages st =
     (let (s, w) = st in
      case compare_file_by_path_hash pocketDBPath (eh_path hdr) (eh_hash hdr) w of
        (Inl e, w1) \<Rightarrow> (Inl (SCallback (CompareFailed e)), (s, w1))
      | (Inr None, w1) \<Rightarrow> (Inr hdr, (s, w1))
      | (Inr (Some d), w1) \<Rightarrow>
          (Inr hdr, (s\<lparr>ds_emitter := buffer_whole_file (ds_emitter s) d, ds_files := ds_files s + 1\<rparr>, w1)))"

definition entry_fn :: "string \<Rightarrow> (entry_err, diag_state \<times> os) processor" where
  "entry_fn pocketDBPath hdr pages st =
     (if eh_kind hdr = entry_kind_sqlite_pages then sqlite_entry pocketDBPath hdr pages st
      else if eh_kind hdr = entry_kind_whole_file then whole_file_entry pocketDBPath hdr pages st
      else (Inr hdr, st))"

section \<open>Diagnose\<close>

record diag_options =
  do_url :: string
  do_db :: string
  do_out :: string
  do_pinned :: string

datatype diag_err =
    RefusedBy reason | ProbeErr os_err | EmitterErr emit_err | ManifestErr man_err | EntryErr entry_err
  | NoAbsPath

text \<open>\<open>Crashed\<close> is a panic: the deferred calls run and the process dies.\<close>

datatype diag_outcome = Finished exit_code "diag_err option" | Crashed

definition stream_failed :: "entry_err stream_err \<Rightarrow> diag_outcome" where
  "stream_failed e =
     (case e of
        SManifest m \<Rightarrow> Finished (if is_spool_capacity m then Capacity else GenericError) (Some (ManifestErr m))
      | SCallback NilPages \<Rightarrow> Crashed
      | SCallback x \<Rightarrow> Finished GenericError (Some (EntryErr x)))"

text \<open>The predicates after the stream, in the order of the code.\<close>

definition post_stream :: "host \<Rightarrow> diag_options \<Rightarrow> man_header \<Rightarrow> 64 word \<Rightarrow> os \<Rightarrow> diag_outcome option \<times> os" where
  "post_stream h opts hdr totalBytes w =
     (case check_format_version_value (mh_version hdr) of
        Inl e \<Rightarrow>
          (Some (Finished (if is_format_version_unrecognized e then ManifestFormatVersionUnrecognized else GenericError)
             (Some (ManifestErr e))), w)
      | Inr _ \<Rightarrow>
          (case version_mismatch_value h (mi_core_version (mh_identity hdr)) w of
             (Refused c r, w1) \<Rightarrow> (Some (Finished c (Some (RefusedBy r))), w1)
           | (Pass, w1) \<Rightarrow>
               (case volume_capacity_from_total_bytes h (do_db opts) totalBytes w1 of
                  (Refused c r, w2) \<Rightarrow> (Some (Finished c (Some (RefusedBy r))), w2)
                | (Pass, w2) \<Rightarrow>
                    (case permission_read_only h (do_db opts) w2 of
                       (Refused c r, w3) \<Rightarrow> (Some (Finished c (Some (RefusedBy r))), w3)
                     | (Pass, w3) \<Rightarrow> (None, w3)))))"

definition plan_identity :: "diag_options \<Rightarrow> man_header \<Rightarrow> canonical_identity" where
  "plan_identity opts hdr =
     \<lparr>ci_block_height = mi_block_height (mh_identity hdr), ci_manifest_hash = do_pinned opts,
      ci_core_version = mi_core_version (mh_identity hdr)\<rparr>"

text \<open>The part of \<open>Diagnose\<close> after the stream; an outcome other than success leaves the abort to the caller.\<close>

definition finish_diagnose ::
  "host \<Rightarrow> diag_options \<Rightarrow> man_header \<Rightarrow> diag_state \<Rightarrow> os \<Rightarrow> diag_outcome \<times> plan_emitter \<times> os" where
  "finish_diagnose h opts hdr s w =
     (case post_stream h opts hdr (ds_total s) w of
        (Some out, w1) \<Rightarrow> (out, ds_emitter s, w1)
      | (None, w1) \<Rightarrow>
          (case abs_path h (do_db opts) of
             None \<Rightarrow> (Finished GenericError (Some NoAbsPath), ds_emitter s, w1)
           | Some absPocketDB \<Rightarrow>
               (case emit_finalize (ds_emitter s) (plan_identity opts hdr) (do_url opts) absPocketDB w1 of
                  ((Inl e, em), w2) \<Rightarrow> (Finished GenericError (Some (EmitterErr e)), em, w2)
                | ((Inr _, em), w2) \<Rightarrow> (Finished Success None, em, w2))))"

definition init_diag_state :: "plan_emitter \<Rightarrow> diag_state" where
  "init_diag_state em = \<lparr>ds_emitter = em, ds_total = 0, ds_pages = 0, ds_files = 0\<rparr>"

definition stream_and_finish :: "host \<Rightarrow> diag_options \<Rightarrow> plan_emitter \<Rightarrow> os \<Rightarrow> diag_outcome \<times> plan_emitter \<times> os" where
  "stream_and_finish h opts em w =
     (case fetch_and_process (free_bytes h) (do_url opts) (do_pinned opts) (go_dir (do_out opts))
             (entry_fn (do_db opts)) (init_diag_state em, w) of
        (Inl e, s, w1) \<Rightarrow> (stream_failed e, ds_emitter s, w1)
      | (Inr hdr, s, w1) \<Rightarrow> finish_diagnose h opts hdr s w1)"

definition diagnose :: "host \<Rightarrow> diag_options \<Rightarrow> os \<Rightarrow> diag_outcome \<times> os" where
  "diagnose h opts w =
     (case running_node h (do_db opts) w of
        (Refused c r, w1) \<Rightarrow> (Finished c (Some (RefusedBy r)), w1)
      | (Pass, w1) \<Rightarrow>
          (case probe_writable (do_out opts) w1 of
             (Inl e, w2) \<Rightarrow> (Finished GenericError (Some (ProbeErr e)), w2)
           | (Inr _, w2) \<Rightarrow>
               (case new_plan_emitter (do_out opts) w2 of
                  (Inl e, w3) \<Rightarrow> (Finished GenericError (Some (EmitterErr e)), w3)
                | (Inr em, w3) \<Rightarrow>
                    (let (out, em1, w4) = stream_and_finish h opts em w3 in
                     (out, if out = Finished Success None then w4 else snd (emit_abort em1 w4))))))"

end
