(* ===== verification/Verify.thy ===== *)
theory Verify
  imports Frames HashUtil
begin

text \<open>
  Package \<open>internal/verify\<close>: the checks of the live files after promotion.  The entries of the map
  come in the order in which the runtime enumerates it, so \<open>verify_hashes\<close> takes a list.  The
  database engine is a parameter: what \<open>PRAGMA integrity_check\<close> answers for a file, and the world
  it leaves.
\<close>

datatype verify_err =
    VerifyOpen string | VerifyRead string | VerifyMismatch string string string
  | SqliteQuery | SqliteFailed string

type_synonym integrity = "string \<Rightarrow> os \<Rightarrow> string option \<times> os"

fun verify_hashes :: "string \<Rightarrow> (string \<times> string) list \<Rightarrow> os \<Rightarrow> (verify_err + unit) \<times> os" where
  "verify_hashes root [] w = (Inr (), w)"
| "verify_hashes root ((rel, expected) # entries) w =
     (case open_read (go_join [root, rel]) w of
        (Inl _, w1) \<Rightarrow> (Inl (VerifyOpen rel), w1)
      | (Inr i, w1) \<Rightarrow>
          (case read_stream i w1 of
             ((_, Some _), w2) \<Rightarrow> (Inl (VerifyRead rel), w2)
           | ((dat, None), w2) \<Rightarrow>
               let got = sha256_hex dat in
               if got \<noteq> expected then (Inl (VerifyMismatch rel got expected), w2)
               else verify_hashes root entries w2))"

definition verify_sqlite :: "integrity \<Rightarrow> string \<Rightarrow> os \<Rightarrow> (verify_err + unit) \<times> os" where
  "verify_sqlite check sqlitePath w =
     (case check sqlitePath w of
        (None, w1) \<Rightarrow> (Inl SqliteQuery, w1)
      | (Some result, w1) \<Rightarrow> if result \<noteq> ''ok'' then (Inl (SqliteFailed result), w1) else (Inr (), w1))"

text \<open>
  What the program relies on when it runs the check on a database that it has just repaired.  The engine opens the
  database for writing: it creates a missing one, rolls back from a journal, and takes up a write-ahead
  log.  When the database exists and has none of these files beside it, the check only reads it, and the
  files it may make and delete are those.
\<close>

definition sidecars :: "string \<Rightarrow> string set" where
  "sidecars p = {p @ ''-journal'', p @ ''-wal'', p @ ''-shm''}"

section \<open>A passed check\<close>

lemma read_stream_None: "read_stream i w = ((d, None), w') \<Longrightarrow> d = store w i \<and> w' = tick w"
  by (auto simp: read_stream_def split: option.splits fault.splits)

lemma read_stream_framed: "framed {} w (snd (read_stream i w)) \<and> fs (snd (read_stream i w)) = fs w"
  by (auto simp: read_stream_def split: option.splits fault.splits)

lemma verify_hashes_frame:
  "framed {} w (snd (verify_hashes root es w)) \<and> fs (snd (verify_hashes root es w)) = fs w"
proof (induction es arbitrary: w)
  case (Cons e es)
  obtain rel h where e: "e = (rel, h)" by fastforce
  obtain r w1 where o: "open_read (go_join [root, rel]) w = (r, w1)" by fastforce
  have f1: "framed {} w w1" "fs w1 = fs w"
    using open_read_framed [of w "go_join [root, rel]"] open_read_fs [of "go_join [root, rel]" w] o by simp_all
  show ?case
  proof (cases r)
    case (Inl x)
    with e o f1 show ?thesis by simp
  next
    case (Inr i)
    obtain d er w2 where s: "read_stream i w1 = ((d, er), w2)" by (metis prod.exhaust)
    have f2: "framed {} w w2" "fs w2 = fs w"
      using read_stream_framed [of w1 i] s f1 by (auto intro: framed_trans)
    with Cons [of w2] e o s Inr show ?thesis
      by (cases er) (auto simp: Let_def intro: framed_trans)
  qed
qed simp

lemma verify_hashes_sound:
  assumes "verify_hashes root es w = (Inr u, w')" and "(rel, h) \<in> set es"
  shows "\<exists>d. file_data w (go_join [root, rel]) = Some d \<and> sha256_hex d = h"
  using assms
proof (induction es arbitrary: w)
  case (Cons e es)
  obtain rel' h' where e: "e = (rel', h')" by fastforce
  obtain i w1 d w2 where o: "open_read (go_join [root, rel']) w = (Inr i, w1)"
    and s: "read_stream i w1 = ((d, None), w2)" and h: "sha256_hex d = h'"
    and rest: "verify_hashes root es w2 = (Inr u, w')"
    using Cons.prems(1) e
    by (auto simp: Let_def split: prod.splits sum.splits option.splits if_splits)
  have f: "fs w1 = fs w" "node_at w (go_join [root, rel']) = Some (FileN i)"
    using open_read_Inr [OF o] by auto
  have d: "d = store w1 i" "fs w2 = fs w" using read_stream_None [OF s] f by auto
  show ?case
  proof (cases "(rel, h) = e")
    case True
    with e h d f show ?thesis by (auto simp: file_data_def fs_iff)
  next
    case False
    with Cons.prems(2) Cons.IH [OF rest] fs_file_data [OF d(2)] show ?thesis by auto
  qed
qed simp

end
