(* ===== verification/Apply.thy ===== *)
theory Apply
  imports Fetch Verify PlanStream ExitCode
begin

text \<open>
  Package \<open>internal/apply\<close> without its control loop: the task and result types (types.go), the
  checks of the plan (plan_guard.go), the path and address computations, the two promotions with
  their hash gate, the older gate of hash_gate.go, rollback and cleanup, and the tasks that a plan
  yields.  The loop with its workers is in ApplyPool, \<open>Run\<close> in ApplyRun.
  The fields of the options that exist for fault injection are part of the model.
\<close>

section \<open>types.go\<close>

record divergence_task =
  dt_path :: string
  dt_url :: string
  dt_hash :: string
  dt_staging :: string
  dt_live :: string
  dt_attempt :: int
  dt_absent :: bool
  dt_offset :: int

record fetch_result =
  fr_task :: divergence_task
  fr_path :: string
  fr_rel :: string
  fr_err :: "fetch_err option"

record apply_options =
  ao_plan :: string
  ao_parallel :: int
  ao_manifest_url :: string
  ao_chunk_base :: string
  ao_corrupt_sqlite :: bool
  ao_rollback_fault :: bool
  ao_fail_nth :: int
  ao_corrupt_after_rename :: bool
  ao_hash_mismatch :: bool

section \<open>Identifiers, paths, addresses\<close>

definition staging_identifier :: "divergence_task \<Rightarrow> string" where
  "staging_identifier t =
     (if dt_offset t < 0 then dt_path t else dt_path t @ '':'' @ fmt_int (dt_offset t))"

definition staging_filename :: "string \<Rightarrow> int \<Rightarrow> string" where
  "staging_filename planRelPath pageOffset =
     sha256_hex (if pageOffset < 0 then planRelPath else planRelPath @ '':'' @ fmt_int pageOffset)"

definition resolve_live_path :: "string \<Rightarrow> string \<Rightarrow> string \<Rightarrow> string" where
  "resolve_live_path datadir pocketdbRoot divPath =
     (if has_prefix divPath ''pocketdb/''
      then go_join [pocketdbRoot, trim_prefix divPath ''pocketdb/'']
      else go_join [datadir, divPath])"

text \<open>\<open>url.Parse\<close> is a parameter: scheme, host and path of an address it accepts.\<close>

type_synonym url_parser = "string \<Rightarrow> (string \<times> string \<times> string) option"

definition derive_chunk_base_url :: "url_parser \<Rightarrow> apply_options \<Rightarrow> string" where
  "derive_chunk_base_url parse opts =
     (if ao_chunk_base opts \<noteq> [] then ao_chunk_base opts
      else if ao_manifest_url opts \<noteq> [] then
        (case parse (ao_manifest_url opts) of
           None \<Rightarrow> []
         | Some (scheme, host, path) \<Rightarrow>
             (let parent = go_dir path in
              scheme @ ''://'' @ host @ (if parent = ''/'' then [] else parent)))
      else [])"

definition chunk_url :: "string \<Rightarrow> string \<Rightarrow> string" where
  "chunk_url base h =
     base @ ''/chunks/'' @ take 2 h @ ''/'' @ take 2 (drop 2 h) @ ''/'' @ h @ ''.zst''"

section \<open>plan_guard.go\<close>

datatype guard_err =
    PlanTamperedError plan_err
  | FreshnessFetch | FreshnessStatus int | FreshnessBody
  | SupersededCanonicalError string string int

definition verify_plan_self_hash :: "string \<Rightarrow> os \<Rightarrow> (guard_err + unit) \<times> os" where
  "verify_plan_self_hash planPath w =
     (case verify_self_hash_streaming planPath w of
        (Inl e, w1) \<Rightarrow> (Inl (PlanTamperedError e), w1)
      | (Inr _, w1) \<Rightarrow> (Inr (), w1))"

text \<open>
  \<open>json.Unmarshal\<close> checks the whole text first; then the members are stored in turn, one of the
  wrong type being skipped (its error is ignored by the caller).
\<close>

definition extract_block_height :: "bytes \<Rightarrow> int" where
  "extract_block_height body =
     (case read_value body of
        Some (JObj ms, rest) \<Rightarrow>
          if skip_ws rest \<noteq> [] then 0
          else foldl (\<lambda>h (k, v). case find_field [''block_height''] k of
                         None \<Rightarrow> h
                       | Some _ \<Rightarrow> (case into_int64 h v of None \<Rightarrow> h | Some i \<Rightarrow> i)) 0 ms
      | _ \<Rightarrow> 0)"

definition verify_manifest_freshness ::
  "canonical_identity \<Rightarrow> string \<Rightarrow> os \<Rightarrow> (int \<times> guard_err option) \<times> os" where
  "verify_manifest_freshness ident manifestURL w =
     (case http_get manifestURL w of
        (NetErr, w1) \<Rightarrow> ((0, Some FreshnessFetch), w1)
      | (Reply status len body broken, w1) \<Rightarrow>
          if status \<noteq> 200 then ((0, Some (FreshnessStatus status)), w1)
          else if broken then ((0, Some FreshnessBody), w1)
          else (let liveHash = sha256_hex body in
            if liveHash = ci_manifest_hash ident then ((0, None), w1)
            else (let h = extract_block_height body in
              ((h, Some (SupersededCanonicalError (ci_manifest_hash ident) liveHash h)), w1))))"

section \<open>Promotion\<close>

datatype promote_err =
    PromoteRead os_err | PromoteMkdir os_err | PromoteInjected | PromoteRename os_err
  | PromoteOpen os_err | PromoteWrite | GateRemove os_err

text \<open>
  The counter of the injected failure: it is incremented only when the injection is on, and the
  promotion it reaches fails.
\<close>

definition inject_nth :: "int \<Rightarrow> 32 word \<Rightarrow> bool \<times> 32 word" where
  "inject_nth nfail renameCount =
     (if 0 < nfail then (sint (renameCount + 1) = nfail, renameCount + 1) else (False, renameCount))"

definition promote_whole_file ::
  "fetch_result \<Rightarrow> 32 word \<Rightarrow> int \<Rightarrow> os \<Rightarrow> ((promote_err + bool) \<times> 32 word) \<times> os" where
  "promote_whole_file result renameCount nfail w =
     (case read_file (fr_path result) w of
        (Inl e, w1) \<Rightarrow> ((Inl (PromoteRead e), renameCount), w1)
      | (Inr dat, w1) \<Rightarrow>
          if sha256_hex dat \<noteq> dt_hash (fr_task result) then
            ((Inr True, renameCount), snd (os_remove (fr_path result) w1))
          else (case mkdir_all (go_dir (dt_live (fr_task result))) w1 of
             (Inl e, w2) \<Rightarrow> ((Inl (PromoteMkdir e), renameCount), w2)
           | (Inr _, w2) \<Rightarrow>
               (let (fail, rc) = inject_nth nfail renameCount in
                if fail then ((Inl PromoteInjected, rc), snd (os_remove (fr_path result) w2))
                else (case os_rename (fr_path result) (dt_live (fr_task result)) w2 of
                   (Inl e, w3) \<Rightarrow> ((Inl (PromoteRename e), rc), w3)
                 | (Inr _, w3) \<Rightarrow> ((Inr False, rc), w3)))))"

definition write_at :: "nat \<Rightarrow> int \<Rightarrow> bytes \<Rightarrow> unit io" where
  "write_at i off dat w = (if off < 0 then (Inl BadOp, w) else write_ino i (nat off) dat w)"

definition promote_sqlite_page ::
  "fetch_result \<Rightarrow> 32 word \<Rightarrow> int \<Rightarrow> os \<Rightarrow> ((promote_err + bool) \<times> 32 word) \<times> os" where
  "promote_sqlite_page result renameCount nfail w =
     (case read_file (fr_path result) w of
        (Inl e, w1) \<Rightarrow> ((Inl (PromoteRead e), renameCount), w1)
      | (Inr dat, w1) \<Rightarrow>
          if sha256_hex dat \<noteq> dt_hash (fr_task result) then
            ((Inr True, renameCount), snd (os_remove (fr_path result) w1))
          else (case mkdir_all (go_dir (dt_live (fr_task result))) w1 of
             (Inl e, w2) \<Rightarrow> ((Inl (PromoteMkdir e), renameCount), w2)
           | (Inr _, w2) \<Rightarrow>
               (let (fail, rc) = inject_nth nfail renameCount in
                if fail then ((Inl PromoteInjected, rc), snd (os_remove (fr_path result) w2))
                else (case open_create (dt_live (fr_task result)) w2 of
                   (Inl e, w3) \<Rightarrow> ((Inl (PromoteOpen e), rc), w3)
                 | (Inr i, w3) \<Rightarrow>
                     (case write_at i (dt_offset (fr_task result)) dat w3 of
                        (Inl _, w4) \<Rightarrow> ((Inl PromoteWrite, rc), w4)
                      | (Inr _, w4) \<Rightarrow> ((Inr False, rc), snd (os_remove (fr_path result) w4)))))))"

text \<open>hash_gate.go: the same gate without the injection; it reports a failed removal.\<close>

definition process_fetch_result :: "fetch_result \<Rightarrow> os \<Rightarrow> (bool \<times> promote_err option) \<times> os" where
  "process_fetch_result result w =
     (case read_file (fr_path result) w of
        (Inl e, w1) \<Rightarrow> ((False, Some (PromoteRead e)), w1)
      | (Inr dat, w1) \<Rightarrow>
          if sha256_hex dat \<noteq> dt_hash (fr_task result) then
            (case os_remove (fr_path result) w1 of
               (Inl e, w2) \<Rightarrow> if e \<noteq> NotExist then ((True, Some (GateRemove e)), w2) else ((True, None), w2)
             | (Inr _, w2) \<Rightarrow> ((True, None), w2))
          else (case mkdir_all (go_dir (dt_live (fr_task result))) w1 of
             (Inl e, w2) \<Rightarrow> ((False, Some (PromoteMkdir e)), w2)
           | (Inr _, w2) \<Rightarrow>
               (case os_rename (fr_path result) (dt_live (fr_task result)) w2 of
                  (Inl e, w3) \<Rightarrow> ((False, Some (PromoteRename e)), w3)
                | (Inr _, w3) \<Rightarrow> ((False, None), w3))))"

section \<open>Rollback and cleanup\<close>

definition execute_rollback :: "shadow list \<Rightarrow> os \<Rightarrow> exit_code \<times> os" where
  "execute_rollback shadows w =
     (let (result, w1) = rollback shadows w in
      if rb_status result = ResultFailed then (RollbackFailed, w1) else (RollbackCompleted, w1))"

fun remove_first_taken :: "shadow list \<Rightarrow> os \<Rightarrow> os" where
  "remove_first_taken [] w = w"
| "remove_first_taken (s # ss) w =
     (if taken s then snd (os_remove (shadow_path s) w) else remove_first_taken ss w)"

definition inject_fault_before_rollback :: "apply_options \<Rightarrow> shadow list \<Rightarrow> os \<Rightarrow> os" where
  "inject_fault_before_rollback opts shadows w =
     (if \<not> ao_rollback_fault opts then w else remove_first_taken shadows w)"

fun remove_taken :: "shadow list \<Rightarrow> os \<Rightarrow> os" where
  "remove_taken [] w = w"
| "remove_taken (s # ss) w = remove_taken ss (if taken s then snd (os_remove (shadow_path s) w) else w)"

definition cleanup_staging :: "string \<Rightarrow> shadow list \<Rightarrow> os \<Rightarrow> os" where
  "cleanup_staging stagingDir shadows w =
     (let w1 = remove_taken shadows w;
          w2 = snd (remove_all (go_join [stagingDir, ''staged'']) w1)
      in snd (remove_all (go_join [stagingDir, ''shadows'']) w2))"

section \<open>The tasks of a plan\<close>

text \<open>
  Reading the plan file once: the bytes that could be read, or the error of opening it.  The text
  is cut short where reading fails, so the decoder reports an error there.
\<close>

definition read_plan :: "string \<Rightarrow> bytes io" where
  "read_plan planPath w =
     (case open_read planPath w of
        (Inl e, w1) \<Rightarrow> (Inl e, w1)
      | (Inr i, w1) \<Rightarrow> (let ((dat, _), w2) = read_stream i w1 in (Inr dat, w2)))"

definition stream_headers :: "string \<Rightarrow> os \<Rightarrow> (plan_err option + divergence_header list) \<times> os" where
  "stream_headers planPath w =
     (case read_plan planPath w of
        (Inl _, w1) \<Rightarrow> (Inl None, w1)
      | (Inr text, w1) \<Rightarrow> (map_sum Some id (stream_divergence_headers text), w1))"

text \<open>The events of the page pass, and whether it ended with an error.\<close>

definition stream_pages :: "string \<Rightarrow> os \<Rightarrow> (page_event list \<times> bool) \<times> os" where
  "stream_pages planPath w =
     (case read_plan planPath w of
        (Inl _, w1) \<Rightarrow> (([], True), w1)
      | (Inr text, w1) \<Rightarrow>
          (case stream_sqlite_pages text of (evs, err) \<Rightarrow> ((evs, err \<noteq> None), w1)))"

fun check_page_events :: "page_event list \<Rightarrow> plan_err option" where
  "check_page_events [] = None"
| "check_page_events (OpenPages _ # evs) = check_page_events evs"
| "check_page_events (OnePage idx p # evs) =
     (case validate_page_hash idx (pp_offset p) (pp_hash p) of
        Inl e \<Rightarrow> Some e
      | Inr _ \<Rightarrow> check_page_events evs)"

definition validate_page_hashes :: "string \<Rightarrow> os \<Rightarrow> (plan_err option + unit) \<times> os" where
  "validate_page_hashes planPath w =
     (case stream_pages planPath w of
        ((evs, bad), w1) \<Rightarrow>
          (case check_page_events evs of
             Some e \<Rightarrow> (Inl (Some e), w1)
           | None \<Rightarrow> if bad then (Inl None, w1) else (Inr (), w1)))"

text \<open>
  A unit of work as the plan names it; \<open>None\<close> is the index panic of \<open>headers[idx]\<close>, which a plan
  with two arrays of divergences can reach.  A page's marker is \<open>path:offset\<close> whatever the
  sign of the offset.
\<close>

record candidate =
  cd_id :: string
  cd_path :: string
  cd_hash :: string
  cd_live :: string
  cd_absent :: bool
  cd_offset :: int

fun page_candidate ::
  "string \<Rightarrow> string \<Rightarrow> divergence_header list \<Rightarrow> page_event \<Rightarrow> candidate option list" where
  "page_candidate datadir root headers (OpenPages idx) = (if idx < length headers then [] else [None])"
| "page_candidate datadir root headers (OnePage idx p) =
     (if idx < length headers then
        (let path = dh_path (headers ! idx) in
         [Some \<lparr>cd_id = path @ '':'' @ fmt_int (pp_offset p), cd_path = path, cd_hash = pp_hash p,
                cd_live = resolve_live_path datadir root path, cd_absent = False,
                cd_offset = pp_offset p\<rparr>])
      else [])"

definition page_candidates ::
  "string \<Rightarrow> string \<Rightarrow> divergence_header list \<Rightarrow> page_event list \<Rightarrow> candidate option list" where
  "page_candidates datadir root headers evs = concat (map (page_candidate datadir root headers) evs)"

definition whole_candidates :: "string \<Rightarrow> string \<Rightarrow> divergence_header list \<Rightarrow> candidate option list" where
  "whole_candidates datadir root headers =
     map (\<lambda>h. Some \<lparr>cd_id = dh_path h, cd_path = dh_path h, cd_hash = dh_hash h,
                     cd_live = resolve_live_path datadir root (dh_path h),
                     cd_absent = (dh_source h = ''fetch_full''), cd_offset = -1\<rparr>)
         (filter (\<lambda>h. dh_kind h = kind_whole_file) headers)"

definition task_of :: "string \<Rightarrow> string \<Rightarrow> candidate \<Rightarrow> divergence_task" where
  "task_of chunkBase stagedDir c =
     \<lparr>dt_path = cd_path c, dt_url = chunk_url chunkBase (cd_hash c), dt_hash = cd_hash c,
      dt_staging = go_join [stagedDir, staging_filename (cd_path c) (cd_offset c)],
      dt_live = cd_live c, dt_attempt = 0, dt_absent = cd_absent c, dt_offset = cd_offset c\<rparr>"

text \<open>What the iterator still has to yield when it is first pulled.\<close>

definition open_feed ::
  "string \<Rightarrow> string \<Rightarrow> divergence_header list \<Rightarrow> string \<Rightarrow> os \<Rightarrow> candidate option list \<times> os" where
  "open_feed datadir root headers planPath w =
     (case stream_pages planPath w of
        ((evs, bad), w1) \<Rightarrow>
          (page_candidates datadir root headers evs
             @ (if bad then [] else whole_candidates datadir root headers), w1))"

datatype pull = Exhausted | PullPanic | Pulled candidate

text \<open>The slices \<open>h[0:2]\<close> and \<open>h[2:4]\<close> panic on a shorter hash.\<close>

fun next_task ::
  "string \<Rightarrow> candidate option list \<Rightarrow> os \<Rightarrow> (pull \<times> candidate option list) \<times> os" where
  "next_task stagingDir [] w = ((Exhausted, []), w)"
| "next_task stagingDir (None # cs) w = ((PullPanic, cs), w)"
| "next_task stagingDir (Some c # cs) w =
     (case marker_exists stagingDir (cd_id c) w of
        (True, w1) \<Rightarrow> next_task stagingDir cs w1
      | (False, w1) \<Rightarrow> ((if length (cd_hash c) < 4 then PullPanic else Pulled c, cs), w1))"

end
