(* ===== verification/Promote.thy ===== *)
theory Promote
  imports Apply
begin

text \<open>
  The hash gate of the promotions.  A live file changes only when the staged bytes have the hash
  the plan names: a whole file is then replaced in one step, a page is written in place.  A
  mismatch or a failure before that step leaves every file but the staged one as it was.
\<close>

section \<open>More about the calls\<close>

lemma os_remove_names: "q \<noteq> p \<Longrightarrow> names (snd (os_remove p w)) q = names w q"
  by (rule framed_names [OF os_remove_framed]) simp

lemma os_remove_store: "store (snd (os_remove p w)) = store w \<and> next_ino (snd (os_remove p w)) = next_ino w"
  unfolding os_remove_def by (rule syscall_frame) (auto split: option.split node.split)

lemma os_remove_node: "q \<noteq> p \<Longrightarrow> node_at (snd (os_remove p w)) q = node_at w q"
  by (rule framed_node [OF os_remove_framed]) simp

lemma os_remove_data: "q \<noteq> p \<Longrightarrow> file_data (snd (os_remove p w)) q = file_data w q"
  by (intro file_data_eqI os_remove_node) (simp_all add: os_remove_store)

lemma os_rename_Inl_fs: "os_rename a b w = (Inl e, w') \<Longrightarrow> fs w' = fs w"
  unfolding os_rename_def
  by (drule syscall_Inl) (auto split: option.splits node.splits if_splits simp: fs_def)

lemma open_create_Inl_fs: "open_create p w = (Inl e, w') \<Longrightarrow> fs w' = fs w"
  unfolding open_create_def
  by (drule syscall_Inl) (auto split: option.splits node.splits if_splits prod.splits simp: fs_def)

lemma open_create_Inr:
  assumes "open_create p w = (Inr i, w')"
  shows "node_at w' p = Some (FileN i)"
    and "store w' i = (case file_data w p of None \<Rightarrow> [] | Some d \<Rightarrow> d)"
    and "j \<noteq> i \<Longrightarrow> store w' j = store w j" and "q \<noteq> p \<Longrightarrow> names w' q = names w q"
    and "node_at w p = Some (FileN i) \<and> fs w' = fs w \<or> node_at w p = None \<and> i = next_ino w"
  using syscall_Inr [OF assms [unfolded open_create_def]]
  by (auto simp: node_at_def file_data_def new_file_def fs_def split: option.splits node.splits if_splits)

lemma write_ino_names: "names (snd (write_ino i off d w)) = names w \<and> next_ino (snd (write_ino i off d w)) = next_ino w"
  unfolding write_ino_def by (rule syscall_frame) auto

lemma write_ino_other: "j \<noteq> i \<Longrightarrow> store (snd (write_ino i off d w)) j = store w j"
  unfolding write_ino_def by (rule syscall_frame) auto

lemma write_ino_Inr: "write_ino i off d w = (Inr u, w') \<Longrightarrow> store w' i = splice (store w i) off d"
  unfolding write_ino_def by (drule syscall_Inr) auto

text \<open>Whatever a positioned write achieved, the bytes outside its range are the old ones.\<close>

lemma write_ino_partial:
  "\<exists>k. store (snd (write_ino i off d w)) i = splice (store w i) off (take k d)"
  unfolding write_ino_def
  by (rule syscall_frame) (auto intro: exI [of _ "length d"])

section \<open>The frame of a promotion\<close>

definition promote_names :: "fetch_result \<Rightarrow> string set" where
  "promote_names r = {fr_path r, dt_live (fr_task r)} \<union> set (ancestors (go_dir (dt_live (fr_task r))))"

lemma promote_names_simps [simp]:
  "fr_path r \<in> promote_names r" "dt_live (fr_task r) \<in> promote_names r"
  "set (ancestors (go_dir (dt_live (fr_task r)))) \<subseteq> promote_names r"
  by (auto simp: promote_names_def)

lemma promote_whole_file_framed: "framed (promote_names r) w (snd (promote_whole_file r rc n w))"
proof -
  let ?S = "promote_names r" and ?live = "dt_live (fr_task r)"
  obtain r1 w1 where a: "read_file (fr_path r) w = (r1, w1)" by fastforce
  obtain r2 w2 where b: "mkdir_all (go_dir ?live) w1 = (r2, w2)" by fastforce
  obtain r3 w3 where c: "os_rename (fr_path r) ?live w2 = (r3, w3)" by fastforce
  have 1: "framed ?S w w1" using call_framed [OF read_file_framed a] by blast
  have 2: "framed ?S w w2" using framed_trans [OF 1] call_framed [OF mkdir_all_framed b] by simp
  have 3: "framed ?S w w3" using framed_trans [OF 2] call_framed [OF os_rename_framed c] by simp
  have rem: "framed ?S w (snd (os_remove (fr_path r) v))" if "framed ?S w v" for v
    by (rule framed_trans [OF that]) (rule framed_mono [OF os_remove_framed], simp)
  show ?thesis
    using a b c 1 2 3 by (auto simp: promote_whole_file_def rem split: sum.split prod.split)
qed

lemma promote_sqlite_page_framed: "framed (promote_names r) w (snd (promote_sqlite_page r rc n w))"
proof -
  let ?S = "promote_names r" and ?live = "dt_live (fr_task r)"
  obtain r1 w1 where a: "read_file (fr_path r) w = (r1, w1)" by fastforce
  obtain r2 w2 where b: "mkdir_all (go_dir ?live) w1 = (r2, w2)" by fastforce
  obtain r3 w3 where c: "open_create ?live w2 = (r3, w3)" by fastforce
  have 1: "framed ?S w w1" using call_framed [OF read_file_framed a] by blast
  have 2: "framed ?S w w2" using framed_trans [OF 1] call_framed [OF mkdir_all_framed b] by simp
  have 3: "framed ?S w w3" using framed_trans [OF 2] call_framed [OF open_create_framed c] by simp
  have 4: "framed ?S w w4" if "write_at i off d w3 = (x, w4)" for i off d x w4
  proof (cases "off < 0")
    case False
    then have "write_ino i (nat off) d w3 = (x, w4)" using that by (simp add: write_at_def)
    from framed_trans [OF 3 call_framed [OF write_ino_framed this]] show ?thesis by simp
  qed (use 3 that in \<open>simp add: write_at_def\<close>)
  have rem: "framed ?S w (snd (os_remove (fr_path r) v))" if "framed ?S w v" for v
    by (rule framed_trans [OF that]) (rule framed_mono [OF os_remove_framed], simp)
  show ?thesis
    using a b c 1 2 3 by (auto simp: promote_sqlite_page_def rem 4 split: sum.split prod.split)
qed

section \<open>Whole files\<close>

lemma promote_whole_cases:
  assumes "promote_whole_file r rc n w = ((x, rc'), w')"
    and "fr_path r \<noteq> ''/''" and "fr_path r \<noteq> ''.''"
  shows "store w' = store w \<and> next_ino w' = next_ino w"
    and "q \<noteq> fr_path r \<Longrightarrow> q \<noteq> dt_live (fr_task r) \<Longrightarrow> file_data w' q = file_data w q"
    and "x \<noteq> Inr False \<Longrightarrow> q \<noteq> fr_path r \<Longrightarrow> file_data w' q = file_data w q"
    and "x = Inr False \<Longrightarrow> \<exists>d. file_data w (fr_path r) = Some d \<and> sha256_hex d = dt_hash (fr_task r) \<and>
           file_data w' (dt_live (fr_task r)) = Some d"
    and "x = Inr True \<Longrightarrow> \<exists>d. file_data w (fr_path r) = Some d \<and> sha256_hex d \<noteq> dt_hash (fr_task r)"
proof -
  let ?live = "dt_live (fr_task r)"
  obtain r1 w1 where a: "read_file (fr_path r) w = (r1, w1)" by fastforce
  obtain r2 w2 where b: "mkdir_all (go_dir ?live) w1 = (r2, w2)" by fastforce
  obtain r3 w3 where c: "os_rename (fr_path r) ?live w2 = (r3, w3)" by fastforce
  have f1: "fs w1 = fs w" using read_file_fs [of "fr_path r" w] a by simp
  have d1: "r1 = Inr d \<Longrightarrow> file_data w (fr_path r) = Some d" for d using read_file_Inr a by blast
  have s2: "store w2 = store w" "next_ino w2 = next_ino w" and d2: "file_data w2 p = file_data w p" for p
    using mkdir_all_store [of "go_dir ?live" w1] mkdir_all_data [of "go_dir ?live" w1 p] b f1
      fs_file_data [OF f1, of p] by (simp_all add: fs_iff)
  have s3: "store w3 = store w" "next_ino w3 = next_ino w"
    using os_rename_store [of "fr_path r" ?live w2] c s2 by simp_all
  have d3: "p \<noteq> fr_path r \<Longrightarrow> p \<noteq> ?live \<Longrightarrow> file_data w3 p = file_data w p" for p
    using framed_node [OF call_framed [OF os_rename_framed c subset_refl], of p] d2 [of p] s3 s2
    by (metis file_data_eqI empty_iff insert_iff)
  have e3: "r3 = Inl e \<Longrightarrow> file_data w3 p = file_data w p" for e p
    using os_rename_Inl_fs [of "fr_path r" ?live w2 e w3] c fs_file_data [of w3 w2 p] d2 by simp
  have m: "\<exists>d. file_data w3 ?live = Some d \<and> file_data w (fr_path r) = Some d" if "r3 = Inr u" for u
    using os_rename_Inr_data [OF c [unfolded that] assms(2,3)] d2 [of "fr_path r"] by auto
  show "store w' = store w \<and> next_ino w' = next_ino w"
    using assms(1) a b c f1 s2 s3
    by (auto simp: promote_whole_file_def os_remove_store fs_iff split: sum.splits prod.splits if_splits)
  show "q \<noteq> fr_path r \<Longrightarrow> q \<noteq> ?live \<Longrightarrow> file_data w' q = file_data w q"
    using assms(1) a b c d2 d3 fs_file_data [OF f1]
    by (auto simp: promote_whole_file_def os_remove_data split: sum.splits prod.splits if_splits)
  show "x \<noteq> Inr False \<Longrightarrow> q \<noteq> fr_path r \<Longrightarrow> file_data w' q = file_data w q"
    using assms(1) a b c d2 e3 fs_file_data [OF f1]
    by (auto simp: promote_whole_file_def os_remove_data split: sum.splits prod.splits if_splits)
  show "x = Inr False \<Longrightarrow> \<exists>d. file_data w (fr_path r) = Some d \<and> sha256_hex d = dt_hash (fr_task r) \<and>
           file_data w' ?live = Some d"
    using assms(1) a b c d1 m
    by (fastforce simp: promote_whole_file_def split: sum.splits prod.splits if_splits)
  show "x = Inr True \<Longrightarrow> \<exists>d. file_data w (fr_path r) = Some d \<and> sha256_hex d \<noteq> dt_hash (fr_task r)"
    using assms(1) a b c d1
    by (auto simp: promote_whole_file_def split: sum.splits prod.splits if_splits)
qed

section \<open>Pages\<close>

text \<open>The contents a page is written into: those of the live file, or nothing when there is none.\<close>

definition contents_or_empty :: "os \<Rightarrow> string \<Rightarrow> bytes" where
  "contents_or_empty w p = (case file_data w p of None \<Rightarrow> [] | Some d \<Rightarrow> d)"

lemma promote_page_hash:
  assumes "promote_sqlite_page r rc n w = ((x, rc'), w')"
  shows "x = Inr True \<Longrightarrow> \<exists>d. file_data w (fr_path r) = Some d \<and> sha256_hex d \<noteq> dt_hash (fr_task r)"
    and "x = Inr True \<Longrightarrow> store w' = store w \<and> (q \<noteq> fr_path r \<longrightarrow> names w' q = names w q)"
    and "x = Inr False \<Longrightarrow> \<exists>d. file_data w (fr_path r) = Some d \<and> sha256_hex d = dt_hash (fr_task r)"
proof -
  obtain r1 w1 where a: "read_file (fr_path r) w = (r1, w1)" by fastforce
  have f1: "fs w1 = fs w" using read_file_fs [of "fr_path r" w] a by simp
  have d1: "r1 = Inr d \<Longrightarrow> file_data w (fr_path r) = Some d" for d using read_file_Inr a by blast
  show "x = Inr True \<Longrightarrow> \<exists>d. file_data w (fr_path r) = Some d \<and> sha256_hex d \<noteq> dt_hash (fr_task r)"
    using assms a d1
    by (auto simp: promote_sqlite_page_def split: sum.splits prod.splits if_splits)
  show "x = Inr True \<Longrightarrow> store w' = store w \<and> (q \<noteq> fr_path r \<longrightarrow> names w' q = names w q)"
    using assms a f1
    by (auto simp: promote_sqlite_page_def os_remove_store os_remove_names fs_iff
        split: sum.splits prod.splits if_splits)
  show "x = Inr False \<Longrightarrow> \<exists>d. file_data w (fr_path r) = Some d \<and> sha256_hex d = dt_hash (fr_task r)"
    using assms a d1
    by (auto simp: promote_sqlite_page_def split: sum.splits prod.splits if_splits)
qed

text \<open>The part of the promotion after the hash check, up to the write.\<close>

lemma promote_page_write:
  assumes "mkdir_all d0 w1 = (Inr u, w2)" and "open_create live w2 = (Inr i, w3)" and "fs w1 = fs w"
  shows "node_at w3 live = Some (FileN i)" and "store w3 i = contents_or_empty w live"
    and "file_data w live = Some old \<Longrightarrow> file_data w3 live = Some old"
proof -
  have d2: "file_data w2 p = file_data w p" for p
    using mkdir_all_data [of d0 w1 p] assms(1) fs_file_data [OF assms(3), of p] by simp
  show "node_at w3 live = Some (FileN i)" by (rule open_create_Inr(1) [OF assms(2)])
  moreover show "store w3 i = contents_or_empty w live"
    using open_create_Inr(2) [OF assms(2)] d2 [of live] by (simp add: contents_or_empty_def)
  ultimately show "file_data w live = Some old \<Longrightarrow> file_data w3 live = Some old"
    by (simp add: file_data_def contents_or_empty_def)
qed

lemma promote_page_ok:
  assumes "promote_sqlite_page r rc n w = ((Inr False, rc'), w')"
    and "fr_path r \<noteq> dt_live (fr_task r)"
  shows "\<exists>d. file_data w (fr_path r) = Some d \<and> sha256_hex d = dt_hash (fr_task r) \<and> 0 \<le> dt_offset (fr_task r) \<and>
     file_data w' (dt_live (fr_task r)) =
       Some (splice (contents_or_empty w (dt_live (fr_task r))) (nat (dt_offset (fr_task r))) d)"
proof -
  let ?live = "dt_live (fr_task r)" and ?off = "dt_offset (fr_task r)"
  obtain d w1 u w2 i w3 v w4 where a: "read_file (fr_path r) w = (Inr d, w1)" and h: "sha256_hex d = dt_hash (fr_task r)"
    and b: "mkdir_all (go_dir ?live) w1 = (Inr u, w2)" and c: "open_create ?live w2 = (Inr i, w3)"
    and e: "write_at i ?off d w3 = (Inr v, w4)" and w': "w' = snd (os_remove (fr_path r) w4)"
    using assms(1)
    by (auto simp: promote_sqlite_page_def split: sum.splits prod.splits if_splits)
  have f1: "fs w1 = fs w" using read_file_fs [of "fr_path r" w] a by simp
  note p = promote_page_write [OF b c f1]
  have off: "0 \<le> ?off" and wi: "write_ino i (nat ?off) d w3 = (Inr v, w4)"
    using e by (auto simp: write_at_def split: if_splits)
  have "node_at w4 ?live = Some (FileN i)"
    using p(1) write_ino_names [of i "nat ?off" d w3] wi node_at_names [of w4 w3] by simp
  then have "file_data w4 ?live = Some (splice (contents_or_empty w ?live) (nat ?off) d)"
    using write_ino_Inr [OF wi] p(2) by (simp add: file_data_def)
  moreover have "file_data w' ?live = file_data w4 ?live"
    unfolding w' using assms(2) by (simp add: os_remove_data)
  ultimately show ?thesis using read_file_Inr [OF a] h off by (intro exI [of _ d]) simp
qed

text \<open>On every outcome the bytes of the live file outside the page are the old ones.\<close>

lemma promote_page_outside:
  assumes "promote_sqlite_page r rc n w = ((x, rc'), w')" and "fr_path r \<noteq> dt_live (fr_task r)"
    and "file_data w (dt_live (fr_task r)) = Some old"
  shows "\<exists>new. file_data w' (dt_live (fr_task r)) = Some new \<and>
     (new = old \<or> (\<exists>d k. file_data w (fr_path r) = Some d \<and> sha256_hex d = dt_hash (fr_task r) \<and>
                       new = splice old (nat (dt_offset (fr_task r))) (take k d)))"
proof -
  let ?live = "dt_live (fr_task r)" and ?off = "dt_offset (fr_task r)"
  obtain r1 w1 where a: "read_file (fr_path r) w = (r1, w1)" by fastforce
  have f1: "fs w1 = fs w" using read_file_fs [of "fr_path r" w] a by simp
  have l1: "file_data w1 ?live = Some old" using fs_file_data [OF f1] assms(3) by simp
  obtain r2 w2 where b: "mkdir_all (go_dir ?live) w1 = (r2, w2)" by fastforce
  have l2: "file_data w2 ?live = Some old"
    using mkdir_all_data [of "go_dir ?live" w1 ?live] b l1 by simp
  obtain r3 w3 where c: "open_create ?live w2 = (r3, w3)" by fastforce
  have rem: "file_data v ?live = Some new \<Longrightarrow> file_data (snd (os_remove (fr_path r) v)) ?live = Some new" for v new
    using assms(2) by (simp add: os_remove_data)
  have l3: "file_data w3 ?live = Some old" if "r3 = Inl e" for e
    using open_create_Inl_fs c that l2 fs_file_data by metis
  have wr: "\<exists>k. file_data w4 ?live = Some (splice old (nat ?off) (take k d))"
    if "r2 = Inr u" "r3 = Inr i" "write_at i ?off d w3 = (y, w4)" for u i d y w4
  proof -
    note p = promote_page_write [OF b [unfolded that(1)] c [unfolded that(2)] f1]
    have s: "store w3 i = old" using p(2) assms(3) by (simp add: contents_or_empty_def)
    show ?thesis
    proof (cases "?off < 0")
      case True
      with that(3) p(1) s have "file_data w4 ?live = Some (splice old (nat ?off) (take 0 d))"
        by (simp add: write_at_def file_data_def)
      then show ?thesis by blast
    next
      case False
      with that(3) have wi: "write_ino i (nat ?off) d w3 = (y, w4)" by (simp add: write_at_def)
      then have "node_at w4 ?live = Some (FileN i)"
        using p(1) write_ino_names [of i "nat ?off" d w3] node_at_names [of w4 w3] by simp
      with write_ino_partial [of i "nat ?off" d w3] wi s show ?thesis by (auto simp: file_data_def)
    qed
  qed
  show ?thesis
  proof (cases "\<exists>d u i. r1 = Inr d \<and> sha256_hex d = dt_hash (fr_task r) \<and> r2 = Inr u \<and> r3 = Inr i \<and> \<not> fst (inject_nth n rc)")
    case True
    then obtain d u i where t: "r1 = Inr d" "sha256_hex d = dt_hash (fr_task r)" "r2 = Inr u" "r3 = Inr i"
      "\<not> fst (inject_nth n rc)" by blast
    obtain y w4 where e: "write_at i ?off d w3 = (y, w4)" by fastforce
    obtain k where k: "file_data w4 ?live = Some (splice old (nat ?off) (take k d))" using wr [OF t(3,4) e] by blast
    have "file_data w' ?live = Some (splice old (nat ?off) (take k d))"
      using assms(1) a b c t e k rem [OF k]
      by (cases y) (auto simp: promote_sqlite_page_def split: prod.splits)
    with read_file_Inr a t show ?thesis by blast
  next
    case False
    then have "file_data w' ?live = Some old"
      using assms(1) a b c l1 l2 l3 rem [OF l1] rem [OF l2]
      by (auto simp: promote_sqlite_page_def split: sum.splits prod.splits if_splits)
    then show ?thesis by blast
  qed
qed

text \<open>The live name stays on its inode: a page is written in place.\<close>

lemma promote_page_live_node:
  assumes "promote_sqlite_page r rc n w = ((Inr False, rc'), w')" and "fr_path r \<noteq> dt_live (fr_task r)"
    and "node_at w (dt_live (fr_task r)) = Some (FileN i)"
  shows "node_at w' (dt_live (fr_task r)) = Some (FileN i)"
proof -
  let ?live = "dt_live (fr_task r)" and ?off = "dt_offset (fr_task r)"
  obtain d w1 u w2 j w3 v w4 where a: "read_file (fr_path r) w = (Inr d, w1)"
    and b: "mkdir_all (go_dir ?live) w1 = (Inr u, w2)" and c: "open_create ?live w2 = (Inr j, w3)"
    and e: "write_at j ?off d w3 = (Inr v, w4)" and w': "w' = snd (os_remove (fr_path r) w4)"
    using assms(1)
    by (auto simp: promote_sqlite_page_def split: sum.splits prod.splits if_splits)
  have f1: "fs w1 = fs w" using read_file_fs [of "fr_path r" w] a by simp
  have "node_at w2 ?live = Some (FileN i)"
    using mkdir_all_file [of "go_dir ?live" w1 ?live i] b fs_node_at [OF f1, of ?live] assms(3) by simp
  then have "fs w3 = fs w2" "j = i" using open_create_Inr(5) [OF c] by auto
  then have "node_at w3 ?live = Some (FileN i)" using open_create_Inr(1) [OF c] by simp
  moreover have "names w4 = names w3"
    using e write_ino_names [of j "nat ?off" d w3] by (auto simp: write_at_def split: if_splits)
  ultimately have "node_at w4 ?live = Some (FileN i)" using node_at_names by metis
  then show ?thesis unfolding w' using assms(2) by (simp add: os_remove_node)
qed

section \<open>The older gate\<close>

lemma process_fetch_result_ok:
  assumes "process_fetch_result r w = ((False, None), w')"
    and "fr_path r \<noteq> ''/''" and "fr_path r \<noteq> ''.''"
  shows "\<exists>d. file_data w (fr_path r) = Some d \<and> sha256_hex d = dt_hash (fr_task r) \<and>
     file_data w' (dt_live (fr_task r)) = Some d"
proof -
  let ?live = "dt_live (fr_task r)"
  obtain d w1 u w2 v where a: "read_file (fr_path r) w = (Inr d, w1)" and h: "sha256_hex d = dt_hash (fr_task r)"
    and b: "mkdir_all (go_dir ?live) w1 = (Inr u, w2)" and c: "os_rename (fr_path r) ?live w2 = (Inr v, w')"
    using assms(1)
    by (auto simp: process_fetch_result_def split: sum.splits prod.splits if_splits)
  have f1: "fs w1 = fs w" using read_file_fs [of "fr_path r" w] a by simp
  have "file_data w2 (fr_path r) = Some d"
    using mkdir_all_data [of "go_dir ?live" w1 "fr_path r"] b fs_file_data [OF f1] read_file_Inr [OF a] by simp
  then show ?thesis using os_rename_Inr_data [OF c assms(2,3)] read_file_Inr [OF a] h by simp
qed

end
