(* ===== verification/ApplyPool.thy ===== *)
theory ApplyPool
  imports Promote
begin

text \<open>
  The worker pool of \<open>apply.Run\<close> and \<open>runWorker\<close> (worker.go) as a transition system.

  A state holds the queues \<open>taskCh\<close> and \<open>resultCh\<close> (both bounded by \<open>parallel\<close>), the tasks that
  workers are fetching, the rest of the task feed, the main goroutine's program point and
  counters, and the world.  Three kinds of step interleave freely: the main goroutine's next
  operation, a worker receiving a task, and a worker finishing the fetch it holds.  One fetch with
  its retries is one step.  The context of the program is \<open>context.Background\<close>, so its
  cancellation is not a step.  A send on a full channel and a receive on an empty one are
  simply not enabled, so a deadlock is a state without successor in which work remains.
\<close>

section \<open>States\<close>

record pool_ctx =
  pc_parallel :: nat
  pc_staging :: string
  pc_staged :: string
  pc_chunks :: string
  pc_fail_nth :: int
  pc_decoders :: decoders

text \<open>
  \<open>Feeding n\<close>: the main goroutine may still prime \<open>n\<close> tasks; \<open>Feeding 0\<close> is its receive loop.
  \<open>Sending t n\<close>: it is about to send \<open>t\<close>.
\<close>

datatype main_point = Feeding nat | Sending divergence_task nat

record pool =
  q_point :: main_point
  q_feed :: "candidate option list"
  q_tasks :: "divergence_task list"
  q_busy :: "divergence_task list"
  q_results :: "fetch_result list"
  q_remaining :: int
  q_exhausted :: bool
  q_failed :: bool
  q_renames :: "32 word"
  q_promoted :: "32 word"
  q_panicked :: bool
  q_world :: os

definition max_attempts :: int where
  "max_attempts = 5"

definition init_pool :: "pool_ctx \<Rightarrow> candidate option list \<Rightarrow> int \<Rightarrow> os \<Rightarrow> pool" where
  "init_pool c feed pending w =
     \<lparr>q_point = Feeding (pc_parallel c), q_feed = feed, q_tasks = [], q_busy = [], q_results = [],
      q_remaining = pending, q_exhausted = False, q_failed = False, q_renames = 0, q_promoted = 0,
      q_panicked = False, q_world = w\<rparr>"

section \<open>The main goroutine\<close>

text \<open>Pulling the feed; \<open>n\<close> is the number of tasks left to prime after this one.\<close>

definition pull_task :: "pool_ctx \<Rightarrow> nat \<Rightarrow> pool \<Rightarrow> pool" where
  "pull_task c n s =
     (case next_task (pc_staging c) (q_feed s) (q_world s) of
        ((Exhausted, feed), w) \<Rightarrow> s\<lparr>q_point := Feeding 0, q_feed := feed, q_world := w\<rparr>
      | ((PullPanic, feed), w) \<Rightarrow> s\<lparr>q_panicked := True, q_feed := feed, q_world := w\<rparr>
      | ((Pulled cd, feed), w) \<Rightarrow>
          s\<lparr>q_point := Sending (task_of (pc_chunks c) (pc_staged c) cd) n, q_feed := feed, q_world := w\<rparr>)"

text \<open>
  What one result leads to: the task to be retried if there is one, and the new counters.
\<close>

definition retry_or_exhaust :: "divergence_task \<Rightarrow> pool \<Rightarrow> divergence_task option \<times> pool" where
  "retry_or_exhaust t s =
     (if dt_attempt t + 1 \<ge> max_attempts then (None, s\<lparr>q_exhausted := True\<rparr>)
      else (Some (t\<lparr>dt_attempt := dt_attempt t + 1\<rparr>), s\<lparr>q_remaining := q_remaining s + 1\<rparr>))"

definition promote :: "pool_ctx \<Rightarrow> fetch_result \<Rightarrow> pool \<Rightarrow> (promote_err + bool) \<times> pool" where
  "promote c r s =
     (let ((x, rc), w) =
        (if dt_offset (fr_task r) \<ge> 0
         then promote_sqlite_page r (q_renames s) (pc_fail_nth c) (q_world s)
         else promote_whole_file r (q_renames s) (pc_fail_nth c) (q_world s))
      in (x, s\<lparr>q_renames := rc, q_world := w\<rparr>))"

definition handle_result :: "pool_ctx \<Rightarrow> fetch_result \<Rightarrow> pool \<Rightarrow> divergence_task option \<times> pool" where
  "handle_result c r s =
     (if fr_err r \<noteq> None then retry_or_exhaust (fr_task r) s
      else case promote c r s of
        (Inl e, s1) \<Rightarrow> (None, s1\<lparr>q_failed := True\<rparr>)
      | (Inr True, s1) \<Rightarrow> retry_or_exhaust (fr_task r) s1
      | (Inr False, s1) \<Rightarrow>
          (None, s1\<lparr>q_promoted := q_promoted s1 + 1,
                   q_world := snd (write_marker (pc_staging c) (staging_identifier (fr_task r)) (q_world s1))\<rparr>))"

definition consume_result :: "pool_ctx \<Rightarrow> pool \<Rightarrow> pool option" where
  "consume_result c s =
     (case q_results s of
        [] \<Rightarrow> None
      | r # rs \<Rightarrow>
          (case handle_result c r (s\<lparr>q_results := rs, q_remaining := q_remaining s - 1\<rparr>) of
             (Some t, s1) \<Rightarrow> Some (s1\<lparr>q_point := Sending t 0\<rparr>)
           | (None, s1) \<Rightarrow> Some (pull_task c 0 s1)))"

definition main_step :: "pool_ctx \<Rightarrow> pool \<Rightarrow> pool option" where
  "main_step c s =
     (if q_panicked s then None
      else case q_point s of
        Feeding (Suc n) \<Rightarrow> Some (pull_task c n s)
      | Feeding 0 \<Rightarrow> if q_remaining s \<le> 0 then None else consume_result c s
      | Sending t n \<Rightarrow>
          if length (q_tasks s) < pc_parallel c
          then Some (s\<lparr>q_tasks := q_tasks s @ [t], q_point := Feeding n\<rparr>) else None)"

section \<open>The workers\<close>

definition take_step :: "pool_ctx \<Rightarrow> pool \<Rightarrow> pool option" where
  "take_step c s =
     (if q_panicked s then None
      else case q_tasks s of
        [] \<Rightarrow> None
      | t # ts \<Rightarrow>
          if length (q_busy s) < pc_parallel c
          then Some (s\<lparr>q_tasks := ts, q_busy := q_busy s @ [t]\<rparr>) else None)"

definition finish_step :: "pool_ctx \<Rightarrow> nat \<Rightarrow> pool \<Rightarrow> pool option" where
  "finish_step c n s =
     (if q_panicked s \<or> length (q_busy s) \<le> n \<or> pc_parallel c \<le> length (q_results s) then None
      else let t = q_busy s ! n in
        case fetch_with_retry (pc_decoders c) (dt_url t) (dt_staging t) (q_world s) of
          (err, w) \<Rightarrow>
            Some (s\<lparr>q_busy := take n (q_busy s) @ drop (Suc n) (q_busy s),
                    q_results := q_results s
                      @ [\<lparr>fr_task = t, fr_path = dt_staging t, fr_rel = dt_path t, fr_err = err\<rparr>],
                    q_world := w\<rparr>))"

section \<open>Steps and runs\<close>

datatype choice = MainGo | WorkerTakes | WorkerFinishes nat

fun pool_step :: "pool_ctx \<Rightarrow> choice \<Rightarrow> pool \<Rightarrow> pool option" where
  "pool_step c MainGo s = main_step c s"
| "pool_step c WorkerTakes s = take_step c s"
| "pool_step c (WorkerFinishes n) s = finish_step c n s"

inductive pool_trans :: "pool_ctx \<Rightarrow> pool \<Rightarrow> pool \<Rightarrow> bool" for c where
  step: "pool_step c ch s = Some s' \<Longrightarrow> pool_trans c s s'"

inductive reachable :: "pool_ctx \<Rightarrow> pool \<Rightarrow> pool \<Rightarrow> bool" for c s0 where
  start: "reachable c s0 s0"
| step: "reachable c s0 s \<Longrightarrow> pool_trans c s s' \<Longrightarrow> reachable c s0 s'"

definition loop_over :: "pool \<Rightarrow> bool" where
  "loop_over s \<longleftrightarrow> q_panicked s \<or> (q_point s = Feeding 0 \<and> q_remaining s \<le> 0)"

text \<open>The choice a scheduler makes, or another enabled one if it is not enabled.\<close>

definition pick :: "pool_ctx \<Rightarrow> (pool \<Rightarrow> choice) \<Rightarrow> pool \<Rightarrow> pool option" where
  "pick c sched s =
     (case pool_step c (sched s) s of
        Some s' \<Rightarrow> Some s'
      | None \<Rightarrow>
          (case main_step c s of
             Some s' \<Rightarrow> Some s'
           | None \<Rightarrow> (case take_step c s of Some s' \<Rightarrow> Some s' | None \<Rightarrow> finish_step c 0 s)))"

section \<open>Every step uses up work\<close>

definition task_weight :: "divergence_task \<Rightarrow> nat" where
  "task_weight t = 4 * nat (max_attempts - dt_attempt t)"

text \<open>The weight of the queues; a retry costs one unit of four, each hop through the queues one.\<close>

definition queue_weight :: "pool \<Rightarrow> nat" where
  "queue_weight s =
     sum_list (map (\<lambda>t. task_weight t + 3) (q_tasks s))
     + sum_list (map (\<lambda>t. task_weight t + 2) (q_busy s))
     + sum_list (map (\<lambda>r. task_weight (fr_task r) + 1) (q_results s))"

definition pool_weight :: "pool \<Rightarrow> nat" where
  "pool_weight s =
     (if q_panicked s then 0
      else Suc ((case q_point s of Feeding n \<Rightarrow> n | Sending t n \<Rightarrow> n + task_weight t + 4)
                + 25 * length (q_feed s) + queue_weight s))"

lemma next_task_length:
  "next_task d feed w = ((p, feed'), w') \<Longrightarrow>
   length feed' \<le> length feed \<and> (p \<noteq> Exhausted \<longrightarrow> length feed' < length feed) \<and> (p = Exhausted \<longrightarrow> feed' = [])"
  by (induction d feed w rule: next_task.induct) (fastforce split: prod.splits bool.splits if_splits)+

lemma weight_fresh: "task_weight (task_of b sd c) = 20"
  by (simp add: task_weight_def task_of_def max_attempts_def)

lemma weight_retry:
  "\<not> dt_attempt t + 1 \<ge> max_attempts \<Longrightarrow> task_weight (t\<lparr>dt_attempt := dt_attempt t + 1\<rparr>) + 4 = task_weight t"
  by (simp add: task_weight_def max_attempts_def)

lemma pull_task_frame:
  "q_tasks (pull_task c n s) = q_tasks s \<and> q_busy (pull_task c n s) = q_busy s \<and>
   q_results (pull_task c n s) = q_results s \<and> q_remaining (pull_task c n s) = q_remaining s \<and>
   q_exhausted (pull_task c n s) = q_exhausted s \<and> q_failed (pull_task c n s) = q_failed s"
  by (auto simp: pull_task_def split: prod.split pull.split)

lemma pull_task_weight:
  "pool_weight (pull_task c n s) \<le> Suc (n + 25 * length (q_feed s) + queue_weight s)"
proof -
  obtain p feed w where p: "next_task (pc_staging c) (q_feed s) (q_world s) = ((p, feed), w)"
    by (metis prod.exhaust)
  from next_task_length [OF p] p show ?thesis
    by (cases p) (auto simp: pull_task_def pool_weight_def queue_weight_def weight_fresh)
qed

lemma promote_frame:
  assumes "promote c r s = (x, s')"
  shows "q_point s' = q_point s" "q_feed s' = q_feed s" "q_tasks s' = q_tasks s" "q_busy s' = q_busy s"
    "q_results s' = q_results s" "q_remaining s' = q_remaining s" "q_panicked s' = q_panicked s"
    "q_exhausted s' = q_exhausted s" "q_failed s' = q_failed s"
  using assms by (auto simp: promote_def Let_def split: prod.splits if_splits)

lemma handle_result_frame:
  assumes "handle_result c r s = (x, s')"
  shows "q_point s' = q_point s" "q_feed s' = q_feed s" "q_tasks s' = q_tasks s" "q_busy s' = q_busy s"
    "q_results s' = q_results s" "q_panicked s' = q_panicked s"
    "x = None \<Longrightarrow> q_remaining s' = q_remaining s"
    "x = Some t \<Longrightarrow> q_remaining s' = q_remaining s + 1 \<and> dt_attempt (fr_task r) + 1 < max_attempts
       \<and> t = (fr_task r)\<lparr>dt_attempt := dt_attempt (fr_task r) + 1\<rparr>"
proof -
  obtain y s1 where p: "promote c r s = (y, s1)" by fastforce
  note f = promote_frame [OF p]
  have retry: "retry_or_exhaust (fr_task r) s2 = (x, s') \<Longrightarrow>
      q_point s' = q_point s2 \<and> q_feed s' = q_feed s2 \<and> q_tasks s' = q_tasks s2 \<and> q_busy s' = q_busy s2 \<and>
      q_results s' = q_results s2 \<and> q_panicked s' = q_panicked s2 \<and> (x = None \<longrightarrow> q_remaining s' = q_remaining s2) \<and>
      (x = Some t \<longrightarrow> q_remaining s' = q_remaining s2 + 1 \<and> dt_attempt (fr_task r) + 1 < max_attempts
       \<and> t = (fr_task r)\<lparr>dt_attempt := dt_attempt (fr_task r) + 1\<rparr>)" for s2
    by (auto simp: retry_or_exhaust_def split: if_splits)
  have step: "retry_or_exhaust (fr_task r) s = (x, s') \<or> retry_or_exhaust (fr_task r) s1 = (x, s') \<or>
      (x = None \<and> (\<exists>w n b. s' = s1\<lparr>q_failed := b\<rparr> \<or> s' = s1\<lparr>q_promoted := n, q_world := w\<rparr>))"
    using assms p by (simp add: handle_result_def split: if_splits sum.splits bool.splits) blast+
  let ?Q = "q_point s' = q_point s \<and> q_feed s' = q_feed s \<and> q_tasks s' = q_tasks s \<and> q_busy s' = q_busy s \<and>
      q_results s' = q_results s \<and> q_panicked s' = q_panicked s \<and> (x = None \<longrightarrow> q_remaining s' = q_remaining s) \<and>
      (x = Some t \<longrightarrow> q_remaining s' = q_remaining s + 1 \<and> dt_attempt (fr_task r) + 1 < max_attempts
       \<and> t = (fr_task r)\<lparr>dt_attempt := dt_attempt (fr_task r) + 1\<rparr>)"
  from step have ?Q
  proof (elim disjE conjE exE)
    assume "retry_or_exhaust (fr_task r) s = (x, s')"
    then show ?Q by (rule retry)
  next
    assume "retry_or_exhaust (fr_task r) s1 = (x, s')"
    then show ?Q using retry [of s1] f by simp
  qed (use f in simp_all)
  then show "q_point s' = q_point s" "q_feed s' = q_feed s" "q_tasks s' = q_tasks s" "q_busy s' = q_busy s"
    "q_results s' = q_results s" "q_panicked s' = q_panicked s"
    "x = None \<Longrightarrow> q_remaining s' = q_remaining s"
    "x = Some t \<Longrightarrow> q_remaining s' = q_remaining s + 1 \<and> dt_attempt (fr_task r) + 1 < max_attempts
       \<and> t = (fr_task r)\<lparr>dt_attempt := dt_attempt (fr_task r) + 1\<rparr>"
    by blast+
qed

lemma consume_weight:
  assumes "consume_result c s = Some s'" and "\<not> q_panicked s" and "q_point s = Feeding 0"
  shows "pool_weight s' < pool_weight s"
proof -
  obtain r rs where r: "q_results s = r # rs" using assms(1) by (auto simp: consume_result_def split: list.splits)
  let ?s0 = "s\<lparr>q_results := rs, q_remaining := q_remaining s - 1\<rparr>"
  obtain x s1 where h: "handle_result c r ?s0 = (x, s1)" by fastforce
  note f = handle_result_frame [OF h]
  have q: "queue_weight s = queue_weight s1 + task_weight (fr_task r) + 1"
    using f by (simp add: queue_weight_def r)
  show ?thesis
  proof (cases x)
    case None
    then have "s' = pull_task c 0 s1" using assms(1) r h by (simp add: consume_result_def)
    then show ?thesis
      using pull_task_weight [of c 0 s1] f q assms(2,3) by (simp add: pool_weight_def)
  next
    case (Some t)
    then have s': "s' = s1\<lparr>q_point := Sending t 0\<rparr>" using assms(1) r h by (simp add: consume_result_def)
    have "task_weight t + 4 = task_weight (fr_task r)"
      using f(8) [OF Some] weight_retry [of "fr_task r"] by simp
    then show ?thesis
      using f q assms(2,3) unfolding s' by (simp add: pool_weight_def queue_weight_def)
  qed
qed

lemma main_step_weight: "main_step c s = Some s' \<Longrightarrow> pool_weight s' < pool_weight s"
proof -
  assume m: "main_step c s = Some s'"
  then have np: "\<not> q_panicked s" by (auto simp: main_step_def split: if_splits)
  consider (recv) "q_point s = Feeding 0" | (prime) n where "q_point s = Feeding (Suc n)"
    | (send) t n where "q_point s = Sending t n"
    by (metis main_point.exhaust nat.exhaust)
  then show ?thesis
  proof cases
    case recv
    with m np consume_weight [of c s s'] show ?thesis by (auto simp: main_step_def split: if_splits)
  next
    case (prime n)
    with m np have "s' = pull_task c n s" by (simp add: main_step_def)
    with pull_task_weight [of c n s] prime np show ?thesis by (simp add: pool_weight_def)
  next
    case (send t n)
    with m np show ?thesis by (auto simp: main_step_def pool_weight_def queue_weight_def split: if_splits)
  qed
qed

lemma take_step_weight: "take_step c s = Some s' \<Longrightarrow> pool_weight s' < pool_weight s"
  by (auto simp: take_step_def pool_weight_def queue_weight_def split: if_splits list.splits)

lemma finish_step_weight: "finish_step c n s = Some s' \<Longrightarrow> pool_weight s' < pool_weight s"
proof -
  assume f: "finish_step c n s = Some s'"
  then have n: "n < length (q_busy s)" and np: "\<not> q_panicked s"
    by (auto simp: finish_step_def split: if_splits)
  have b: "q_busy s = take n (q_busy s) @ q_busy s ! n # drop (Suc n) (q_busy s)"
    using n by (simp add: id_take_nth_drop)
  have "sum_list (map (\<lambda>t. task_weight t + 2) (q_busy s)) =
      sum_list (map (\<lambda>t. task_weight t + 2) (take n (q_busy s) @ drop (Suc n) (q_busy s)))
      + task_weight (q_busy s ! n) + 2"
    by (subst b) simp
  with f np show ?thesis
    by (auto simp: finish_step_def Let_def pool_weight_def queue_weight_def split: if_splits prod.splits)
qed

lemma pool_step_weight: "pool_step c ch s = Some s' \<Longrightarrow> pool_weight s' < pool_weight s"
  by (cases ch) (auto dest: main_step_weight take_step_weight finish_step_weight)

lemma pick_weight: "pick c sched s = Some s' \<Longrightarrow> pool_weight s' < pool_weight s"
  by (auto simp: pick_def dest: pool_step_weight main_step_weight take_step_weight finish_step_weight
      split: option.splits)

text \<open>
  The loop of \<open>Run\<close> under a scheduler: the state in which it ends, or \<open>None\<close> when it blocks
  forever.  It is total because every step loses weight.
\<close>

function run_pool :: "pool_ctx \<Rightarrow> (pool \<Rightarrow> choice) \<Rightarrow> pool \<Rightarrow> pool option" where
  "run_pool c sched s =
     (if loop_over s then Some s
      else case pick c sched s of None \<Rightarrow> None | Some s' \<Rightarrow> run_pool c sched s')"
  by pat_completeness auto
termination by (relation "measure (\<lambda>(c, sched, s). pool_weight s)") (auto dest: pick_weight)

declare run_pool.simps [simp del]

lemma pick_trans: "pick c sched s = Some s' \<Longrightarrow> pool_trans c s s'"
proof -
  assume p: "pick c sched s = Some s'"
  consider "pool_step c (sched s) s = Some s'" | "main_step c s = Some s'" | "take_step c s = Some s'"
    | "finish_step c 0 s = Some s'"
    using p by (auto simp: pick_def split: option.splits)
  then show ?thesis
    by cases (auto intro: pool_trans.step [of _ MainGo] pool_trans.step [of _ WorkerTakes]
        pool_trans.step [of _ "WorkerFinishes 0"] pool_trans.step [of _ "sched s"])
qed

end
