(* ===== verification/PoolInv.thy ===== *)
theory PoolInv
  imports ApplyPool "HOL-Library.Multiset"
begin

text \<open>
  Invariants of the worker pool.  The bounds on what is in flight hold in every environment.  The
  accounting of \<open>remaining\<close> needs that the feed sees the markers that the counting pass saw; it is
  stated for environments without faults and plans whose marker files are apart from everything the
  tasks touch (\<open>apart\<close>), and it excludes a deadlock.
\<close>

section \<open>What is in flight\<close>

definition outstanding :: "pool \<Rightarrow> divergence_task list" where
  "outstanding s =
     (case q_point s of Feeding _ \<Rightarrow> [] | Sending t _ \<Rightarrow> [t])
     @ q_tasks s @ q_busy s @ map fr_task (q_results s)"

definition to_prime :: "pool \<Rightarrow> nat" where
  "to_prime s = (case q_point s of Feeding n \<Rightarrow> n | Sending _ n \<Rightarrow> n)"

definition in_flight_ok :: "pool_ctx \<Rightarrow> pool \<Rightarrow> bool" where
  "in_flight_ok c s \<longleftrightarrow>
     (q_panicked s \<or> length (outstanding s) + to_prime s \<le> pc_parallel c) \<and>
     (\<forall>t \<in> set (outstanding s). 0 \<le> dt_attempt t \<and> dt_attempt t < max_attempts)"

lemma pull_task_outstanding:
  assumes "\<And>t n. q_point s \<noteq> Sending t n"
  shows "q_panicked (pull_task c n s) \<or>
     (outstanding (pull_task c n s) = outstanding s \<and> to_prime (pull_task c n s) = 0 \<and> q_feed (pull_task c n s) = []) \<or>
     (\<exists>cd. outstanding (pull_task c n s) = task_of (pc_chunks c) (pc_staged c) cd # outstanding s
           \<and> to_prime (pull_task c n s) = n)"
  and "\<exists>xs. set xs \<subseteq> {task_of (pc_chunks c) (pc_staged c) cd | cd. True} \<and> outstanding (pull_task c n s) = xs @ outstanding s"
proof -
  obtain p feed w where p: "next_task (pc_staging c) (q_feed s) (q_world s) = ((p, feed), w)"
    by (metis prod.exhaust)
  obtain k where k: "q_point s = Feeding k" using assms by (cases "q_point s") auto
  show "q_panicked (pull_task c n s) \<or>
     (outstanding (pull_task c n s) = outstanding s \<and> to_prime (pull_task c n s) = 0 \<and> q_feed (pull_task c n s) = []) \<or>
     (\<exists>cd. outstanding (pull_task c n s) = task_of (pc_chunks c) (pc_staged c) cd # outstanding s
           \<and> to_prime (pull_task c n s) = n)"
    using next_task_length [OF p] p
    by (cases p) (auto simp: pull_task_def outstanding_def to_prime_def k)
  show "\<exists>xs. set xs \<subseteq> {task_of (pc_chunks c) (pc_staged c) cd | cd. True} \<and> outstanding (pull_task c n s) = xs @ outstanding s"
    using p k
    by (cases p) (auto simp: pull_task_def outstanding_def intro: exI [of _ "[]"])
qed

lemma attempt_fresh: "dt_attempt (task_of b d cd) = 0"
  by (simp add: task_of_def)

lemma pull_task_in_flight:
  assumes "in_flight_ok c s" and "\<And>t n. q_point s \<noteq> Sending t n"
    and "q_panicked s \<or> length (outstanding s) + n < pc_parallel c"
  shows "in_flight_ok c (pull_task c n s)"
proof -
  have a: "\<forall>t \<in> set (outstanding (pull_task c n s)). 0 \<le> dt_attempt t \<and> dt_attempt t < max_attempts"
    using pull_task_outstanding(2) [of s c n, OF assms(2)] assms(1)
    by (fastforce simp: in_flight_ok_def attempt_fresh max_attempts_def)
  moreover have "q_panicked (pull_task c n s) \<or>
      length (outstanding (pull_task c n s)) + to_prime (pull_task c n s) \<le> pc_parallel c"
  proof (cases "q_panicked s")
    case True
    then have "q_panicked (pull_task c n s)"
      by (auto simp: pull_task_def split: prod.split pull.split)
    then show ?thesis by simp
  next
    case False
    then show ?thesis using pull_task_outstanding(1) [of s c n, OF assms(2)] assms(3) by auto
  qed
  ultimately show ?thesis unfolding in_flight_ok_def by blast
qed

lemma consume_in_flight:
  assumes "consume_result c s = Some s'" and "in_flight_ok c s" and "\<not> q_panicked s" and "q_point s = Feeding 0"
  shows "in_flight_ok c s'"
proof -
  obtain r rs where r: "q_results s = r # rs" using assms(1) by (auto simp: consume_result_def split: list.splits)
  let ?s0 = "s\<lparr>q_results := rs, q_remaining := q_remaining s - 1\<rparr>"
  obtain x s1 where h: "handle_result c r ?s0 = (x, s1)" by fastforce
  note f = handle_result_frame [OF h]
  have o: "outstanding s = q_tasks s @ q_busy s @ fr_task r # map fr_task rs"
    "outstanding s1 = q_tasks s @ q_busy s @ map fr_task rs"
    using f assms(4) r by (simp_all add: outstanding_def)
  have le: "length (outstanding s) \<le> pc_parallel c"
    using assms(2,3) by (simp add: in_flight_ok_def)
  show ?thesis
  proof (cases x)
    case None
    then have s': "s' = pull_task c 0 s1" using assms(1) r h by (simp add: consume_result_def)
    show ?thesis unfolding s'
    proof (rule pull_task_in_flight)
      show "in_flight_ok c s1"
        using assms(2,3) o f le by (auto simp: in_flight_ok_def to_prime_def assms(4))
    qed (use f assms(4) o le in auto)
  next
    case (Some t)
    then have s': "s' = s1\<lparr>q_point := Sending t 0\<rparr>" using assms(1) r h by (simp add: consume_result_def)
    have "outstanding s' = t # outstanding s1"
      using f assms(4) unfolding s' by (simp add: outstanding_def)
    then show ?thesis
      using assms(2,3) o f(8) [OF Some] le by (auto simp: in_flight_ok_def to_prime_def s')
  qed
qed

lemma main_step_in_flight:
  assumes "main_step c s = Some s'" and "in_flight_ok c s"
  shows "in_flight_ok c s'"
proof -
  have np: "\<not> q_panicked s" using assms(1) by (auto simp: main_step_def split: if_splits)
  consider (recv) "q_point s = Feeding 0" | (prime) n where "q_point s = Feeding (Suc n)"
    | (send) t n where "q_point s = Sending t n"
    by (metis main_point.exhaust nat.exhaust)
  then show ?thesis
  proof cases
    case recv
    with assms np consume_in_flight [of c s s'] show ?thesis by (auto simp: main_step_def split: if_splits)
  next
    case (prime n)
    with assms(1) np have "s' = pull_task c n s" by (simp add: main_step_def)
    moreover have "in_flight_ok c (pull_task c n s)"
      by (rule pull_task_in_flight [OF assms(2)]) (use prime assms(2) np in \<open>auto simp: in_flight_ok_def to_prime_def\<close>)
    ultimately show ?thesis by simp
  next
    case (send t n)
    with assms np show ?thesis
      by (auto simp: main_step_def in_flight_ok_def outstanding_def to_prime_def split: if_splits)
  qed
qed

lemma worker_step_outstanding:
  "take_step c s = Some s' \<Longrightarrow> mset (outstanding s') = mset (outstanding s) \<and> q_point s' = q_point s \<and> q_panicked s' = q_panicked s"
  "finish_step c n s = Some s' \<Longrightarrow> mset (outstanding s') = mset (outstanding s) \<and> q_point s' = q_point s \<and> q_panicked s' = q_panicked s"
proof -
  show "take_step c s = Some s' \<Longrightarrow> mset (outstanding s') = mset (outstanding s) \<and> q_point s' = q_point s \<and> q_panicked s' = q_panicked s"
    by (auto simp: take_step_def outstanding_def split: if_splits list.splits main_point.splits)
  assume f: "finish_step c n s = Some s'"
  then have n: "n < length (q_busy s)" by (auto simp: finish_step_def split: if_splits)
  have "mset (q_busy s) = add_mset (q_busy s ! n) (mset (take n (q_busy s) @ drop (Suc n) (q_busy s)))"
    by (subst id_take_nth_drop [OF n]) simp
  with f show "mset (outstanding s') = mset (outstanding s) \<and> q_point s' = q_point s \<and> q_panicked s' = q_panicked s"
    by (auto simp: finish_step_def outstanding_def Let_def split: if_splits prod.splits main_point.splits)
qed

lemma in_flight_mset:
  assumes "mset (outstanding s') = mset (outstanding s)" and "q_point s' = q_point s" and "q_panicked s' = q_panicked s"
  shows "in_flight_ok c s' = in_flight_ok c s"
  using mset_eq_length [OF assms(1)] mset_eq_setD [OF assms(1)] assms(2,3)
  by (simp add: in_flight_ok_def to_prime_def)

lemma step_in_flight: "pool_trans c s s' \<Longrightarrow> in_flight_ok c s \<Longrightarrow> in_flight_ok c s'"
proof (induction rule: pool_trans.induct)
  case (step ch s s')
  show ?case
  proof (cases ch)
    case MainGo
    with step main_step_in_flight show ?thesis by simp
  next
    case WorkerTakes
    with step worker_step_outstanding(1) [of c s s'] in_flight_mset [of s' s c] show ?thesis by simp
  next
    case (WorkerFinishes n)
    with step worker_step_outstanding(2) [of c n s s'] in_flight_mset [of s' s c] show ?thesis by simp
  qed
qed

lemma reachable_in_flight: "reachable c s0 s \<Longrightarrow> in_flight_ok c s0 \<Longrightarrow> in_flight_ok c s"
  by (induction rule: reachable.induct) (auto intro: step_in_flight)

lemma init_in_flight: "in_flight_ok c (init_pool c feed k w)"
  by (simp add: in_flight_ok_def init_pool_def outstanding_def to_prime_def)

text \<open>Hence no send blocks and no received task waits for a worker.\<close>

lemma no_send_blocks:
  assumes "in_flight_ok c s" and "\<not> q_panicked s"
  shows "q_point s = Sending t n \<Longrightarrow> main_step c s \<noteq> None"
    and "q_busy s \<noteq> [] \<Longrightarrow> k < length (q_busy s) \<Longrightarrow> finish_step c k s \<noteq> None"
    and "q_tasks s \<noteq> [] \<Longrightarrow> take_step c s \<noteq> None"
  using assms
  by (auto simp: in_flight_ok_def outstanding_def to_prime_def main_step_def finish_step_def take_step_def Let_def
      split: main_point.splits list.splits prod.split)

end
