(* ===== verification/PoolLive.thy ===== *)
theory PoolLive
  imports PoolInv
begin

text \<open>
  The accounting of the apply loop: in an environment without faults, and when no marker file of a
  pending unit of work is a name that another unit's task touches, \<open>remaining\<close> is the number of
  tasks in flight plus the units the feed has still to yield; so the loop never blocks and ends.
\<close>

section \<open>What a task touches\<close>

definition markers_dir :: "pool_ctx \<Rightarrow> string" where
  "markers_dir c = go_join [pc_staging c, ''markers'']"

definition touched :: "pool_ctx \<Rightarrow> divergence_task \<Rightarrow> string set" where
  "touched c t =
     {dt_staging t, dt_live t, marker_path (pc_staging c) (staging_identifier t)}
     \<union> set (ancestors (go_dir (dt_live t))) \<union> set (ancestors (markers_dir c))"

text \<open>
  The feed's units: their identifiers are those of their tasks, their hashes are long enough for
  the address, and each unit's marker is apart from what the other units' tasks touch.
\<close>

definition unit_ok :: "pool_ctx \<Rightarrow> candidate \<Rightarrow> bool" where
  "unit_ok c cd \<longleftrightarrow> 4 \<le> length (cd_hash cd) \<and>
     staging_identifier (task_of (pc_chunks c) (pc_staged c) cd) = cd_id cd"

definition mark_of :: "pool_ctx \<Rightarrow> candidate \<Rightarrow> string" where
  "mark_of c cd = marker_path (pc_staging c) (cd_id cd)"

fun apart :: "pool_ctx \<Rightarrow> candidate list \<Rightarrow> bool" where
  "apart c [] = True"
| "apart c (cd # cds) =
     (unit_ok c cd \<and> list_all (\<lambda>e. mark_of c e \<notin> touched c (task_of (pc_chunks c) (pc_staged c) cd)) cds \<and> apart c cds)"

definition pending :: "pool_ctx \<Rightarrow> os \<Rightarrow> candidate list \<Rightarrow> candidate list" where
  "pending c w cds = filter (\<lambda>cd. \<not> has_marker (pc_staging c) w (cd_id cd)) cds"

lemma touched_attempt [simp]: "touched c (t\<lparr>dt_attempt := a\<rparr>) = touched c t"
  by (simp add: touched_def staging_identifier_def)

lemma pending_framed:
  assumes "framed S w w'" and "\<And>cd. cd \<in> set cds \<Longrightarrow> mark_of c cd \<notin> S"
  shows "pending c w' cds = pending c w cds"
  unfolding pending_def
proof (rule filter_cong [OF refl])
  fix cd assume "cd \<in> set cds"
  then have "node_at w' (mark_of c cd) = node_at w (mark_of c cd)"
    using assms by (intro framed_node [OF assms(1)]) blast
  then show "(\<not> has_marker (pc_staging c) w' (cd_id cd)) = (\<not> has_marker (pc_staging c) w (cd_id cd))"
    by (simp add: has_marker_def mark_of_def)
qed

section \<open>Pulling\<close>

lemma apart_dropWhile: "apart c cds \<Longrightarrow> apart c (dropWhile P cds)"
  by (induction cds) auto

lemma next_task_quiet:
  assumes "quiet w" and "apart c cds"
  shows "\<exists>w'. quiet w' \<and> fs w' = fs w \<and>
     ((pending c w cds = [] \<and> next_task (pc_staging c) (map Some cds) w = ((Exhausted, []), w')) \<or>
      (\<exists>cd rest. next_task (pc_staging c) (map Some cds) w = ((Pulled cd, map Some rest), w') \<and>
         pending c w cds = cd # pending c w rest \<and> apart c (cd # rest) \<and> set (cd # rest) \<subseteq> set cds))"
  using assms
proof (induction cds arbitrary: w)
  case Nil
  then show ?case by (intro exI [of _ w]) (simp add: pending_def)
next
  case (Cons cd cds)
  have q: "quiet (tick w)" using Cons.prems(1) by simp
  have m: "marker_exists (pc_staging c) (cd_id cd) w = (has_marker (pc_staging c) w (cd_id cd), tick w)"
    using Cons.prems(1) by (rule marker_exists_quiet)
  have p: "pending c (tick w) = pending c w" by (simp add: pending_def has_marker_def fun_eq_iff)
  show ?case
  proof (cases "has_marker (pc_staging c) w (cd_id cd)")
    case True
    then have nt: "next_task (pc_staging c) (map Some (cd # cds)) w = next_task (pc_staging c) (map Some cds) (tick w)"
      and pd: "pending c w (cd # cds) = pending c w cds"
      using m by (simp_all add: pending_def)
    obtain w' where w': "quiet w'" "fs w' = fs (tick w)"
      "(pending c (tick w) cds = [] \<and> next_task (pc_staging c) (map Some cds) (tick w) = ((Exhausted, []), w')) \<or>
       (\<exists>e rest. next_task (pc_staging c) (map Some cds) (tick w) = ((Pulled e, map Some rest), w') \<and>
          pending c (tick w) cds = e # pending c (tick w) rest \<and> apart c (e # rest) \<and> set (e # rest) \<subseteq> set cds)"
      using Cons.IH [OF q] Cons.prems(2) by auto
    show ?thesis
      using w' unfolding nt pd p
      by (intro exI [of _ w']) auto
  next
    case False
    have "4 \<le> length (cd_hash cd)" using Cons.prems(2) by (simp add: unit_ok_def)
    then have "next_task (pc_staging c) (map Some (cd # cds)) w = ((Pulled cd, map Some cds), tick w)"
      using False m by simp
    moreover have "pending c w (cd # cds) = cd # pending c w cds" using False by (simp add: pending_def)
    ultimately show ?thesis
      using q Cons.prems(2) by (intro exI [of _ "tick w"]) (auto simp del: next_task.simps)
  qed
qed

section \<open>The invariant\<close>

definition accounted :: "pool_ctx \<Rightarrow> pool \<Rightarrow> bool" where
  "accounted c s \<longleftrightarrow>
     quiet (q_world s) \<and> \<not> q_panicked s \<and> length (outstanding s) + to_prime s \<le> pc_parallel c \<and>
     (\<forall>r \<in> set (q_results s). fr_path r = dt_staging (fr_task r)) \<and>
     (\<exists>cds. q_feed s = map Some cds \<and> apart c cds \<and>
        (\<forall>t \<in> set (outstanding s). \<forall>cd \<in> set cds. mark_of c cd \<notin> touched c t) \<and>
        q_remaining s = int (length (outstanding s) + length (pending c (q_world s) cds)) \<and>
        (pending c (q_world s) cds \<noteq> [] \<longrightarrow> length (outstanding s) + to_prime s = pc_parallel c))"

lemma accountedI:
  assumes "quiet (q_world s)" "\<not> q_panicked s" "length (outstanding s) + to_prime s \<le> pc_parallel c"
    "\<And>r. r \<in> set (q_results s) \<Longrightarrow> fr_path r = dt_staging (fr_task r)"
    "q_feed s = map Some cds" "apart c cds"
    "\<And>t cd. t \<in> set (outstanding s) \<Longrightarrow> cd \<in> set cds \<Longrightarrow> mark_of c cd \<notin> touched c t"
    "q_remaining s = int (length (outstanding s) + length (pending c (q_world s) cds))"
    "pending c (q_world s) cds \<noteq> [] \<Longrightarrow> length (outstanding s) + to_prime s = pc_parallel c"
  shows "accounted c s"
  using assms unfolding accounted_def by blast

text \<open>Pulling keeps it, one free place being given.\<close>

lemma pull_task_accounted:
  assumes "quiet (q_world s)" "\<not> q_panicked s" "length (outstanding s) + n < pc_parallel c"
    and "\<And>r. r \<in> set (q_results s) \<Longrightarrow> fr_path r = dt_staging (fr_task r)"
    and f: "q_feed s = map Some cds" and "apart c cds"
    and t: "\<And>t cd. t \<in> set (outstanding s) \<Longrightarrow> cd \<in> set cds \<Longrightarrow> mark_of c cd \<notin> touched c t"
    and r: "q_remaining s = int (length (outstanding s) + length (pending c (q_world s) cds))"
    and full: "pending c (q_world s) cds \<noteq> [] \<Longrightarrow> Suc (length (outstanding s) + n) = pc_parallel c"
    and pt: "q_point s = Feeding k"
  shows "accounted c (pull_task c n s)"
proof -
  obtain w' where w': "quiet w'" "fs w' = fs (q_world s)" and nt:
    "(pending c (q_world s) cds = [] \<and> next_task (pc_staging c) (map Some cds) (q_world s) = ((Exhausted, []), w')) \<or>
     (\<exists>cd rest. next_task (pc_staging c) (map Some cds) (q_world s) = ((Pulled cd, map Some rest), w') \<and>
        pending c (q_world s) cds = cd # pending c (q_world s) rest \<and> apart c (cd # rest) \<and> set (cd # rest) \<subseteq> set cds)"
    using next_task_quiet [OF assms(1) assms(6)] by blast
  have pe: "pending c w' ds = pending c (q_world s) ds" for ds
    using fs_node_at [OF w'(2)] by (simp add: pending_def has_marker_def)
  from nt show ?thesis
  proof
    assume e: "pending c (q_world s) cds = [] \<and> next_task (pc_staging c) (map Some cds) (q_world s) = ((Exhausted, []), w')"
    then have p: "pull_task c n s = s\<lparr>q_point := Feeding 0, q_feed := [], q_world := w'\<rparr>"
      by (simp add: pull_task_def f)
    have o: "outstanding (pull_task c n s) = outstanding s" by (simp add: p outstanding_def pt)
    show ?thesis
      by (rule accountedI [where cds = "[]"])
         (use assms(2,3,4) w' o r e in \<open>auto simp: p to_prime_def pending_def\<close>)
  next
    assume "\<exists>cd rest. next_task (pc_staging c) (map Some cds) (q_world s) = ((Pulled cd, map Some rest), w') \<and>
        pending c (q_world s) cds = cd # pending c (q_world s) rest \<and> apart c (cd # rest) \<and> set (cd # rest) \<subseteq> set cds"
    then obtain cd rest where e: "next_task (pc_staging c) (map Some cds) (q_world s) = ((Pulled cd, map Some rest), w')"
      "pending c (q_world s) cds = cd # pending c (q_world s) rest" "apart c (cd # rest)" "set (cd # rest) \<subseteq> set cds"
      by blast
    let ?t = "task_of (pc_chunks c) (pc_staged c) cd"
    have p: "pull_task c n s = s\<lparr>q_point := Sending ?t n, q_feed := map Some rest, q_world := w'\<rparr>"
      using e(1) by (simp add: pull_task_def f)
    have o: "outstanding (pull_task c n s) = ?t # outstanding s" by (simp add: p outstanding_def pt)
    show ?thesis
    proof (rule accountedI [where cds = rest])
      show "q_remaining (pull_task c n s) =
          int (length (outstanding (pull_task c n s)) + length (pending c (q_world (pull_task c n s)) rest))"
        using r e(2) pe o by (simp add: p)
      show "mark_of c x \<notin> touched c u" if "u \<in> set (outstanding (pull_task c n s))" "x \<in> set rest" for u x
        using that o e(3,4) t [of u x] by (auto simp: list_all_iff)
    qed (use assms(2,3,4) w' e full o in \<open>auto simp: p to_prime_def\<close>)
  qed
qed

section \<open>Steps\<close>

lemma promote_framed:
  assumes "promote c r s = (x, s')" and "fr_path r = dt_staging (fr_task r)"
  shows "framed (touched c (fr_task r)) (q_world s) (q_world s')"
proof -
  have sub: "promote_names r \<subseteq> touched c (fr_task r)"
    using assms(2) by (auto simp: promote_names_def touched_def)
  have "framed (promote_names r) (q_world s) (q_world s')"
    using assms(1) promote_whole_file_framed [of r "q_world s" "q_renames s" "pc_fail_nth c"]
      promote_sqlite_page_framed [of r "q_world s" "q_renames s" "pc_fail_nth c"]
    by (auto simp: promote_def Let_def split: prod.splits if_splits)
  then show ?thesis using sub by (rule framed_mono)
qed

lemma handle_result_framed:
  assumes "handle_result c r s = (x, s')" and "fr_path r = dt_staging (fr_task r)"
  shows "framed (touched c (fr_task r)) (q_world s) (q_world s')"
proof (cases "fr_err r")
  case (Some e)
  with assms(1) show ?thesis by (auto simp: handle_result_def retry_or_exhaust_def split: if_splits)
next
  case None
  obtain y s1 where p: "promote c r s = (y, s1)" by fastforce
  note f = promote_framed [OF p assms(2)]
  have m: "framed (touched c (fr_task r)) w (snd (write_marker (pc_staging c) (staging_identifier (fr_task r)) w))" for w
    by (rule framed_mono [OF write_marker_framed]) (auto simp: touched_def markers_dir_def)
  from assms(1) None p f framed_trans [OF f m] show ?thesis
    by (auto simp: handle_result_def retry_or_exhaust_def split: sum.splits bool.splits if_splits)
qed

lemma consume_accounted:
  assumes "consume_result c s = Some s'" and "accounted c s" and pt: "q_point s = Feeding 0"
  shows "accounted c s'"
proof -
  obtain r rs where r: "q_results s = r # rs" using assms(1) by (auto simp: consume_result_def split: list.splits)
  let ?s0 = "s\<lparr>q_results := rs, q_remaining := q_remaining s - 1\<rparr>"
  obtain x s1 where h: "handle_result c r ?s0 = (x, s1)" by fastforce
  note f = handle_result_frame [OF h]
  obtain cds where a: "quiet (q_world s)" "\<not> q_panicked s" "length (outstanding s) + to_prime s \<le> pc_parallel c"
    "\<forall>r \<in> set (q_results s). fr_path r = dt_staging (fr_task r)" "q_feed s = map Some cds" "apart c cds"
    "\<forall>t \<in> set (outstanding s). \<forall>cd \<in> set cds. mark_of c cd \<notin> touched c t"
    "q_remaining s = int (length (outstanding s) + length (pending c (q_world s) cds))"
    "pending c (q_world s) cds \<noteq> [] \<longrightarrow> length (outstanding s) + to_prime s = pc_parallel c"
    using assms(2) unfolding accounted_def by blast
  have o: "outstanding s = q_tasks s @ q_busy s @ fr_task r # map fr_task rs"
    "outstanding s1 = q_tasks s @ q_busy s @ map fr_task rs"
    using f pt r by (simp_all add: outstanding_def)
  have tp: "to_prime s = 0" "to_prime s1 = 0" "q_point s1 = Feeding 0" using pt f by (simp_all add: to_prime_def)
  have fr: "framed (touched c (fr_task r)) (q_world s) (q_world s1)"
    using handle_result_framed [OF h] a(4) r by simp
  have pe: "pending c (q_world s1) cds = pending c (q_world s) cds"
    by (rule pending_framed [OF fr]) (use a(7) o in auto)
  have q: "quiet (q_world s1)" using framed_quiet [OF fr] a(1) by simp
  show ?thesis
  proof (cases x)
    case None
    then have s': "s' = pull_task c 0 s1" using assms(1) r h by (simp add: consume_result_def)
    show ?thesis unfolding s'
      by (rule pull_task_accounted [where cds = cds and k = 0])
         (use a f o tp pe q r None in auto)
  next
    case (Some t)
    then have s': "s' = s1\<lparr>q_point := Sending t 0\<rparr>" using assms(1) r h by (simp add: consume_result_def)
    have o': "outstanding s' = t # outstanding s1" unfolding s' using tp(3) by (simp add: outstanding_def)
    have tt: "touched c t = touched c (fr_task r)" using f(8) [OF Some] by simp
    show ?thesis
    proof (rule accountedI [where cds = cds])
      show "mark_of c cd \<notin> touched c u" if "u \<in> set (outstanding s')" "cd \<in> set cds" for u cd
        using that a(7) o o' tt by auto
      show "q_remaining s' = int (length (outstanding s') + length (pending c (q_world s') cds))"
        using a(8) o o' pe f(8) [OF Some] s' by simp
    qed (use a f o o' tp pe q r s' in \<open>auto simp: to_prime_def\<close>)
  qed
qed

lemma main_step_accounted:
  assumes "main_step c s = Some s'" and "accounted c s"
  shows "accounted c s'"
proof -
  obtain cds where a: "quiet (q_world s)" "\<not> q_panicked s" "length (outstanding s) + to_prime s \<le> pc_parallel c"
    "\<forall>r \<in> set (q_results s). fr_path r = dt_staging (fr_task r)" "q_feed s = map Some cds" "apart c cds"
    "\<forall>t \<in> set (outstanding s). \<forall>cd \<in> set cds. mark_of c cd \<notin> touched c t"
    "q_remaining s = int (length (outstanding s) + length (pending c (q_world s) cds))"
    "pending c (q_world s) cds \<noteq> [] \<longrightarrow> length (outstanding s) + to_prime s = pc_parallel c"
    using assms(2) unfolding accounted_def by blast
  consider (recv) "q_point s = Feeding 0" | (prime) n where "q_point s = Feeding (Suc n)"
    | (send) t n where "q_point s = Sending t n"
    by (metis main_point.exhaust nat.exhaust)
  then show ?thesis
  proof cases
    case recv
    with assms a(2) consume_accounted [of c s s'] show ?thesis by (auto simp: main_step_def split: if_splits)
  next
    case (prime n)
    with assms(1) a(2) have s': "s' = pull_task c n s" by (simp add: main_step_def)
    show ?thesis unfolding s'
      by (rule pull_task_accounted [where cds = cds and k = "Suc n"])
         (use a prime in \<open>auto simp: to_prime_def\<close>)
  next
    case (send t n)
    with assms(1) a(2) have s': "s' = s\<lparr>q_tasks := q_tasks s @ [t], q_point := Feeding n\<rparr>"
      by (auto simp: main_step_def split: if_splits)
    have o: "mset (outstanding s') = mset (outstanding s)" "to_prime s' = to_prime s"
      using send by (simp_all add: s' outstanding_def to_prime_def)
    note l = mset_eq_length [OF o(1)] mset_eq_setD [OF o(1)]
    show ?thesis
    proof (rule accountedI [where cds = cds])
      show "q_remaining s' = int (length (outstanding s') + length (pending c (q_world s') cds))"
        using a(8) l(1) s' by simp
    qed (use a l o(2) s' in auto)
  qed
qed

lemma worker_step_accounted:
  assumes "accounted c s" and m: "mset (outstanding s') = mset (outstanding s)"
    and "q_point s' = q_point s" "q_panicked s' = q_panicked s" "q_feed s' = q_feed s" "q_remaining s' = q_remaining s"
    and fr: "framed S (q_world s) (q_world s')"
    and "\<And>x. x \<in> S \<Longrightarrow> \<exists>t \<in> set (outstanding s). x \<in> touched c t"
    and rs: "\<And>r. r \<in> set (q_results s') \<Longrightarrow> r \<in> set (q_results s) \<or> fr_path r = dt_staging (fr_task r)"
  shows "accounted c s'"
proof -
  obtain cds where a: "quiet (q_world s)" "\<not> q_panicked s" "length (outstanding s) + to_prime s \<le> pc_parallel c"
    "\<forall>r \<in> set (q_results s). fr_path r = dt_staging (fr_task r)" "q_feed s = map Some cds" "apart c cds"
    "\<forall>t \<in> set (outstanding s). \<forall>cd \<in> set cds. mark_of c cd \<notin> touched c t"
    "q_remaining s = int (length (outstanding s) + length (pending c (q_world s) cds))"
    "pending c (q_world s) cds \<noteq> [] \<longrightarrow> length (outstanding s) + to_prime s = pc_parallel c"
    using assms(1) unfolding accounted_def by blast
  have pe: "pending c (q_world s') cds = pending c (q_world s) cds"
    by (rule pending_framed [OF fr]) (use a(7) assms(8) in blast)
  note l = mset_eq_length [OF m] mset_eq_setD [OF m]
  have tp: "to_prime s' = to_prime s" using assms(3) by (simp add: to_prime_def)
  show ?thesis
  proof (rule accountedI [where cds = cds])
    show "q_remaining s' = int (length (outstanding s') + length (pending c (q_world s') cds))"
      using a(8) l(1) assms(6) pe by simp
    show "quiet (q_world s')" using framed_quiet [OF fr] a(1) by simp
    show "fr_path r = dt_staging (fr_task r)" if "r \<in> set (q_results s')" for r
      using rs [OF that] a(4) by blast
  qed (use a l tp pe assms(4,5) in auto)
qed

lemma take_step_accounted:
  assumes "take_step c s = Some s'" and "accounted c s"
  shows "accounted c s'"
proof (rule worker_step_accounted [OF assms(2), where S = "{}"])
  show "mset (outstanding s') = mset (outstanding s)" "q_point s' = q_point s" "q_panicked s' = q_panicked s"
    using worker_step_outstanding(1) [OF assms(1)] by simp_all
qed (use assms(1) in \<open>auto simp: take_step_def split: if_splits list.splits\<close>)

lemma finish_step_accounted:
  assumes "finish_step c n s = Some s'" and "accounted c s"
  shows "accounted c s'"
proof -
  have n: "n < length (q_busy s)" using assms(1) by (auto simp: finish_step_def split: if_splits)
  let ?t = "q_busy s ! n"
  obtain e w where fw: "fetch_with_retry (pc_decoders c) (dt_url ?t) (dt_staging ?t) (q_world s) = (e, w)" by fastforce
  have s': "q_world s' = w" "q_feed s' = q_feed s" "q_remaining s' = q_remaining s"
    "q_results s' = q_results s @ [\<lparr>fr_task = ?t, fr_path = dt_staging ?t, fr_rel = dt_path ?t, fr_err = e\<rparr>]"
    using assms(1) fw by (auto simp: finish_step_def Let_def split: if_splits)
  have t: "?t \<in> set (outstanding s)" using n by (simp add: outstanding_def)
  show ?thesis
  proof (rule worker_step_accounted [OF assms(2), where S = "{dt_staging ?t}"])
    show "mset (outstanding s') = mset (outstanding s)" "q_point s' = q_point s" "q_panicked s' = q_panicked s"
      using worker_step_outstanding(2) [OF assms(1)] by simp_all
    show "framed {dt_staging ?t} (q_world s) (q_world s')"
      using fetch_with_retry_framed [of "dt_staging ?t" "q_world s" "pc_decoders c" "dt_url ?t"] fw s' by simp
    show "\<exists>t \<in> set (outstanding s). x \<in> touched c t" if "x \<in> {dt_staging ?t}" for x
      using that t by (auto simp: touched_def)
  qed (use s' in auto)
qed

lemma trans_accounted: "pool_trans c s s' \<Longrightarrow> accounted c s \<Longrightarrow> accounted c s'"
proof (induction rule: pool_trans.induct)
  case (step ch s s')
  then show ?case
    by (cases ch) (auto intro: main_step_accounted take_step_accounted finish_step_accounted)
qed

section \<open>No deadlock\<close>

lemma accounted_enabled:
  assumes "accounted c s" and "\<not> loop_over s" and "0 < pc_parallel c"
  shows "pick c sched s \<noteq> None"
proof -
  obtain cds where a: "\<not> q_panicked s" "length (outstanding s) + to_prime s \<le> pc_parallel c"
    "q_remaining s = int (length (outstanding s) + length (pending c (q_world s) cds))"
    "pending c (q_world s) cds \<noteq> [] \<longrightarrow> length (outstanding s) + to_prime s = pc_parallel c"
    using assms(1) unfolding accounted_def by blast
  have "main_step c s \<noteq> None \<or> take_step c s \<noteq> None \<or> finish_step c 0 s \<noteq> None"
  proof (cases "q_point s")
    case (Sending t n)
    then have "length (q_tasks s) < pc_parallel c" using a(2) by (simp add: outstanding_def to_prime_def)
    with Sending a(1) show ?thesis by (simp add: main_step_def)
  next
    case (Feeding n)
    show ?thesis
    proof (cases n)
      case (Suc m)
      with Feeding a(1) show ?thesis by (simp add: main_step_def)
    next
      case 0
      then have rem: "0 < q_remaining s" using assms(2) Feeding a(1) by (simp add: loop_over_def)
      have "outstanding s \<noteq> []"
        using rem a(3,4) assms(3) Feeding 0 by (auto simp: to_prime_def)
      then consider "q_results s \<noteq> []" | "q_busy s \<noteq> []" "q_results s = []" | "q_tasks s \<noteq> []" "q_busy s = []"
        using Feeding by (auto simp: outstanding_def)
      then show ?thesis
      proof cases
        case 1
        with Feeding 0 rem a(1) show ?thesis
          by (auto simp: main_step_def consume_result_def split: list.split prod.split option.split)
      next
        case 2
        with a(1) assms(3) show ?thesis by (auto simp: finish_step_def Let_def split: prod.split)
      next
        case 3
        with a(1) assms(3) show ?thesis by (auto simp: take_step_def split: list.split)
      qed
    qed
  qed
  then show ?thesis by (auto simp: pick_def split: option.split)
qed

lemma run_pool_ends:
  assumes "accounted c s" and "0 < pc_parallel c"
  shows "\<exists>s'. run_pool c sched s = Some s' \<and> loop_over s' \<and> accounted c s'"
  using assms
proof (induction c sched s rule: run_pool.induct)
  case (1 c sched s)
  show ?case
  proof (cases "loop_over s")
    case True
    with 1(2) show ?thesis by (simp add: run_pool.simps)
  next
    case False
    then obtain s1 where s1: "pick c sched s = Some s1" using accounted_enabled [OF 1(2) False 1(3)] by blast
    have "accounted c s1" using trans_accounted [OF pick_trans [OF s1] 1(2)] .
    with 1(1) [OF False s1 _ 1(3)] s1 False show ?thesis by (simp add: run_pool.simps [of c sched s])
  qed
qed

text \<open>At the end nothing is in flight and every unit of the feed has been dealt with.\<close>

lemma accounted_end:
  assumes "accounted c s" and "loop_over s"
  shows "outstanding s = [] \<and> (\<exists>cds. q_feed s = map Some cds \<and> pending c (q_world s) cds = [])"
proof -
  obtain cds where "\<not> q_panicked s" "q_feed s = map Some cds"
    "q_remaining s = int (length (outstanding s) + length (pending c (q_world s) cds))"
    using assms(1) unfolding accounted_def by blast
  moreover from this assms(2)
  have "int (length (outstanding s) + length (pending c (q_world s) cds)) \<le> 0"
    by (simp add: loop_over_def)
  then have "length (outstanding s) + length (pending c (q_world s) cds) = 0" by linarith
  ultimately show ?thesis by (intro conjI exI [of _ cds]) simp_all
qed

lemma init_accounted:
  assumes "quiet w" and "apart c cds"
  shows "accounted c (init_pool c (map Some cds) (int (length (pending c w cds))) w)"
  by (rule accountedI [where cds = cds]) (use assms in \<open>auto simp: init_pool_def outstanding_def to_prime_def\<close>)

end
