(* ===== verification/ApplyRun.thy ===== *)
theory ApplyRun
  imports PoolLive "HOL-Library.AList"
begin

text \<open>
  \<open>apply.Run\<close> (apply.go), phase by phase in the order of the source: the version gate, the checks
  of the plan, freshness, the staging directory, the counting pass, the shadows, the pool, and the
  verification with its rollback.  A phase ends the run with an exit code, or hands its result on.
  \<open>Panicked\<close> is a runtime panic, \<open>Blocked\<close> a main goroutine that waits forever.
\<close>

record externals =
  ex_decoders :: decoders
  ex_url :: url_parser
  ex_integrity :: integrity
  ex_order :: "(string \<times> string) list \<Rightarrow> (string \<times> string) list"
  ex_sched :: "pool \<Rightarrow> choice"
  \<comment> \<open>decoders, \<open>url.Parse\<close>, the database engine, the order in which a map is enumerated, the scheduler\<close>

datatype apply_err =
    ReadPlan os_err | ParsePlan plan_err | UnrecognizedVersion int int | GuardErr guard_err
  | PlanInvalid "plan_err option" | MissingPocketdb | StagingErr os_err | StagedDirErr os_err
  | ScanErr | ShadowErr string os_err | BudgetExhausted

datatype run_outcome = Exited exit_code "apply_err option" | Panicked | Blocked

type_synonym 'a phase = "os \<Rightarrow> (run_outcome + 'a) \<times> os"

definition and_then :: "'a phase \<Rightarrow> ('a \<Rightarrow> 'b phase) \<Rightarrow> 'b phase" where
  "and_then f g w =
     (case f w of (Inl r, w1) \<Rightarrow> (Inl r, w1) | (Inr x, w1) \<Rightarrow> g x w1)"

section \<open>Before staging\<close>

definition run_gate :: "apply_options \<Rightarrow> plan_header phase" where
  "run_gate opts w =
     (case read_plan (ao_plan opts) w of
        (Inl e, w1) \<Rightarrow> (Inl (Exited GenericError (Some (ReadPlan e))), w1)
      | (Inr text, w1) \<Rightarrow>
          (case gate_format_version text of
             Inl e \<Rightarrow> (Inl (Exited GenericError (Some (ParsePlan e))), w1)
           | Inr hdr \<Rightarrow>
               if ph_version hdr \<noteq> plan_format_version
               then (Inl (Exited ManifestFormatVersionUnrecognized
                       (Some (UnrecognizedVersion (ph_version hdr) plan_format_version))), w1)
               else (Inr hdr, w1)))"

definition run_self_hash :: "apply_options \<Rightarrow> unit phase" where
  "run_self_hash opts w =
     (case verify_plan_self_hash (ao_plan opts) w of
        (Inl e, w1) \<Rightarrow> (Inl (Exited PlanTampered (Some (GuardErr e))), w1)
      | (Inr _, w1) \<Rightarrow> (Inr (), w1))"

definition run_validate :: "apply_options \<Rightarrow> divergence_header list phase" where
  "run_validate opts w =
     (case stream_headers (ao_plan opts) w of
        (Inl e, w1) \<Rightarrow> (Inl (Exited GenericError (Some (PlanInvalid e))), w1)
      | (Inr headers, w1) \<Rightarrow>
          (case validate_page_hashes (ao_plan opts) w1 of
             (Inl e, w2) \<Rightarrow> (Inl (Exited GenericError (Some (PlanInvalid e))), w2)
           | (Inr _, w2) \<Rightarrow> (Inr headers, w2)))"

text \<open>The manifest address is inherited from the plan when the caller gave none.\<close>

definition inherit_url :: "apply_options \<Rightarrow> plan_header \<Rightarrow> apply_options" where
  "inherit_url opts hdr =
     (if ao_manifest_url opts = [] \<and> ph_url hdr \<noteq> [] then opts\<lparr>ao_manifest_url := ph_url hdr\<rparr> else opts)"

definition run_freshness :: "apply_options \<Rightarrow> plan_header \<Rightarrow> unit phase" where
  "run_freshness opts hdr w =
     (if ao_manifest_url opts = [] then (Inr (), w)
      else case verify_manifest_freshness (ph_identity hdr) (ao_manifest_url opts) w of
        ((_, Some e), w1) \<Rightarrow> (Inl (Exited SupersededCanonical (Some (GuardErr e))), w1)
      | ((_, None), w1) \<Rightarrow> (Inr (), w1))"

definition run_pocketdb :: "plan_header \<Rightarrow> unit phase" where
  "run_pocketdb hdr w =
     (if ph_path hdr = [] then (Inl (Exited GenericError (Some MissingPocketdb)), w) else (Inr (), w))"

section \<open>Staging, the counting pass, the shadows\<close>

definition staging_root :: "apply_options \<Rightarrow> string" where
  "staging_root opts = go_join [go_dir (ao_plan opts), ''pocketnet-node-doctor-staging'']"

definition run_staging :: "apply_options \<Rightarrow> plan_header \<Rightarrow> string phase" where
  "run_staging opts hdr w =
     (case create_or_resume (staging_root opts) (ph_self hdr) w of
        (Inl e, w1) \<Rightarrow> (Inl (Exited GenericError (Some (StagingErr e))), w1)
      | (Inr (dir, resumed), w1) \<Rightarrow>
          (case mkdir_all (go_join [dir, ''staged'']) w1 of
             (Inl e, w2) \<Rightarrow> (Inl (Exited GenericError (Some (StagedDirErr e))), w2)
           | (Inr _, w2) \<Rightarrow> if resumed \<and> length (ph_self hdr) < 12 then (Inl Panicked, w2) else (Inr dir, w2)))"

record shadow_info =
  si_live :: string
  si_rel :: string
  si_absent :: bool

definition add_pending :: "candidate \<Rightarrow> shadow_info list \<times> int \<Rightarrow> shadow_info list \<times> int" where
  "add_pending cd acc =
     (let (infos, n) = acc in
      ((if cd_live cd \<in> set (map si_live infos) then infos
        else infos @ [\<lparr>si_live = cd_live cd, si_rel = cd_path cd, si_absent = cd_absent cd\<rparr>]), n + 1))"

fun scan_units ::
  "string \<Rightarrow> candidate option list \<Rightarrow> shadow_info list \<times> int \<Rightarrow> (shadow_info list \<times> int) phase" where
  "scan_units dir [] acc w = (Inr acc, w)"
| "scan_units dir (None # cs) acc w = (Inl Panicked, w)"
| "scan_units dir (Some cd # cs) acc w =
     (case marker_exists dir (cd_id cd) w of
        (True, w1) \<Rightarrow> scan_units dir cs acc w1
      | (False, w1) \<Rightarrow> scan_units dir cs (add_pending cd acc) w1)"

definition run_scan ::
  "apply_options \<Rightarrow> string \<Rightarrow> string \<Rightarrow> divergence_header list \<Rightarrow> string \<Rightarrow> (shadow_info list \<times> int) phase" where
  "run_scan opts datadir root headers dir w =
     (case stream_pages (ao_plan opts) w of
        ((evs, bad), w1) \<Rightarrow>
          and_then (scan_units dir (page_candidates datadir root headers evs) ([], 0))
            (\<lambda>acc w2. if bad then (Inl (Exited GenericError (Some ScanErr)), w2)
                     else scan_units dir (whole_candidates datadir root headers) acc w2) w1)"

definition live_exists :: "shadow_info \<Rightarrow> os \<Rightarrow> bool \<times> os" where
  "live_exists si w =
     (if si_absent si then (False, w)
      else case os_stat (si_live si) w of
        (Inl e, w1) \<Rightarrow> (e \<noteq> NotExist, w1)
      | (Inr _, w1) \<Rightarrow> (True, w1))"

definition shadow_if_new :: "string \<Rightarrow> shadow_info \<Rightarrow> unit phase" where
  "shadow_if_new dir si w =
     (case os_stat (shadow_dest dir (si_rel si)) w of
        (Inl e, w1) \<Rightarrow>
          if e = NotExist then
            (case take_shadow (si_live si) dir (si_rel si) [] w1 of
               (Inl e', w2) \<Rightarrow> (Inl (Exited GenericError (Some (ShadowErr (si_rel si) e'))), w2)
             | (Inr _, w2) \<Rightarrow> (Inr (), w2))
          else (Inr (), w1)
      | (Inr _, w1) \<Rightarrow> (Inr (), w1))"

fun take_shadows :: "string \<Rightarrow> shadow_info list \<Rightarrow> shadow list \<Rightarrow> shadow list phase" where
  "take_shadows dir [] acc w = (Inr acc, w)"
| "take_shadows dir (si # sis) acc w =
     (let (tk, w1) = live_exists si w;
          sh = \<lparr>shadow_path = shadow_dest dir (si_rel si), live_path = si_live si, taken = tk\<rparr>
      in and_then (if tk then shadow_if_new dir si else (\<lambda>w. (Inr (), w)))
           (\<lambda>_. take_shadows dir sis (acc @ [sh])) w1)"

section \<open>The pool\<close>

definition effective_parallel :: "apply_options \<Rightarrow> nat" where
  "effective_parallel opts = (if ao_parallel opts \<le> 0 then 4 else nat (ao_parallel opts))"

definition run_workers ::
  "externals \<Rightarrow> apply_options \<Rightarrow> string \<Rightarrow> string \<Rightarrow> divergence_header list \<Rightarrow> string \<Rightarrow> int \<Rightarrow> pool phase" where
  "run_workers ex opts datadir root headers dir pendingCount w =
     (let c = \<lparr>pc_parallel = effective_parallel opts, pc_staging = dir, pc_staged = go_join [dir, ''staged''],
               pc_chunks = derive_chunk_base_url (ex_url ex) opts, pc_fail_nth = ao_fail_nth opts,
               pc_decoders = ex_decoders ex\<rparr>;
          (feed, w1) = open_feed datadir root headers (ao_plan opts) w
      in case run_pool c (ex_sched ex) (init_pool c feed pendingCount w1) of
           None \<Rightarrow> (Inl Blocked, w1)
         | Some s \<Rightarrow> if q_panicked s then (Inl Panicked, q_world s) else (Inr s, q_world s))"

section \<open>Verification\<close>

definition zero_hash :: string where
  "zero_hash = replicate 64 (CHR ''0'')"

definition main_sqlite :: "string \<Rightarrow> string" where
  "main_sqlite root = go_join [root, ''main.sqlite3'']"

definition plan_hashes :: "divergence_header list \<Rightarrow> (string \<times> string) list" where
  "plan_hashes headers =
     foldl (\<lambda>m h. if dh_kind h = kind_whole_file then AList.update (dh_path h) (dh_hash h) m else m) [] headers"

definition has_sqlite :: "divergence_header list \<Rightarrow> bool" where
  "has_sqlite headers \<longleftrightarrow>
     list_ex (\<lambda>h. (dh_kind h = kind_whole_file \<or> dh_kind h = kind_sqlite_pages)
                 \<and> has_suffix (dh_path h) ''main.sqlite3'') headers"

text \<open>The two injections on the map of expected hashes.\<close>

definition injected_hashes :: "apply_options \<Rightarrow> (string \<times> string) list \<Rightarrow> (string \<times> string) list" where
  "injected_hashes opts m =
     (let m1 = (if ao_hash_mismatch opts then map (\<lambda>(k, _). (k, zero_hash)) m else m) in
      if ao_rollback_fault opts then
        (if m1 = [] then [(''__inject_fault__'', zero_hash)] else map (\<lambda>(k, _). (k, zero_hash)) m1)
      else m1)"

definition expected_hashes :: "apply_options \<Rightarrow> divergence_header list \<Rightarrow> (string \<times> string) list" where
  "expected_hashes opts headers =
     (let m = injected_hashes opts (plan_hashes headers) in
      if has_sqlite headers then AList.delete ''pocketdb/main.sqlite3'' m else m)"

definition resolve_hashes ::
  "externals \<Rightarrow> string \<Rightarrow> string \<Rightarrow> (string \<times> string) list \<Rightarrow> (string \<times> string) list" where
  "resolve_hashes ex datadir root m =
     foldl (\<lambda>a (p, h). AList.update (resolve_live_path datadir root p) h a) [] (ex_order ex m)"

definition roll_back :: "apply_options \<Rightarrow> shadow list \<Rightarrow> os \<Rightarrow> run_outcome \<times> os" where
  "roll_back opts shadows w =
     (let (code, w1) = execute_rollback shadows (inject_fault_before_rollback opts shadows w) in
      (Exited code None, w1))"

definition inject_corruption :: "apply_options \<Rightarrow> string \<Rightarrow> os \<Rightarrow> os" where
  "inject_corruption opts root w =
     (if ao_corrupt_sqlite opts \<or> ao_corrupt_after_rename opts
      then snd (write_file (main_sqlite root) ''corrupted for test'' w) else w)"

definition run_verify ::
  "externals \<Rightarrow> apply_options \<Rightarrow> string \<Rightarrow> string \<Rightarrow> divergence_header list \<Rightarrow> shadow list \<Rightarrow> unit phase" where
  "run_verify ex opts datadir root headers shadows w =
     (let w1 = inject_corruption opts root w;
          hashes = expected_hashes opts headers;
          check_hashes = (\<lambda>w2.
            if hashes = [] then (Inr (), w2)
            else case verify_hashes [] (ex_order ex (resolve_hashes ex datadir root hashes)) w2 of
              (Inl _, w3) \<Rightarrow> (let (r, w4) = roll_back opts shadows w3 in (Inl r, w4))
            | (Inr _, w3) \<Rightarrow> (Inr (), w3))
      in if has_sqlite headers then
           (case verify_sqlite (ex_integrity ex) (main_sqlite root) w1 of
              (Inl _, w2) \<Rightarrow> (let (r, w3) = roll_back opts shadows w2 in (Inl r, w3))
            | (Inr _, w2) \<Rightarrow> check_hashes w2)
         else check_hashes w1)"

section \<open>Run\<close>

definition run_after_pool ::
  "externals \<Rightarrow> apply_options \<Rightarrow> string \<Rightarrow> string \<Rightarrow> divergence_header list \<Rightarrow> string \<Rightarrow> shadow list \<Rightarrow> pool
   \<Rightarrow> os \<Rightarrow> run_outcome \<times> os" where
  "run_after_pool ex opts datadir root headers dir shadows s w =
     (if q_failed s then roll_back opts shadows w
      else if q_exhausted s then (Exited NetworkBudgetExhausted (Some BudgetExhausted), w)
      else case run_verify ex opts datadir root headers shadows w of
        (Inl r, w1) \<Rightarrow> (r, w1)
      | (Inr _, w1) \<Rightarrow> (Exited Success None, cleanup_staging dir shadows w1))"

definition run_tasks ::
  "externals \<Rightarrow> apply_options \<Rightarrow> plan_header \<Rightarrow> divergence_header list \<Rightarrow> os \<Rightarrow> run_outcome \<times> os" where
  "run_tasks ex opts hdr headers w =
     (let root = ph_path hdr; datadir = go_dir root in
      case run_staging opts hdr w of
        (Inl r, w1) \<Rightarrow> (r, w1)
      | (Inr dir, w1) \<Rightarrow>
          (case run_scan opts datadir root headers dir w1 of
             (Inl r, w2) \<Rightarrow> (r, w2)
           | (Inr (infos, n), w2) \<Rightarrow>
               if n = 0 then (Exited Success None, w2)
               else (case take_shadows dir infos [] w2 of
                  (Inl r, w3) \<Rightarrow> (r, w3)
                | (Inr shadows, w3) \<Rightarrow>
                    (case run_workers ex opts datadir root headers dir n w3 of
                       (Inl r, w4) \<Rightarrow> (r, w4)
                     | (Inr s, w4) \<Rightarrow> run_after_pool ex opts datadir root headers dir shadows s w4))))"

definition run_checks :: "apply_options \<Rightarrow> (plan_header \<times> divergence_header list) phase" where
  "run_checks opts =
     and_then (run_gate opts) (\<lambda>hdr.
     and_then (run_self_hash opts) (\<lambda>_.
     and_then (run_validate opts) (\<lambda>headers.
     and_then (run_freshness (inherit_url opts hdr) hdr) (\<lambda>_.
     and_then (run_pocketdb hdr) (\<lambda>_ w. (Inr (hdr, headers), w))))))"

definition apply_run :: "externals \<Rightarrow> apply_options \<Rightarrow> os \<Rightarrow> run_outcome \<times> os" where
  "apply_run ex opts w =
     (case run_checks opts w of
        (Inl r, w1) \<Rightarrow> (r, w1)
      | (Inr (hdr, headers), w1) \<Rightarrow> run_tasks ex (inherit_url opts hdr) hdr headers w1)"

end
