(* ===== verification/Cli.thy ===== *)
theory Cli
  imports Diagnose ApplyRun
begin

text \<open>
  The command line: package \<open>internal/cli\<close> and \<open>cmd/pocketnet-node-doctor/main.go\<close>.  The flag
  parser is \<open>flag.FlagSet.Parse\<close> of the standard library with \<open>ContinueOnError\<close>, for the three kinds
  of flags the program declares.  What is printed is a list of pages and messages; the texts of the help
  pages are not modelled.
\<close>

section \<open>The flag package\<close>

datatype flag_value = FString string | FBool bool | FInt int

type_synonym flag_set = "string \<rightharpoonup> flag_value"

datatype flag_err = BadSyntax string | HelpRequested | NotDefined string | NeedsArgument string | InvalidValue string string

text \<open>\<open>strconv.ParseBool\<close>.\<close>

definition parse_bool :: "string \<Rightarrow> bool option" where
  "parse_bool s =
     (if s \<in> {''1'', ''t'', ''T'', ''TRUE'', ''true'', ''True''} then Some True
      else if s \<in> {''0'', ''f'', ''F'', ''FALSE'', ''false'', ''False''} then Some False
      else None)"

text \<open>\<open>strconv.ParseInt\<close> with base 0 and 64 bits: a sign, a base prefix, digits with underscores between.\<close>

definition lower_char :: "char \<Rightarrow> char" where
  "lower_char c = (if CHR ''A'' \<le> c \<and> c \<le> CHR ''Z'' then char_of (of_char c + 32 :: nat) else c)"

definition base_digit :: "char \<Rightarrow> int option" where
  "base_digit c =
     (if CHR ''0'' \<le> c \<and> c \<le> CHR ''9'' then Some (of_char c - 48)
      else if CHR ''a'' \<le> lower_char c \<and> lower_char c \<le> CHR ''z'' then Some (of_char (lower_char c) - 87)
      else None)"

definition base_prefix :: "string \<Rightarrow> int \<times> string" where
  "base_prefix s =
     (case s of
        CHR ''0'' # p # c # r \<Rightarrow>
          if lower_char p = CHR ''b'' then (2, c # r) else if lower_char p = CHR ''o'' then (8, c # r)
          else if lower_char p = CHR ''x'' then (16, c # r) else (8, p # c # r)
      | CHR ''0'' # r \<Rightarrow> (8, r)
      | _ \<Rightarrow> (10, s))"

text \<open>A value at or above \<open>2 ^ 64\<close> is a range error at once; all that matters here is that it is an error.\<close>

fun digits_from :: "int \<Rightarrow> string \<Rightarrow> int \<Rightarrow> int option" where
  "digits_from base [] n = Some n"
| "digits_from base (c # s) n =
     (if c = CHR ''_'' then digits_from base s n
      else case base_digit c of
        None \<Rightarrow> None
      | Some d \<Rightarrow> if d < base \<and> n * base + d < 2 ^ 64 then digits_from base s (n * base + d) else None)"

datatype saw = AtStart | SawDigit | SawUnderscore | SawOther

fun underscores_from :: "bool \<Rightarrow> saw \<Rightarrow> string \<Rightarrow> bool" where
  "underscores_from hex sw [] = (sw \<noteq> SawUnderscore)"
| "underscores_from hex sw (c # s) =
     (if (CHR ''0'' \<le> c \<and> c \<le> CHR ''9'') \<or> (hex \<and> CHR ''a'' \<le> lower_char c \<and> lower_char c \<le> CHR ''f'')
      then underscores_from hex SawDigit s
      else if c = CHR ''_'' then sw = SawDigit \<and> underscores_from hex SawUnderscore s
      else sw \<noteq> SawUnderscore \<and> underscores_from hex SawOther s)"

definition underscore_ok :: "string \<Rightarrow> bool" where
  "underscore_ok s =
     (case s of
        CHR ''0'' # p # r \<Rightarrow>
          if lower_char p \<in> {CHR ''b'', CHR ''o'', CHR ''x''} then underscores_from (lower_char p = CHR ''x'') SawDigit r
          else underscores_from False AtStart s
      | _ \<Rightarrow> underscores_from False AtStart s)"

definition parse_uint :: "string \<Rightarrow> int option" where
  "parse_uint s =
     (if s = [] then None
      else let (base, ds) = base_prefix s in
        case digits_from base ds 0 of
          None \<Rightarrow> None
        | Some n \<Rightarrow> if CHR ''_'' \<in> set s \<and> \<not> underscore_ok s then None else Some n)"

definition parse_int :: "string \<Rightarrow> int option" where
  "parse_int s =
     (let (neg, ds) = (case s of
          CHR ''-'' # r \<Rightarrow> (True, r) | CHR ''+'' # r \<Rightarrow> (False, r) | _ \<Rightarrow> (False, s)) in
      case parse_uint ds of
        None \<Rightarrow> None
      | Some n \<Rightarrow>
          if \<not> neg \<and> n \<ge> 2 ^ 63 then None
          else if neg \<and> n > 2 ^ 63 then None
          else Some (if neg then - n else n))"

text \<open>Setting a flag keeps its kind.\<close>

definition set_flag :: "string \<Rightarrow> string \<Rightarrow> flag_set \<Rightarrow> flag_value \<Rightarrow> flag_err + flag_set" where
  "set_flag name v fl old =
     (case (case old of
              FString _ \<Rightarrow> Some (FString v)
            | FBool _ \<Rightarrow> map_option FBool (parse_bool v)
            | FInt _ \<Rightarrow> map_option FInt (parse_int v)) of
        None \<Rightarrow> Inl (InvalidValue name v)
      | Some x \<Rightarrow> Inr (fl(name \<mapsto> x)))"

text \<open>The name and the value of \<open>name=value\<close>; the equal sign is not looked for in the first place.\<close>

definition split_flag :: "string \<Rightarrow> string \<times> string option" where
  "split_flag s =
     (case dropWhile (\<lambda>c. c \<noteq> CHR ''='') (tl s) of
        [] \<Rightarrow> (s, None)
      | _ # v \<Rightarrow> (take 1 s @ takeWhile (\<lambda>c. c \<noteq> CHR ''='') (tl s), Some v))"

definition dashes :: "string \<Rightarrow> nat" where
  "dashes s = (if length s < 2 \<or> hd s \<noteq> CHR ''-'' then 0 else if s ! 1 = CHR ''-'' then 2 else 1)"

text \<open>
  \<open>parseOne\<close>: one flag with its value, if it takes the next argument for one.  \<open>None\<close> is the end of the
  flags; arguments from there on are left to the caller.
\<close>

definition parse_one :: "flag_set \<Rightarrow> string \<Rightarrow> string list \<Rightarrow> flag_err + (flag_set \<times> string list) option" where
  "parse_one fl s args =
     (if dashes s = 0 \<or> s = ''--'' then Inr None
      else let body = drop (dashes s) s in
        if body = [] \<or> hd body = CHR ''-'' \<or> hd body = CHR ''='' then Inl (BadSyntax s)
        else let (name, val) = split_flag body in
          case fl name of
            None \<Rightarrow> Inl (if name = ''help'' \<or> name = ''h'' then HelpRequested else NotDefined name)
          | Some (FBool b) \<Rightarrow>
              map_sum id (\<lambda>fl'. Some (fl', args))
                (set_flag name (case val of None \<Rightarrow> ''true'' | Some v \<Rightarrow> v) fl (FBool b))
          | Some old \<Rightarrow>
              (case (val, args) of
                 (Some v, _) \<Rightarrow> map_sum id (\<lambda>fl'. Some (fl', args)) (set_flag name v fl old)
               | (None, v # args') \<Rightarrow> map_sum id (\<lambda>fl'. Some (fl', args')) (set_flag name v fl old)
               | (None, []) \<Rightarrow> Inl (NeedsArgument name)))"

lemma parse_one_shorter: "parse_one fl s args = Inr (Some (fl', args')) \<Longrightarrow> length args' \<le> length args"
  by (auto simp: parse_one_def Let_def map_sum_def split: if_splits option.splits flag_value.splits prod.splits
      sum.splits list.splits)

function parse_flags :: "flag_set \<Rightarrow> string list \<Rightarrow> flag_err + flag_set" where
  "parse_flags fl [] = Inr fl"
| "parse_flags fl (s # args) =
     (case parse_one fl s args of
        Inl e \<Rightarrow> Inl e
      | Inr None \<Rightarrow> Inr fl
      | Inr (Some (fl', args')) \<Rightarrow> parse_flags fl' args')"
  by pat_completeness auto
termination
  by (relation "measure (\<lambda>(fl, args). length args)") (auto dest!: parse_one_shorter)

section \<open>Subcommands\<close>

datatype page = TopHelp | DiagnoseHelp | ApplyHelp | VersionText | FlagUsage | Line string

text \<open>What goes to the standard output and to the standard error.\<close>

type_synonym printed = "page list \<times> page list"

record cli_options =
  co_subcommand :: string
  co_canonical_url :: string
  co_pocketdb_path :: string
  co_plan_out :: string
  co_pinned_hash :: string
  co_verbose :: bool
  co_plan_path :: string
  co_parallel :: int

datatype parse_error = ParseError exit_code

definition no_options :: cli_options where
  "no_options = \<lparr>co_subcommand = [], co_canonical_url = [], co_pocketdb_path = [], co_plan_out = [],
     co_pinned_hash = [], co_verbose = False, co_plan_path = [], co_parallel = 0\<rparr>"

definition trust_root :: string where
  "trust_root = ''a939828d349bc5259d2c79fe9251d4e3497d2d1518c944dfc91ae9594f029249''"

definition flag_string :: "flag_set \<Rightarrow> string \<Rightarrow> string" where
  "flag_string fl n = (case fl n of Some (FString s) \<Rightarrow> s | _ \<Rightarrow> [])"

definition flag_bool :: "flag_set \<Rightarrow> string \<Rightarrow> bool" where
  "flag_bool fl n = (case fl n of Some (FBool b) \<Rightarrow> b | _ \<Rightarrow> False)"

definition flag_int :: "flag_set \<Rightarrow> string \<Rightarrow> int" where
  "flag_int fl n = (case fl n of Some (FInt i) \<Rightarrow> i | _ \<Rightarrow> 0)"

definition diagnose_flags :: flag_set where
  "diagnose_flags =
     [''canonical'' \<mapsto> FString [], ''pocketdb'' \<mapsto> FString [], ''plan-out'' \<mapsto> FString [],
      ''pinned-hash'' \<mapsto> FString trust_root, ''verbose'' \<mapsto> FBool False, ''help'' \<mapsto> FBool False]"

definition parse_diagnose :: "string list \<Rightarrow> (parse_error + cli_options) \<times> printed" where
  "parse_diagnose args =
     (case parse_flags diagnose_flags args of
        Inl e \<Rightarrow> (Inl (ParseError GenericError), [], [FlagUsage])
      | Inr fl \<Rightarrow>
          if flag_bool fl ''help'' then (Inr (no_options\<lparr>co_subcommand := ''help''\<rparr>), [DiagnoseHelp], [])
          else if flag_string fl ''canonical'' = [] then
            (Inl (ParseError GenericError), [], [Line ''diagnose: --canonical is required''])
          else if flag_string fl ''pocketdb'' = [] then
            (Inl (ParseError GenericError), [], [Line ''diagnose: --pocketdb is required''])
          else
            (Inr (no_options\<lparr>co_subcommand := ''diagnose'', co_canonical_url := flag_string fl ''canonical'',
                   co_pocketdb_path := flag_string fl ''pocketdb'', co_plan_out := flag_string fl ''plan-out'',
                   co_pinned_hash := flag_string fl ''pinned-hash'', co_verbose := flag_bool fl ''verbose''\<rparr>), [], []))"

definition apply_flags :: flag_set where
  "apply_flags = [''plan'' \<mapsto> FString [], ''parallel'' \<mapsto> FInt 4, ''verbose'' \<mapsto> FBool False, ''help'' \<mapsto> FBool False]"

definition parse_apply :: "string list \<Rightarrow> (parse_error + cli_options) \<times> printed" where
  "parse_apply args =
     (case parse_flags apply_flags args of
        Inl e \<Rightarrow> (Inl (ParseError GenericError), [], [FlagUsage])
      | Inr fl \<Rightarrow>
          if flag_bool fl ''help'' then (Inr (no_options\<lparr>co_subcommand := ''help''\<rparr>), [ApplyHelp], [])
          else if flag_string fl ''plan'' = [] then
            (Inl (ParseError GenericError), [], [Line ''apply: --plan is required''])
          else if flag_int fl ''parallel'' < 1 \<or> flag_int fl ''parallel'' > 32 then
            (Inl (ParseError GenericError), [],
             [Line (''apply: --parallel '' @ fmt_int (flag_int fl ''parallel'') @ '' is out of range; valid range is 1..32'')])
          else
            (Inr (no_options\<lparr>co_subcommand := ''apply'', co_plan_path := flag_string fl ''plan'',
                   co_parallel := flag_int fl ''parallel'', co_verbose := flag_bool fl ''verbose''\<rparr>), [], []))"

text \<open>The quoted name in the message on an unknown subcommand is left out.\<close>

definition parse_cli :: "string list \<Rightarrow> (parse_error + cli_options) \<times> printed" where
  "parse_cli args =
     (case args of
        [] \<Rightarrow> (Inl (ParseError GenericError), [], [TopHelp])
      | cmd # rest \<Rightarrow>
          if cmd = ''--help'' \<or> cmd = ''-h'' then (Inr (no_options\<lparr>co_subcommand := ''help''\<rparr>), [TopHelp], [])
          else if cmd = ''--version'' then (Inr (no_options\<lparr>co_subcommand := ''version''\<rparr>), [VersionText], [])
          else if cmd = ''diagnose'' then parse_diagnose rest
          else if cmd = ''apply'' then parse_apply rest
          else (Inl (ParseError GenericError), [], [Line ''pocketnet-node-doctor: unknown subcommand'', TopHelp]))"

definition resolve_plan_out :: "string \<Rightarrow> string \<Rightarrow> string" where
  "resolve_plan_out pocketdbPath planOut =
     (if planOut \<noteq> [] then planOut else go_join [go_dir pocketdbPath, ''plan.json''])"

section \<open>\<open>main\<close>\<close>

text \<open>A process ends with a code, is killed by a panic, or waits forever.\<close>

datatype process_end = ExitWith exit_code | KilledByPanic | WaitsForever

definition diagnose_options :: "cli_options \<Rightarrow> diag_options" where
  "diagnose_options co =
     \<lparr>do_url = co_canonical_url co, do_db = co_pocketdb_path co,
      do_out = resolve_plan_out (co_pocketdb_path co) (co_plan_out co), do_pinned = co_pinned_hash co\<rparr>"

text \<open>The fields that only tests set have their zero values.\<close>

definition apply_options_of :: "cli_options \<Rightarrow> apply_options" where
  "apply_options_of co =
     \<lparr>ao_plan = co_plan_path co, ao_parallel = co_parallel co, ao_manifest_url = [], ao_chunk_base = [],
      ao_corrupt_sqlite = False, ao_rollback_fault = False, ao_fail_nth = 0, ao_corrupt_after_rename = False,
      ao_hash_mismatch = False\<rparr>"

definition run_main :: "host \<Rightarrow> externals \<Rightarrow> string list \<Rightarrow> os \<Rightarrow> process_end \<times> os" where
  "run_main h ex args w =
     (case fst (parse_cli args) of
        Inl (ParseError c) \<Rightarrow> (ExitWith c, w)
      | Inr co \<Rightarrow>
          if co_subcommand co = ''help'' \<or> co_subcommand co = ''version'' then (ExitWith Success, w)
          else if co_subcommand co = ''diagnose'' then
            (case diagnose h (diagnose_options co) w of
               (Finished c e, w1) \<Rightarrow> (ExitWith c, w1)
             | (Crashed, w1) \<Rightarrow> (KilledByPanic, w1))
          else if co_subcommand co = ''apply'' then
            (case apply_run ex (apply_options_of co) w of
               (Exited c e, w1) \<Rightarrow> (ExitWith c, w1)
             | (Panicked, w1) \<Rightarrow> (KilledByPanic, w1)
             | (Blocked, w1) \<Rightarrow> (WaitsForever, w1))
          else (ExitWith GenericError, w))"

end
