(* ===== verification/CliClaims.thy ===== *)
theory CliClaims
  imports Cli
begin

text \<open>
  The command line: which options \<open>Parse\<close> can return, that it reads back every option it can return, and
  that flags keep their kinds.
\<close>

section \<open>Flags keep their kinds\<close>

fun same_kind :: "flag_value option \<Rightarrow> flag_value option \<Rightarrow> bool" where
  "same_kind None None = True"
| "same_kind (Some (FString _)) (Some (FString _)) = True"
| "same_kind (Some (FBool _)) (Some (FBool _)) = True"
| "same_kind (Some (FInt _)) (Some (FInt _)) = True"
| "same_kind _ _ = False"

lemma same_kind_refl [simp]: "same_kind x x"
  by (cases "(x, x)" rule: same_kind.cases) auto

lemma same_kind_trans: "same_kind x y \<Longrightarrow> same_kind y z \<Longrightarrow> same_kind x z"
  by (cases "(x, y)" rule: same_kind.cases; cases "(y, z)" rule: same_kind.cases) auto

lemma set_flag_kind:
  "fl name = Some old \<Longrightarrow> set_flag name v fl old = Inr fl' \<Longrightarrow> same_kind (fl n) (fl' n)"
  by (cases old) (auto simp: set_flag_def split: option.splits)

lemma parse_one_kind:
  "parse_one fl s args = Inr (Some (fl', args')) \<Longrightarrow> same_kind (fl n) (fl' n)"
  by (auto simp: parse_one_def Let_def map_sum_def split: if_splits option.splits flag_value.splits prod.splits
      sum.splits list.splits dest!: set_flag_kind [where n = n])

lemma parse_flags_kind: "parse_flags fl args = Inr fl' \<Longrightarrow> same_kind (fl n) (fl' n)"
proof (induction fl args rule: parse_flags.induct)
  case (2 fl s args)
  then show ?case
    by (auto split: sum.splits option.splits dest: parse_one_kind [where n = n] intro: same_kind_trans)
qed simp

section \<open>What \<open>Parse\<close> returns\<close>

definition valid_options :: "cli_options \<Rightarrow> bool" where
  "valid_options co \<longleftrightarrow>
     (co_subcommand co = ''diagnose'' \<and> co_canonical_url co \<noteq> [] \<and> co_pocketdb_path co \<noteq> []
        \<and> co_plan_path co = [] \<and> co_parallel co = 0) \<or>
     (co_subcommand co = ''apply'' \<and> co_plan_path co \<noteq> [] \<and> 1 \<le> co_parallel co \<and> co_parallel co \<le> 32
        \<and> co_canonical_url co = [] \<and> co_pocketdb_path co = [] \<and> co_plan_out co = [] \<and> co_pinned_hash co = [])"

text \<open>
  C38. Whatever the arguments, the command line yields a generic error, a request for help or the version,
  or options of the right shape: diagnose with an address and a data directory, apply with a plan and
  between 1 and 32 workers, every field of the other subcommand zero.
\<close>

theorem parse_cli_valid:
  "case fst (parse_cli args) of
     Inl (ParseError c) \<Rightarrow> c = GenericError
   | Inr co \<Rightarrow> co = no_options\<lparr>co_subcommand := ''help''\<rparr> \<or> co = no_options\<lparr>co_subcommand := ''version''\<rparr> \<or> valid_options co"
  by (auto simp: parse_cli_def parse_diagnose_def parse_apply_def valid_options_def no_options_def
      split: sum.split list.split)

section \<open>Reading options back\<close>

definition args_of :: "cli_options \<Rightarrow> string list" where
  "args_of co =
     (if co_subcommand co = ''diagnose'' then
        [''diagnose'', ''--canonical'', co_canonical_url co, ''--pocketdb'', co_pocketdb_path co,
         ''--plan-out'', co_plan_out co, ''--pinned-hash'', co_pinned_hash co]
      else [''apply'', ''--plan'', co_plan_path co, ''--parallel'', fmt_int (co_parallel co)])
     @ (if co_verbose co then [''--verbose''] else [])"

lemma parse_int_small: "1 \<le> n \<Longrightarrow> n \<le> 32 \<Longrightarrow> parse_int (fmt_int n) = Some n"
proof -
  have "list_all (\<lambda>n. parse_int (fmt_int n) = Some n) [1..32]" by code_simp
  then show "1 \<le> n \<Longrightarrow> n \<le> 32 \<Longrightarrow> parse_int (fmt_int n) = Some n" by (simp add: list_all_iff)
qed

text \<open>One flag with its value in the next argument.\<close>

definition plain_name :: "string \<Rightarrow> bool" where
  "plain_name name \<longleftrightarrow> name \<noteq> [] \<and> hd name \<noteq> CHR ''-'' \<and> hd name \<noteq> CHR ''='' \<and> CHR ''='' \<notin> set name"

lemma split_plain: "plain_name name \<Longrightarrow> split_flag name = (name, None)"
proof -
  assume p: "plain_name name"
  then have "dropWhile (\<lambda>c. c \<noteq> CHR ''='') (tl name) = []" by (cases name) (auto simp: plain_name_def)
  then show ?thesis by (simp add: split_flag_def del: dropWhile_eq_Nil_conv)
qed

lemma parse_string_arg:
  assumes "fl name = Some (FString old)" and "plain_name name"
  shows "parse_flags fl ((CHR ''-'' # CHR ''-'' # name) # v # args) = parse_flags (fl(name \<mapsto> FString v)) args"
  using assms by (auto simp: parse_one_def dashes_def Let_def split_plain set_flag_def plain_name_def)

lemma parse_int_arg:
  assumes "fl name = Some (FInt old)" and "plain_name name" and "parse_int v = Some n"
  shows "parse_flags fl ((CHR ''-'' # CHR ''-'' # name) # v # args) = parse_flags (fl(name \<mapsto> FInt n)) args"
  using assms by (auto simp: parse_one_def dashes_def Let_def split_plain set_flag_def plain_name_def)

lemma parse_bool_arg:
  assumes "fl name = Some (FBool False)" and "plain_name name"
  shows "parse_flags fl ((CHR ''-'' # CHR ''-'' # name) # args) = parse_flags (fl(name \<mapsto> FBool True)) args"
  using assms by (auto simp: parse_one_def dashes_def Let_def split_plain set_flag_def plain_name_def parse_bool_def)

lemmas parse_args = parse_string_arg parse_int_arg parse_bool_arg

lemma plain_names:
  "plain_name ''canonical''" "plain_name ''pocketdb''" "plain_name ''plan-out''" "plain_name ''pinned-hash''"
  "plain_name ''verbose''" "plain_name ''plan''" "plain_name ''parallel''"
  by (simp_all add: plain_name_def)

text \<open>
  C39. Every set of options that \<open>Parse\<close> can return for diagnose or apply is read back from its command
  line, whatever strings it holds: a value that looks like a flag is still taken as the value.
\<close>

theorem cli_round_trip:
  assumes "valid_options co"
  shows "parse_cli (args_of co) = (Inr co, [], [])"
proof (cases "co_subcommand co = ''diagnose''")
  case True
  with assms have v: "co_canonical_url co \<noteq> []" "co_pocketdb_path co \<noteq> []" "co_plan_path co = []" "co_parallel co = 0"
    by (auto simp: valid_options_def)
  let ?fl = "diagnose_flags(''canonical'' \<mapsto> FString (co_canonical_url co), ''pocketdb'' \<mapsto> FString (co_pocketdb_path co),
     ''plan-out'' \<mapsto> FString (co_plan_out co), ''pinned-hash'' \<mapsto> FString (co_pinned_hash co))"
  define rest where "rest = tl (args_of co)"
  have "parse_flags diagnose_flags rest =
      Inr (if co_verbose co then ?fl(''verbose'' \<mapsto> FBool True) else ?fl)"
    using True plain_names by (auto simp: rest_def args_of_def parse_args diagnose_flags_def simp del: parse_flags.simps(2))
  moreover have "args_of co = ''diagnose'' # rest" using True by (simp add: rest_def args_of_def)
  ultimately show ?thesis
    using True v
    by (cases co) (simp add: parse_cli_def parse_diagnose_def flag_string_def flag_bool_def no_options_def diagnose_flags_def)
next
  case False
  with assms have v: "co_subcommand co = ''apply''" "co_plan_path co \<noteq> []" "1 \<le> co_parallel co" "co_parallel co \<le> 32"
      "co_canonical_url co = []" "co_pocketdb_path co = []" "co_plan_out co = []" "co_pinned_hash co = []"
    by (auto simp: valid_options_def)
  note p = parse_int_small [OF v(3,4)]
  let ?fl = "apply_flags(''plan'' \<mapsto> FString (co_plan_path co), ''parallel'' \<mapsto> FInt (co_parallel co))"
  define rest where "rest = tl (args_of co)"
  have "parse_flags apply_flags rest = Inr (if co_verbose co then ?fl(''verbose'' \<mapsto> FBool True) else ?fl)"
    using v(1) p plain_names by (auto simp: rest_def args_of_def parse_args apply_flags_def simp del: parse_flags.simps(2))
  moreover have "args_of co = ''apply'' # rest" using v(1) by (simp add: rest_def args_of_def)
  ultimately show ?thesis
    using v
    by (cases co) (simp add: parse_cli_def parse_apply_def flag_string_def flag_bool_def flag_int_def no_options_def apply_flags_def)
qed

definition demo_cli :: cli_options where
  "demo_cli = no_options\<lparr>co_subcommand := ''apply'', co_plan_path := ''--parallel=99'', co_parallel := 32\<rparr>"

lemma cli_round_trip_witness:
  "parse_cli [''apply'', ''--plan'', ''--parallel=99'', ''--parallel'', ''32''] = (Inr demo_cli, [], [])"
proof -
  have "args_of demo_cli = [''apply'', ''--plan'', ''--parallel=99'', ''--parallel'', ''32'']" by code_simp
  moreover have "valid_options demo_cli" by (simp add: valid_options_def demo_cli_def no_options_def)
  ultimately show ?thesis using cli_round_trip [of demo_cli] by simp
qed

end
