(* ===== verification/DiagnoseFrame.thy ===== *)
theory DiagnoseFrame
  imports Diagnose
begin

text \<open>
  What diagnose may touch.  \<open>touches S n w w'\<close>: between \<open>w\<close> and \<open>w'\<close> only names of \<open>S\<close> changed, and no
  inode below \<open>n\<close> changed its contents.  With \<open>n\<close> the first free inode number of the start, this says
  that every file that existed keeps its bytes: what is written goes to new files.  The collection
  \<open>touching\<close> has one entry per operation.
\<close>

named_theorems touching \<open>the names and inodes each operation may change\<close>

definition touches :: "string set \<Rightarrow> nat \<Rightarrow> os \<Rightarrow> os \<Rightarrow> bool" where
  "touches S n w w' \<longleftrightarrow> framed S w w' \<and> (\<forall>i<n. store w' i = store w i)"

lemma touches_refl [simp]: "touches S n w w"
  by (simp add: touches_def)

lemma touches_tick [simp]: "touches S n w (tick w)"
  by (simp add: touches_def)

lemma touches_trans: "touches S n w w1 \<Longrightarrow> touches S n w1 w2 \<Longrightarrow> touches S n w w2"
  by (auto simp: touches_def intro: framed_trans)

lemma touches_mono: "touches S n w w' \<Longrightarrow> S \<subseteq> T \<Longrightarrow> touches T n w w'"
  by (auto simp: touches_def intro: framed_mono)

lemma touches_next: "touches S n w w' \<Longrightarrow> n \<le> next_ino w \<Longrightarrow> n \<le> next_ino w'"
  by (auto simp: touches_def framed_def)

lemma touches_rnd: "touches S n w w' \<Longrightarrow> rnd w' = rnd w"
  by (simp add: touches_def framed_def)

text \<open>One more operation at the end of a run.\<close>

lemma touches_step:
  assumes "touches T n w w1" and "x = (r, w2)" and "touches S n w1 (snd x)" and "S \<subseteq> T"
  shows "touches T n w w2"
  using assms by (auto intro: touches_trans touches_mono)

lemma touches_then: "touches T n w w1 \<Longrightarrow> touches S n w1 w2 \<Longrightarrow> S \<subseteq> T \<Longrightarrow> touches T n w w2"
  by (blast intro: touches_trans touches_mono)

section \<open>The calls\<close>

lemma touches_fs: "framed S w w' \<Longrightarrow> fs w' = fs w \<Longrightarrow> touches S n w w'"
  by (simp add: touches_def fs_iff)

lemma os_stat_touches [touching]: "touches {} n w (snd (os_stat p w))"
  by (rule touches_fs [OF os_stat_framed os_stat_fs])

lemma read_file_touches [touching]: "touches {} n w (snd (read_file p w))"
  by (rule touches_fs [OF read_file_framed read_file_fs])

lemma open_read_touches [touching]: "touches {} n w (snd (open_read p w))"
  by (rule touches_fs [OF open_read_framed open_read_fs])

lemma os_noop_touches [touching]: "touches {} n w (snd (os_noop w))"
  by (rule touches_fs [OF os_noop_framed os_noop_fs])

lemma rand_suffix_touches [touching]: "touches {} n w (snd (rand_suffix w))"
  by (rule touches_fs [OF _ rand_suffix_fs]) (unfold rand_suffix_def, rule framed_syscall, simp_all)

lemma rand_suffix_Inr: "rand_suffix w = (Inr s, w') \<Longrightarrow> \<exists>t. s = rnd w t"
  unfolding rand_suffix_def by (drule syscall_Inr) auto

lemma read_stream_touches [touching]: "touches {} n w (snd (read_stream i w))"
  by (auto simp: read_stream_def split: option.split fault.split)

lemma http_get_touches [touching]: "touches {} n w (snd (http_get u w))"
  by (simp add: http_get_def)

lemma os_remove_touches [touching]: "touches {p} n w (snd (os_remove p w))"
  using os_remove_framed os_remove_frame by (simp add: touches_def)

lemma remove_matching_touches [touching]: "touches {q. P q} n w (snd (remove_matching P w))"
proof -
  have "store (snd (remove_matching P w)) = store w"
    unfolding remove_matching_def by (rule syscall_frame) auto
  then show ?thesis using remove_matching_framed by (simp add: touches_def)
qed

lemma os_rename_touches [touching]: "touches {a, b} n w (snd (os_rename a b w))"
proof -
  have "store (snd (os_rename a b w)) = store w"
    unfolding os_rename_def by (rule syscall_frame) (auto split: option.split node.split)
  then show ?thesis using os_rename_framed by (simp add: touches_def)
qed

lemma append_ino_touches [touching]: "n \<le> i \<Longrightarrow> touches {} n w (snd (append_ino i d w))"
  using append_ino_framed by (auto simp: touches_def append_ino_store)

lemma copy_ino_touches [touching]: "n \<le> j \<Longrightarrow> touches {} n w (snd (copy_ino i j w))"
proof -
  assume n: "n \<le> j"
  have "\<forall>k<n. store (snd (copy_ino i j w)) k = store w k"
    unfolding copy_ino_def by (rule syscall_frame) (use n in auto)
  then show ?thesis using copy_ino_framed by (simp add: touches_def)
qed

lemma open_excl_touches [touching]: "n \<le> next_ino w \<Longrightarrow> touches {p} n w (snd (open_excl p w))"
proof -
  assume n: "n \<le> next_ino w"
  have "\<forall>k<n. store (snd (open_excl p w)) k = store w k"
    unfolding open_excl_def by (rule syscall_frame) (use n in \<open>auto simp: new_file_def split: option.split\<close>)
  then show ?thesis using open_excl_framed by (simp add: touches_def)
qed

lemma create_temp_touches [touching]:
  "n \<le> next_ino w \<Longrightarrow> touches {go_join [dir, pre @ rnd w (ticks w) @ suf]} n w (snd (create_temp dir pre suf w))"
  using open_excl_touches [of n w "go_join [dir, pre @ rnd w (ticks w) @ suf]"]
  by (auto simp: create_temp_def Let_def split: prod.split sum.split)

section \<open>Operations that only read\<close>

text \<open>An operation that is a chain of reading calls; used for the comparison and the probes.\<close>

lemma hash_whole_file_touches [touching]: "touches {} n w (snd (hash_whole_file p w))"
  using read_file_touches [of n w p]
  by (auto simp: hash_whole_file_def split: prod.split sum.split)

lemma hash_sqlite_pages_touches [touching]: "touches {} n w (snd (hash_sqlite_pages p k w))"
proof (cases "open_read p w")
  case (Pair r w1)
  have 1: "touches {} n w w1" by (rule touches_step [OF touches_refl Pair open_read_touches]) simp
  have "touches {} n w (snd (read_stream i w1))" for i by (rule touches_trans [OF 1 read_stream_touches])
  then show ?thesis using 1 Pair by (auto simp: hash_sqlite_pages_def split: sum.split prod.split) (metis snd_conv)
qed

lemma compare_file_touches [touching]: "touches {} n w (snd (compare_file_by_path_hash root p h w))"
proof (cases "os_stat (join_rel root p) w")
  case (Pair st w1)
  have 1: "touches {} n w w1" by (rule touches_step [OF touches_refl Pair os_stat_touches]) simp
  obtain r w2 where h: "hash_whole_file (join_rel root p) w1 = (r, w2)" by fastforce
  have 2: "touches {} n w w2" by (rule touches_step [OF 1 h hash_whole_file_touches]) simp
  from 1 2 Pair h show ?thesis
    by (simp add: compare_file_by_path_hash_def Let_def split: sum.split)
qed

lemma page_feed_touches [touching]: "touches {} n w (snd (page_feed root p it w))"
proof (cases "os_stat (join_rel root p) w")
  case (Pair st w1)
  have 1: "touches {} n w w1" by (rule touches_step [OF touches_refl Pair os_stat_touches]) simp
  obtain r w2 where h: "hash_sqlite_pages (join_rel root p) page_size w1 = (r, w2)" by fastforce
  have 2: "touches {} n w w2" by (rule touches_step [OF 1 h hash_sqlite_pages_touches]) simp
  from 1 2 Pair h show ?thesis
    by (auto simp: page_feed_def compare_nil_pages_def compare_pages_streaming_def Let_def
        split: sum.split option.split prod.split)
qed

lemma running_node_touches [touching]: "touches {} n w (snd (running_node h p w))"
proof (cases "open_read (go_join [p, ''main.sqlite3'']) w")
  case (Pair r w1)
  have "touches {} n w w1" by (rule touches_step [OF touches_refl Pair open_read_touches]) simp
  with Pair show ?thesis
    by (auto simp: running_node_def running_node_probe_def flock_probe_def Let_def
        split: sum.split option.split prod.split flock_answer.split)
qed

lemma predicate_world:
  "version_mismatch_value h v w = (r, w') \<Longrightarrow> w' = w"
  "volume_capacity_from_total_bytes h p t w = (r, w') \<Longrightarrow> w' = w"
  "permission_read_only h p w = (r, w') \<Longrightarrow> w' = w"
  by (auto simp: version_mismatch_value_def volume_capacity_from_total_bytes_def permission_read_only_def Let_def
      split: option.splits prod.splits if_splits)

lemma post_stream_world: "snd (post_stream h opts hdr t w) = w"
  by (auto simp: post_stream_def split: sum.split prod.split predicate_result.split dest!: predicate_world)

section \<open>The temporary files of diagnose\<close>

definition doctor_temps :: "string \<Rightarrow> (nat \<Rightarrow> string) \<Rightarrow> string set" where
  "doctor_temps out r =
     {q. is_spool_of (go_dir out) q} \<union>
     (\<Union>t. {probe_name (go_dir out) (r t), go_join [go_dir out, spool_prefix @ r t @ spool_suffix],
           go_join [go_dir out, ''pocketnet-node-doctor-planemit-'' @ r t @ ''.spool''], out @ ''.tmp.'' @ r t})"

text \<open>A run of diagnose so far: from \<open>w0\<close>, in which the free inodes started at \<open>n\<close>, to \<open>w\<close>.\<close>

definition temps_only :: "string \<Rightarrow> nat \<Rightarrow> os \<Rightarrow> os \<Rightarrow> bool" where
  "temps_only out n w0 w \<longleftrightarrow> touches (doctor_temps out (rnd w0)) n w0 w \<and> n \<le> next_ino w"

lemma temps_refl: "temps_only out (next_ino w) w w"
  by (simp add: temps_only_def)

lemma temps_then:
  assumes "temps_only out n w0 w1" and "touches S n w1 w2" and "S \<subseteq> doctor_temps out (rnd w0)"
  shows "temps_only out n w0 w2"
  using assms touches_then [of _ n w0 w1 S w2] touches_next by (auto simp: temps_only_def)

lemma temps_step:
  assumes "temps_only out n w0 w1" and "x = (r, w2)" and "touches S n w1 (snd x)" and "S \<subseteq> doctor_temps out (rnd w0)"
  shows "temps_only out n w0 w2"
  using temps_then [OF assms(1) assms(3) assms(4)] assms(2) by simp

lemmas temps_read = temps_step [where S = "{}"] temps_then [where S = "{}"]

lemma temps_rnd: "temps_only out n w0 w \<Longrightarrow> rnd w = rnd w0"
  by (auto simp: temps_only_def dest: touches_rnd)

lemma probe_temps:
  assumes "temps_only out n w0 w"
  shows "temps_only out n w0 (snd (probe_writable out w))"
proof -
  obtain r1 w1 where s: "os_stat (go_dir out) w = (r1, w1)" by fastforce
  obtain r2 w2 where d: "rand_suffix w1 = (r2, w2)" by fastforce
  have 1: "temps_only out n w0 w1" by (rule temps_step [OF assms s os_stat_touches]) simp
  have 2: "temps_only out n w0 w2" by (rule temps_step [OF 1 d rand_suffix_touches]) simp
  show ?thesis
  proof (cases "\<exists>e. r1 = Inl e \<or> r2 = Inl e")
    case True
    with s d 1 2 show ?thesis by (auto simp: probe_writable_def Let_def split: sum.split)
  next
    case False
    then obtain u sfx where r: "r1 = Inr u" "r2 = Inr sfx" by (metis sum.exhaust_sel)
    let ?p = "probe_name (go_dir out) sfx"
    have p: "{?p} \<subseteq> doctor_temps out (rnd w0)"
      using rand_suffix_Inr [OF d [unfolded r]] temps_rnd [OF 1] by (auto simp: doctor_temps_def)
    obtain r3 w3 where o: "open_excl ?p w2 = (r3, w3)" by fastforce
    have 3: "temps_only out n w0 w3"
      by (rule temps_step [OF 2 o open_excl_touches p]) (use 2 in \<open>simp add: temps_only_def\<close>)
    show ?thesis
    proof (cases r3)
      case (Inl e)
      with s d r o 3 show ?thesis by (simp add: probe_writable_def Let_def)
    next
      case (Inr i)
      have i: "n \<le> i" using open_excl_Inr(1) [OF o [unfolded Inr]] 2 by (simp add: temps_only_def)
      obtain r4 w4 where a: "append_ino i [CHR 0x00] w3 = (r4, w4)" by fastforce
      obtain r5 w5 where n5: "os_noop w4 = (r5, w5)" by fastforce
      obtain r6 w6 where n6: "os_noop w5 = (r6, w6)" by fastforce
      have 4: "temps_only out n w0 w4" by (rule temps_step [OF 3 a append_ino_touches [OF i]]) simp
      have 5: "temps_only out n w0 w5" by (rule temps_step [OF 4 n5 os_noop_touches]) simp
      have 6: "temps_only out n w0 w6" by (rule temps_step [OF 5 n6 os_noop_touches]) simp
      have "temps_only out n w0 (snd (os_remove ?p v))" if "temps_only out n w0 v" for v
        by (rule temps_then [OF that os_remove_touches p])
      with 5 6 s d r o Inr a n5 n6 show ?thesis by (simp add: probe_writable_def Let_def split: sum.split)
    qed
  qed
qed

section \<open>The emitter\<close>

text \<open>The emitter's files are temporary and its open spool is new.\<close>

definition emitter_ok :: "string \<Rightarrow> nat \<Rightarrow> (nat \<Rightarrow> string) \<Rightarrow> plan_emitter \<Rightarrow> bool" where
  "emitter_ok out n r e \<longleftrightarrow>
     pe_out e = out \<and> (\<forall>i. pe_spool e = Some i \<longrightarrow> n \<le> i) \<and>
     (pe_spool_path e = [] \<or> pe_spool_path e \<in> doctor_temps out r) \<and> (pe_tmp e = [] \<or> pe_tmp e \<in> doctor_temps out r)"

lemma new_emitter_temps:
  assumes "temps_only out n w0 w" and "new_plan_emitter out w = (r, w')"
  shows "temps_only out n w0 w' \<and> (\<forall>e. r = Inr e \<longrightarrow> emitter_ok out n (rnd w0) e)"
proof -
  let ?p = "go_join [go_dir out, ''pocketnet-node-doctor-planemit-'' @ rnd w (ticks w) @ ''.spool'']"
  have p: "{?p} \<subseteq> doctor_temps out (rnd w0)" using temps_rnd [OF assms(1)] by (auto simp: doctor_temps_def)
  obtain r1 w1 where c: "create_temp (go_dir out) ''pocketnet-node-doctor-planemit-'' ''.spool'' w = (r1, w1)" by fastforce
  have "n \<le> next_ino w" using assms(1) by (simp add: temps_only_def)
  note 1 = temps_step [OF assms(1) c create_temp_touches [OF this] p]
  have "q = ?p \<and> n \<le> i" if "r1 = Inr (q, i)" for q i
    using create_temp_Inr [OF c [unfolded that]] open_excl_Inr(1) \<open>n \<le> next_ino w\<close> by auto
  then show ?thesis
    using 1 p assms(2) c
    by (auto simp: new_plan_emitter_def emitter_ok_def split: sum.splits)
qed

lemma write_pieces_touches:
  assumes "\<And>s w. touches {} n w (snd (wr s w))"
  shows "touches {} n w (snd (write_pieces wr ps w))"
proof (induction ps arbitrary: w)
  case (Cons p ps)
  show ?case
  proof (cases p)
    case (Some s)
    obtain r w1 where a: "wr s w = (r, w1)" by fastforce
    have "touches {} n w w1" by (rule touches_step [OF touches_refl a assms]) simp
    with Some a Cons [of w1] show ?thesis by (cases r) (auto intro: touches_trans)
  qed simp
qed simp

lemma spool_write_touches: "emitter_ok out n r e \<Longrightarrow> touches {} n w (snd (spool_write e s w))"
  by (auto simp: spool_write_def emitter_ok_def append_ino_touches split: option.split)

lemma feed_pages_touches:
  assumes "emitter_ok out n r e"
  shows "touches {} n w (snd (feed_pages e ps started c w))"
  using assms
proof (induction e ps started c w rule: feed_pages.induct)
  case (3 e pg ps started c w)
  obtain x w1 where a: "write_pieces (spool_write e) (page_lead e started @ [canon_typed (page_tree pg)]) w = (x, w1)"
    by fastforce
  have "touches {} n w w1"
    by (rule touches_step [OF touches_refl a write_pieces_touches [OF spool_write_touches [OF 3(2)]]]) simp
  with a 3 show ?case by (cases x) (auto intro: touches_trans)
qed simp_all

lemma emit_sqlite_touches:
  assumes "emitter_ok out n r e"
  shows "touches {} n w (snd (emit_sqlite_pages e path ps w)) \<and>
     emitter_ok out n r (snd (fst (emit_sqlite_pages e path ps w)))"
proof -
  obtain st c er w1 where f: "feed_pages e ps False 0 w = (((st, c), er), w1)" by (metis prod.collapse)
  have 1: "touches {} n w w1" by (rule touches_step [OF touches_refl f feed_pages_touches [OF assms]]) simp
  obtain x w2 where c: "write_pieces (spool_write e) [Some ''],\"path\":'', Some (enc_str False path), Some ''}''] w1 = (x, w2)"
    by fastforce
  have 2: "touches {} n w w2"
    by (rule touches_step [OF 1 c write_pieces_touches [OF spool_write_touches [OF assms]]]) simp
  from f c 1 2 assms show ?thesis
    by (cases er; cases x) (simp_all add: emit_sqlite_pages_def emitter_ok_def)
qed

lemma write_payload_touches:
  assumes "n \<le> i"
  shows "touches {} n w (snd (write_payload e ci url path i w))"
proof -
  let ?rest = "whole_pieces (pe_sqlite_count e > 0) (pe_whole e) @ [Some '']''] @ tail_pieces url path"
  note wr = write_pieces_touches [where n = n, OF append_ino_touches [OF assms]]
  obtain x w1 where h: "write_pieces (append_ino i) (head_pieces ci) w = (x, w1)" by fastforce
  have 1: "touches {} n w w1" by (rule touches_step [OF touches_refl h wr]) simp
  have 2: "touches {} n w w2" if "copy_ino sp i w1 = (y, w2)" for sp y w2
    by (rule touches_step [OF 1 that copy_ino_touches [OF assms]]) simp
  have 3: "touches {} n w w3" if "copy_ino sp i w1 = (y, w2)" "write_pieces (append_ino i) ?rest w2 = (z, w3)" for sp y w2 z w3
    by (rule touches_step [OF 2 [OF that(1)] that(2) wr]) simp
  from h 1 2 3 show ?thesis
    by (auto simp: write_payload_def Let_def split: sum.split prod.split option.split)
qed

lemma remove_spool_temps:
  assumes "temps_only out n w0 w" and "emitter_ok out n (rnd w0) e"
  shows "temps_only out n w0 (snd (remove_spool e w)) \<and> emitter_ok out n (rnd w0) (fst (remove_spool e w))"
proof -
  have rm: "temps_only out n w0 (snd (os_remove (pe_spool_path e) v))" if "temps_only out n w0 v" "pe_spool_path e \<noteq> []" for v
    by (rule temps_then [OF that(1) os_remove_touches]) (use assms(2) that(2) in \<open>auto simp: emitter_ok_def\<close>)
  have "temps_only out n w0 (snd (os_noop w))" by (rule temps_then [OF assms(1) os_noop_touches]) simp
  with rm assms show ?thesis by (auto simp: remove_spool_def Let_def emitter_ok_def)
qed

lemma abort_temps:
  assumes "temps_only out n w0 w" and "emitter_ok out n (rnd w0) e"
  shows "temps_only out n w0 (snd (emit_abort e w))"
proof (cases "remove_spool e w")
  case (Pair e1 w1)
  have 1: "temps_only out n w0 w1" "emitter_ok out n (rnd w0) e1" using remove_spool_temps [OF assms] Pair by auto
  have "temps_only out n w0 (snd (os_remove (pe_tmp e1) w1))" if "pe_tmp e1 \<noteq> []"
    by (rule temps_then [OF 1(1) os_remove_touches]) (use 1(2) that in \<open>auto simp: emitter_ok_def\<close>)
  with Pair 1 show ?thesis by (simp add: emit_abort_def)
qed

text \<open>\<open>Finalize\<close> touches the plan's place only when it succeeds.\<close>

lemma os_rename_fails: "os_rename a b w = (Inl e, w') \<Longrightarrow> touches {} n w w'"
  unfolding os_rename_def
  by (drule syscall_Inl) (auto split: option.splits node.splits if_splits)

lemma seal_plan_temps:
  assumes "temps_only out n w0 w" and "n \<le> i" and "tmp \<in> doctor_temps out (rnd w0)"
    and "seal_plan i payload tmp out w = (r, w')"
  shows "if is_ok r then touches (insert out (doctor_temps out (rnd w0))) n w0 w' \<and> n \<le> next_ino w'
         else temps_only out n w0 w'"
proof -
  obtain r1 w1 where a: "append_ino i ('',\"self_hash\":\"'' @ sha256_hex (payload @ ''}'') @ ''\"}'') w = (r1, w1)"
    by fastforce
  obtain r2 w2 where n2: "os_noop w1 = (r2, w2)" by fastforce
  obtain r3 w3 where n3: "os_noop w2 = (r3, w3)" by fastforce
  obtain r4 w4 where rn: "os_rename tmp out w3 = (r4, w4)" by fastforce
  have 1: "temps_only out n w0 w1" by (rule temps_step [OF assms(1) a append_ino_touches [OF assms(2)]]) simp
  have 2: "temps_only out n w0 w2" by (rule temps_step [OF 1 n2 os_noop_touches]) simp
  have 3: "temps_only out n w0 w3" by (rule temps_step [OF 2 n3 os_noop_touches]) simp
  have 4: "temps_only out n w0 w4" if "r4 = Inl e" for e
    by (rule temps_then [OF 3 os_rename_fails [OF rn [unfolded that]]]) simp
  have ren: "touches (insert out (doctor_temps out (rnd w0))) n w3 w4"
    by (rule touches_step [OF touches_refl rn os_rename_touches]) (use assms(3) in auto)
  have "touches (insert out (doctor_temps out (rnd w0))) n w0 w3"
    using 3 by (auto simp: temps_only_def intro: touches_mono)
  from touches_trans [OF this ren]
  have 5: "touches (insert out (doctor_temps out (rnd w0))) n w0 w4 \<and> n \<le> next_ino w4"
    using 3 touches_next [OF ren] by (simp add: temps_only_def)
  show ?thesis
    using assms(4) a n2 n3 rn 1 2 3 4 5
    by (auto simp: seal_plan_def is_ok_def split: sum.splits)
qed

definition plan_only :: "string \<Rightarrow> nat \<Rightarrow> os \<Rightarrow> os \<Rightarrow> bool" where
  "plan_only out n w0 w \<longleftrightarrow> touches (insert out (doctor_temps out (rnd w0))) n w0 w \<and> n \<le> next_ino w"

lemma temps_plan_only: "temps_only out n w0 w \<Longrightarrow> plan_only out n w0 w"
  by (auto simp: temps_only_def plan_only_def intro: touches_mono)

lemma plan_only_remove:
  assumes "plan_only out n w0 w" and "emitter_ok out n (rnd w0) e"
  shows "plan_only out n w0 (snd (remove_spool e w))"
proof -
  have r: "rnd w = rnd w0" using assms(1) by (auto simp: plan_only_def dest: touches_rnd)
  have "temps_only out n w w" using assms(1) by (simp add: plan_only_def temps_only_def)
  then have "temps_only out n w (snd (remove_spool e w))"
    by (rule remove_spool_temps [THEN conjunct1]) (simp add: r assms(2))
  then have "touches (doctor_temps out (rnd w0)) n w (snd (remove_spool e w)) \<and> n \<le> next_ino (snd (remove_spool e w))"
    by (simp add: temps_only_def r)
  then show ?thesis using assms(1) unfolding plan_only_def by (blast intro: touches_then)
qed

lemma finalize_temps:
  assumes "temps_only out n w0 w" and "emitter_ok out n (rnd w0) e"
    and "emit_finalize e ci url path w = ((r, e'), w')"
  shows "(if is_ok r then plan_only out n w0 w' else temps_only out n w0 w') \<and> emitter_ok out n (rnd w0) e'"
proof -
  obtain r1 w1 where n1: "os_noop w = (r1, w1)" by fastforce
  obtain r2 w2 where n2: "os_noop w1 = (r2, w2)" by fastforce
  obtain r3 w3 where n3: "rand_suffix w2 = (r3, w3)" by fastforce
  have 1: "temps_only out n w0 w1" by (rule temps_step [OF assms(1) n1 os_noop_touches]) simp
  have 2: "temps_only out n w0 w2" by (rule temps_step [OF 1 n2 os_noop_touches]) simp
  have 3: "temps_only out n w0 w3" by (rule temps_step [OF 2 n3 rand_suffix_touches]) simp
  show ?thesis
  proof (cases "is_ok r1 \<and> is_ok r2 \<and> is_ok r3")
    case False
    with assms n1 n2 n3 1 2 3 show ?thesis
      by (auto simp: emit_finalize_def is_ok_def split: sum.splits)
  next
    case True
    then obtain sfx where ok: "r1 = Inr ()" "r2 = Inr ()" "r3 = Inr sfx" by (auto simp: is_ok_def split: sum.splits)
    let ?tmp = "pe_out e @ ''.tmp.'' @ sfx"
    let ?e1 = "e\<lparr>pe_tmp := ?tmp\<rparr>"
    have out: "pe_out e = out" using assms(2) by (simp add: emitter_ok_def)
    have t: "?tmp \<in> doctor_temps out (rnd w0)"
      using rand_suffix_Inr [OF n3 [unfolded ok]] temps_rnd [OF 2] out by (auto simp: doctor_temps_def)
    have e1: "emitter_ok out n (rnd w0) ?e1" "emitter_ok out n (rnd w0) (?e1\<lparr>pe_tmp := []\<rparr>)"
      using assms(2) t by (auto simp: emitter_ok_def)
    obtain r4 w4 where o: "open_excl ?tmp w3 = (r4, w4)" by fastforce
    have 4: "temps_only out n w0 w4"
      by (rule temps_step [OF 3 o open_excl_touches]) (use 3 t in \<open>auto simp: temps_only_def\<close>)
    show ?thesis
    proof (cases r4)
      case (Inl er)
      with assms(3) n1 n2 n3 ok o 4 e1 show ?thesis by (auto simp: emit_finalize_def Let_def)
    next
      case (Inr i)
      have i: "n \<le> i" using open_excl_Inr(1) [OF o [unfolded Inr]] 3 by (simp add: temps_only_def)
      obtain r5 w5 where wp: "write_payload ?e1 ci url path i w4 = (r5, w5)" by fastforce
      have 5: "temps_only out n w0 w5" by (rule temps_step [OF 4 wp write_payload_touches [OF i]]) simp
      show ?thesis
      proof (cases r5)
        case (Inl er)
        have "temps_only out n w0 (snd (os_noop w5))" by (rule temps_then [OF 5 os_noop_touches]) simp
        with assms(3) n1 n2 n3 ok o Inr wp Inl e1 show ?thesis by (auto simp: emit_finalize_def Let_def)
      next
        case (Inr payload)
        obtain r6 w6 where sl: "seal_plan i payload ?tmp out w5 = (r6, w6)" by fastforce
        note 6 = seal_plan_temps [OF 5 i t sl]
        show ?thesis
        proof (cases r6)
          case (Inl er)
          with assms(3) n1 n2 n3 ok o \<open>r4 = Inr i\<close> wp Inr sl 6 e1 out show ?thesis
            by (auto simp: emit_finalize_def Let_def)
        next
          case ok6: (Inr u)
          have 7: "plan_only out n w0 w6" using 6 ok6 by (simp add: plan_only_def)
          obtain e2 w7 where rs: "remove_spool (?e1\<lparr>pe_tmp := []\<rparr>) w6 = (e2, w7)" by fastforce
          have "plan_only out n w0 w7" using plan_only_remove [OF 7 e1(2)] rs by simp
          moreover have "emitter_ok out n (rnd w0) e2"
            using rs e1(2) by (auto simp: remove_spool_def Let_def emitter_ok_def)
          moreover have "r = Inr ()" "e' = e2" "w' = w7"
            using assms(3) n1 n2 n3 ok o \<open>r4 = Inr i\<close> wp Inr sl ok6 rs out
            by (simp_all add: emit_finalize_def Let_def)
          ultimately show ?thesis by simp
        qed
      qed
    qed
  qed
qed

section \<open>The manifest\<close>

lemma spool_body_temps:
  assumes "temps_only out n w0 w"
  shows "temps_only out n w0 (snd (spool_body_to_verified free body broken d (go_dir out) h w))"
    and "spool_body_to_verified free body broken d (go_dir out) h w = (Inr p, w') \<Longrightarrow> p \<in> doctor_temps out (rnd w0)"
proof -
  let ?p = "go_join [go_dir out, spool_prefix @ rnd w (ticks w) @ spool_suffix]"
  have p: "{?p} \<subseteq> doctor_temps out (rnd w0)" using temps_rnd [OF assms] by (auto simp: doctor_temps_def)
  obtain r1 w1 where c: "create_temp (go_dir out) spool_prefix spool_suffix w = (r1, w1)" by fastforce
  have n: "n \<le> next_ino w" using assms by (simp add: temps_only_def)
  note 1 = temps_step [OF assms c create_temp_touches [OF n] p]
  have "temps_only out n w0 (snd (spool_body_to_verified free body broken d (go_dir out) h w)) \<and>
    (spool_body_to_verified free body broken d (go_dir out) h w = (Inr p, w') \<longrightarrow> p \<in> doctor_temps out (rnd w0))"
  proof (cases r1)
    case (Inl e)
    with c 1 show ?thesis by (simp add: spool_body_to_verified_def)
  next
    case (Inr pi)
    obtain q i where pi: "pi = (q, i)" by fastforce
    have q: "q = ?p" and i: "n \<le> i"
      using create_temp_Inr [OF c [unfolded Inr pi]] open_excl_Inr(1) n by auto
    let ?c = "take (copy_limit d) body"
    obtain r2 w2 where a: "append_ino i ?c w1 = (r2, w2)" by fastforce
    obtain r3 w3 where m: "os_noop w2 = (r3, w3)" by fastforce
    have 2: "temps_only out n w0 w2" by (rule temps_step [OF 1 a append_ino_touches [OF i]]) simp
    have 3: "temps_only out n w0 w3" by (rule temps_step [OF 2 m os_noop_touches]) simp
    have 4: "temps_only out n w0 (snd (os_remove ?p w3))" by (rule temps_then [OF 3 os_remove_touches p])
    obtain x where rm: "os_remove ?p w3 = x" by simp
    with c Inr pi q a m 3 4 p show ?thesis
      by (cases x; cases r2) (auto simp: spool_body_to_verified_def Let_def)
  qed
  then show "temps_only out n w0 (snd (spool_body_to_verified free body broken d (go_dir out) h w))"
    and "spool_body_to_verified free body broken d (go_dir out) h w = (Inr p, w') \<Longrightarrow> p \<in> doctor_temps out (rnd w0)"
    by auto
qed

lemma spool_and_verify_temps:
  assumes "temps_only out n w0 w"
  shows "temps_only out n w0 (snd (spool_and_verify free url h (go_dir out) w))"
    and "spool_and_verify free url h (go_dir out) w = (Inr p, w') \<Longrightarrow> p \<in> doctor_temps out (rnd w0)"
proof -
  have 0: "temps_only out n w0 (reclaim_stale_spools (go_dir out) w)"
    unfolding reclaim_stale_spools_def
    by (rule temps_then [OF assms remove_matching_touches]) (auto simp: doctor_temps_def)
  obtain r w1 where g: "http_get url (reclaim_stale_spools (go_dir out) w) = (r, w1)" by fastforce
  have 1: "temps_only out n w0 w1" by (rule temps_step [OF 0 g http_get_touches]) simp
  note b = spool_body_temps [OF 1]
  show "temps_only out n w0 (snd (spool_and_verify free url h (go_dir out) w))"
    using assms g 1 b(1)
    by (cases r) (simp_all add: spool_and_verify_def Let_def split: option.split)
  show "spool_and_verify free url h (go_dir out) w = (Inr p, w') \<Longrightarrow> p \<in> doctor_temps out (rnd w0)"
    using g b(2)
    by (cases r) (auto simp: spool_and_verify_def Let_def split: option.splits if_splits)
qed

text \<open>The callback of diagnose keeps within the temporary files.\<close>

definition diag_inv :: "string \<Rightarrow> nat \<Rightarrow> os \<Rightarrow> diag_state \<times> os \<Rightarrow> bool" where
  "diag_inv out n w0 st \<longleftrightarrow> temps_only out n w0 (snd st) \<and> emitter_ok out n (rnd w0) (ds_emitter (fst st))"

lemma sqlite_entry_inv:
  assumes "diag_inv out n w0 st"
  shows "diag_inv out n w0 (snd (sqlite_entry db hdr it st))"
proof -
  obtain s w where st: "st = (s, w)" by fastforce
  obtain ys w1 where f: "page_feed db sqlite_entry_path it w = (ys, w1)" by fastforce
  have i: "temps_only out n w0 w" "emitter_ok out n (rnd w0) (ds_emitter s)" using assms st by (simp_all add: diag_inv_def)
  have 1: "temps_only out n w0 w1" by (rule temps_step [OF i(1) f page_feed_touches]) simp
  show ?thesis
  proof (cases ys)
    case None
    with st f 1 i show ?thesis by (simp add: sqlite_entry_def diag_inv_def)
  next
    case (Some zs)
    obtain k er em w2 where e: "emit_sqlite_pages (ds_emitter s) sqlite_entry_path zs w1 = (((k, er), em), w2)"
      by (metis prod.collapse)
    note t = emit_sqlite_touches [OF i(2), where w = w1 and path = sqlite_entry_path and ps = zs, unfolded e]
    have "temps_only out n w0 w2" by (rule temps_then [OF 1, of "{}"]) (use t in auto)
    with t st f Some e show ?thesis by (cases er) (auto simp: sqlite_entry_def diag_inv_def)
  qed
qed

lemma whole_file_entry_inv:
  assumes "diag_inv out n w0 st"
  shows "diag_inv out n w0 (snd (whole_file_entry db hdr it st))"
proof -
  obtain s w where st: "st = (s, w)" by fastforce
  obtain r w1 where c: "compare_file_by_path_hash db (eh_path hdr) (eh_hash hdr) w = (r, w1)" by fastforce
  have i: "temps_only out n w0 w" "emitter_ok out n (rnd w0) (ds_emitter s)" using assms st by (simp_all add: diag_inv_def)
  have "temps_only out n w0 w1" by (rule temps_step [OF i(1) c compare_file_touches]) simp
  with i st c show ?thesis
    by (auto simp: whole_file_entry_def diag_inv_def emitter_ok_def buffer_whole_file_def split: sum.split option.split)
qed

lemma entry_fn_path:
  "entry_fn db hdr it st = (Inr hdr', st') \<Longrightarrow> eh_path hdr' = eh_path hdr"
  by (auto simp: entry_fn_def sqlite_entry_def whole_file_entry_def Let_def
      split: if_splits option.splits prod.splits sum.splits)

lemma entry_fn_inv: "entry_fn db hdr it st = (r, st') \<Longrightarrow> diag_inv out n w0 st \<Longrightarrow> diag_inv out n w0 st'"
  using sqlite_entry_inv [of out n w0 st db hdr it] whole_file_entry_inv [of out n w0 st db hdr it]
  by (auto simp: entry_fn_def split: if_splits)

interpretation diag_frame: entry_callback "entry_fn db" "diag_inv out n w0" "diag_inv out n w0"
  by unfold_locales (auto intro: entry_fn_inv entry_fn_path)

lemma parse_from_spool_inv:
  assumes "diag_inv out n w0 st" and "p \<in> doctor_temps out (rnd w0)"
  shows "diag_inv out n w0 (snd (parse_from_spool p (entry_fn db) st))"
proof -
  obtain s w where st: "st = (s, w)" by fastforce
  have i: "temps_only out n w0 w" "emitter_ok out n (rnd w0) (ds_emitter s)" using assms st by (simp_all add: diag_inv_def)
  obtain r1 w1 where o: "open_read p w = (r1, w1)" by fastforce
  have 1: "temps_only out n w0 w1" by (rule temps_step [OF i(1) o open_read_touches]) simp
  show ?thesis
  proof (cases r1)
    case (Inl e)
    with st o i 1 show ?thesis by (simp add: parse_from_spool_def diag_inv_def)
  next
    case (Inr ino)
    obtain dat x w2 where rs: "read_stream ino w1 = ((dat, x), w2)" by (metis prod.collapse)
    have 2: "temps_only out n w0 w2" by (rule temps_step [OF 1 rs read_stream_touches]) simp
    obtain r3 s3 w3 where sm: "stream_manifest (entry_fn db) (s, w2) (new_decoder dat) = (r3, s3, w3)"
      by (metis prod.collapse)
    have "diag_inv out n w0 (s, w2)" using 2 i(2) by (simp add: diag_inv_def)
    then have 3: "diag_inv out n w0 (s3, w3)"
      using diag_frame.stream_manifest_keeps [OF _ sm] by simp
    have "temps_only out n w0 (snd (os_remove p w3))"
      by (rule temps_then [OF _ os_remove_touches]) (use 3 assms(2) in \<open>auto simp: diag_inv_def\<close>)
    with st o Inr rs sm 3 show ?thesis by (simp add: parse_from_spool_def diag_inv_def)
  qed
qed

lemma fetch_and_process_inv:
  assumes "diag_inv out n w0 st"
  shows "diag_inv out n w0 (snd (fetch_and_process free url h (go_dir out) (entry_fn db) st))"
proof -
  obtain s w where st: "st = (s, w)" by fastforce
  have i: "temps_only out n w0 w" using assms st by (simp add: diag_inv_def)
  obtain r w1 where sv: "spool_and_verify free url h (go_dir out) w = (r, w1)" by fastforce
  note t = spool_and_verify_temps [OF i, where free = free and url = url and h = h]
  have "diag_inv out n w0 (s, w1)" using t(1) sv assms st by (simp add: diag_inv_def)
  then show ?thesis
    using sv st t(2) parse_from_spool_inv [of out n w0 "(s, w1)"]
    by (cases r) (auto simp: fetch_and_process_def)
qed

section \<open>Diagnose\<close>

lemma stream_and_finish_temps:
  assumes "temps_only (do_out opts) n w0 w" and "emitter_ok (do_out opts) n (rnd w0) em"
    and "stream_and_finish h opts em w = (out, em', w')"
  shows "(if out = Finished Success None then plan_only (do_out opts) n w0 w' else temps_only (do_out opts) n w0 w')
       \<and> emitter_ok (do_out opts) n (rnd w0) em'"
proof -
  have "diag_inv (do_out opts) n w0 (init_diag_state em, w)"
    using assms(1,2) by (simp add: diag_inv_def init_diag_state_def)
  note f = fetch_and_process_inv [OF this, where free = "free_bytes h" and url = "do_url opts" and
      h = "do_pinned opts" and db = "do_db opts"]
  obtain r s w1 where fp: "fetch_and_process (free_bytes h) (do_url opts) (do_pinned opts) (go_dir (do_out opts))
      (entry_fn (do_db opts)) (init_diag_state em, w) = (r, s, w1)" by (metis prod.collapse)
  have 1: "temps_only (do_out opts) n w0 w1" "emitter_ok (do_out opts) n (rnd w0) (ds_emitter s)"
    using f fp by (simp_all add: diag_inv_def)
  show ?thesis
  proof (cases r)
    case (Inl e)
    have "stream_failed e \<noteq> Finished Success None"
      by (auto simp: stream_failed_def split: stream_err.split entry_err.split)
    with Inl assms(3) fp 1 show ?thesis by (auto simp: stream_and_finish_def)
  next
    case (Inr hdr)
    obtain o2 w2 where ps: "post_stream h opts hdr (ds_total s) w1 = (o2, w2)" by fastforce
    have w2: "w2 = w1" using post_stream_world [of h opts hdr "ds_total s" w1] ps by simp
    have ns: "o2 \<noteq> Some (Finished Success None)"
      using ps by (auto simp: post_stream_def split: sum.splits prod.splits predicate_result.splits if_splits)
    show ?thesis
      using assms(3) fp Inr ps ns w2 1
      by (auto simp: stream_and_finish_def finish_diagnose_def split: option.splits prod.splits sum.splits
          dest!: finalize_temps [OF 1])
  qed
qed

lemma diagnose_temps:
  assumes "diagnose h opts w = (out, w')"
  shows "if out = Finished Success None then plan_only (do_out opts) (next_ino w) w w'
         else temps_only (do_out opts) (next_ino w) w w'"
proof -
  let ?P = "temps_only (do_out opts) (next_ino w) w"
  note 0 = temps_refl [of "do_out opts" w]
  obtain r1 w1 where rn: "running_node h (do_db opts) w = (r1, w1)" by fastforce
  obtain r2 w2 where pw: "probe_writable (do_out opts) w1 = (r2, w2)" by fastforce
  obtain r3 w3 where ne: "new_plan_emitter (do_out opts) w2 = (r3, w3)" by fastforce
  have 1: "?P w1" by (rule temps_step [OF 0 rn running_node_touches]) simp
  have 2: "?P w2" using probe_temps [OF 1] pw by simp
  note 3 = new_emitter_temps [OF 2 ne]
  show ?thesis
  proof (cases "r1 = Pass \<and> is_ok r2 \<and> is_ok r3")
    case False
    with assms rn pw ne 1 2 3 show ?thesis
      by (auto simp: diagnose_def is_ok_def split: predicate_result.splits sum.splits)
  next
    case True
    then obtain em where ok: "r1 = Pass" "r2 = Inr ()" "r3 = Inr em" by (auto simp: is_ok_def split: sum.splits)
    obtain o4 em1 w4 where sf: "stream_and_finish h opts em w3 = (o4, em1, w4)" by (metis prod.collapse)
    have em: "emitter_ok (do_out opts) (next_ino w) (rnd w) em" using 3 ok by simp
    note t = stream_and_finish_temps [OF conjunct1 [OF 3] em sf]
    show ?thesis
      using assms rn pw ne ok sf t by (auto simp: diagnose_def intro: abort_temps)
  qed
qed

end
