(* ===== verification/DiagnosePlan.thy ===== *)
theory DiagnosePlan
  imports DiagnoseFrame
begin

text \<open>
  What the stream of the manifest leaves in the emitter: the spool holds page divergences of the one
  page file that the program knows, the buffer holds whole-file divergences with hygienic paths, and
  all integers fit their fields.  With that, a successful \<open>Finalize\<close> writes a well-formed plan.
\<close>

section \<open>Offsets of divergent pages come from the manifest\<close>

definition offsets_in :: "(int \<Rightarrow> bool) \<Rightarrow> man_page option \<Rightarrow> man_iter \<Rightarrow> bool" where
  "offsets_in R cur ms \<longleftrightarrow> (\<forall>c. cur = Some c \<longrightarrow> R (mp_offset c)) \<and> (\<forall>m \<in> set (oks ms). R (mp_offset m))"

abbreviation yields_in :: "(int \<Rightarrow> bool) \<Rightarrow> page_yield \<Rightarrow> bool" where
  "yields_in R ys \<equiv> \<forall>p \<in> set (oks ys). R (pp_offset p)"

lemma skip_gaps_offsets:
  "skip_gaps off cur ms = (ys, r) \<Longrightarrow> offsets_in R cur ms \<Longrightarrow>
   yields_in R ys \<and> (\<forall>c ms1. r = Some (c, ms1) \<longrightarrow> offsets_in R c ms1)"
proof (induction off cur ms arbitrary: ys r rule: skip_gaps.induct)
  case (4 off c m ms)
  then show ?case
    by (cases "skip_gaps off (Some m) ms") (auto simp: offsets_in_def to_plan_page_def split: if_splits)
qed (auto simp: offsets_in_def to_plan_page_def split: if_splits)

lemma drain_rest_offsets: "offsets_in R (Some c) ms \<Longrightarrow> yields_in R (drain_rest c ms)"
  by (induction c ms rule: drain_rest.induct) (auto simp: offsets_in_def to_plan_page_def)

lemma drain_offsets: "offsets_in R cur ms \<Longrightarrow> yields_in R (drain cur ms)"
  by (cases cur) (auto simp: drain_def drain_rest_offsets)

lemma advance_offsets: "advance ms = Inr (c, ms1) \<Longrightarrow> offsets_in R None ms \<Longrightarrow> offsets_in R c ms1"
  by (cases ms rule: advance.cases) (auto simp: offsets_in_def)

lemma compare_stream_offsets:
  "offsets_in R cur ms \<Longrightarrow> yields_in R (compare_stream seq cur ms)"
proof (induction seq cur ms rule: compare_stream.induct)
  case (4 ph seq cur ms)
  obtain ys r where sk: "skip_gaps (ph_offset ph) cur ms = (ys, r)" by fastforce
  note o = skip_gaps_offsets [OF sk "4.prems"]
  show ?case
  proof (cases "\<exists>c ms1. r = Some (Some c, ms1)")
    case False
    with sk o show ?thesis
      by (cases r) (auto simp: oks_append drain_def split: prod.split option.split)
  next
    case True
    then obtain c ms1 where r: "r = Some (Some c, ms1)" by blast
    with o have c: "offsets_in R (Some c) ms1" by simp
    show ?thesis
    proof (cases "mp_offset c = ph_offset ph")
      case False
      with 4 sk r c o show ?thesis by (simp add: oks_append ball_Un)
    next
      case True
      have e: "R (ph_offset ph)" "offsets_in R None ms1" using c True by (auto simp: offsets_in_def)
      show ?thesis
      proof (cases "advance ms1")
        case (Inl er)
        with sk r True o e show ?thesis by (simp add: oks_append ball_Un)
      next
        case (Inr x)
        obtain cur2 ms2 where x: "x = (cur2, ms2)" by fastforce
        note i = advance_offsets [OF Inr [unfolded x] e(2)]
        from "4.IH"(1) [OF sk [symmetric] r refl refl True refl Inr x [symmetric] i] sk r True Inr x o e
        show ?thesis by (simp add: oks_append ball_Un)
      qed
    qed
  qed
qed (auto dest!: drain_offsets)

lemma drain_missing_offsets: "offsets_in R None ms \<Longrightarrow> yields_in R (drain_missing ms)"
  by (induction ms rule: drain_missing.induct) (auto simp: offsets_in_def to_plan_page_def)

lemma page_feed_offsets:
  assumes "page_feed db path it w = (Some ys, w')" and "pages_ok it"
  shows "yields_in int64 ys"
proof (cases it)
  case None
  with assms(1) show ?thesis
    by (auto simp: page_feed_def compare_nil_pages_def Let_def split: prod.splits sum.splits if_splits)
next
  case (Some ms)
  then have o: "offsets_in int64 None ms" using assms(2) by (simp add: pages_ok_def offsets_in_def)
  from Some assms(1) show ?thesis
    by (auto simp: page_feed_def compare_pages_streaming_def Let_def
        split: prod.splits sum.splits if_splits
        intro: drain_missing_offsets [OF o, rule_format] compare_stream_offsets [OF advance_offsets [OF _ o], rule_format])
qed

section \<open>What the emitter has recorded\<close>

definition sqlite_ok :: "divergence \<Rightarrow> bool" where
  "sqlite_ok d \<longleftrightarrow> d = sqlite_divergence sqlite_entry_path (d_pages d) \<and> d_pages d \<noteq> [] \<and> wf_divergence d"

definition whole_ok :: "divergence \<Rightarrow> bool" where
  "whole_ok d \<longleftrightarrow> d_kind d = kind_whole_file \<and> d_pages d = [] \<and>
     (d_path d = [] \<or> validate_entry_path (d_path d) = Inr ())"

definition page_count :: "divergence list \<Rightarrow> nat" where
  "page_count ds = (\<Sum>d \<leftarrow> ds. length (d_pages d))"

lemma page_count_simps [simp]:
  "page_count [] = 0" "page_count (d # ds) = length (d_pages d) + page_count ds"
  "page_count (ds @ es) = page_count ds + page_count es"
  by (simp_all add: page_count_def)

text \<open>The counters agree with the divergences recorded so far.\<close>

definition counted :: "diag_state \<Rightarrow> divergence list \<Rightarrow> bool" where
  "counted s ds \<longleftrightarrow>
     ds_pages s = int (page_count ds) \<and> ds_files s = int (length ds + length (pe_whole (ds_emitter s))) \<and>
     ds_total s = word_of_nat (page_count ds) * 4096"

definition recorded :: "string \<Rightarrow> string \<Rightarrow> diag_state \<times> os \<Rightarrow> bool" where
  "recorded out sp st \<longleftrightarrow>
     (\<exists>ds. emitting (ds_emitter (fst st)) (snd st) ds \<and> (\<forall>d \<in> set ds. sqlite_ok d) \<and> counted (fst st) ds) \<and>
     (\<forall>d \<in> set (pe_whole (ds_emitter (fst st))). whole_ok d) \<and>
     pe_out (ds_emitter (fst st)) = out \<and> pe_spool_path (ds_emitter (fst st)) = sp"

lemma emitting_kept: "emitting e w ds \<Longrightarrow> touches S (next_ino w) w w' \<Longrightarrow> emitting e w' ds"
  by (auto simp: emitting_def touches_def framed_def)

lemma recorded_kept: "recorded out sp (s, w) \<Longrightarrow> touches S (next_ino w) w w' \<Longrightarrow> recorded out sp (s, w')"
  by (auto simp: recorded_def intro: emitting_kept)

lemma valid_sqlite_path: "valid_utf8 sqlite_entry_path"
  unfolding sqlite_entry_path_def by (rule valid_utf8_ascii) auto

lemma emit_sqlite_fields:
  "emit_sqlite_pages e path ys w = ((nr, e'), w') \<Longrightarrow>
   pe_out e' = pe_out e \<and> pe_spool_path e' = pe_spool_path e \<and> pe_whole e' = pe_whole e"
  by (auto simp: emit_sqlite_pages_def split: prod.splits option.splits sum.splits if_splits)

lemma sqlite_entry_recorded:
  assumes "sqlite_entry db hdr it st = (Inr hdr', st')" and "pages_ok it" and "recorded out sp st"
  shows "recorded out sp st'"
proof -
  obtain s w where st: "st = (s, w)" by fastforce
  obtain ys w1 n em w2 where f: "page_feed db sqlite_entry_path it w = (Some ys, w1)"
    and e: "emit_sqlite_pages (ds_emitter s) sqlite_entry_path ys w1 = (((n, None), em), w2)"
    and st': "fst st' = s\<lparr>ds_emitter := em, ds_total := ds_total s + word_of_nat n * 4096,
          ds_pages := (if n > 0 then ds_pages s + int n else ds_pages s),
          ds_files := (if n > 0 then ds_files s + 1 else ds_files s)\<rparr>" "snd st' = w2"
    using assms(1) st by (auto simp: sqlite_entry_def split: prod.splits option.splits)
  obtain ds where ds: "emitting (ds_emitter s) w ds" "\<forall>d \<in> set ds. sqlite_ok d" "counted s ds"
    using assms(3) st by (auto simp: recorded_def)
  have "touches {} (next_ino w) w w1" using page_feed_touches [of "next_ino w" w db] f by (metis snd_conv)
  note em = emit_sqlite_pages_ok [OF e emitting_kept [OF ds(1) this] page_feed_offsets [OF f assms(2)] valid_sqlite_path]
  let ?ds = "if oks ys = [] then ds else ds @ [sqlite_divergence sqlite_entry_path (oks ys)]"
  have "\<forall>d \<in> set ?ds. sqlite_ok d"
    using ds(2) page_feed_offsets [OF f assms(2)]
    by (auto simp: sqlite_ok_def sqlite_divergence_def wf_divergence_def)
  moreover have "counted (fst st') ?ds"
    using em ds(3) st'(1) emit_sqlite_fields [OF e]
    by (auto simp: counted_def sqlite_divergence_def algebra_simps)
  moreover have "emitting (ds_emitter (fst st')) (snd st') ?ds" using em st' by simp
  moreover have "pe_out em = out" "pe_spool_path em = sp" "\<forall>d \<in> set (pe_whole em). whole_ok d"
    using emit_sqlite_fields [OF e] assms(3) st by (auto simp: recorded_def)
  moreover have "ds_emitter (fst st') = em" using st'(1) by simp
  ultimately show ?thesis unfolding recorded_def by blast
qed

lemma compare_file_whole_ok:
  assumes "compare_file_by_path_hash db p h w = (Inr (Some d), w')" and "p = [] \<or> validate_entry_path p = Inr ()"
  shows "whole_ok d"
  using assms
  by (auto simp: compare_file_by_path_hash_def whole_ok_def Let_def split: prod.splits sum.splits if_splits)

lemma whole_file_entry_recorded:
  assumes "whole_file_entry db hdr it st = (Inr hdr', st')" and "clean_header hdr" and "recorded out sp st"
  shows "recorded out sp st'"
proof -
  obtain s w where st: "st = (s, w)" by fastforce
  obtain od w1 where c: "compare_file_by_path_hash db (eh_path hdr) (eh_hash hdr) w = (Inr od, w1)"
    and st': "st' = (case od of None \<Rightarrow> (s, w1) |
        Some d \<Rightarrow> (s\<lparr>ds_emitter := buffer_whole_file (ds_emitter s) d, ds_files := ds_files s + 1\<rparr>, w1))"
    using assms(1) st by (auto simp: whole_file_entry_def split: prod.splits option.splits sum.splits)
  have "touches {} (next_ino w) w w1" using compare_file_touches [of "next_ino w" w db] c by (metis snd_conv)
  with assms(3) st have r: "recorded out sp (s, w1)" by (blast intro: recorded_kept)
  have "whole_ok d" if "od = Some d" for d
    using compare_file_whole_ok [OF c [unfolded that]] assms(2) by (simp add: clean_header_def)
  with r st' show ?thesis
    by (cases od) (auto simp: recorded_def buffer_whole_file_def emitting_def counted_def)
qed

lemma entry_fn_recorded:
  "entry_fn db hdr it st = (Inr hdr', st') \<Longrightarrow> clean_header hdr \<Longrightarrow> pages_ok it \<Longrightarrow> recorded out sp st \<Longrightarrow>
   recorded out sp st'"
  by (auto simp: entry_fn_def split: if_splits intro: sqlite_entry_recorded whole_file_entry_recorded)

interpretation diag_recorded: entry_callback "entry_fn db" "recorded out sp" "\<lambda>_. True"
  by unfold_locales (auto intro: entry_fn_recorded entry_fn_path)

section \<open>The header\<close>

lemma into_man_identity_range:
  "into_man_identity c j = Some c' \<Longrightarrow> int64 (mi_block_height c) \<Longrightarrow> int64 (mi_block_height c')"
  unfolding into_man_identity_def
  by (erule into_struct_keeps [where P = "\<lambda>c. int64 (mi_block_height c)"])
     (auto simp: store_man_identity_def map_option_case into_int64_range split: if_splits option.splits)

lemma stream_manifest_height:
  assumes "stream_manifest fn s d = (Inr hdr, s')"
  shows "int64 (mi_block_height (mh_identity hdr))"
proof -
  obtain d1 s1 d2 where l: "for_more (manifest_member fn) (zero_man_header, s) d1 = Inr ((hdr, s1), d2)"
    using assms by (auto simp: stream_manifest_def split: option.splits sum.splits)
  have "int64 (mi_block_height (mh_identity (fst (hdr, s1))))"
    by (rule manifest_mem.loop_invariant [OF l, where P = "\<lambda>st. int64 (mi_block_height (mh_identity (fst st)))"])
       (auto simp: manifest_member_def zero_man_header_def int64_def [of 0] decode_into_def into_man_identity_range
          split: option.splits sum.splits if_splits)
  then show ?thesis by simp
qed

end
