(* ===== verification/ManifestClaims.thy ===== *)
theory ManifestClaims
  imports ManifestFetch
begin

text \<open>
  What fetching the manifest guarantees: a spool that is returned holds the pinned bytes and is parsed
  only then, a failure leaves no spool, and every entry that reaches the callback has a hygienic path.
\<close>

section \<open>The spool\<close>

lemma copy_limit_eq: "0 \<le> d \<Longrightarrow> d < 2 ^ 63 - 1 \<Longrightarrow> copy_limit d = Suc (nat d)"
proof -
  assume d: "0 \<le> d" "d < 2 ^ 63 - 1"
  have "sint (word_of_int (d + 1) :: 64 word) = d + 1"
    using d by (simp add: sint_word_ariths signed_take_bit_int_eq_self signed_of_int)
  then show ?thesis using d by (simp add: copy_limit_def nat_add_distrib)
qed

lemma spool_body_ok:
  assumes "spool_body_to_verified free body broken d dir h w = (Inr p, w')" and "0 \<le> d" and "d < 2 ^ 63 - 1"
  shows "sha256_hex body = h \<and> int (length body) \<le> d \<and> \<not> broken \<and> file_data w' p = Some body"
proof -
  let ?c = "take (copy_limit d) body"
  obtain i w1 w2 where t: "create_temp dir spool_prefix spool_suffix w = (Inr (p, i), w1)"
    and a: "append_ino i ?c w1 = (Inr (), w2)" and w': "w' = snd (os_noop w2)"
    and c: "\<not> (broken \<and> length body < copy_limit d)" "int (length ?c) \<le> d" "sha256_hex ?c = h"
    using assms(1)
    by (auto simp: spool_body_to_verified_def Let_def split: prod.splits sum.splits if_splits)
  have b: "?c = body"
    using c(2) assms(2) unfolding copy_limit_eq [OF assms(2,3)] by (auto simp: min_def split: if_splits)
  then have len: "length body < copy_limit d" using c(2) assms(2,3) by (simp add: copy_limit_eq)
  note o = create_temp_Inr(2) [OF t]
  have "node_at w1 p = Some (FileN i)"
    using open_excl_Inr(2) [OF o] open_excl_Inr(4) [OF o] by (auto simp: node_at_def)
  moreover have "names w' = names w1"
    using w' os_noop_fs [of w2] append_ino_names [of i ?c w1] a by (simp add: fs_iff)
  ultimately have "node_at w' p = Some (FileN i)" using node_at_names by metis
  moreover have "store w' i = body"
    using w' os_noop_fs [of w2] append_ino_Inr [OF a] open_excl_Inr(3) [OF o] b by (simp add: fs_iff)
  ultimately show ?thesis using b c len by (auto simp: file_data_Some_iff)
qed

lemma spool_ok:
  assumes "spool_and_verify free url h dir w = (Inr p, w')"
    and "\<And>t s d b x. net w t url = Reply s d b x \<Longrightarrow> d < 2 ^ 63 - 1"
  shows "\<exists>t d body. net w t url = Reply 200 d body False \<and> sha256_hex body = h \<and> int (length body) \<le> d \<and>
     file_data w' p = Some body"
proof -
  let ?w0 = "reclaim_stale_spools dir w"
  have n: "net ?w0 = net w"
    using remove_matching_framed [of "is_spool_of dir" w] by (simp add: reclaim_stale_spools_def framed_def)
  obtain d body broken where r: "net w (ticks ?w0) url = Reply 200 d body broken" "0 \<le> d"
      "spool_body_to_verified free body broken d dir h (tick ?w0) = (Inr p, w')"
    using assms(1) n
    by (auto simp: spool_and_verify_def http_get_def Let_def split: http_reply.splits if_splits option.splits)
  moreover from spool_body_ok [OF r(3,2) assms(2) [OF r(1)]]
  have "\<not> broken" "sha256_hex body = h \<and> int (length body) \<le> d \<and> file_data w' p = Some body" by auto
  ultimately show ?thesis using r(1) by (metis (full_types))
qed

text \<open>A failure after the spool was created removes it again.\<close>

lemma remove_new_file:
  assumes "quiet w1" and "names w1 p = Some (FileN i)"
  shows "names (snd (os_remove p w1)) = (names w1)(p := None)"
  using assms by (simp add: os_remove_def syscall_quiet)

lemma spool_body_fails:
  assumes "spool_body_to_verified free body broken d dir h w = (Inl e, w')" and "quiet w"
  shows "names w' = names w"
proof (cases "create_temp dir spool_prefix spool_suffix w")
  case (Pair r w1)
  let ?c = "take (copy_limit d) body"
  show ?thesis
  proof (cases r)
    case (Inl er)
    with Pair assms show ?thesis
      by (auto simp: spool_body_to_verified_def create_temp_def open_excl_def syscall_quiet Let_def new_file_def
          split: prod.splits sum.splits option.splits if_splits)
  next
    case (Inr pi)
    obtain p i where pi: "pi = (p, i)" by fastforce
    note t = Pair [unfolded Inr pi]
    note o = create_temp_Inr(2) [OF t]
    have q1: "quiet w1" using framed_quiet [OF open_excl_framed [of p w]] assms(2) o by simp
    obtain w2 where a: "append_ino i ?c w1 = (Inr (), w2)" and q2: "quiet w2" and n2: "names w2 = names w1"
      using q1 by (simp add: append_ino_def syscall_quiet quiet_def)
    obtain w3 where n: "os_noop w2 = (Inr (), w3)" and q3: "quiet w3" and n3: "names w3 = names w2"
      using q2 by (simp add: os_noop_def syscall_quiet)
    have "w' = snd (os_remove p w3)"
      using assms(1) t a n by (auto simp: spool_body_to_verified_def Let_def split: if_splits)
    moreover have "names w3 p = Some (FileN i)" using n3 n2 open_excl_Inr(2) [OF o] by simp
    ultimately have "names w' = (names w1)(p := None)" using remove_new_file [OF q3] n3 n2 by simp
    moreover have "names w p = None" using open_excl_Inr(4) [OF o] by (auto simp: node_at_def split: if_splits)
    ultimately show ?thesis using open_excl_Inr(5) [OF o] by (auto simp: fun_eq_iff)
  qed
qed

text \<open>
  C22. A spool that \<open>spoolAndVerify\<close> returns was written from a complete response with status 200 that
  is no longer than it declared, whose SHA-256 is the pinned hash, and the file holds exactly its
  bytes; so under any faults of the file system and any behaviour of the server.
\<close>

theorem spool_verified:
  assumes "spool_and_verify free url pinnedHash dir w = (Inr p, w')"
    and "\<And>t s d b x. net w t url = Reply s d b x \<Longrightarrow> d < 2 ^ 63 - 1"
  shows "\<exists>t d body. net w t url = Reply 200 d body False \<and> sha256_hex body = pinnedHash
       \<and> int (length body) \<le> d \<and> file_data w' p = Some body"
  by (rule spool_ok [OF assms])

text \<open>
  C36. On a fault-free file system a failing \<open>spoolAndVerify\<close> leaves every name as it was, except
  that stale spools of earlier runs may be gone.
\<close>

theorem failed_spool_leaves_nothing:
  assumes "spool_and_verify free url pinnedHash dir w = (Inl e, w')" and "quiet w"
  shows "names w' q = names w q \<or> (is_spool_of dir q \<and> names w' q = None)"
proof -
  let ?w0 = "reclaim_stale_spools dir w"
  have q0: "quiet ?w0"
    using framed_quiet [OF remove_matching_framed [of "is_spool_of dir" w]] assms(2) by (simp add: reclaim_stale_spools_def)
  have n0: "names ?w0 q = names w q \<or> (is_spool_of dir q \<and> names ?w0 q = None)"
    using assms(2) by (simp add: reclaim_stale_spools_def remove_matching_def syscall_quiet)
  have "names w' = names ?w0 \<or> w' = w"
    using assms(1) q0
    by (auto simp: spool_and_verify_def http_get_def Let_def split: http_reply.splits if_splits option.splits
        dest!: spool_body_fails)
  with n0 show ?thesis by auto
qed

text \<open>
  C9. When no answer of the server hashes to the pinned value, no byte of it is interpreted: the result
  is an error, the caller's state is untouched, and all this does not depend on the callback.
\<close>

theorem unverified_never_parsed:
  assumes "\<And>t s d b x. net w t url = Reply s d b x \<Longrightarrow> d < 2 ^ 63 - 1 \<and> sha256_hex b \<noteq> pinnedHash"
  shows "\<exists>e w'. \<forall>fn. fetch_and_process free url pinnedHash dir fn (a, w) = (Inl (SManifest e), a, w')"
proof (cases "spool_and_verify free url pinnedHash dir w")
  case (Pair r w1)
  show ?thesis
  proof (cases r)
    case (Inl e)
    with Pair show ?thesis by (auto simp: fetch_and_process_def)
  next
    case (Inr p)
    with spool_ok [OF Pair [unfolded Inr]] assms show ?thesis by blast
  qed
qed

section \<open>Witnesses\<close>

definition demo_url :: string where
  "demo_url = ''https://h/manifest.json''"

definition demo_server :: "bytes \<Rightarrow> os" where
  "demo_server body = (world_of [''/d''] [])\<lparr>net := (\<lambda>_ _. Reply 200 1 body False)\<rparr>"

definition roomy :: volume where
  "roomy t d = None"

lemma demo_spool_name:
  "go_join [''/d'', spool_prefix @ ''r'' @ spool_suffix] = ''/d/pocketnet-node-doctor-manifest-r.spool''"
  "go_dir ''/d/pocketnet-node-doctor-manifest-r.spool'' = ''/d''"
  by code_simp+

lemma demo_quiet: "quiet (demo_server b)"
  by (simp add: demo_server_def quiet_def world_of_def)

lemma demo_reclaim: "reclaim_stale_spools dir (demo_server b) = tick (demo_server b)"
  by (auto simp: reclaim_stale_spools_def remove_matching_def syscall_quiet demo_quiet)
     (auto simp: demo_server_def world_of_def tick_def fun_eq_iff)

lemma demo_spool:
  "spool_and_verify roomy demo_url h ''/d'' (demo_server ''x'') =
     (if sha256_hex ''x'' = h then (Inr ''/d/pocketnet-node-doctor-manifest-r.spool'',
        snd (spool_and_verify roomy demo_url h ''/d'' (demo_server ''x'')))
      else (Inl (TrustRootMismatch (sha256_hex ''x'') h), snd (spool_and_verify roomy demo_url h ''/d'' (demo_server ''x''))))"
proof -
  let ?w = "tick (tick (demo_server ''x''))"
  have q: "quiet ?w" by (simp add: demo_quiet)
  have u: "has_prefix demo_url https_prefix" by code_simp
  have g: "http_get demo_url (tick (demo_server ''x'')) = (Reply 200 1 ''x'' False, ?w)"
    by (simp add: http_get_def demo_server_def tick_def)
  have r: "rnd ?w (ticks ?w) = ''r''" by (simp add: demo_server_def world_of_def)
  have n: "node_at (tick ?w) ''/d/pocketnet-node-doctor-manifest-r.spool'' = None" "is_dir (tick ?w) ''/d''"
    by (simp_all add: demo_server_def world_of_def node_at_def is_dir_def)
  define p :: string where "p = ''/d/pocketnet-node-doctor-manifest-r.spool''"
  obtain i w4 where c: "create_temp ''/d'' spool_prefix spool_suffix ?w = (Inr (p, i), w4)" and q4: "quiet w4"
    using q n r demo_spool_name
    by (simp add: create_temp_def open_excl_def syscall_quiet Let_def p_def)
       (simp add: new_file_def quiet_def)
  have "\<exists>w3. spool_body_to_verified roomy ''x'' False 1 ''/d'' h ?w =
      (if sha256_hex ''x'' = h then (Inr p, w3) else (Inl (TrustRootMismatch (sha256_hex ''x'') h), w3))"
    using c q4 by (auto simp add: spool_body_to_verified_def append_ino_def syscall_quiet os_noop_def Let_def copy_limit_eq split: prod.split)
  then show ?thesis
    using u g by (auto simp: spool_and_verify_def demo_reclaim roomy_def p_def)
qed

lemma demo_declared: "net (demo_server b) t u = Reply s d b' x \<Longrightarrow> d < 2 ^ 63 - 1 \<and> b' = b"
  by (simp add: demo_server_def)

lemma spool_verified_witness:
  "\<exists>p w'. spool_and_verify roomy demo_url (sha256_hex ''x'') ''/d'' (demo_server ''x'') = (Inr p, w')
     \<and> file_data w' p = Some ''x''"
proof -
  obtain p w' where r: "spool_and_verify roomy demo_url (sha256_hex ''x'') ''/d'' (demo_server ''x'') = (Inr p, w')"
    using demo_spool [of "sha256_hex ''x''"] by auto
  obtain t d body where "net (demo_server ''x'') t demo_url = Reply 200 d body False" "file_data w' p = Some body"
    using spool_verified [OF r] demo_declared by blast
  with r demo_declared show ?thesis by blast
qed

lemma failed_spool_leaves_nothing_witness:
  "\<exists>e w'. spool_and_verify roomy demo_url [] ''/d'' (demo_server ''x'') = (Inl e, w') \<and> names w' ''/d/p'' = None"
proof -
  have "sha256_hex ''x'' \<noteq> []" using sha256_hex_length [of "''x''"] by auto
  then obtain e w' where r: "spool_and_verify roomy demo_url [] ''/d'' (demo_server ''x'') = (Inl e, w')"
    using demo_spool [of "[]"] by auto
  have "names (demo_server ''x'') ''/d/p'' = None" by (simp add: demo_server_def world_of_def)
  with failed_spool_leaves_nothing [OF r demo_quiet, of "''/d/p''"] r show ?thesis by auto
qed

lemma unverified_never_parsed_witness:
  "\<exists>e w'. \<forall>fn. fetch_and_process roomy demo_url [] ''/d'' fn ((), demo_server ''x'') = (Inl (SManifest e), (), w')"
  by (rule unverified_never_parsed)
     (use demo_declared sha256_hex_length in \<open>fastforce\<close>)

end
