(* ===== verification/ManifestRoundTrip.thy ===== *)
theory ManifestRoundTrip
  imports ManifestStream PlanRoundTrip
begin

text \<open>
  Reading a manifest in canonical form.  The reference is \<open>run_entries\<close>, a fold of the callback over the
  entries in order; the streaming reader of \<open>ManifestStream\<close>, applied to the canonical text, has exactly
  its result, errors of the callback, rejected paths and refused attributions included.
\<close>

section \<open>The reference\<close>

definition entry_start :: "man_entry \<Rightarrow> entry_header" where
  "entry_start e =
     \<lparr>eh_kind = me_kind e, eh_path = [],
      eh_hash = (if me_kind e = entry_kind_sqlite_pages then [] else me_hash e),
      eh_counter = (if me_kind e = entry_kind_sqlite_pages then me_change_counter e else None), eh_assumed = []\<rparr>"

definition settle :: "entry_header \<Rightarrow> 's \<Rightarrow> ('x stream_err \<times> 's) + 's" where
  "settle hdr s =
     (if eh_assumed hdr \<noteq> [] \<and> eh_path hdr \<noteq> eh_assumed hdr
      then Inl (SManifest (ManifestOther ''wrong-file page attribution''), s) else Inr s)"

definition run_entry :: "('x, 's) processor \<Rightarrow> man_entry \<Rightarrow> 's \<Rightarrow> ('x stream_err \<times> 's) + 's" where
  "run_entry fn e s =
     (if me_kind e = entry_kind_sqlite_pages then
        (case fn (entry_start e) (Some (map Inr (me_pages e))) s of
           (Inl x, s1) \<Rightarrow> Inl (x, s1)
         | (Inr hdr, s1) \<Rightarrow>
             (case validate_entry_path (me_path e) of
                Inl er \<Rightarrow> Inl (SManifest er, s1)
              | Inr _ \<Rightarrow> settle (hdr\<lparr>eh_path := me_path e\<rparr>) s1))
      else
        (case validate_entry_path (me_path e) of
           Inl er \<Rightarrow> Inl (SManifest er, s)
         | Inr _ \<Rightarrow>
             (case fn ((entry_start e)\<lparr>eh_path := me_path e\<rparr>) None s of
                (Inl x, s1) \<Rightarrow> Inl (x, s1) | (Inr hdr, s1) \<Rightarrow> settle hdr s1)))"

fun run_entries :: "('x, 's) processor \<Rightarrow> man_entry list \<Rightarrow> 's \<Rightarrow> ('x stream_err \<times> 's) + 's" where
  "run_entries fn [] s = Inr s"
| "run_entries fn (e # es) s =
     (case run_entry fn e s of Inl x \<Rightarrow> Inl x | Inr s1 \<Rightarrow> run_entries fn es s1)"

section \<open>The canonical text\<close>

declare print_json.simps [simp del]

definition man_page_tree :: "man_page \<Rightarrow> json" where
  "man_page_tree p = JObj [(''hash'', JStr (mp_hash p)), (''offset'', JNum (fmt_int (mp_offset p)))]"

definition entry_members :: "man_entry \<Rightarrow> (string \<times> json) list" where
  "entry_members e =
     (if me_kind e = entry_kind_sqlite_pages then
        (case me_change_counter e of None \<Rightarrow> [] | Some c \<Rightarrow> [(''change_counter'', JNum (fmt_int c))]) @
        [(''entry_kind'', JStr (me_kind e)), (''pages'', JArr (map man_page_tree (me_pages e))),
         (''path'', JStr (me_path e))]
      else [(''entry_kind'', JStr (me_kind e)), (''hash'', JStr (me_hash e)), (''path'', JStr (me_path e))])"

definition man_identity_tree :: "man_identity \<Rightarrow> json" where
  "man_identity_tree c =
     JObj [(''block_height'', JNum (fmt_int (mi_block_height c))), (''created_at'', JStr (mi_created_at c)),
           (''pocketnet_core_version'', JStr (mi_core_version c))]"

definition manifest_members :: "manifest \<Rightarrow> json \<Rightarrow> (string \<times> json) list" where
  "manifest_members m anchors =
     [(''canonical_identity'', man_identity_tree (m_identity m)),
      (''entries'', JArr (map (\<lambda>e. JObj (entry_members e)) (m_entries m))),
      (''format_version'', JNum (fmt_int (m_format_version m))),
      (''trust_anchors'', anchors)]"

definition manifest_text :: "manifest \<Rightarrow> json \<Rightarrow> string" where
  "manifest_text m anchors = print_json False (JObj (manifest_members m anchors))"

definition wf_entry :: "man_entry \<Rightarrow> bool" where
  "wf_entry e \<longleftrightarrow>
     valid_utf8 (me_kind e) \<and> valid_utf8 (me_path e) \<and> valid_utf8 (me_hash e) \<and>
     (\<forall>c. me_change_counter e = Some c \<longrightarrow> int64 c) \<and>
     (\<forall>p \<in> set (me_pages e). int64 (mp_offset p) \<and> valid_utf8 (mp_hash p))"

definition wf_manifest :: "manifest \<Rightarrow> bool" where
  "wf_manifest m \<longleftrightarrow>
     int64 (m_format_version m) \<and> int64 (mi_block_height (m_identity m)) \<and>
     valid_utf8 (mi_core_version (m_identity m)) \<and> valid_utf8 (mi_created_at (m_identity m)) \<and>
     (\<forall>e \<in> set (m_entries m). wf_entry e)"

section \<open>Walking an object member by member\<close>

definition obj_tail :: "(string \<times> json) list \<Rightarrow> string \<Rightarrow> string" where
  "obj_tail ms r = concat (map (\<lambda>m. comma # member_text False m) ms) @ rbrace # r"

lemma stops_tail [simp]: "stops (obj_tail ms r)"
  by (cases ms) (simp_all add: obj_tail_def)

lemma obj_tail_Nil: "obj_tail [] r = rbrace # r"
  by (simp add: obj_tail_def)

lemma obj_tail_Cons: "obj_tail (m # ms) r = comma # member_text False m @ obj_tail ms r"
  by (simp add: obj_tail_def)

lemma print_obj_tail: "print_json False (JObj (m # ms)) @ r = lbrace # member_text False m @ obj_tail ms r"
  unfolding print_obj by (simp add: join_on_concat comp_def obj_tail_def)

context consuming begin

lemma more_first:
  "for_more body s (at (member_text False m @ t) n st sk) =
     (case body s (at (member_text False m @ t) n st sk) of
        Inl e \<Rightarrow> Inl e | Inr (s', d') \<Rightarrow> for_more body s' d')"
  using member_start [of False m t] by (subst unfold_loop) (auto simp: has_more_at)

lemma more_next:
  assumes "\<And>s r n. body s (at (comma # r) n ObjectComma sk) = body s (at r (Suc n) ObjectKey sk)"
  shows "for_more body s (at (obj_tail (m # ms) r) n ObjectComma sk) =
     (case body s (at (member_text False m @ obj_tail ms r) (Suc n) ObjectKey sk) of
        Inl e \<Rightarrow> Inl e | Inr (s', d') \<Rightarrow> for_more body s' d')"
  by (subst unfold_loop) (simp add: has_more_at obj_tail_Cons assms)

lemma more_end: "for_more body s (at (rbrace # r) n st sk) = Inr (s, at (rbrace # r) n st sk)"
  by (subst unfold_loop) (simp add: has_more_at)

text \<open>Arrays whose elements may fail: \<open>S xs\<close> is the outcome after the elements \<open>xs\<close>.\<close>

lemma array_outcome_error:
  assumes "\<And>xs v ys e. vs = xs @ v # ys \<Longrightarrow> S xs = Inl e \<Longrightarrow> S (xs @ [v]) = Inl e"
    and "vs = xs @ ys" and "S xs = Inl e"
  shows "S vs = Inl e"
  using assms(2,3)
proof (induction ys arbitrary: xs)
  case (Cons v ys)
  from assms(1) [OF Cons.prems] Cons.IH [of "xs @ [v]"] Cons.prems(1) show ?case by simp
qed simp

lemma walk_elems_outcome:
  assumes sep: "\<And>s r n. body s (at (comma # r) n ArrayComma sk) = body s (at r (Suc n) ArrayValue sk)"
    and step: "\<And>xs v ys n st r s. vs = xs @ v # ys \<Longrightarrow> st \<in> {ArrayStart, ArrayValue} \<Longrightarrow> stops r \<Longrightarrow> S xs = Inr s \<Longrightarrow>
        \<exists>n'. body s (at (print_json False v @ r) n st sk) =
          (case S (xs @ [v]) of Inl e \<Rightarrow> Inl e | Inr s' \<Rightarrow> Inr (s', at r n' ArrayComma sk))"
    and err: "\<And>xs v ys e. vs = xs @ v # ys \<Longrightarrow> S xs = Inl e \<Longrightarrow> S (xs @ [v]) = Inl e"
    and "vs = xs @ ys" and "S xs = Inr s"
  shows "\<exists>n'. for_more body s (at (elems_text False ys @ rbrack # r) n ArrayComma sk) =
     (case S vs of Inl e \<Rightarrow> Inl e | Inr s' \<Rightarrow> Inr (s', at (rbrack # r) n' ArrayComma sk))"
  using assms(4,5)
proof (induction ys arbitrary: xs n s)
  case Nil
  then show ?case by (subst unfold_loop) (simp add: has_more_at)
next
  case (Cons v ys)
  let ?r = "elems_text False ys @ rbrack # r"
  obtain n' where b: "body s (at (comma # print_json False v @ ?r) n ArrayComma sk) =
      (case S (xs @ [v]) of Inl e \<Rightarrow> Inl e | Inr s' \<Rightarrow> Inr (s', at ?r n' ArrayComma sk))"
    unfolding sep using step [of xs v ys ArrayValue ?r s "Suc n"] Cons.prems stops_elems by auto
  show ?case
  proof (cases "S (xs @ [v])")
    case (Inl e)
    have "S vs = Inl e"
      by (rule array_outcome_error [where xs = "xs @ [v]" and ys = ys and S = S])
         (erule (1) err, simp add: Cons.prems(1), rule Inl)
    with Inl b show ?thesis by (subst unfold_loop) (simp add: has_more_at)
  next
    case (Inr s')
    from Cons.IH [of "xs @ [v]" s' n'] Cons.prems(1) Inr b
    show ?thesis by (subst unfold_loop) (simp add: has_more_at)
  qed
qed

lemma walk_array_outcome:
  assumes sep: "\<And>s r n. body s (at (comma # r) n ArrayComma sk) = body s (at r (Suc n) ArrayValue sk)"
    and step: "\<And>xs v ys n st r s. vs = xs @ v # ys \<Longrightarrow> st \<in> {ArrayStart, ArrayValue} \<Longrightarrow> stops r \<Longrightarrow> S xs = Inr s \<Longrightarrow>
        \<exists>n'. body s (at (print_json False v @ r) n st sk) =
          (case S (xs @ [v]) of Inl e \<Rightarrow> Inl e | Inr s' \<Rightarrow> Inr (s', at r n' ArrayComma sk))"
    and err: "\<And>xs v ys e. vs = xs @ v # ys \<Longrightarrow> S xs = Inl e \<Longrightarrow> S (xs @ [v]) = Inl e"
    and w: "\<And>v. v \<in> set vs \<Longrightarrow> writable d v" and "S [] = Inr s"
  shows "\<exists>n' st'. st' \<in> {ArrayStart, ArrayComma} \<and>
     for_more body s (at (array_text False vs @ rbrack # r) n ArrayStart sk) =
     (case S vs of Inl e \<Rightarrow> Inl e | Inr s' \<Rightarrow> Inr (s', at (rbrack # r) n' st' sk))"
proof (cases vs)
  case Nil
  with assms(5) show ?thesis by (subst unfold_loop) (simp add: has_more_at)
next
  case (Cons v ys)
  let ?r = "elems_text False ys @ rbrack # r"
  have t: "array_text False vs @ rbrack # r = print_json False v @ ?r"
    by (simp add: Cons join_on_concat comp_def)
  obtain n1 where b: "body s (at (print_json False v @ ?r) n ArrayStart sk) =
      (case S [v] of Inl e \<Rightarrow> Inl e | Inr s' \<Rightarrow> Inr (s', at ?r n1 ArrayComma sk))"
    using step [of "[]" v ys ArrayStart ?r s n] Cons stops_elems assms(5) by auto
  have m: "has_more (at (print_json False v @ ?r) n ArrayStart sk)"
    using print_start [OF w, of v False ?r] Cons by (auto simp: has_more_at)
  show ?thesis
  proof (cases "S [v]")
    case (Inl e)
    have "S vs = Inl e"
      by (rule array_outcome_error [where xs = "[v]" and ys = ys and S = S])
         (erule (1) err, simp add: Cons, rule Inl)
    with Inl b m show ?thesis unfolding t by (subst unfold_loop) auto
  next
    case (Inr s')
    have "\<exists>n2. for_more body s' (at ?r n1 ArrayComma sk) =
        (case S vs of Inl e \<Rightarrow> Inl e | Inr s' \<Rightarrow> Inr (s', at (rbrack # r) n2 ArrayComma sk))"
      by (rule walk_elems_outcome [where xs = "[v]"])
         (rule sep, erule (3) step, erule (1) err, simp add: Cons, rule Inr)
    then obtain n2 where "for_more body s' (at ?r n1 ArrayComma sk) =
        (case S vs of Inl e \<Rightarrow> Inl e | Inr s' \<Rightarrow> Inr (s', at (rbrack # r) n2 ArrayComma sk))" by blast
    with Inr b m show ?thesis unfolding t by (subst unfold_loop) auto
  qed
qed

end

section \<open>Pages\<close>

lemma man_keys [simp]:
  "sanitize ''change_counter'' = ''change_counter''" "sanitize ''entry_kind'' = ''entry_kind''"
  "sanitize ''hash'' = ''hash''" "sanitize ''entries'' = ''entries''"
  "sanitize ''trust_anchors'' = ''trust_anchors''" "sanitize ''created_at'' = ''created_at''"
  by (rule sanitize_ascii_string, simp)+

lemma into_man_page_tree:
  assumes "int64 (mp_offset p)" and "valid_utf8 (mp_hash p)"
  shows "into_man_page (sanitize_json (man_page_tree p)) = Some p"
  using assms
  by (simp add: man_page_tree_def into_man_page_def into_struct_def find_field_def store_man_page_def
      into_string_def into_int64_fmt sanitize_valid)

lemma writable_man_page: "int64 (mp_offset p) \<Longrightarrow> writable (Suc n) (man_page_tree p)"
  by (auto simp: man_page_tree_def int64_def)

definition wf_pages :: "man_page list \<Rightarrow> bool" where
  "wf_pages ps \<longleftrightarrow> (\<forall>p \<in> set ps. int64 (mp_offset p) \<and> valid_utf8 (mp_hash p))"

lemma pages_iter_canon:
  assumes "wf_pages ps"
  shows "\<exists>n' st'. st' \<in> {ArrayStart, ArrayComma} \<and>
     make_pages_iter (at (array_text False (map man_page_tree ps) @ rbrack # r) n ArrayStart sk) =
       (map Inr ps, Some (at (rbrack # r) n' st' sk))"
proof -
  let ?vs = "map man_page_tree ps"
  let ?S = "\<lambda>xs :: json list. map Inr (take (length xs) ps) :: page_iter"
  have "for_more man_page_element (?S []) (at (array_text False ?vs @ rbrack # r) n ArrayStart sk) =
      Inr (?S ?vs, at (rbrack # r) (n + length (array_text False ?vs)) (if ?vs = [] then ArrayStart else ArrayComma) sk)"
  proof (rule man_page_elem.walk_array [where S = ?S])
    show "man_page_element s (at (comma # r) n ArrayComma sk) = man_page_element s (at r (Suc n) ArrayValue sk)" for s r n
      by (simp add: man_page_element_def decode_sep)
  next
    fix xs v ys k st and r :: string
    assume vs: "?vs = xs @ v # ys" and st: "st \<in> {ArrayStart, ArrayValue}" "stops r"
    let ?p = "ps ! length xs"
    note sp = array_split [OF vs]
    have p: "int64 (mp_offset ?p)" "valid_utf8 (mp_hash ?p)" using assms sp(2) by (simp_all add: wf_pages_def)
    have "writable max_depth v" unfolding max_depth_Suc sp(1) by (rule writable_man_page [OF p(1)])
    then show "man_page_element (?S xs) (at (print_json False v @ r) k st sk) =
        Inr (?S (xs @ [v]), at r (k + length (print_json False v)) ArrayComma sk)"
      using st sp into_man_page_tree [OF p] by (auto simp: man_page_element_def decode_print)
  qed (use assms writable_man_page [of _ 0] in \<open>auto simp: wf_pages_def\<close>)
  then show ?thesis by (simp add: make_pages_iter_def) 
qed

lemma drain_at_end:
  "st \<in> {ArrayStart, ArrayComma} \<Longrightarrow>
   drain_to_array_end (at (rbrack # r) n st (st' # sk)) = Some (at r (Suc n) (value_end st') sk)"
proof -
  assume "st \<in> {ArrayStart, ArrayComma}"
  moreover have "for_more drop_value () (at (rbrack # r) n st (st' # sk)) = Inr ((), at (rbrack # r) n st (st' # sk))"
    by (subst drop_elem.unfold_loop) (simp add: has_more_at)
  ultimately show ?thesis by (simp add: drain_to_array_end_def expect_close_arr)
qed

section \<open>One entry\<close>

lemma entry_member_sep:
  "entry_member fn st (at (comma # r) n ObjectComma sk) = entry_member fn st (at r (Suc n) ObjectKey sk)"
  by (simp add: entry_member_def read_key_sep)

lemma decode_str:
  "stops r \<Longrightarrow> decode_into f (at (colon # enc_str False k @ r) n ObjectColon sk) =
     map_option (\<lambda>x. (x, at r (Suc n + length (enc_str False k)) ObjectComma sk)) (f (JStr (sanitize k)))"
  using member_decode [of "JStr k" r f n sk] by (simp add: print_json.simps)

lemma decode_int:
  "int64 i \<Longrightarrow> stops r \<Longrightarrow> decode_into f (at (colon # fmt_int i @ r) n ObjectColon sk) =
     map_option (\<lambda>x. (x, at r (Suc n + length (fmt_int i)) ObjectComma sk)) (f (JNum (fmt_int i)))"
  using member_decode [of "JNum (fmt_int i)" r f n sk] by (auto simp: print_json.simps int64_def)

text \<open>The effect of each member on the loop variables.\<close>

lemma entry_scalar_members:
  assumes "st \<in> {ObjectStart, ObjectKey}" and "stops r"
  shows "int64 c \<Longrightarrow> entry_member fn (hdr, b, s) (at (member_text False (''change_counter'', JNum (fmt_int c)) @ r) n st sk) =
      Inr ((hdr\<lparr>eh_counter := Some c\<rparr>, b, s), at r (n + length (member_text False (''change_counter'', JNum (fmt_int c)))) ObjectComma sk)"
    and "valid_utf8 k \<Longrightarrow> entry_member fn (hdr, b, s) (at (member_text False (''entry_kind'', JStr k) @ r) n st sk) =
      Inr ((hdr\<lparr>eh_kind := k\<rparr>, b, s), at r (n + length (member_text False (''entry_kind'', JStr k))) ObjectComma sk)"
    and "valid_utf8 k \<Longrightarrow> entry_member fn (hdr, b, s) (at (member_text False (''hash'', JStr k) @ r) n st sk) =
      Inr ((hdr\<lparr>eh_hash := k\<rparr>, b, s), at r (n + length (member_text False (''hash'', JStr k))) ObjectComma sk)"
    and "valid_utf8 k \<Longrightarrow> entry_member fn (hdr, b, s) (at (member_text False (''path'', JStr k) @ r) n st sk) =
      (case validate_entry_path k of Inl e \<Rightarrow> Inl (SManifest e, s)
       | Inr _ \<Rightarrow> Inr ((hdr\<lparr>eh_path := k\<rparr>, b, s), at r (n + length (member_text False (''path'', JStr k))) ObjectComma sk))"
  using assms
  by (simp_all add: entry_member_def member_read_key member_length print_json.simps decode_str decode_int
      into_int64_fmt into_string_def sanitize_valid split: sum.split)

lemma entry_pages_member:
  assumes "wf_pages ps" and "eh_kind hdr = entry_kind_sqlite_pages" and "st \<in> {ObjectStart, ObjectKey}"
  shows "\<exists>n'. entry_member fn (hdr, b, s) (at (member_text False (''pages'', JArr (map man_page_tree ps)) @ r) n st sk) =
     (case fn hdr (Some (map Inr ps)) s of
        (Inl e, s1) \<Rightarrow> Inl (e, s1) | (Inr hdr1, s1) \<Rightarrow> Inr ((hdr1, True, s1), at r n' ObjectComma sk))"
proof -
  let ?k = "n + length (enc_str False ''pages'')"
  obtain n' st' where it: "st' \<in> {ArrayStart, ArrayComma}"
    "make_pages_iter (at (array_text False (map man_page_tree ps) @ rbrack # r) (Suc (Suc ?k)) ArrayStart (ObjectValue # sk)) =
       (map Inr ps, Some (at (rbrack # r) n' st' (ObjectValue # sk)))"
    using pages_iter_canon [OF assms(1)] by blast
  show ?thesis
    using it assms(2,3) drain_at_end [OF it(1)]
    by (simp add: entry_member_def entry_pages_def member_read_key print_arr expect_sep expect_open_arr
        split: prod.split sum.split)
qed

lemmas entry_walk = entry_mem.more_first entry_mem.more_next [OF entry_member_sep] entry_mem.more_end obj_tail_Nil

lemma stream_entry_canon:
  assumes "wf_entry e" and "st \<in> {ArrayStart, ArrayValue}" and "stops r"
  shows "\<exists>n'. stream_entry fn s (at (print_json False (JObj (entry_members e)) @ r) n st sk) =
     (case run_entry fn e s of Inl x \<Rightarrow> Inl x | Inr s1 \<Rightarrow> Inr (s1, at r n' ArrayComma sk))"
proof -
  have v: "value_allowed st" "value_end st = ArrayComma" using assms(2) by auto
  have ve: "valid_utf8 (me_kind e)" "valid_utf8 (me_path e)" "valid_utf8 (me_hash e)"
      "\<And>c. me_change_counter e = Some c \<Longrightarrow> int64 c" "wf_pages (me_pages e)"
    using assms(1) by (simp_all add: wf_entry_def wf_pages_def)
  let ?sk = "st # sk"
  show ?thesis
  proof (cases "me_kind e = entry_kind_sqlite_pages")
    case False
    show ?thesis
      using False v ve
      by (simp add: entry_members_def print_obj_tail stream_entry_def expect_open_obj entry_walk
          entry_scalar_members expect_close_obj run_entry_def settle_def entry_start_def zero_entry_header_def
          split: sum.split prod.split)
  next
    case True
    define hdr where "hdr = entry_start e"
    have hk: "eh_kind hdr = entry_kind_sqlite_pages" using True by (simp add: hdr_def entry_start_def)
    have pg: "\<exists>n'. entry_member fn (hdr, b, s) (at (member_text False (''pages'', JArr (map man_page_tree (me_pages e))) @ t) m st' ?sk) =
       (case fn hdr (Some (map Inr (me_pages e))) s of
          (Inl e, s1) \<Rightarrow> Inl (e, s1) | (Inr hdr1, s1) \<Rightarrow> Inr ((hdr1, True, s1), at t n' ObjectComma ?sk))"
      if "st' \<in> {ObjectStart, ObjectKey}" for b m t st'
      using entry_pages_member [OF ve(5) hk that] .
    have rest: "\<exists>n'. (case for_more (entry_member fn) (hdr, False, s)
            (at (obj_tail [(''pages'', JArr (map man_page_tree (me_pages e))), (''path'', JStr (me_path e))] r) k ObjectComma ?sk) of
          Inl e \<Rightarrow> Inl e
        | Inr ((hdr, called, s1), d2) \<Rightarrow>
            (case expect_delim rbrace d2 of
               None \<Rightarrow> Inl (decode_failed, s1)
             | Some d3 \<Rightarrow>
                 (case (if called then (Inr hdr, s1) else fn hdr None s1) of
                    (Inl e, s2) \<Rightarrow> Inl (e, s2)
                  | (Inr hdr2, s2) \<Rightarrow>
                      if eh_assumed hdr2 \<noteq> [] \<and> eh_path hdr2 \<noteq> eh_assumed hdr2
                      then Inl (SManifest (ManifestOther ''wrong-file page attribution''), s2)
                      else Inr (s2, d3)))) =
        (case run_entry fn e s of Inl x \<Rightarrow> Inl x | Inr s1 \<Rightarrow> Inr (s1, at r n' ArrayComma sk))" for k
    proof -
      obtain n1 where n1: "entry_member fn (hdr, False, s) (at (member_text False (''pages'', JArr (map man_page_tree (me_pages e)))
            @ obj_tail [(''path'', JStr (me_path e))] r) (Suc k) ObjectKey ?sk) =
          (case fn hdr (Some (map Inr (me_pages e))) s of
            (Inl e, s1) \<Rightarrow> Inl (e, s1)
          | (Inr hdr1, s1) \<Rightarrow> Inr ((hdr1, True, s1), at (obj_tail [(''path'', JStr (me_path e))] r) n1 ObjectComma ?sk))"
        using pg [of ObjectKey] by blast
      obtain x s1 where fx: "fn hdr (Some (map Inr (me_pages e))) s = (x, s1)" by fastforce
      show ?thesis
        using v ve True fx n1 unfolding run_entry_def hdr_def [symmetric]
        by (cases x) (simp_all add: entry_walk entry_scalar_members expect_close_obj settle_def split: sum.split)
    qed
    show ?thesis
    proof (cases "me_change_counter e")
      case None
      then have h: "zero_entry_header\<lparr>eh_kind := entry_kind_sqlite_pages\<rparr> = hdr"
        using True by (simp add: hdr_def entry_start_def zero_entry_header_def)
      show ?thesis
        using True None v ve rest
        by (simp add: entry_members_def print_obj_tail stream_entry_def expect_open_obj entry_mem.more_first
            entry_scalar_members h)
    next
      case (Some c)
      then have h: "zero_entry_header\<lparr>eh_counter := Some c, eh_kind := entry_kind_sqlite_pages\<rparr> = hdr"
        using True by (simp add: hdr_def entry_start_def zero_entry_header_def)
      show ?thesis
        using True Some v ve rest
        by (simp add: entry_members_def print_obj_tail stream_entry_def expect_open_obj entry_mem.more_first
            entry_mem.more_next [OF entry_member_sep, of _ _ "(''entry_kind'', JStr entry_kind_sqlite_pages)"]
            entry_scalar_members h)
    qed
  qed
qed

section \<open>The document\<close>

lemma run_entries_snoc:
  "run_entries fn (es @ [e]) s = (case run_entries fn es s of Inl x \<Rightarrow> Inl x | Inr s1 \<Rightarrow> run_entry fn e s1)"
  by (induction es arbitrary: s) (auto split: sum.split)

lemma writable_entry: "wf_entry e \<Longrightarrow> writable (Suc (Suc (Suc n))) (JObj (entry_members e))"
  by (auto simp: entry_members_def wf_entry_def int64_def writable_man_page split: option.split) metis

lemma stream_entries_canon:
  assumes "\<forall>e \<in> set es. wf_entry e"
  shows "\<exists>n'. stream_entries fn s (at (colon # print_json False (JArr (map (\<lambda>e. JObj (entry_members e)) es)) @ r) n ObjectColon sk) =
     (case run_entries fn es s of Inl x \<Rightarrow> Inl x | Inr s1 \<Rightarrow> Inr (s1, at r n' ObjectComma sk))"
proof -
  let ?vs = "map (\<lambda>e. JObj (entry_members e)) es" and ?sk = "ObjectValue # sk"
  let ?S = "\<lambda>xs :: json list. run_entries fn (take (length xs) es) s"
  have "\<exists>n' st'. st' \<in> {ArrayStart, ArrayComma} \<and>
      for_more (stream_entry fn) s (at (array_text False ?vs @ rbrack # r) (Suc (Suc n)) ArrayStart ?sk) =
      (case ?S ?vs of Inl e \<Rightarrow> Inl e | Inr s' \<Rightarrow> Inr (s', at (rbrack # r) n' st' ?sk))"
  proof (rule entries_elem.walk_array_outcome [where S = ?S and d = "Suc (Suc (Suc 0))"])
    show "stream_entry fn s (at (comma # r) n ArrayComma ?sk) = stream_entry fn s (at r (Suc n) ArrayValue ?sk)" for s r n
      by (simp add: stream_entry_def expect_sep)
  next
    fix xs v ys k st s1 and r :: string
    assume vs: "?vs = xs @ v # ys" and st: "st \<in> {ArrayStart, ArrayValue}" "stops r" and S: "?S xs = Inr s1"
    note sp = array_split [OF vs]
    have e: "wf_entry (es ! length xs)" using assms sp(2) by simp
    obtain n' where "stream_entry fn s1 (at (print_json False v @ r) k st ?sk) =
        (case run_entry fn (es ! length xs) s1 of Inl x \<Rightarrow> Inl x | Inr s1 \<Rightarrow> Inr (s1, at r n' ArrayComma ?sk))"
      using stream_entry_canon [OF e st, where fn = fn and s = s1 and n = k and sk = ?sk] unfolding sp(1) by blast
    then show "\<exists>n'. stream_entry fn s1 (at (print_json False v @ r) k st ?sk) =
        (case ?S (xs @ [v]) of Inl e \<Rightarrow> Inl e | Inr s' \<Rightarrow> Inr (s', at r n' ArrayComma ?sk))"
      using S sp(3) by (auto simp: run_entries_snoc)
  next
    fix xs v ys e
    assume vs: "?vs = xs @ v # ys" and "?S xs = Inl e"
    then show "?S (xs @ [v]) = Inl e" using array_split(3) [OF vs] by (simp add: run_entries_snoc)
  next
    show "v \<in> set ?vs \<Longrightarrow> writable (Suc (Suc (Suc 0))) v" for v using assms writable_entry by auto
  qed simp
  then obtain n' st' where st': "st' \<in> {ArrayStart, ArrayComma}" and
    w: "for_more (stream_entry fn) s (at (array_text False ?vs @ rbrack # r) (Suc (Suc n)) ArrayStart ?sk) =
      (case run_entries fn es s of Inl e \<Rightarrow> Inl e | Inr s' \<Rightarrow> Inr (s', at (rbrack # r) n' st' ?sk))" by auto
  show ?thesis
    using st' w
    by (auto simp: stream_entries_def print_arr expect_sep expect_open_arr expect_close_arr split: sum.split)
qed

lemma raw_value_at:
  assumes "writable d j"
  shows "raw_value (at (colon # print_json False j @ r) n ObjectColon sk) (at r n' st sk') = print_json False j"
proof -
  obtain c t where "print_json False j = c # t" "\<not> is_ws c" using print_start [OF assms, of False "[]"] by auto
  then show ?thesis by (simp add: raw_value_def Let_def)
qed

definition header_of_manifest :: "manifest \<Rightarrow> json \<Rightarrow> man_header" where
  "header_of_manifest m anchors =
     \<lparr>mh_version = m_format_version m, mh_identity = m_identity m, mh_trust = print_json False anchors\<rparr>"

lemma manifest_member_sep:
  "manifest_member fn st (at (comma # r) n ObjectComma sk) = manifest_member fn st (at r (Suc n) ObjectKey sk)"
  by (simp add: manifest_member_def read_key_sep)

lemma into_man_identity_tree:
  assumes "int64 (mi_block_height c)" and "valid_utf8 (mi_core_version c)" and "valid_utf8 (mi_created_at c)"
  shows "into_man_identity c0 (sanitize_json (man_identity_tree c)) = Some c"
  using assms
  by (simp add: man_identity_tree_def into_man_identity_def into_struct_def find_field_def store_man_identity_def
      into_string_def into_int64_fmt sanitize_valid)

lemma writable_man_identity: "int64 (mi_block_height c) \<Longrightarrow> writable max_depth (man_identity_tree c)"
  by (auto simp: man_identity_tree_def int64_def max_depth_def)

lemma manifest_members_step:
  assumes "wf_manifest m" and "writable max_depth anchors" and "st \<in> {ObjectStart, ObjectKey}" and "stops r"
  shows "\<exists>n'. manifest_member fn (hdr, s) (at (member_text False (''canonical_identity'', man_identity_tree (m_identity m)) @ r) n st sk) =
      Inr ((hdr\<lparr>mh_identity := m_identity m\<rparr>, s), at r n' ObjectComma sk)"
    and "\<exists>n'. manifest_member fn (hdr, s) (at (member_text False (''entries'', JArr (map (\<lambda>e. JObj (entry_members e)) (m_entries m))) @ r) n st sk) =
      (case run_entries fn (m_entries m) s of Inl x \<Rightarrow> Inl x | Inr s1 \<Rightarrow> Inr ((hdr, s1), at r n' ObjectComma sk))"
    and "\<exists>n'. manifest_member fn (hdr, s) (at (member_text False (''format_version'', JNum (fmt_int (m_format_version m))) @ r) n st sk) =
      Inr ((hdr\<lparr>mh_version := m_format_version m\<rparr>, s), at r n' ObjectComma sk)"
    and "\<exists>n'. manifest_member fn (hdr, s) (at (member_text False (''trust_anchors'', anchors) @ r) n st sk) =
      Inr ((hdr\<lparr>mh_trust := print_json False anchors\<rparr>, s), at r n' ObjectComma sk)"
proof -
  have m: "int64 (m_format_version m)" "int64 (mi_block_height (m_identity m))" "valid_utf8 (mi_core_version (m_identity m))"
      "valid_utf8 (mi_created_at (m_identity m))" "\<forall>e \<in> set (m_entries m). wf_entry e"
    using assms(1) by (simp_all add: wf_manifest_def)
  show "\<exists>n'. manifest_member fn (hdr, s) (at (member_text False (''canonical_identity'', man_identity_tree (m_identity m)) @ r) n st sk) =
      Inr ((hdr\<lparr>mh_identity := m_identity m\<rparr>, s), at r n' ObjectComma sk)"
    using assms(3,4) m into_man_identity_tree [OF m(2,3,4)]
    by (simp add: manifest_member_def member_read_key member_decode writable_man_identity)
  show "\<exists>n'. manifest_member fn (hdr, s) (at (member_text False (''format_version'', JNum (fmt_int (m_format_version m))) @ r) n st sk) =
      Inr ((hdr\<lparr>mh_version := m_format_version m\<rparr>, s), at r n' ObjectComma sk)"
    using assms(3,4) m by (simp add: manifest_member_def member_read_key print_json.simps decode_int into_int64_fmt)
  show "\<exists>n'. manifest_member fn (hdr, s) (at (member_text False (''trust_anchors'', anchors) @ r) n st sk) =
      Inr ((hdr\<lparr>mh_trust := print_json False anchors\<rparr>, s), at r n' ObjectComma sk)"
    using assms(2,3,4) by (simp add: manifest_member_def member_read_key decode_sep decode_print raw_value_at)
  show "\<exists>n'. manifest_member fn (hdr, s) (at (member_text False (''entries'', JArr (map (\<lambda>e. JObj (entry_members e)) (m_entries m))) @ r) n st sk) =
      (case run_entries fn (m_entries m) s of Inl x \<Rightarrow> Inl x | Inr s1 \<Rightarrow> Inr ((hdr, s1), at r n' ObjectComma sk))"
  proof -
    obtain n' where "stream_entries fn s (at (colon # print_json False (JArr (map (\<lambda>e. JObj (entry_members e)) (m_entries m))) @ r)
        (n + length (enc_str False ''entries'')) ObjectColon sk) =
      (case run_entries fn (m_entries m) s of Inl x \<Rightarrow> Inl x | Inr s1 \<Rightarrow> Inr (s1, at r n' ObjectComma sk))"
      using stream_entries_canon [OF m(5), where fn = fn and s = s and sk = sk and r = r
          and n = "n + length (enc_str False ''entries'')"] by blast
    then show ?thesis
      using assms(3) by (auto simp: manifest_member_def member_read_key split: sum.split)
  qed
qed

lemma stream_manifest_text:
  assumes "wf_manifest m" and "writable max_depth anchors"
  shows "stream_manifest fn s (new_decoder (manifest_text m anchors)) =
     (case run_entries fn (m_entries m) s of
        Inl (e, s1) \<Rightarrow> (Inl e, s1) | Inr s1 \<Rightarrow> (Inr (header_of_manifest m anchors), s1))"
proof -
  note step = manifest_members_step [OF assms, where fn = fn and sk = "[TopValue]"]
  note walk = manifest_mem.more_first manifest_mem.more_next [OF manifest_member_sep] manifest_mem.more_end obj_tail_Nil
  let ?m1 = "(''canonical_identity'', man_identity_tree (m_identity m))"
    and ?m2 = "(''entries'', JArr (map (\<lambda>e. JObj (entry_members e)) (m_entries m)))"
    and ?m3 = "(''format_version'', JNum (fmt_int (m_format_version m)))"
    and ?m4 = "(''trust_anchors'', anchors)"
  define h1 where "h1 = zero_man_header\<lparr>mh_identity := m_identity m\<rparr>"
  define h2 where "h2 = h1\<lparr>mh_version := m_format_version m\<rparr>"
  have h3: "h2\<lparr>mh_trust := print_json False anchors\<rparr> = header_of_manifest m anchors"
    by (simp add: h2_def h1_def zero_man_header_def header_of_manifest_def)
  obtain n1 where 1: "manifest_member fn (zero_man_header, s) (at (member_text False ?m1 @ obj_tail [?m2, ?m3, ?m4] []) 1 ObjectStart [TopValue]) =
      Inr ((h1, s), at (obj_tail [?m2, ?m3, ?m4] []) n1 ObjectComma [TopValue])"
    using step(1) [of ObjectStart "obj_tail [?m2, ?m3, ?m4] []" zero_man_header s 1] by (auto simp: h1_def)
  obtain n2 where 2: "manifest_member fn (h1, s) (at (member_text False ?m2 @ obj_tail [?m3, ?m4] []) (Suc n1) ObjectKey [TopValue]) =
      (case run_entries fn (m_entries m) s of Inl x \<Rightarrow> Inl x | Inr s1 \<Rightarrow> Inr ((h1, s1), at (obj_tail [?m3, ?m4] []) n2 ObjectComma [TopValue]))"
    using step(2) [of ObjectKey "obj_tail [?m3, ?m4] []" h1 s "Suc n1"] by auto
  show ?thesis
  proof (cases "run_entries fn (m_entries m) s")
    case (Inl x)
    then show ?thesis
      using 1 2 by (cases x) (simp add: stream_manifest_def manifest_text_def manifest_members_def new_decoder_at
          print_obj_tail [where r = "[]", simplified] expect_open_obj walk)
  next
    case (Inr s1)
    obtain n3 where 3: "manifest_member fn (h1, s1) (at (member_text False ?m3 @ obj_tail [?m4] []) (Suc n2) ObjectKey [TopValue]) =
        Inr ((h2, s1), at (obj_tail [?m4] []) n3 ObjectComma [TopValue])"
      using step(3) [of ObjectKey "obj_tail [?m4] []" h1 s1 "Suc n2"] by (auto simp: h2_def)
    obtain n4 where 4: "manifest_member fn (h2, s1) (at (member_text False ?m4 @ obj_tail [] []) (Suc n3) ObjectKey [TopValue]) =
        Inr ((header_of_manifest m anchors, s1), at (obj_tail [] []) n4 ObjectComma [TopValue])"
      using step(4) [of ObjectKey "obj_tail [] []" h2 s1 "Suc n3"] h3 by auto
    show ?thesis
      using 1 2 3 4 Inr
      by (simp add: stream_manifest_def manifest_text_def manifest_members_def new_decoder_at
          print_obj_tail [where r = "[]", simplified] expect_open_obj walk expect_close_obj)
  qed
qed

end
