(* ===== verification/PlanProps.thy ===== *)
theory PlanProps
  imports PlanEmit "HOL-Library.Multiset"
begin

text \<open>
  What the plan file promises: the streaming checks agree with the whole-struct ones, a plan that
  was emitted is accepted, canonical text does not depend on member order, and how much of a file
  the self-hash really covers.
\<close>

section \<open>The two self-hash checks\<close>

lemma payload_prefix: "take (length (payload_text p)) (plan_text p) = payload_text p"
  by (simp add: plan_text_payload)

lemma verify_streaming_eq:
  assumes "wf_plan p" and "quiet w" and "file_data w f = Some (plan_text p)"
  shows "fst (verify_self_hash_streaming f w) =
     (let c = sha256_hex (payload_text p @ [rbrace]) in
      if c \<noteq> sanitize (p_self_hash p) then Inl (SelfHashMismatch c (sanitize (p_self_hash p))) else Inr ())"
proof -
  have "read_file f w = (Inr (plan_text p), tick w)" "read_file f (tick w) = (Inr (plan_text p), tick (tick w))"
    using assms(2,3) by (auto intro!: read_file_quiet)
  moreover have "\<not> length (plan_text p) < length (payload_text p)" by (simp add: plan_text_payload)
  ultimately show ?thesis
    by (simp add: verify_self_hash_streaming_def locate_plan_text [OF assms(1)] hash_prefix_def payload_prefix Let_def)
qed

text \<open>
  C27. \<open>VerifySelfHashStreaming\<close>, which hashes a byte prefix of the file, gives the verdict of
  \<open>VerifySelfHash\<close>, which re-serialises the whole plan, on every file that \<open>plan.Marshal\<close> wrote.
\<close>

theorem verify_streaming_agrees:
  assumes "wf_plan p" and "valid_utf8 (p_self_hash p)" and "quiet w" and "plan_marshal p = Some text"
    and "file_data w f = Some text"
  shows "fst (verify_self_hash_streaming f w) = verify_self_hash p"
proof -
  have "file_data w f = Some (plan_text p)" using assms(1,4,5) by (simp add: plan_marshal_text)
  from verify_streaming_eq [OF assms(1,3) this] show ?thesis
    by (simp add: verify_self_hash_def compute_self_hash_text [OF assms(1)] sanitize_valid [OF assms(2)] Let_def)
qed

definition demo_identity :: canonical_identity where
  "demo_identity = \<lparr>ci_block_height = 7, ci_manifest_hash = ''m'', ci_core_version = ''v''\<rparr>"

definition demo_div :: divergence where
  "demo_div = sqlite_divergence ''pocketdb/main.sqlite3''
     [\<lparr>pp_offset = 0, pp_hash = sha256_hex []\<rparr>, \<lparr>pp_offset = 4096, pp_hash = sha256_hex ''a''\<rparr>]"

definition demo_plan :: plan where
  "demo_plan = emitted_plan demo_identity ''http://h/manifest.json'' ''/d/pocketdb'' [demo_div]"

lemma wf_emitted: "int64 (ci_block_height ci) \<Longrightarrow> \<forall>d \<in> set ds. wf_divergence d \<Longrightarrow> wf_plan (emitted_plan ci url path ds)"
  by (simp add: wf_plan_def emitted_plan_def Let_def int64_def plan_format_version_def)

lemma wf_demo: "wf_plan demo_plan" "wf_divergence demo_div" "int64 (ci_block_height demo_identity)"
proof -
  show "wf_divergence demo_div" "int64 (ci_block_height demo_identity)"
    by (simp_all add: wf_divergence_def demo_div_def sqlite_divergence_def int64_def demo_identity_def)
  then show "wf_plan demo_plan" unfolding demo_plan_def by (intro wf_emitted) auto
qed

lemma valid_hex: "valid_utf8 (sha256_hex x)"
  using valid_utf8_sanitize [of "sha256_hex x"] by (simp add: sanitize_hex)

lemma demo_file_data: "file_data (world_of [''/d''] [(''/d/plan.json'', t)]) ''/d/plan.json'' = Some t"
  by (simp add: world_of_def file_data_def node_at_def)

lemma verify_streaming_agrees_witness:
  "fst (verify_self_hash_streaming ''/d/plan.json'' (world_of [''/d''] [(''/d/plan.json'', plan_text demo_plan)])) = Inr ()"
proof -
  have "verify_self_hash demo_plan = Inr ()"
    using compute_self_hash_text [OF wf_demo(1)] self_hash_emitted
    by (simp add: verify_self_hash_def demo_plan_def)
  then show ?thesis
    using verify_streaming_agrees [OF wf_demo(1) _ quiet_world_of plan_marshal_text [OF wf_demo(1)] demo_file_data]
      valid_hex by (simp add: demo_plan_def self_hash_emitted)
qed

section \<open>A written plan is read back\<close>

lemma emitted_passes:
  assumes "int64 (ci_block_height ci)" and "\<forall>d \<in> set ds. wf_divergence d"
    and "\<forall>h \<in> set (headers_of ds). validate_header_shape h = Inr ()"
    and "valid_utf8 url" and "valid_utf8 path"
    and "valid_utf8 (ci_manifest_hash ci)" and "valid_utf8 (ci_core_version ci)"
  shows "gate_format_version (plan_text (emitted_plan ci url path ds)) =
       Inr \<lparr>ph_version = plan_format_version, ph_identity = ci, ph_url = url, ph_path = path,
            ph_self = p_self_hash (emitted_plan ci url path ds)\<rparr>"
    and "quiet w \<Longrightarrow> file_data w f = Some (plan_text (emitted_plan ci url path ds)) \<Longrightarrow>
       fst (verify_self_hash_streaming f w) = Inr ()"
    and "stream_divergence_headers (plan_text (emitted_plan ci url path ds)) = Inr (headers_of ds)"
    and "stream_sqlite_pages (plan_text (emitted_plan ci url path ds)) = (events_of ds, None)"
proof -
  let ?p = "emitted_plan ci url path ds"
  have wf: "wf_plan ?p" using wf_emitted [OF assms(1,2)] .
  have d: "p_divergences ?p = Some ds" by (simp add: emitted_plan_def Let_def)
  have self: "sanitize (p_self_hash ?p) = p_self_hash ?p" by (simp add: self_hash_emitted sanitize_hex)
  show "gate_format_version (plan_text ?p) =
       Inr \<lparr>ph_version = plan_format_version, ph_identity = ci, ph_url = url, ph_path = path, ph_self = p_self_hash ?p\<rparr>"
    unfolding gate_plan_text [OF wf] self
    using assms(4-7) by (simp add: sanitize_valid emitted_plan_def Let_def)
  show "fst (verify_self_hash_streaming f w) = Inr ()"
    if "quiet w" "file_data w f = Some (plan_text ?p)"
    using verify_streaming_eq [OF wf that] by (simp add: self Let_def) (simp add: self_hash_emitted)
  show "stream_divergence_headers (plan_text ?p) = Inr (headers_of ds)"
    by (rule headers_plan_text [OF wf d assms(3)])
  show "stream_sqlite_pages (plan_text ?p) = (events_of ds, None)"
    by (rule pages_plan_text [OF wf d])
qed

text \<open>
  C13. Every pass of the streaming reader accepts a plan that the emitter wrote and returns what was
  recorded: the header fields, one header per divergence in order, and the pages in order. The divergences are of
  the shapes the reader accepts, so the whole-file hashes among them are canonical.
\<close>

theorem emitted_plan_read_back:
  assumes "int64 (ci_block_height ci)" and "\<forall>d \<in> set ds. wf_divergence d"
    and "\<forall>h \<in> set (headers_of ds). validate_header_shape h = Inr ()"
    and "valid_utf8 url" and "valid_utf8 path"
    and "valid_utf8 (ci_manifest_hash ci)" and "valid_utf8 (ci_core_version ci)"
    and "quiet w" and "file_data w f = Some (plan_text (emitted_plan ci url path ds))"
  shows "gate_format_version (plan_text (emitted_plan ci url path ds)) =
       Inr \<lparr>ph_version = plan_format_version, ph_identity = ci, ph_url = url, ph_path = path,
            ph_self = p_self_hash (emitted_plan ci url path ds)\<rparr>
     \<and> fst (verify_self_hash_streaming f w) = Inr ()
     \<and> stream_divergence_headers (plan_text (emitted_plan ci url path ds)) = Inr (headers_of ds)
     \<and> stream_sqlite_pages (plan_text (emitted_plan ci url path ds)) = (events_of ds, None)"
  using emitted_passes [OF assms(1-7)] assms(8,9) by blast

lemma demo_valid: "valid_utf8 ''http://h/manifest.json''" "valid_utf8 ''/d/pocketdb''" "valid_utf8 ''m''" "valid_utf8 ''v''"
    "valid_utf8 ''pocketdb/main.sqlite3''"
  by (rule valid_utf8_ascii, auto)+

lemma demo_header: "headers_of [demo_div] =
    [\<lparr>dh_index = 0, dh_kind = kind_sqlite_pages, dh_path = ''pocketdb/main.sqlite3'', dh_hash = [], dh_source = [], dh_pages = True\<rparr>]"
  using sanitize_valid [OF demo_valid(5)]
  by (simp add: headers_of_def header_of_def demo_div_def sqlite_divergence_def kind_sqlite_pages_def)

lemma demo_events: "events_of [demo_div] =
    [OpenPages 0, OnePage 0 \<lparr>pp_offset = 0, pp_hash = sha256_hex []\<rparr>, OnePage 0 \<lparr>pp_offset = 4096, pp_hash = sha256_hex ''a''\<rparr>]"
  by (simp add: events_of_def div_events_def demo_div_def sqlite_divergence_def clean_page_def sanitize_hex)

lemma emitted_plan_read_back_witness:
  "stream_divergence_headers (plan_text demo_plan) = Inr (headers_of [demo_div])
   \<and> fst (verify_self_hash_streaming ''/d/plan.json'' (world_of [''/d''] [(''/d/plan.json'', plan_text demo_plan)])) = Inr ()"
  using emitted_plan_read_back [of demo_identity "[demo_div]" "''http://h/manifest.json''" "''/d/pocketdb''",
      OF wf_demo(3) _ _ demo_valid(1,2) _ _ quiet_world_of demo_file_data]
    wf_demo demo_valid
  by (simp add: demo_plan_def demo_header validate_header_shape_def) (simp add: demo_identity_def)

section \<open>What the self-hash covers\<close>

lemma verify_streaming_prefix:
  assumes "quiet w" and "file_data w f = Some t" and "locate_self_hash t = Inr (b, h)" and "\<not> length t < b"
    and "sha256_hex (take b t @ [rbrace]) = h"
  shows "fst (verify_self_hash_streaming f w) = Inr ()"
proof -
  have "read_file f w = (Inr t, tick w)" "read_file f (tick w) = (Inr t, tick (tick w))"
    using assms(1,2) by (auto intro!: read_file_quiet)
  then show ?thesis
    using assms(3-) by (simp add: verify_self_hash_streaming_def hash_prefix_def)
qed

text \<open>
  C31. Members after \<open>self_hash\<close> are not covered: appending any members to a valid plan, a second
  \<open>divergences\<close> array among them, leaves the self-hash check satisfied.
\<close>

theorem self_hash_ignores_tail:
  assumes "wf_plan p" and "verify_self_hash p = Inr ()" and "valid_utf8 (p_self_hash p)"
    and "\<forall>m \<in> set extra. sanitize (fst m) \<noteq> ''self_hash'' \<and> writable max_depth (snd m)"
    and "quiet w" and "file_data w f = Some (lbrace # object_text False (plan_members p @ extra) @ [rbrace])"
  shows "fst (verify_self_hash_streaming f w) = Inr ()"
proof -
  let ?t = "lbrace # object_text False (plan_members p @ extra) @ [rbrace]"
  let ?h = "p_self_hash p"
  have l: "locate_self_hash ?t = Inr (length (payload_text p), ?h)"
    using locate_members [of "plan_members p @ extra" "payload_members p" "sanitize ?h" extra]
      writable_members [OF assms(1)] payload_keys [of _ p] assms(3,4)
    by (simp add: plan_members_def payload_text_def sanitize_valid ball_Un) (auto simp: payload_members_def)
  have pre: "\<exists>r. ?t = payload_text p @ r"
  proof -
    have "\<exists>r. join_on c (xs @ x # ys) = join_on c xs @ r" if "xs \<noteq> []" for c :: char and xs x ys
      using that by (induction c xs rule: join_on.induct) (auto simp: join_on_concat)
    from this [of "map (member_text False) (payload_members p)"] show ?thesis
      by (auto simp: plan_members_def payload_text_def payload_members_def)
  qed
  then obtain r where r: "?t = payload_text p @ r" by blast
  have t: "take (length (payload_text p)) ?t = payload_text p" "\<not> length ?t < length (payload_text p)"
    unfolding r by simp_all
  have h: "sha256_hex (payload_text p @ [rbrace]) = ?h"
    using assms(2) by (simp add: verify_self_hash_def compute_self_hash_text [OF assms(1)] split: if_splits)
  show ?thesis
    by (rule verify_streaming_prefix [OF assms(5,6) l t(2)]) (simp only: t(1) h)
qed

lemma enc_short: "writable max_depth (JArr [])" "sanitize (fst (''divergences'', JArr [])) \<noteq> ''self_hash''"
  by (simp_all add: max_depth_def)

lemma verify_demo: "verify_self_hash demo_plan = Inr ()"
  using compute_self_hash_text [OF wf_demo(1)] self_hash_emitted
  by (simp add: verify_self_hash_def demo_plan_def)

lemma self_hash_ignores_tail_witness:
  "fst (verify_self_hash_streaming ''/d/plan.json'' (world_of [''/d''] [(''/d/plan.json'',
     lbrace # object_text False (plan_members demo_plan @ [(''divergences'', JArr [])]) @ [rbrace])])) = Inr ()"
  by (rule self_hash_ignores_tail [OF wf_demo(1) verify_demo _ _ quiet_world_of demo_file_data])
     (use enc_short valid_hex in \<open>auto simp: demo_plan_def self_hash_emitted\<close>)

section \<open>The shape rules\<close>

text \<open>
  The header checks accept exactly the discriminated union: page divergences with pages and
  without hash and source, whole-file divergences without pages and with a hash of 64 lower-case
  hexadecimal digits.
\<close>

lemma header_shape_iff:
  "validate_header_shape h = Inr () \<longleftrightarrow>
     dh_kind h = kind_sqlite_pages \<and> dh_pages h \<and> dh_hash h = [] \<and> dh_source h = []
   \<or> dh_kind h = kind_whole_file \<and> \<not> dh_pages h \<and> length (dh_hash h) = 64 \<and> list_all is_lower_hex (dh_hash h)"
  by (auto simp: validate_header_shape_def is_canon_hash_def)

section \<open>The emitter\<close>

text \<open>
  C26. Streaming one feed into the spool refines appending one divergence to a list: on success, with
  whatever faults along the way, the spool is the canonical text of the recorded divergences, a feed
  without pages records nothing, and a successful call had no error in its feed.
\<close>

theorem emitter_records_feed:
  assumes "emit_sqlite_pages e path ys w = (((c, None), e'), w')" and "emitting e w ds"
    and "\<forall>p \<in> set (oks ys). int64 (pp_offset p)" and "valid_utf8 path"
  shows "ys = map Inr (oks ys) \<and> c = length (oks ys) \<and>
     emitting e' w' (if oks ys = [] then ds else ds @ [sqlite_divergence path (oks ys)])"
  by (rule emit_sqlite_pages_ok [OF assms])

lemma emitted_file_is_marshal:
  assumes "emit_finalize e ci url path w = ((Inr u, e'), w')" and "emitting e w ds"
    and "int64 (ci_block_height ci)" and "\<forall>d \<in> set (ds @ pe_whole e). wf_divergence d"
    and "valid_utf8 url" and "valid_utf8 path" and "pe_out e \<noteq> pe_spool_path e"
  shows "file_data w' (pe_out e) = plan_marshal (emitted_plan ci url path (ds @ pe_whole e))
       \<and> verify_self_hash (emitted_plan ci url path (ds @ pe_whole e)) = Inr ()"
proof -
  let ?p = "emitted_plan ci url path (ds @ pe_whole e)"
  have wf: "wf_plan ?p" using wf_emitted [OF assms(3,4)] .
  have "file_data w' (pe_out e) = Some (plan_text ?p)"
    by (rule emit_finalize_ok [OF assms(1,2,3) _ assms(5,6,7)]) (use assms(4) in auto)
  then show ?thesis
    using compute_self_hash_text [OF wf] self_hash_emitted
    by (simp add: plan_marshal_text [OF wf] verify_self_hash_def)
qed

text \<open>
  C12. When \<open>Finalize\<close> succeeds, under any faults, the plan file is byte for byte what
  \<open>plan.Marshal\<close> gives for the plan with the recorded divergences and its own self-hash.
\<close>

theorem finalize_writes_marshal:
  assumes "emit_finalize e ci url path w = ((Inr u, e'), w')" and "emitting e w ds"
    and "int64 (ci_block_height ci)" and "\<forall>d \<in> set (ds @ pe_whole e). wf_divergence d"
    and "valid_utf8 url" and "valid_utf8 path" and "pe_out e \<noteq> pe_spool_path e"
  shows "file_data w' (pe_out e) = plan_marshal (emitted_plan ci url path (ds @ pe_whole e))
       \<and> verify_self_hash (emitted_plan ci url path (ds @ pe_whole e)) = Inr ()"
  by (rule emitted_file_is_marshal [OF assms])

text \<open>Without faults the calls succeed.\<close>

lemma append_ino_quiet: "quiet w \<Longrightarrow> append_ino i d w = (Inr (), (tick w)\<lparr>store := (store w)(i := store w i @ d)\<rparr>)"
  by (simp add: append_ino_def syscall_quiet)

lemma quiet_store [simp]: "quiet (w\<lparr>store := s\<rparr>) = quiet w" "quiet (w\<lparr>names := n\<rparr>) = quiet w"
  by (simp_all add: quiet_def)

lemma write_pieces_quiet:
  "quiet w \<Longrightarrow> None \<notin> set ps \<Longrightarrow> \<exists>w'. write_pieces (append_ino i) ps w = (Inr (), w') \<and> quiet w'"
proof (induction ps arbitrary: w)
  case (Cons p ps)
  then obtain s where "p = Some s" by (cases p) auto
  with Cons show ?case by (simp add: append_ino_quiet)
qed simp

lemma whole_pieces_Some: "\<forall>d \<in> set ds. wf_divergence d \<Longrightarrow> None \<notin> set (whole_pieces b ds)"
  by (induction ds arbitrary: b) (auto simp: canon_divergence)

lemma os_noop_quiet: "quiet w \<Longrightarrow> os_noop w = (Inr (), tick w)"
  by (simp add: os_noop_def syscall_quiet)

lemma emit_finalize_stages:
  assumes "quiet w" and "emitting e w ds" and "int64 (ci_block_height ci)"
    and "\<forall>d \<in> set (pe_whole e). wf_divergence d"
    and "node_at w (pe_out e @ ''.tmp.'' @ rnd w (Suc (Suc (Suc (ticks w))))) = None"
    and "is_dir w (go_dir (pe_out e @ ''.tmp.'' @ rnd w (Suc (Suc (Suc (ticks w))))))"
    and "is_dir w (go_dir (pe_out e))" and "\<not> is_dir w (pe_out e)"
  shows "\<exists>e' w' i. emit_finalize e ci url path w = (let (e2, w2) = remove_spool e' w' in ((Inr (), e2), w2))
     \<and> pe_spool e' = pe_spool e \<and> pe_spool_path e' = pe_spool_path e \<and> quiet w'
     \<and> (names w (pe_out e) = None \<longrightarrow> names w' = (names w)(pe_out e \<mapsto> FileN i))"
proof -
  let ?tmp = "pe_out e @ ''.tmp.'' @ rnd w (Suc (Suc (Suc (ticks w))))"
  let ?w3 = "tick (tick (tick w))"
  obtain sp where sp: "pe_spool e = Some sp" using assms(2) by (auto simp: emitting_def)
  have n: "os_noop w = (Inr (), tick w)" "os_noop (tick w) = (Inr (), tick (tick w))"
    "rand_suffix (tick (tick w)) = (Inr (rnd w (Suc (Suc (Suc (ticks w))))), ?w3)"
    using assms(1) by (simp_all add: os_noop_quiet rand_suffix_def syscall_quiet) (simp add: tick_def)
  obtain i w4 where o: "open_excl ?tmp ?w3 = (Inr i, w4)" and q4: "quiet w4"
      and n4: "\<And>q. q \<noteq> ?tmp \<Longrightarrow> names w4 q = names w q" and t4: "names w4 ?tmp = Some (FileN i)" and i: "i = next_ino w"
    using assms(1,5,6) by (simp add: open_excl_def syscall_quiet new_file_def) (simp add: quiet_def)
  define e1 where "e1 = e\<lparr>pe_tmp := ?tmp\<rparr>"
  have hp: "None \<notin> set (head_pieces ci)" by (simp add: head_pieces_def canon_identity [OF assms(3)])
  have rp: "None \<notin> set (whole_pieces (0 < pe_sqlite_count e) (pe_whole e) @ [Some '']''] @ tail_pieces url path)"
    using canon_int [of plan_format_version] whole_pieces_Some [OF assms(4)]
    by (simp add: tail_pieces_def int64_def plan_format_version_def)
  obtain w5 where h: "write_pieces (append_ino i) (head_pieces ci) w4 = (Inr (), w5)" and q5: "quiet w5"
    using write_pieces_quiet [OF q4 hp] by blast
  obtain w6 where c: "copy_ino sp i w5 = (Inr (), w6)" and q6: "quiet w6" and n6: "names w6 = names w5"
    using q5 by (simp add: copy_ino_def syscall_quiet)
  obtain w7 where r: "write_pieces (append_ino i) (whole_pieces (0 < pe_sqlite_count e) (pe_whole e) @ [Some '']''] @ tail_pieces url path) w6
      = (Inr (), w7)" and q7: "quiet w7"
    using write_pieces_quiet [OF q6 rp] by blast
  obtain payload where p: "write_payload e1 ci url path i w4 = (Inr payload, w7)"
    using sp h c r by (simp add: write_payload_def Let_def e1_def)
  have n7: "names w7 = names w4" using write_pieces_Inr [OF h] write_pieces_Inr [OF r] n6 by simp
  have out_tmp: "pe_out e \<noteq> ?tmp" by simp
  have dir_tmp: "go_dir (pe_out e) \<noteq> ?tmp" using assms(5,7) unfolding is_dir_def by (metis option.distinct(1))
  have "node_at w7 (pe_out e) = node_at w (pe_out e)" "is_dir w7 (go_dir (pe_out e)) = is_dir w (go_dir (pe_out e))"
    by (simp_all add: node_at_def is_dir_def n7 n4 [OF out_tmp] n4 [OF dir_tmp])
  note dest = this(1) this(2) [unfolded eqTrueI [OF assms(7)]]
  have "\<exists>w8. seal_plan i payload ?tmp (pe_out e) w7 = (Inr (), w8) \<and> quiet w8
      \<and> (names w7 (pe_out e) = None \<longrightarrow> names w8 = (names w7)(pe_out e \<mapsto> FileN i, ?tmp := None))"
    using q7 dest assms(8) t4 n7
    by (auto simp: seal_plan_def append_ino_quiet os_noop_quiet os_rename_def syscall_quiet is_dir_def node_at_def quiet_def
        split: option.splits node.splits if_splits)
  then obtain w8 where w8: "seal_plan i payload ?tmp (pe_out e) w7 = (Inr (), w8)" "quiet w8"
      "names w7 (pe_out e) = None \<longrightarrow> names w8 = (names w7)(pe_out e \<mapsto> FileN i, ?tmp := None)" by (elim exE conjE)
  have "names w ?tmp = None" using assms(5) by (auto simp: node_at_def split: if_splits)
  then have "(names w7)(pe_out e \<mapsto> FileN i, ?tmp := None) = (names w)(pe_out e \<mapsto> FileN i)"
    using n4 n7 by (auto simp: fun_eq_iff)
  then have n8: "names w (pe_out e) = None \<longrightarrow> names w8 = (names w)(pe_out e \<mapsto> FileN i)"
    using w8(3) n7 n4 [OF out_tmp] by simp
  show ?thesis
    by (rule exI [of _ "e1\<lparr>pe_tmp := []\<rparr>"], rule exI [of _ w8], rule exI [of _ i])
       (use n o p w8(1,2) n8 in \<open>simp add: emit_finalize_def Let_def e1_def\<close>)
qed

lemma emit_finalize_quiet:
  assumes "quiet w" and "emitting e w ds" and "int64 (ci_block_height ci)"
    and "\<forall>d \<in> set (pe_whole e). wf_divergence d"
    and "node_at w (pe_out e @ ''.tmp.'' @ rnd w (Suc (Suc (Suc (ticks w))))) = None"
    and "is_dir w (go_dir (pe_out e @ ''.tmp.'' @ rnd w (Suc (Suc (Suc (ticks w))))))"
    and "is_dir w (go_dir (pe_out e))" and "\<not> is_dir w (pe_out e)"
  shows "\<exists>e' w'. emit_finalize e ci url path w = ((Inr (), e'), w')"
  using emit_finalize_stages [OF assms, of url path] by (auto simp: split_def Let_def)

text \<open>
  C35. On a fault-free world where the output directory exists and the temporary name is free,
  \<open>Finalize\<close> succeeds.
\<close>

theorem finalize_succeeds:
  assumes "quiet w" and "emitting e w ds" and "int64 (ci_block_height ci)"
    and "\<forall>d \<in> set (pe_whole e). wf_divergence d"
    and "node_at w (pe_out e @ ''.tmp.'' @ rnd w (Suc (Suc (Suc (ticks w))))) = None"
    and "is_dir w (go_dir (pe_out e @ ''.tmp.'' @ rnd w (Suc (Suc (Suc (ticks w))))))"
    and "is_dir w (go_dir (pe_out e))" and "\<not> is_dir w (pe_out e)"
  shows "\<exists>e' w'. emit_finalize e ci url path w = ((Inr (), e'), w')"
  by (rule emit_finalize_quiet [OF assms])

text \<open>A run of the emitter from its start.\<close>

definition demo_emitter :: plan_emitter where
  "demo_emitter = \<lparr>pe_out = ''/d/plan.json'', pe_spool_path = ''/d/s'', pe_spool = Some 0, pe_sqlite_count = 0,
     pe_whole = [], pe_tmp = []\<rparr>"

definition demo_spool_world :: os where
  "demo_spool_world = world_of [''/d''] [(''/d/s'', [])]"

lemma demo_emitting: "emitting demo_emitter demo_spool_world []"
  by (simp add: emitting_def demo_emitter_def demo_spool_world_def world_of_def spool_text_def)

lemma demo_dirs: "go_dir ''/d/plan.json'' = ''/d''" "go_dir ''/d/plan.json.tmp.r'' = ''/d''"
  by code_simp+

lemma finalize_succeeds_witness:
  "\<exists>e' w'. emit_finalize demo_emitter demo_identity ''u'' ''p'' demo_spool_world = ((Inr (), e'), w')"
  by (rule finalize_succeeds [OF _ demo_emitting])
     (auto simp: demo_emitter_def demo_spool_world_def world_of_def demo_dirs node_at_def is_dir_def quiet_def
        int64_def demo_identity_def)

lemma demo_finalize:
  "\<exists>e' w'. emit_finalize demo_emitter demo_identity ''u'' ''p'' demo_spool_world = ((Inr (), e'), w')"
  by (rule emit_finalize_quiet [OF _ demo_emitting])
     (auto simp: demo_emitter_def demo_spool_world_def world_of_def demo_dirs node_at_def is_dir_def quiet_def
        int64_def demo_identity_def)

lemma demo_strings: "valid_utf8 ''u''" "valid_utf8 ''p''"
  by (rule valid_utf8_ascii, auto)+

lemma finalize_writes_marshal_witness:
  "\<exists>e' w'. emit_finalize demo_emitter demo_identity ''u'' ''p'' demo_spool_world = ((Inr (), e'), w')
     \<and> file_data w' ''/d/plan.json'' = plan_marshal (emitted_plan demo_identity ''u'' ''p'' [])"
proof -
  obtain e' w' where f: "emit_finalize demo_emitter demo_identity ''u'' ''p'' demo_spool_world = ((Inr (), e'), w')"
    using demo_finalize by blast
  have "file_data w' (pe_out demo_emitter) = plan_marshal (emitted_plan demo_identity ''u'' ''p'' ([] @ pe_whole demo_emitter))"
    using finalize_writes_marshal [OF f demo_emitting _ _ demo_strings]
    by (simp add: demo_emitter_def int64_def demo_identity_def)
  with f show ?thesis by (auto simp: demo_emitter_def)
qed

definition demo_page :: plan_page where
  "demo_page = \<lparr>pp_offset = 0, pp_hash = ''x''\<rparr>"

lemma emitter_records_feed_witness:
  "\<exists>e' w'. emit_sqlite_pages demo_emitter ''p'' [Inr demo_page] demo_spool_world = (((1, None), e'), w')
     \<and> emitting e' w' [sqlite_divergence ''p'' [demo_page]]"
proof -
  have c: "canon_typed (page_tree demo_page) = Some (page_text demo_page)" and i: "int64 (pp_offset demo_page)"
    by (auto intro!: canon_page simp: demo_page_def int64_def)
  obtain e' w' where r: "emit_sqlite_pages demo_emitter ''p'' [Inr demo_page] demo_spool_world = (((1, None), e'), w')"
    by (simp add: emit_sqlite_pages_def page_lead_def demo_emitter_def spool_write_def append_ino_quiet c demo_spool_world_def)
  from emitter_records_feed [OF r demo_emitting] i demo_strings r show ?thesis by auto
qed

end
