(* ===== verification/DiagnoseClaims.thy ===== *)
theory DiagnoseClaims
  imports DiagnosePlan ManifestClaims ManifestRoundTrip PlanProps
begin

text \<open>
  The properties of diagnose as a whole: it writes nothing but its plan, a run that does not succeed leaves
  the plan alone, and a run that succeeds has written a well-formed, self-certified plan for the
  manifest whose hash was pinned.
\<close>

section \<open>Read-only\<close>

lemma plan_only_keeps:
  assumes "plan_only out (next_ino w) w w'" and "wf_os w" and "q \<noteq> out" and "q \<notin> doctor_temps out (rnd w)"
  shows "node_at w' q = node_at w q \<and> file_data w' q = file_data w q"
proof -
  have t: "touches (insert out (doctor_temps out (rnd w))) (next_ino w) w w'"
    using assms(1) by (simp add: plan_only_def)
  then have f: "framed (insert out (doctor_temps out (rnd w))) w w'" by (simp add: touches_def)
  have n: "node_at w' q = node_at w q" by (rule framed_node [OF f]) (simp add: assms(3,4))
  have "store w' i = store w i" if "node_at w q = Some (FileN i)" for i
    using that t assms(2) by (auto simp: touches_def wf_os_def node_at_def split: if_splits)
  with n show ?thesis by (auto simp: file_data_def split: option.split node.split)
qed

lemma diagnose_plan_only: "diagnose h opts w = (out, w') \<Longrightarrow> plan_only (do_out opts) (next_ino w) w w'"
  using diagnose_temps [of h opts w out w'] by (auto intro: temps_plan_only split: if_splits)

text \<open>
  C8. Diagnose is read-only: whatever faults occur, whatever the server sends and however the run ends,
  every name other than the plan and the program's own temporary files refers to what it did before,
  and the file it refers to has the same bytes.
\<close>

theorem diagnose_read_only:
  assumes "diagnose h opts w = (out, w')" and "wf_os w"
    and "q \<noteq> do_out opts" and "q \<notin> doctor_temps (do_out opts) (rnd w)"
  shows "node_at w' q = node_at w q \<and> file_data w' q = file_data w q"
  using diagnose_plan_only [OF assms(1)] assms(2-4) by (rule plan_only_keeps)

text \<open>
  C20. A run of diagnose that does not succeed leaves the plan of an earlier run as it was.
\<close>

theorem failed_diagnose_keeps_plan:
  assumes "diagnose h opts w = (out, w')" and "wf_os w" and "out \<noteq> Finished Success None"
    and "do_out opts \<notin> doctor_temps (do_out opts) (rnd w)"
  shows "node_at w' (do_out opts) = node_at w (do_out opts) \<and> file_data w' (do_out opts) = file_data w (do_out opts)"
proof -
  have "temps_only (do_out opts) (next_ino w) w w'"
    using diagnose_temps [OF assms(1)] assms(3) by simp
  then have t: "touches (doctor_temps (do_out opts) (rnd w)) (next_ino w) w w'" by (simp add: temps_only_def)
  then have f: "framed (doctor_temps (do_out opts) (rnd w)) w w'" by (simp add: touches_def)
  have n: "node_at w' (do_out opts) = node_at w (do_out opts)" by (rule framed_node [OF f assms(4)])
  have "store w' i = store w i" if "node_at w (do_out opts) = Some (FileN i)" for i
    using that t assms(2) by (auto simp: touches_def wf_os_def node_at_def split: if_splits)
  with n show ?thesis by (auto simp: file_data_def split: option.split node.split)
qed

section \<open>A successful run\<close>

lemma spool_next:
  assumes "new_plan_emitter out w = (Inr e, w')"
  shows "recorded out (pe_spool_path e) (init_diag_state e, w')"
proof -
  obtain p i where c: "create_temp (go_dir out) ''pocketnet-node-doctor-planemit-'' ''.spool'' w = (Inr (p, i), w')"
    and e: "e = \<lparr>pe_out = out, pe_spool_path = p, pe_spool = Some i, pe_sqlite_count = 0, pe_whole = [], pe_tmp = []\<rparr>"
    using assms by (auto simp: new_plan_emitter_def split: prod.splits sum.splits)
  note o = create_temp_Inr(2) [OF c]
  have "i < next_ino w'"
    using syscall_Inr [OF o [unfolded open_excl_def]] by (auto simp: new_file_def split: option.splits if_splits)
  with open_excl_Inr(3) [OF o] e show ?thesis
    by (simp add: recorded_def init_diag_state_def emitting_def spool_text_def counted_def)
qed

lemma read_stream_prefix: "read_stream i w = ((dat, er), w') \<Longrightarrow> has_prefix (store w i) dat"
  by (auto simp: read_stream_def has_prefix_iff split: option.splits fault.splits)
     (metis append_take_drop_id)

text \<open>The header was read from bytes of the manifest that was served and has the pinned hash.\<close>

definition header_of_pinned :: "os \<Rightarrow> diag_options \<Rightarrow> man_header \<Rightarrow> bool" where
  "header_of_pinned w opts hdr \<longleftrightarrow>
     (\<exists>t d body dat s0 s1. net w t (do_url opts) = Reply 200 d body False \<and> sha256_hex body = do_pinned opts \<and>
        has_prefix body dat \<and> stream_manifest (entry_fn (do_db opts)) s0 (new_decoder dat) = (Inr hdr, s1))"

lemma fetch_success:
  assumes "fetch_and_process free (do_url opts) (do_pinned opts) (go_dir (do_out opts)) (entry_fn (do_db opts)) (s, w)
      = (Inr hdr, s', w')"
    and "recorded (do_out opts) sp (s, w)"
    and "\<And>t d b x st. net w t (do_url opts) = Reply st d b x \<Longrightarrow> d < 2 ^ 63 - 1"
  shows "recorded (do_out opts) sp (s', w') \<and> int64 (mi_block_height (mh_identity hdr)) \<and> header_of_pinned w opts hdr"
proof -
  let ?dir = "go_dir (do_out opts)"
  obtain p w1 where sv: "spool_and_verify free (do_url opts) (do_pinned opts) ?dir w = (Inr p, w1)"
    and ps: "parse_from_spool p (entry_fn (do_db opts)) (s, w1) = (Inr hdr, s', w')"
    using assms(1) by (auto simp: fetch_and_process_def split: prod.splits sum.splits)
  obtain i w2 dat er w3 s4 w4 where o: "open_read p w1 = (Inr i, w2)" and rs: "read_stream i w2 = ((dat, er), w3)"
    and sm: "stream_manifest (entry_fn (do_db opts)) (s, w3) (new_decoder dat) = (Inr hdr, s4, w4)"
    and fin: "s' = s4" "w' = snd (os_remove p w4)"
    using ps by (auto simp: parse_from_spool_def Let_def split: prod.splits sum.splits)
  have "touches (doctor_temps (do_out opts) (rnd w)) (next_ino w) w w1"
    using spool_and_verify_temps(1) [OF temps_refl, where out = "do_out opts" and w = w and free = free and
        url = "do_url opts" and h = "do_pinned opts"] sv by (simp add: temps_only_def)
  note 1 = recorded_kept [OF assms(2) this]
  have "touches {} (next_ino w1) w1 w2" using open_read_touches [of "next_ino w1" w1 p] o by simp
  note 2 = recorded_kept [OF 1 this]
  have "touches {} (next_ino w2) w2 w3" using read_stream_touches [of "next_ino w2" w2 i] rs by simp
  note 3 = recorded_kept [OF 2 this]
  have 4: "recorded (do_out opts) sp (s4, w4)" using diag_recorded.stream_manifest_keeps [OF 3 sm] by simp
  have "recorded (do_out opts) sp (s', w')" unfolding fin by (rule recorded_kept [OF 4 os_remove_touches])
  moreover obtain t d body where b: "net w t (do_url opts) = Reply 200 d body False" "sha256_hex body = do_pinned opts"
      "file_data w1 p = Some body" using spool_ok [OF sv] assms(3) by blast
  have "store w2 i = body"
    using open_read_Inr [OF o] b(3) by (simp add: file_data_Some_iff fs_iff)
  then have "has_prefix body dat" using read_stream_prefix [OF rs] by simp
  ultimately show ?thesis
    using b sm stream_manifest_height [OF sm] unfolding header_of_pinned_def by blast
qed

text \<open>The stages of a successful run up to the plan.\<close>

lemma diagnose_stages:
  assumes "diagnose h opts w = (Finished Success None, w')"
  obtains em w3 w4 em' where "new_plan_emitter (do_out opts) w3 = (Inr em, w4)"
    and "temps_only (do_out opts) (next_ino w) w w3"
    and "stream_and_finish h opts em w4 = (Finished Success None, em', w')"
proof -
  obtain w1 w2 em w3 em' where rn: "running_node h (do_db opts) w = (Pass, w1)"
    and pw: "probe_writable (do_out opts) w1 = (Inr (), w2)" and ne: "new_plan_emitter (do_out opts) w2 = (Inr em, w3)"
    and sf: "stream_and_finish h opts em w3 = (Finished Success None, em', w')"
    using assms(1) by (auto simp: diagnose_def split: prod.splits sum.splits predicate_result.splits if_splits)
  have 1: "temps_only (do_out opts) (next_ino w) w w1"
    by (rule temps_step [OF temps_refl rn running_node_touches]) simp
  have "temps_only (do_out opts) (next_ino w) w w2" using probe_temps [OF 1] pw by simp
  with ne sf show thesis using that by simp
qed

lemma diagnosed_plan:
  assumes "diagnose h opts w = (Finished Success None, w')"
    and "do_out opts \<notin> doctor_temps (do_out opts) (rnd w)"
    and "valid_utf8 (do_url opts)" and "\<And>p. abs_path h (do_db opts) = Some p \<Longrightarrow> valid_utf8 p"
    and "\<And>t d b x st. net w t (do_url opts) = Reply st d b x \<Longrightarrow> d < 2 ^ 63 - 1"
  shows "\<exists>hdr path ds whole.
     let p = emitted_plan (plan_identity opts hdr) (do_url opts) path (ds @ whole) in
     int64 (mi_block_height (mh_identity hdr)) \<and> file_data w' (do_out opts) = plan_marshal p \<and> verify_self_hash p = Inr ()
   \<and> header_of_pinned w opts hdr \<and> mh_version hdr = 1
   \<and> version_lookup h = Some (mi_core_version (mh_identity hdr)) \<and> abs_path h (do_db opts) = Some path
   \<and> (\<forall>d \<in> set ds. sqlite_ok d) \<and> (\<forall>d \<in> set whole. whole_ok d)
   \<and> (\<exists>t free. free_bytes h t (do_db opts) = Some free \<and> word_of_nat (page_count ds) * 4096 * 2 \<le> free)"
proof -
  obtain em w2 w3 em' where ne: "new_plan_emitter (do_out opts) w2 = (Inr em, w3)"
    and 2: "temps_only (do_out opts) (next_ino w) w w2"
    and sf: "stream_and_finish h opts em w3 = (Finished Success None, em', w')"
    using diagnose_stages [OF assms(1)] by metis
  obtain hdr s w4 where fp: "fetch_and_process (free_bytes h) (do_url opts) (do_pinned opts) (go_dir (do_out opts))
        (entry_fn (do_db opts)) (init_diag_state em, w3) = (Inr hdr, s, w4)"
    and fd: "finish_diagnose h opts hdr s w4 = (Finished Success None, em', w')"
    using sf by (auto simp: stream_and_finish_def stream_failed_def split: prod.splits sum.splits stream_err.splits entry_err.splits)
  note 3 = new_emitter_temps [OF 2 ne]
  then have nt: "net w3 = net w" by (auto simp: temps_only_def touches_def framed_def)
  have sp: "pe_spool_path em \<in> doctor_temps (do_out opts) (rnd w)"
    using ne temps_rnd [OF 2]
    by (auto simp: new_plan_emitter_def doctor_temps_def dest!: create_temp_Inr(1) split: prod.splits sum.splits)
  have r: "recorded (do_out opts) (pe_spool_path em) (s, w4)" "int64 (mi_block_height (mh_identity hdr))"
      "header_of_pinned w3 opts hdr"
    using fetch_success [OF fp spool_next [OF ne]] assms(5) by (simp_all add: nt)
  obtain w5 where ps: "post_stream h opts hdr (ds_total s) w4 = (None, w5)"
    using fd by (auto simp: finish_diagnose_def post_stream_def split: option.splits prod.splits sum.splits predicate_result.splits if_splits)
  have w5: "w5 = w4" using post_stream_world [of h opts hdr "ds_total s" w4] ps by simp
  obtain path u where ab: "abs_path h (do_db opts) = Some path"
    and fz: "emit_finalize (ds_emitter s) (plan_identity opts hdr) (do_url opts) path w4 = ((Inr u, em'), w')"
    using fd ps w5 by (auto simp: finish_diagnose_def split: option.splits prod.splits sum.splits)
  obtain ds where ds: "emitting (ds_emitter s) w4 ds" "\<forall>d \<in> set ds. sqlite_ok d" "counted s ds"
    using r(1) by (auto simp: recorded_def)
  let ?whole = "pe_whole (ds_emitter s)"
  have wh: "\<forall>d \<in> set ?whole. whole_ok d" and pe: "pe_out (ds_emitter s) = do_out opts"
      "pe_spool_path (ds_emitter s) = pe_spool_path em" using r(1) by (auto simp: recorded_def)
  have wf: "\<forall>d \<in> set (ds @ ?whole). wf_divergence d"
    using ds(2) wh by (auto simp: sqlite_ok_def whole_ok_def wf_divergence_def)
  have ci: "int64 (ci_block_height (plan_identity opts hdr))" using r(2) by (simp add: plan_identity_def)
  have "pe_out (ds_emitter s) \<noteq> pe_spool_path (ds_emitter s)" using pe sp assms(2) by metis
  note plan = emitted_file_is_marshal [OF fz ds(1) ci wf assms(3) assms(4) [OF ab] this]
  have "mh_version hdr = 1" "version_lookup h = Some (mi_core_version (mh_identity hdr))"
    using ps by (auto simp: post_stream_def check_format_version_value_def version_mismatch_value_def
        split: option.splits prod.splits sum.splits predicate_result.splits if_splits)
  moreover have "\<exists>t free. free_bytes h t (do_db opts) = Some free \<and> ds_total s * 2 \<le> free"
    using ps by (auto simp: post_stream_def volume_capacity_from_total_bytes_def statfs_impl_def free_bytes_def not_less Let_def
        split: option.splits prod.splits sum.splits predicate_result.splits if_splits)
  moreover have "ds_total s = word_of_nat (page_count ds) * 4096" using ds(3) by (simp add: counted_def)
  ultimately show ?thesis
    using plan pe(1) ab ds(2) wh r(2,3) unfolding Let_def header_of_pinned_def nt by metis
qed

text \<open>
  C6. When diagnose succeeds, under any faults and against any server, the plan file is byte for byte
  \<open>plan.Marshal\<close> of a plan that passes its own self-hash, for a manifest with the pinned hash, the known format
  version and the version of the local node; its page divergences are for \<open>pocketdb/main.sqlite3\<close> only
  and its whole-file divergences have accepted paths (or none), so apply cannot be led outside.
\<close>

theorem diagnose_success_plan:
  assumes "diagnose h opts w = (Finished Success None, w')"
    and "do_out opts \<notin> doctor_temps (do_out opts) (rnd w)"
    and "valid_utf8 (do_url opts)" and "\<And>p. abs_path h (do_db opts) = Some p \<Longrightarrow> valid_utf8 p"
    and "\<And>t d b x st. net w t (do_url opts) = Reply st d b x \<Longrightarrow> d < 2 ^ 63 - 1"
  shows "\<exists>hdr path ds whole.
     let p = emitted_plan (plan_identity opts hdr) (do_url opts) path (ds @ whole) in
     file_data w' (do_out opts) = plan_marshal p \<and> verify_self_hash p = Inr ()
   \<and> header_of_pinned w opts hdr \<and> mh_version hdr = 1
   \<and> version_lookup h = Some (mi_core_version (mh_identity hdr)) \<and> abs_path h (do_db opts) = Some path
   \<and> (\<forall>d \<in> set ds. sqlite_ok d) \<and> (\<forall>d \<in> set whole. whole_ok d)"
proof -
  have "net w t (do_url opts) = Reply st d b x \<Longrightarrow> d < 2 ^ 63 - 1" for t d b x st by (rule assms(5))
  with diagnosed_plan [OF assms(1,2,3)] assms(4) show ?thesis unfolding Let_def by metis
qed

section \<open>Pages of another file\<close>

lemma entry_fn_assumes:
  "eh_kind hdr = entry_kind_sqlite_pages \<Longrightarrow> entry_fn db hdr it st = (Inr hdr', st') \<Longrightarrow>
   eh_assumed hdr' = sqlite_entry_path"
  by (auto simp: entry_fn_def sqlite_entry_def split: prod.splits option.splits)

lemma run_entry_foreign:
  assumes "me_kind e = entry_kind_sqlite_pages" and "me_path e \<noteq> sqlite_entry_path"
  shows "\<exists>x. run_entry (entry_fn db) e s = Inl x"
proof -
  obtain r s1 where Pair: "entry_fn db (entry_start e) (Some (map Inr (me_pages e))) s = (r, s1)"
    by (metis surj_pair)
  show ?thesis
  proof (cases r)
    case (Inr hdr)
    have "eh_assumed hdr = sqlite_entry_path"
      using entry_fn_assumes [of "entry_start e"] Pair Inr assms(1) by (simp add: entry_start_def)
    moreover have "sqlite_entry_path \<noteq> []" by (simp add: sqlite_entry_path_def)
    ultimately show ?thesis
      using assms Pair Inr by (simp add: run_entry_def settle_def split: sum.split)
  qed (use assms Pair in \<open>simp add: run_entry_def\<close>)
qed

lemma run_entries_foreign:
  "e \<in> set es \<Longrightarrow> \<forall>s. \<exists>x. run_entry fn e s = Inl x \<Longrightarrow> \<exists>x. run_entries fn es s = Inl x"
proof (induction es arbitrary: s)
  case (Cons e' es)
  obtain x where x: "run_entry fn e s = Inl x" using Cons.prems(2) by blast
  show ?case
  proof (cases "e = e'")
    case True
    with x show ?thesis by simp
  next
    case False
    with Cons.prems have "\<exists>x. run_entries fn es s1 = Inl x" for s1 by (intro Cons.IH) auto
    then show ?thesis by (cases "run_entry fn e' s") auto
  qed
qed simp

text \<open>
  C21. A manifest that carries pages for a file other than \<open>pocketdb/main.sqlite3\<close> is refused, although the
  path comes after the pages in the text: the stream ends in an error, and so does diagnose.
\<close>

theorem foreign_pages_refused:
  assumes "wf_manifest m" and "writable max_depth anchors" and "e \<in> set (m_entries m)"
    and "me_kind e = entry_kind_sqlite_pages" and "me_path e \<noteq> sqlite_entry_path"
  shows "\<exists>x s'. stream_manifest (entry_fn db) s (new_decoder (manifest_text m anchors)) = (Inl x, s')"
proof -
  have "\<forall>s. \<exists>x. run_entry (entry_fn db) e s = Inl x" using run_entry_foreign [OF assms(4,5)] by blast
  from run_entries_foreign [OF assms(3) this]
  obtain x where "run_entries (entry_fn db) (m_entries m) s = Inl x" by blast
  then show ?thesis
    by (cases x) (simp add: stream_manifest_text [OF assms(1,2)])
qed

section \<open>Exit codes\<close>

text \<open>What each outcome of diagnose means; a refusal carries the reason of its predicate.\<close>

fun diag_documented :: "diag_outcome \<Rightarrow> bool" where
  "diag_documented (Finished Success e) = (e = None)"
| "diag_documented (Finished RunningNode e) = (\<exists>p i. e = Some (RefusedBy (ForeignLock p)) \<or> (\<exists>n. e = Some (RefusedBy (InUseBy n i p)) \<and> 0 < i))"
| "diag_documented (Finished VersionMismatch e) = (\<exists>l c. e = Some (RefusedBy (VersionsDiffer l c)) \<and> l \<noteq> c)"
| "diag_documented (Finished Capacity e) =
     ((\<exists>p f r. e = Some (RefusedBy (VolumeTooSmall p f r)) \<and> f < r) \<or> (\<exists>n b a. e = Some (ManifestErr (SpoolCapacity n b a))))"
| "diag_documented (Finished PermissionReadOnly e) = (\<exists>p. e = Some (RefusedBy (NotWritable p)) \<or> e = Some (RefusedBy (ReadOnlyMount p)))"
| "diag_documented (Finished ManifestFormatVersionUnrecognized e) = (\<exists>v. e = Some (ManifestErr (FormatVersionUnrecognized v 1)) \<and> v \<noteq> 1)"
| "diag_documented (Finished GenericError e) = (e \<noteq> None)"
| "diag_documented (Finished c e) = False"
| "diag_documented Crashed = True"

lemma post_stream_documented: "post_stream h opts hdr t w = (Some out, w') \<Longrightarrow> diag_documented out"
  by (auto simp: post_stream_def check_format_version_value_def is_format_version_unrecognized_def
      version_mismatch_value_def volume_capacity_from_total_bytes_def permission_read_only_def Let_def
      split: sum.splits prod.splits predicate_result.splits option.splits if_splits)

lemma stream_failed_documented: "diag_documented (stream_failed e)"
  by (auto simp: stream_failed_def is_spool_capacity_def split: stream_err.split entry_err.split man_err.split)

lemma running_node_documented: "running_node h p w = (Refused c r, w') \<Longrightarrow> diag_documented (Finished c (Some (RefusedBy r)))"
  by (auto simp: running_node_def split: sum.splits prod.splits if_splits)

text \<open>
  C37. Diagnose exits with 0 exactly when there is no error, with 2, 4, 5, 6 and 7 only for the refusal that the code
  stands for, with 1 for every other error, and with no other code.
\<close>

theorem diagnose_codes_documented:
  "diag_documented (fst (diagnose h opts w))"
proof -
  have f: "diag_documented out" if "finish_diagnose h opts hdr s v = (out, em, v')" for hdr s v out em v'
    using that by (auto simp: finish_diagnose_def split: prod.splits option.splits sum.splits dest: post_stream_documented)
  have s: "diag_documented out" if "stream_and_finish h opts em v = (out, em', v')" for em v out em' v'
    using that by (auto simp: stream_and_finish_def stream_failed_documented split: prod.splits sum.splits dest: f)
  show ?thesis
    by (auto simp: diagnose_def Let_def split: predicate_result.split prod.split sum.split
        dest: s running_node_documented)
qed

section \<open>Small runs\<close>

definition idle_host :: host where
  "idle_host = \<lparr>ho_cwd = None, ho_flock = (\<lambda>_ _. Acquired), ho_procs = (\<lambda>_. None), ho_version = Some ''v'',
     ho_statfs = (\<lambda>_ _. Some \<lparr>vs_avail = 2 ^ 20, vs_blocks = 2 ^ 20, vs_bsize = 4096\<rparr>), ho_writable = (\<lambda>_. True),
     ho_mounts = None\<rparr>"

definition busy_host :: host where
  "busy_host = idle_host\<lparr>ho_flock := (\<lambda>_ _. WouldBlock)\<rparr>"

definition small_opts :: diag_options where
  "small_opts = \<lparr>do_url = demo_url, do_db = ''/d/pocketdb'', do_out = ''/d/plan.json'', do_pinned = []\<rparr>"

definition locked_world :: os where
  "locked_world = world_of [''/d'', ''/d/pocketdb''] [(''/d/pocketdb/main.sqlite3'', ''x''), (''/d/plan.json'', ''old'')]"

lemma db_file: "go_join [''/d/pocketdb'', ''main.sqlite3''] = ''/d/pocketdb/main.sqlite3''"
  by code_simp

lemma refused_run:
  "\<exists>out w'. diagnose busy_host small_opts locked_world = (out, w') \<and> out \<noteq> Finished Success None"
proof -
  have "node_at locked_world ''/d/pocketdb/main.sqlite3'' = Some (FileN 0)"
    by (simp add: locked_world_def world_of_def node_at_def)
  then have "open_read ''/d/pocketdb/main.sqlite3'' locked_world = (Inr 0, tick locked_world)"
    by (simp add: open_read_def syscall_quiet locked_world_def)
  then show ?thesis
    by (simp add: diagnose_def running_node_def running_node_probe_def flock_probe_def small_opts_def db_file
        busy_host_def split: prod.split)
qed

lemma small_temps:
  assumes "q \<in> doctor_temps ''/d/plan.json'' (\<lambda>_. ''r'')"
  shows "has_prefix q ''/d/.pocketnet'' \<or> has_prefix q ''/d/pocketnet'' \<or> q = ''/d/plan.json.tmp.r''"
proof -
  have g: "go_dir ''/d/plan.json'' = ''/d''" by code_simp
  have "go_join [''/d'', spool_prefix] = ''/d/pocketnet-node-doctor-manifest-''"
      "probe_name ''/d'' ''r'' = ''/d/.pocketnet-node-doctor-writeprobe-r''"
      "go_join [''/d'', spool_prefix @ ''r'' @ spool_suffix] = ''/d/pocketnet-node-doctor-manifest-r.spool''"
      "go_join [''/d'', ''pocketnet-node-doctor-planemit-'' @ ''r'' @ ''.spool''] = ''/d/pocketnet-node-doctor-planemit-r.spool''"
    by code_simp+
  note j = this
  consider "is_spool_of ''/d'' q" | "q = probe_name ''/d'' ''r''" | "q = go_join [''/d'', spool_prefix @ ''r'' @ spool_suffix]"
    | "q = go_join [''/d'', ''pocketnet-node-doctor-planemit-'' @ ''r'' @ ''.spool'']" | "q = ''/d/plan.json'' @ ''.tmp.'' @ ''r''"
    using assms unfolding doctor_temps_def g by blast
  then show ?thesis
  proof cases
    case 1
    then have "has_prefix q ''/d/pocketnet-node-doctor-manifest-''"
      unfolding is_spool_of_def Let_def j by simp
    then show ?thesis by (auto simp: has_prefix_iff)
  qed (simp_all only: j, simp_all add: has_prefix_iff)
qed

lemma rnd_locked: "rnd locked_world = (\<lambda>_. ''r'')"
  by (simp add: locked_world_def world_of_def)

lemma diagnose_read_only_witness:
  "file_data (snd (diagnose busy_host small_opts locked_world)) ''/d/pocketdb/main.sqlite3'' = Some ''x''"
proof -
  obtain out w' where d: "diagnose busy_host small_opts locked_world = (out, w')" by fastforce
  have q: "''/d/pocketdb/main.sqlite3'' \<notin> doctor_temps (do_out small_opts) (rnd locked_world)"
    using small_temps by (fastforce simp: small_opts_def rnd_locked)
  have "file_data locked_world ''/d/pocketdb/main.sqlite3'' = Some ''x''"
    by (simp add: locked_world_def world_of_def file_data_def node_at_def)
  with diagnose_read_only [OF d _ _ q] d show ?thesis by (simp add: locked_world_def small_opts_def)
qed

lemma failed_diagnose_keeps_plan_witness:
  "file_data (snd (diagnose busy_host small_opts locked_world)) ''/d/plan.json'' = Some ''old''"
proof -
  obtain out w' where d: "diagnose busy_host small_opts locked_world = (out, w')" and out: "out \<noteq> Finished Success None"
    using refused_run by blast
  have q: "do_out small_opts \<notin> doctor_temps (do_out small_opts) (rnd locked_world)"
    using small_temps by (fastforce simp: small_opts_def rnd_locked)
  have "file_data locked_world ''/d/plan.json'' = Some ''old''"
    by (simp add: locked_world_def world_of_def file_data_def node_at_def)
  with failed_diagnose_keeps_plan [OF d _ out q] d show ?thesis by (simp add: locked_world_def small_opts_def)
qed

end
