(* ===== verification/Summary.thy ===== *)
theory Summary
  imports DiagnoseClaims
begin

text \<open>
  What diagnose prints at its end (\<open>internal/diagnose/summary.go\<close>) and while it hashes
  (\<open>progress.go\<close>), as pure functions of the counters, which are never negative; and the counters against the plan.

  A \<open>float64\<close> is a natural number times a power of two here: dividing by a power of two is exact, and
  every other operation is rounded to 53 bits.
\<close>

section \<open>Numbers\<close>

text \<open>\<open>%.1f\<close> of \<open>m / 2 ^ k\<close>: tenths, rounded to nearest, ties to even.\<close>

definition tenths :: "nat \<Rightarrow> nat \<Rightarrow> nat" where
  "tenths m k =
     (let q = 10 * m div 2 ^ k; r = 10 * m mod 2 ^ k
      in if 2 ^ k < 2 * r \<or> (2 * r = 2 ^ k \<and> odd q) then Suc q else q)"

definition fmt_tenths :: "nat \<Rightarrow> string" where
  "fmt_tenths t = nat_digits (t div 10) @ ''.'' @ nat_digits (t mod 10)"

definition human_iec :: "64 word \<Rightarrow> string" where
  "human_iec b =
     (let f = round53 (unat b) in
      if b \<ge> push_bit 40 1 then fmt_tenths (tenths f 40) @ '' TiB''
      else if b \<ge> push_bit 30 1 then fmt_tenths (tenths f 30) @ '' GiB''
      else if b \<ge> push_bit 20 1 then fmt_tenths (tenths f 20) @ '' MiB''
      else if b \<ge> push_bit 10 1 then fmt_tenths (tenths f 10) @ '' KiB''
      else nat_digits (unat b) @ '' B'')"

definition second_ns :: int where
  "second_ns = 1000000000"

definition round_second :: "int \<Rightarrow> int" where
  "round_second d = (let r = d mod second_ns in if 2 * r < second_ns then d - r else d + second_ns - r)"

definition human_duration :: "int \<Rightarrow> string" where
  "human_duration d =
     (let d = round_second d;
          h = d div (3600 * second_ns);
          m = d mod (3600 * second_ns) div (60 * second_ns);
          s = d mod (60 * second_ns) div second_ns
      in (if h > 0 then fmt_int h @ ''h'' else []) @ (if m > 0 then fmt_int m @ ''m'' else []) @ fmt_int s @ ''s'')"

definition throughput_bytes_per_second :: nat where
  "throughput_bytes_per_second = 50 * 1024 * 1024"

text \<open>The rounded quotient of two numbers below \<open>2 ^ 64\<close>, as a multiple of \<open>2 ^ - 129\<close>.\<close>

definition float_quotient :: "nat \<Rightarrow> nat \<Rightarrow> nat" where
  "float_quotient n d =
     (let x = n * 2 ^ 128 in round53 (2 * (x div d) + (if x mod d = 0 then 0 else 1)))"

definition eta_ns :: "nat \<Rightarrow> int" where
  "eta_ns bytes =
     int (round53 (float_quotient (round53 bytes) throughput_bytes_per_second * 10 ^ 9) div 2 ^ 129)"

section \<open>The summary\<close>

definition emit_summary_counts :: "int \<Rightarrow> int \<Rightarrow> string" where
  "emit_summary_counts pages files =
     (if files = 0 then ''no recovery needed: local pocketdb matches canonical bitwise.'' @ [CHR 0x0A]
      else
        (let bytesToFetch = pages * 4096 in
         ''divergent: '' @ fmt_int pages @ '' pages across '' @ fmt_int files @ '' files; ''
         @ human_iec (word_of_int bytesToFetch) @ '' to fetch; ETA ~'' @ human_duration (eta_ns (nat bytesToFetch))
         @ '' at 50 MiB/s.'' @ [CHR 0x0A]))"

definition count_divergence :: "int \<times> int \<Rightarrow> divergence \<Rightarrow> int \<times> int" where
  "count_divergence acc d =
     (let (pages, files) = acc in
      if d_kind d = kind_sqlite_pages then (pages + int (length (d_pages d)), files + 1)
      else if d_kind d = kind_whole_file then (pages, files + 1)
      else (pages, files))"

definition emit_summary :: "plan \<Rightarrow> string" where
  "emit_summary p =
     (let (pages, files) = foldl count_divergence (0, 0) (case p_divergences p of None \<Rightarrow> [] | Some ds \<Rightarrow> ds)
      in emit_summary_counts pages files)"

section \<open>Progress\<close>

definition step5pct :: "int \<Rightarrow> int" where
  "step5pct total_n = (let step = total_n div 20 in if step < 1 then 1 else step)"

text \<open>Whether a message is written, for a total of pages; the percentage it shows.\<close>

definition main_sqlite_page :: "int \<Rightarrow> int \<Rightarrow> int option" where
  "main_sqlite_page n total_n =
     (if total_n \<le> 0 then None
      else if n \<noteq> total_n \<and> n mod step5pct total_n \<noteq> 0 then None
      else Some (sgn n * (\<bar>n\<bar> * 100 div total_n)))"

definition file_batch :: "int \<Rightarrow> int \<Rightarrow> bool" where
  "file_batch n total_n \<longleftrightarrow> \<not> (n mod 25 \<noteq> 0 \<and> n \<noteq> total_n)"

section \<open>The counters agree with the plan\<close>

lemma count_plan:
  assumes "\<forall>d \<in> set ds. sqlite_ok d" and "\<forall>d \<in> set whole. whole_ok d"
  shows "foldl count_divergence (0, 0) (ds @ whole) = (int (page_count ds), int (length ds + length whole))"
proof -
  have 1: "foldl count_divergence acc ds = (fst acc + int (page_count ds), snd acc + int (length ds))" for acc
    using assms(1)
  proof (induction ds arbitrary: acc)
    case (Cons d ds)
    then have "d_kind d = kind_sqlite_pages" by (auto simp: sqlite_ok_def) (metis divergence.select_convs(1) sqlite_divergence_def)
    with Cons show ?case by (auto simp: count_divergence_def split: prod.split)
  qed simp
  have "foldl count_divergence acc whole = (fst acc, snd acc + int (length whole))" for acc
    using assms(2) by (induction whole arbitrary: acc) (auto simp: count_divergence_def whole_ok_def split: prod.split)
  with 1 show ?thesis by simp
qed

text \<open>
  The summary that diagnose prints from its running counters is the one \<open>EmitSummary\<close> gives for the
  plan it is about to write, and the byte count of the capacity check is that of the pages in it.
\<close>

theorem summary_of_counters:
  fixes opts :: diag_options
  assumes "new_plan_emitter (do_out opts) w = (Inr em, w1)"
    and "fetch_and_process free (do_url opts) (do_pinned opts) (go_dir (do_out opts)) (entry_fn (do_db opts))
           (init_diag_state em, w1) = (Inr hdr, s, w2)"
    and "\<And>t d b x st. net w1 t (do_url opts) = Reply st d b x \<Longrightarrow> d < 2 ^ 63 - 1"
  shows "\<exists>ds. emitting (ds_emitter s) w2 ds
    \<and> emit_summary_counts (ds_pages s) (ds_files s) = emit_summary (emitted_plan ci url path (ds @ pe_whole (ds_emitter s)))
    \<and> ds_total s = word_of_nat (page_count ds) * 4096"
proof -
  have "recorded (do_out opts) (pe_spool_path em) (s, w2)"
    using fetch_success [OF assms(2) spool_next [OF assms(1)]] assms(3) by simp
  then obtain ds where ds: "emitting (ds_emitter s) w2 ds" "\<forall>d \<in> set ds. sqlite_ok d" "counted s ds"
      "\<forall>d \<in> set (pe_whole (ds_emitter s)). whole_ok d"
    by (auto simp: recorded_def)
  from ds(1,3) count_plan [OF ds(2,4)] show ?thesis
    by (auto simp: emit_summary_def emitted_plan_def Let_def counted_def)
qed

text \<open>
  C19. When diagnose succeeds, some answer of the volume had room for twice the page bytes of the plan it
  wrote; the bound is exact below \<open>2 ^ 51\<close> pages, where the code's 64-bit product does not wrap.
\<close>

theorem diagnose_checks_capacity:
  assumes "diagnose h opts w = (Finished Success None, w')"
    and "do_out opts \<notin> doctor_temps (do_out opts) (rnd w)"
    and "valid_utf8 (do_url opts)" and "\<And>p. abs_path h (do_db opts) = Some p \<Longrightarrow> valid_utf8 p"
    and "\<And>t d b x st. net w t (do_url opts) = Reply st d b x \<Longrightarrow> d < 2 ^ 63 - 1"
  shows "\<exists>hdr path ds t free.
     file_data w' (do_out opts) = plan_marshal (emitted_plan (plan_identity opts hdr) (do_url opts) path ds)
   \<and> free_bytes h t (do_db opts) = Some free \<and> (page_count ds < 2 ^ 51 \<longrightarrow> 2 * 4096 * page_count ds \<le> unat free)"
proof -
  have net: "net w t (do_url opts) = Reply st d b x \<Longrightarrow> d < 2 ^ 63 - 1" for t d b x st by (rule assms(5))
  obtain hdr path ds whole t free
    where p: "file_data w' (do_out opts) = plan_marshal (emitted_plan (plan_identity opts hdr) (do_url opts) path (ds @ whole))"
      and f: "free_bytes h t (do_db opts) = Some free" "word_of_nat (page_count ds) * 4096 * 2 \<le> free"
      and w: "\<forall>d \<in> set whole. whole_ok d"
    using diagnosed_plan [OF assms(1,2,3)] assms(4) net unfolding Let_def by metis
  have "page_count whole = 0" using w by (induction whole) (auto simp: whole_ok_def)
  moreover have "2 * 4096 * n \<le> unat free" if "n < 2 ^ 51" "word_of_nat n * 4096 * 2 \<le> free" for n
    using that by (simp add: word_le_nat_alt unat_word_ariths unat_of_nat)
  ultimately show ?thesis using p f by (metis page_count_simps(3) add.right_neutral)
qed

end
