(* ===== verification/Slices.thy ===== *)
theory Slices
  imports Json
begin

text \<open>
  Decoding into a slice, which the typed readers of plans and manifests share.  A slice is decoded as the
  library does it: into the memory the slice already has, so that a duplicate member decodes over the
  elements of the earlier one.  A slice is its length and its memory; what lies beyond the memory is zero.
\<close>

record 'a slice =
  sl_len :: nat
  sl_mem :: "'a list"

definition slice_elems :: "'a slice option \<Rightarrow> 'a list" where
  "slice_elems s = (case s of None \<Rightarrow> [] | Some sl \<Rightarrow> take (sl_len sl) (sl_mem sl))"

fun into_elems :: "('a \<Rightarrow> json \<Rightarrow> 'a option) \<Rightarrow> 'a \<Rightarrow> 'a list \<Rightarrow> json list \<Rightarrow> 'a list option" where
  "into_elems f zero mem [] = Some mem"
| "into_elems f zero mem (j # js) =
     (case f (if mem = [] then zero else hd mem) j of
        None \<Rightarrow> None
      | Some x \<Rightarrow> map_option ((#) x) (into_elems f zero (tl mem) js))"

text \<open>\<open>None\<close> is the nil slice; an empty array gives a fresh empty slice.\<close>

definition into_slice :: "('a \<Rightarrow> json \<Rightarrow> 'a option) \<Rightarrow> 'a \<Rightarrow> 'a slice option \<Rightarrow> json \<Rightarrow> 'a slice option option" where
  "into_slice f zero old j =
     (case j of
        JNull \<Rightarrow> Some None
      | JArr [] \<Rightarrow> Some (Some \<lparr>sl_len = 0, sl_mem = []\<rparr>)
      | JArr js \<Rightarrow>
          map_option (\<lambda>mem. Some \<lparr>sl_len = length js, sl_mem = mem\<rparr>)
            (into_elems f zero (case old of None \<Rightarrow> [] | Some sl \<Rightarrow> sl_mem sl) js)
      | _ \<Rightarrow> None)"

lemma into_elems_fresh:
  "(\<And>x. x \<in> set xs \<Longrightarrow> f zero (enc x) = Some (dec x)) \<Longrightarrow> into_elems f zero [] (map enc xs) = Some (map dec xs)"
  by (induction xs) auto

lemma into_slice_fresh:
  assumes "\<And>x. x \<in> set xs \<Longrightarrow> f zero (enc x) = Some (dec x)"
  shows "into_slice f zero None (JArr (map enc xs)) = Some (Some \<lparr>sl_len = length xs, sl_mem = map dec xs\<rparr>)"
  using into_elems_fresh [of xs f zero enc dec] assms by (cases xs) (auto simp: into_slice_def)

end
