(* ===== verification/ManifestParse.thy ===== *)
theory ManifestParse
  imports ManifestRoundTrip Slices
begin

text \<open>
  \<open>manifest.Parse\<close> (parse.go): decoding a whole manifest into memory, the reference for the streaming reader.
  The library first checks the whole text, then decodes the members of the object in their order; field
  names fold case and unknown members are skipped.  The memory of earlier duplicates is reused.
\<close>

section \<open>The typed manifest\<close>

record raw_entry =
  re_kind :: string
  re_path :: string
  re_pages :: "man_page slice option"
  re_counter :: "int option"
  re_hash :: string

record raw_manifest =
  rm_version :: int
  rm_identity :: man_identity
  rm_entries :: "raw_entry slice option"
  rm_anchors :: bytes

definition zero_man_page :: man_page where
  "zero_man_page = \<lparr>mp_offset = 0, mp_hash = []\<rparr>"

definition zero_raw_entry :: raw_entry where
  "zero_raw_entry = \<lparr>re_kind = [], re_path = [], re_pages = None, re_counter = None, re_hash = []\<rparr>"

definition zero_raw_manifest :: raw_manifest where
  "zero_raw_manifest = \<lparr>rm_version = 0,
     rm_identity = \<lparr>mi_block_height = 0, mi_core_version = [], mi_created_at = []\<rparr>, rm_entries = None, rm_anchors = []\<rparr>"

definition into_man_page_over :: "man_page \<Rightarrow> json \<Rightarrow> man_page option" where
  "into_man_page_over p j = into_struct False [''offset'', ''hash''] store_man_page j p"

text \<open>A pointer: \<open>null\<close> makes it nil, another value goes where it points, or to a fresh zero.\<close>

definition into_int_pointer :: "int option \<Rightarrow> json \<Rightarrow> int option option" where
  "into_int_pointer old j =
     (if j = JNull then Some None else map_option Some (into_int64 (case old of None \<Rightarrow> 0 | Some i \<Rightarrow> i) j))"

definition store_entry :: "string \<Rightarrow> json \<Rightarrow> raw_entry \<Rightarrow> raw_entry option" where
  "store_entry n j e =
     (if n = ''entry_kind'' then map_option (\<lambda>s. e\<lparr>re_kind := s\<rparr>) (into_string (re_kind e) j)
      else if n = ''path'' then map_option (\<lambda>s. e\<lparr>re_path := s\<rparr>) (into_string (re_path e) j)
      else if n = ''pages'' then
        map_option (\<lambda>s. e\<lparr>re_pages := s\<rparr>) (into_slice into_man_page_over zero_man_page (re_pages e) j)
      else if n = ''change_counter'' then
        map_option (\<lambda>c. e\<lparr>re_counter := c\<rparr>) (into_int_pointer (re_counter e) j)
      else map_option (\<lambda>s. e\<lparr>re_hash := s\<rparr>) (into_string (re_hash e) j))"

definition into_entry :: "raw_entry \<Rightarrow> json \<Rightarrow> raw_entry option" where
  "into_entry e j =
     into_struct False [''entry_kind'', ''path'', ''pages'', ''change_counter'', ''hash''] store_entry j e"

text \<open>\<open>raw\<close> is the text of the value, which \<open>json.RawMessage\<close> copies.\<close>

definition store_manifest :: "string \<Rightarrow> json \<Rightarrow> bytes \<Rightarrow> raw_manifest \<Rightarrow> raw_manifest option" where
  "store_manifest n j raw m =
     (if n = ''format_version'' then map_option (\<lambda>i. m\<lparr>rm_version := i\<rparr>) (into_int64 (rm_version m) j)
      else if n = ''canonical_identity'' then
        map_option (\<lambda>c. m\<lparr>rm_identity := c\<rparr>) (into_man_identity (rm_identity m) j)
      else if n = ''entries'' then
        map_option (\<lambda>s. m\<lparr>rm_entries := s\<rparr>) (into_slice into_entry zero_raw_entry (rm_entries m) j)
      else Some (m\<lparr>rm_anchors := raw\<rparr>))"

definition manifest_field :: "raw_manifest \<Rightarrow> decoder \<Rightarrow> unit + raw_manifest \<times> decoder" where
  "manifest_field m d =
     (case read_key d of
        None \<Rightarrow> Inl ()
      | Some (key, d1) \<Rightarrow>
          (case decode d1 of
             None \<Rightarrow> Inl ()
           | Some (j, d2) \<Rightarrow>
               (case find_field [''format_version'', ''canonical_identity'', ''entries'', ''trust_anchors''] key of
                  None \<Rightarrow> Inr (m, d2)
                | Some n \<Rightarrow>
                    (case store_manifest n j (raw_value d1 d2) m of None \<Rightarrow> Inl () | Some m' \<Rightarrow> Inr (m', d2)))))"

section \<open>\<open>Parse\<close>\<close>

text \<open>\<open>json.Unmarshal\<close> into a manifest; the text has been checked when the members are read.\<close>

definition unmarshal_manifest :: "string \<Rightarrow> raw_manifest option" where
  "unmarshal_manifest b =
     (case read_value b of
        None \<Rightarrow> None
      | Some (v, r) \<Rightarrow>
          if skip_ws r \<noteq> [] then None
          else (case v of
             JNull \<Rightarrow> Some zero_raw_manifest
           | JObj _ \<Rightarrow>
               (case expect_delim lbrace (new_decoder b) of
                  None \<Rightarrow> None
                | Some d \<Rightarrow>
                    (case for_more manifest_field zero_raw_manifest d of Inl _ \<Rightarrow> None | Inr (m, _) \<Rightarrow> Some m))
           | _ \<Rightarrow> None))"

definition seen_entry :: "raw_entry \<Rightarrow> man_entry" where
  "seen_entry e =
     \<lparr>me_kind = re_kind e, me_path = re_path e, me_pages = slice_elems (re_pages e), me_change_counter = re_counter e,
      me_hash = re_hash e\<rparr>"

definition seen_manifest :: "raw_manifest \<Rightarrow> manifest" where
  "seen_manifest m =
     \<lparr>m_format_version = rm_version m, m_identity = rm_identity m,
      m_entries = map seen_entry (slice_elems (rm_entries m)), m_trust_anchors = rm_anchors m\<rparr>"

definition parse_manifest :: "bytes \<Rightarrow> man_err + manifest" where
  "parse_manifest b =
     (if length b = 0 then Inl (ManifestOther ''empty bytes'')
      else case unmarshal_manifest b of
        None \<Rightarrow> Inl (ManifestOther ''parse'')
      | Some rm \<Rightarrow>
          (let m = seen_manifest rm in
           if length (m_trust_anchors m) = 0 then Inl (ManifestOther ''required field trust_anchors missing'')
           else Inr m))"

interpretation manifest_fields: consuming manifest_field
  by unfold_locales
     (auto simp: manifest_field_def split: option.splits dest!: consume_dests decode_length)

section \<open>Parsing a canonical manifest\<close>

text \<open>What the canonical text keeps of an entry: the members of its kind.\<close>

definition parsed_entry :: "man_entry \<Rightarrow> man_entry" where
  "parsed_entry e =
     (if me_kind e = entry_kind_sqlite_pages then e\<lparr>me_hash := []\<rparr>
      else e\<lparr>me_pages := [], me_change_counter := None\<rparr>)"

definition parsed_manifest :: "manifest \<Rightarrow> json \<Rightarrow> manifest" where
  "parsed_manifest m anchors =
     m\<lparr>m_entries := map parsed_entry (m_entries m), m_trust_anchors := print_json False anchors\<rparr>"

definition raw_entry_of :: "man_entry \<Rightarrow> raw_entry" where
  "raw_entry_of e =
     (if me_kind e = entry_kind_sqlite_pages then
        \<lparr>re_kind = me_kind e, re_path = me_path e,
         re_pages = Some \<lparr>sl_len = length (me_pages e), sl_mem = me_pages e\<rparr>,
         re_counter = me_change_counter e, re_hash = []\<rparr>
      else \<lparr>re_kind = me_kind e, re_path = me_path e, re_pages = None, re_counter = None, re_hash = me_hash e\<rparr>)"

lemma seen_raw_entry: "seen_entry (raw_entry_of e) = parsed_entry e"
  by (simp add: seen_entry_def raw_entry_of_def parsed_entry_def slice_elems_def)

lemma man_page_over_tree:
  assumes "int64 (mp_offset p)" and "valid_utf8 (mp_hash p)"
  shows "into_man_page_over zero_man_page (sanitize_json (man_page_tree p)) = Some p"
  using into_man_page_tree [OF assms] by (simp add: into_man_page_over_def into_man_page_def zero_man_page_def)

lemma entry_tree_into:
  assumes "wf_entry e"
  shows "into_entry zero_raw_entry (sanitize_json (JObj (entry_members e))) = Some (raw_entry_of e)"
proof -
  have v: "valid_utf8 (me_kind e)" "valid_utf8 (me_path e)" "valid_utf8 (me_hash e)"
    "\<And>c. me_change_counter e = Some c \<Longrightarrow> int64 c" using assms by (simp_all add: wf_entry_def)
  have p: "into_slice into_man_page_over zero_man_page None (JArr (map (\<lambda>p. sanitize_json (man_page_tree p)) (me_pages e))) =
      Some (Some \<lparr>sl_len = length (me_pages e), sl_mem = me_pages e\<rparr>)"
    using into_slice_fresh [of "me_pages e" into_man_page_over zero_man_page "\<lambda>p. sanitize_json (man_page_tree p)" "\<lambda>p. p"]
      man_page_over_tree assms by (auto simp: wf_entry_def)
  note d = into_entry_def into_struct_def entry_members_def find_field_def store_entry_def zero_raw_entry_def
    raw_entry_of_def into_string_def into_int_pointer_def sanitize_valid comp_def
  show ?thesis
  proof (cases "me_kind e = entry_kind_sqlite_pages")
    case True
    then show ?thesis
      using v(1,2,4) p by (cases "me_change_counter e") (simp_all add: d into_int64_fmt)
  next
    case False
    then show ?thesis using v by (simp add: d)
  qed
qed

definition raw_entries :: "man_entry list \<Rightarrow> raw_entry slice option" where
  "raw_entries es = Some \<lparr>sl_len = length es, sl_mem = map raw_entry_of es\<rparr>"

lemma entries_tree_into:
  assumes "\<forall>e \<in> set es. wf_entry e"
  shows "into_slice into_entry zero_raw_entry None (sanitize_json (JArr (map (\<lambda>e. JObj (entry_members e)) es))) =
     Some (raw_entries es)"
  using into_slice_fresh [of es into_entry zero_raw_entry "\<lambda>e. sanitize_json (JObj (entry_members e))" raw_entry_of]
    entry_tree_into assms by (simp add: comp_def raw_entries_def del: sanitize_json.simps(3))

text \<open>The members of the canonical text, one by one.\<close>

lemma manifest_field_sep:
  "manifest_field m (at (comma # r) n ObjectComma sk) = manifest_field m (at r (Suc n) ObjectKey sk)"
  by (simp add: manifest_field_def read_key_sep)

lemma manifest_field_step:
  assumes "st \<in> {ObjectStart, ObjectKey}" and "stops r" and "writable max_depth j"
    and "find_field [''format_version'', ''canonical_identity'', ''entries'', ''trust_anchors''] (sanitize k) = Some f"
    and "store_manifest f (sanitize_json j) (print_json False j) m = Some m'"
  shows "\<exists>n'. manifest_field m (at (member_text False (k, j) @ r) n st sk) = Inr (m', at r n' ObjectComma sk)"
  using assms
  by (simp add: manifest_field_def member_read_key decode_sep decode_print raw_value_at)

lemma manifest_members_writable:
  assumes "\<forall>x \<in> set (manifest_members m anchors). writable max_depth (snd x)"
  shows "writable max_depth (man_identity_tree (m_identity m))"
    and "writable max_depth (JArr (map (\<lambda>e. JObj (entry_members e)) (m_entries m)))"
    and "writable max_depth (JNum (fmt_int (m_format_version m)))" and "writable max_depth anchors"
  using assms by (simp_all only: manifest_members_def list.set snd_conv ball_simps)

text \<open>The effect of each member on the manifest read so far.\<close>

lemma manifest_field_members:
  assumes "wf_manifest m" and "\<forall>x \<in> set (manifest_members m anchors). writable max_depth (snd x)"
    and st: "st \<in> {ObjectStart, ObjectKey}" and r: "stops r"
  shows "\<exists>n'. manifest_field rm (at (member_text False (''canonical_identity'', man_identity_tree (m_identity m)) @ r) n st sk) =
      Inr (rm\<lparr>rm_identity := m_identity m\<rparr>, at r n' ObjectComma sk)"
    and "rm_entries rm = None \<Longrightarrow>
      \<exists>n'. manifest_field rm (at (member_text False (''entries'', JArr (map (\<lambda>e. JObj (entry_members e)) (m_entries m))) @ r) n st sk) =
      Inr (rm\<lparr>rm_entries := raw_entries (m_entries m)\<rparr>, at r n' ObjectComma sk)"
    and "\<exists>n'. manifest_field rm (at (member_text False (''format_version'', JNum (fmt_int (m_format_version m))) @ r) n st sk) =
      Inr (rm\<lparr>rm_version := m_format_version m\<rparr>, at r n' ObjectComma sk)"
    and "\<exists>n'. manifest_field rm (at (member_text False (''trust_anchors'', anchors) @ r) n st sk) =
      Inr (rm\<lparr>rm_anchors := print_json False anchors\<rparr>, at r n' ObjectComma sk)"
proof -
  have wf: "int64 (m_format_version m)" "int64 (mi_block_height (m_identity m))" "valid_utf8 (mi_core_version (m_identity m))"
      "valid_utf8 (mi_created_at (m_identity m))" "\<forall>e \<in> set (m_entries m). wf_entry e"
    using assms(1) by (simp_all add: wf_manifest_def)
  note w = manifest_members_writable [OF assms(2)]
  note step = manifest_field_step [OF st r]
  show "\<exists>n'. manifest_field rm (at (member_text False (''canonical_identity'', man_identity_tree (m_identity m)) @ r) n st sk) =
      Inr (rm\<lparr>rm_identity := m_identity m\<rparr>, at r n' ObjectComma sk)"
    by (rule step [OF w(1), where f = "''canonical_identity''"])
       (simp add: find_field_def, simp add: store_manifest_def into_man_identity_tree [OF wf(2,3,4)])
  show "\<exists>n'. manifest_field rm (at (member_text False (''entries'', JArr (map (\<lambda>e. JObj (entry_members e)) (m_entries m))) @ r) n st sk) =
      Inr (rm\<lparr>rm_entries := raw_entries (m_entries m)\<rparr>, at r n' ObjectComma sk)" if e: "rm_entries rm = None"
    by (rule step [OF w(2), where f = "''entries''"])
       (simp add: find_field_def, simp add: store_manifest_def e entries_tree_into [OF wf(5)] del: sanitize_json.simps)
  show "\<exists>n'. manifest_field rm (at (member_text False (''format_version'', JNum (fmt_int (m_format_version m))) @ r) n st sk) =
      Inr (rm\<lparr>rm_version := m_format_version m\<rparr>, at r n' ObjectComma sk)"
    by (rule step [OF w(3), where f = "''format_version''"])
       (simp add: find_field_def, simp add: store_manifest_def into_int64_fmt wf(1))
  show "\<exists>n'. manifest_field rm (at (member_text False (''trust_anchors'', anchors) @ r) n st sk) =
      Inr (rm\<lparr>rm_anchors := print_json False anchors\<rparr>, at r n' ObjectComma sk)"
    by (rule step [OF w(4), where f = "''trust_anchors''"]) (simp add: find_field_def, simp add: store_manifest_def)
qed

lemmas field_walk =
  manifest_fields.more_first manifest_fields.more_next [OF manifest_field_sep] manifest_fields.more_end obj_tail_Nil

lemma manifest_fields_canon:
  assumes "wf_manifest m" and "\<forall>x \<in> set (manifest_members m anchors). writable max_depth (snd x)"
  shows "\<exists>n. for_more manifest_field zero_raw_manifest
       (at (tl (print_json False (JObj (manifest_members m anchors)))) 1 ObjectStart sk) =
     Inr (\<lparr>rm_version = m_format_version m, rm_identity = m_identity m, rm_entries = raw_entries (m_entries m),
       rm_anchors = print_json False anchors\<rparr>, at [rbrace] n ObjectComma sk)"
proof -
  note step = manifest_field_members [OF assms, where sk = sk]
  define m1 where "m1 = (''canonical_identity'', man_identity_tree (m_identity m))"
  define m2 where "m2 = (''entries'', JArr (map (\<lambda>e. JObj (entry_members e)) (m_entries m)))"
  define m3 where "m3 = (''format_version'', JNum (fmt_int (m_format_version m)))"
  define m4 where "m4 = (''trust_anchors'', anchors)"
  define h1 where "h1 = zero_raw_manifest\<lparr>rm_identity := m_identity m\<rparr>"
  define h2 where "h2 = h1\<lparr>rm_entries := raw_entries (m_entries m)\<rparr>"
  define h3 where "h3 = h2\<lparr>rm_version := m_format_version m\<rparr>"
  have e: "rm_entries h1 = None" by (simp add: h1_def zero_raw_manifest_def)
  obtain n1 where 1: "manifest_field zero_raw_manifest (at (member_text False m1 @ obj_tail [m2, m3, m4] []) 1 ObjectStart sk) =
      Inr (h1, at (obj_tail [m2, m3, m4] []) n1 ObjectComma sk)"
    unfolding m1_def h1_def using step(1) [OF _ stops_tail, of ObjectStart] by blast
  obtain n2 where 2: "manifest_field h1 (at (member_text False m2 @ obj_tail [m3, m4] []) (Suc n1) ObjectKey sk) =
      Inr (h2, at (obj_tail [m3, m4] []) n2 ObjectComma sk)"
    unfolding m2_def h2_def using step(2) [OF _ stops_tail e, of ObjectKey] by blast
  obtain n3 where 3: "manifest_field h2 (at (member_text False m3 @ obj_tail [m4] []) (Suc n2) ObjectKey sk) =
      Inr (h3, at (obj_tail [m4] []) n3 ObjectComma sk)"
    unfolding m3_def h3_def using step(3) [OF _ stops_tail, of ObjectKey] by blast
  obtain n4 where 4: "manifest_field h3 (at (member_text False m4 @ obj_tail [] []) (Suc n3) ObjectKey sk) =
      Inr (h3\<lparr>rm_anchors := print_json False anchors\<rparr>, at (obj_tail [] []) n4 ObjectComma sk)"
    unfolding m4_def using step(4) [OF _ stops_tail, of ObjectKey] by blast
  have h: "h3\<lparr>rm_anchors := print_json False anchors\<rparr> = \<lparr>rm_version = m_format_version m, rm_identity = m_identity m,
      rm_entries = raw_entries (m_entries m), rm_anchors = print_json False anchors\<rparr>"
    by (simp add: h3_def h2_def h1_def zero_raw_manifest_def)
  have t: "tl (print_json False (JObj (manifest_members m anchors))) = member_text False m1 @ obj_tail [m2, m3, m4] []"
    by (simp only: manifest_members_def m1_def m2_def m3_def m4_def print_obj_tail [where r = "[]", unfolded append_Nil2] list.sel)
  show ?thesis
    unfolding t h [symmetric] using 1 2 3 4 by (simp add: field_walk)
qed

lemma parse_manifest_text:
  assumes "wf_manifest m" and "writable max_depth (JObj (manifest_members m anchors))"
  shows "parse_manifest (manifest_text m anchors) = Inr (parsed_manifest m anchors)"
proof -
  let ?t = "JObj (manifest_members m anchors)"
  have w: "\<forall>x \<in> set (manifest_members m anchors). writable max_depth (snd x)"
    using assms(2) writable_Suc [of "max_depth - 1"] by (auto simp: max_depth_def)
  have t: "manifest_text m anchors = lbrace # tl (print_json False ?t)"
    by (simp add: manifest_text_def manifest_members_def print_obj_tail [where r = "[]", simplified])
  have a: "print_json False anchors \<noteq> []"
    using print_start [OF manifest_members_writable(4) [OF w], of False "[]"] by auto
  have r: "read_value (manifest_text m anchors) = Some (sanitize_json ?t, [])"
    using read_print [OF assms(2), of "[]" False] by (simp add: manifest_text_def)
  obtain n where "for_more manifest_field zero_raw_manifest (at (tl (print_json False ?t)) 1 ObjectStart [TopValue]) =
     Inr (\<lparr>rm_version = m_format_version m, rm_identity = m_identity m, rm_entries = raw_entries (m_entries m),
       rm_anchors = print_json False anchors\<rparr>, at [rbrace] n ObjectComma [TopValue])"
    using manifest_fields_canon [OF assms(1) w] by blast
  with r have "unmarshal_manifest (manifest_text m anchors) = Some \<lparr>rm_version = m_format_version m, rm_identity = m_identity m,
      rm_entries = raw_entries (m_entries m), rm_anchors = print_json False anchors\<rparr>"
    by (simp add: unmarshal_manifest_def t new_decoder_at expect_open_obj)
  then show ?thesis
    using t a by (simp add: parse_manifest_def Let_def seen_manifest_def parsed_manifest_def raw_entries_def slice_elems_def
        comp_def seen_raw_entry)
qed

section \<open>The two readers agree\<close>

lemma parsed_entry_fields:
  "me_kind (parsed_entry e) = me_kind e" "me_path (parsed_entry e) = me_path e"
  "entry_start (parsed_entry e) = entry_start e"
  "me_kind e = entry_kind_sqlite_pages \<Longrightarrow> me_pages (parsed_entry e) = me_pages e"
  by (simp_all add: parsed_entry_def entry_start_def)

lemma run_entry_parsed: "run_entry fn (parsed_entry e) s = run_entry fn e s"
  unfolding run_entry_def parsed_entry_fields(1-3) by (rule if_cong) (simp_all add: parsed_entry_fields(4))

lemma run_entries_parsed: "run_entries fn (map parsed_entry es) s = run_entries fn es s"
  by (induction es arbitrary: s) (simp_all add: run_entry_parsed split: sum.split)

text \<open>
  C16. The two readers of a manifest agree. \<open>Parse\<close> gives back the manifest whose canonical text it is
  given, and the streaming reader, on the same text, is the fold of the callback over the entries
  that \<open>Parse\<close> returns, in order: same final state, same error, the same header and the raw bytes of the trust anchors.
\<close>

theorem stream_agrees_with_parse:
  assumes "wf_manifest m" and "writable max_depth (JObj (manifest_members m anchors))"
  shows "parse_manifest (manifest_text m anchors) = Inr (parsed_manifest m anchors) \<and>
     stream_manifest fn s (new_decoder (manifest_text m anchors)) =
       (let p = parsed_manifest m anchors in
        case run_entries fn (m_entries p) s of
          Inl (e, s1) \<Rightarrow> (Inl e, s1)
        | Inr s1 \<Rightarrow> (Inr \<lparr>mh_version = m_format_version p, mh_identity = m_identity p, mh_trust = m_trust_anchors p\<rparr>, s1))"
proof -
  have "writable max_depth anchors"
    using assms(2) writable_Suc [of "max_depth - 1" anchors] by (simp add: manifest_members_def max_depth_def)
  then show ?thesis
    using parse_manifest_text [OF assms] stream_manifest_text [OF assms(1), of anchors fn s]
    by (auto simp: parsed_manifest_def run_entries_parsed header_of_manifest_def Let_def split: sum.split)
qed

end
