(* ===== verification/DiagnoseRun.thy ===== *)
theory DiagnoseRun
  imports Summary ManifestParse
begin

text \<open>
  A complete run of diagnose on a small world: an empty canonical manifest, served with its hash pinned,
  on a host whose node is stopped.  The run succeeds; it instantiates the properties of successful runs.
\<close>

definition small_manifest :: manifest where
  "small_manifest = \<lparr>m_format_version = 1,
     m_identity = \<lparr>mi_block_height = 7, mi_core_version = ''v'', mi_created_at = ''t''\<rparr>,
     m_entries = [], m_trust_anchors = []\<rparr>"

definition foreign_entry :: man_entry where
  "foreign_entry = \<lparr>me_kind = entry_kind_sqlite_pages, me_path = ''pocketdb/web.sqlite3'',
     me_pages = [\<lparr>mp_offset = 0, mp_hash = ''h''\<rparr>], me_change_counter = Some 3, me_hash = []\<rparr>"

definition small_text :: bytes where
  "small_text = manifest_text small_manifest (JArr [])"

lemma valid_small [simp]:
  "valid_utf8 ''v''" "valid_utf8 ''t''" "valid_utf8 ''h''" "valid_utf8 ''pocketdb/web.sqlite3''" "valid_utf8 []"
  "valid_utf8 ''sqlite_pages''" "valid_utf8 ''/d/pocketdb''" "valid_utf8 demo_url"
  unfolding demo_url_def by (rule valid_utf8_ascii, auto)+

lemma wf_small: "wf_manifest small_manifest" "writable max_depth (JArr [])"
  "wf_manifest (small_manifest\<lparr>m_entries := [foreign_entry]\<rparr>)"
  by (simp_all add: small_manifest_def foreign_entry_def wf_manifest_def wf_entry_def int64_def
      max_depth_def entry_kind_sqlite_pages_def)

lemma stream_agrees_with_parse_witness:
  "parse_manifest (manifest_text (small_manifest\<lparr>m_entries := [foreign_entry]\<rparr>) (JArr [])) =
     Inr (small_manifest\<lparr>m_entries := [foreign_entry], m_trust_anchors := ''[]''\<rparr>) \<and>
   stream_manifest (\<lambda>hdr it n. (Inr hdr, n + (1 :: nat)))  0
     (new_decoder (manifest_text (small_manifest\<lparr>m_entries := [foreign_entry]\<rparr>) (JArr []))) =
   (Inr \<lparr>mh_version = 1, mh_identity = \<lparr>mi_block_height = 7, mi_core_version = ''v'', mi_created_at = ''t''\<rparr>,
      mh_trust = ''[]''\<rparr> :: unit stream_err + man_header, 1)"
proof -
  let ?m = "small_manifest\<lparr>m_entries := [foreign_entry]\<rparr>"
  have v: "validate_entry_path ''pocketdb/web.sqlite3'' = Inr ()" by code_simp
  have w: "writable max_depth (JObj (manifest_members ?m (JArr [])))"
    by (simp add: manifest_members_def small_manifest_def foreign_entry_def entry_members_def man_identity_tree_def
        man_page_tree_def max_depth_def) auto
  have "run_entries (\<lambda>hdr it n. (Inr hdr, n + (1 :: nat))) [foreign_entry] 0 = (Inr 1 :: unit stream_err \<times> nat + nat)"
    by (simp add: run_entry_def foreign_entry_def v settle_def entry_start_def)
  moreover have "parsed_manifest ?m (JArr []) = small_manifest\<lparr>m_entries := [foreign_entry], m_trust_anchors := ''[]''\<rparr>"
    by (simp add: parsed_manifest_def parsed_entry_def foreign_entry_def print_json.simps join_on.simps)
  ultimately show ?thesis
    using stream_agrees_with_parse [OF wf_small(3) w, where s = "0 :: nat"
        and fn = "\<lambda>hdr it n. (Inr hdr :: unit stream_err + entry_header, n + 1)"]
    by (simp add: Let_def small_manifest_def)
qed

lemma foreign_pages_refused_witness:
  "\<exists>x s'. stream_manifest (entry_fn ''/d/pocketdb'')
       (\<lparr>ds_emitter = demo_emitter, ds_total = 0, ds_pages = 0, ds_files = 0\<rparr>, demo_spool_world)
     (new_decoder (manifest_text (small_manifest\<lparr>m_entries := [foreign_entry]\<rparr>) (JArr []))) = (Inl x, s')"
  by (rule foreign_pages_refused [OF wf_small(3,2), where e = foreign_entry])
     (simp_all add: foreign_entry_def sqlite_entry_path_def)

section \<open>A run that succeeds\<close>

text \<open>A server of the text \<open>t\<close>, which has other things too, and the files of a host without a database.\<close>

definition serve :: "(string \<Rightarrow> http_reply) \<Rightarrow> bytes \<Rightarrow> os" where
  "serve f t = (world_of [''/d'', ''/d/pocketdb''] [])
     \<lparr>net := (\<lambda>_ u. if u = demo_url then Reply 200 (int (length t)) t False else f u)\<rparr>"

definition serve_opts :: "bytes \<Rightarrow> diag_options" where
  "serve_opts t = small_opts\<lparr>do_pinned := sha256_hex t\<rparr>"

abbreviation serve_small :: os where
  "serve_small \<equiv> serve (\<lambda>_. NetErr) small_text"

abbreviation run_opts :: diag_options where
  "run_opts \<equiv> serve_opts small_text"

lemma serve_opts_simps [simp]:
  "do_out (serve_opts t) = ''/d/plan.json''" "do_url (serve_opts t) = demo_url" "do_db (serve_opts t) = ''/d/pocketdb''"
  "do_pinned (serve_opts t) = sha256_hex t"
  by (simp_all add: serve_opts_def small_opts_def)

lemma serve_simps [simp]:
  "net (serve f t) n demo_url = Reply 200 (int (length t)) t False" "rnd (serve f t) = (\<lambda>_. ''r'')" "quiet (serve f t)"
  by (simp_all add: serve_def world_of_def quiet_def)

lemma serve_names: "names (serve f t) p = (if p = ''/d'' \<or> p = ''/d/pocketdb'' then Some DirN else None)"
  by (simp add: serve_def world_of_def)

lemma serve_wf [simp]: "wf_os (serve f t)"
  by (simp add: wf_os_def serve_names)

text \<open>What the steps of the run keep: the environment, and all names but those given.\<close>

definition stage :: "os \<Rightarrow> (string \<rightharpoonup> node) \<Rightarrow> os \<Rightarrow> bool" where
  "stage v ns w \<longleftrightarrow> quiet w \<and> rnd w = (\<lambda>_. ''r'') \<and> net w = net v \<and> names w = names v ++ ns"

lemma stage_tick [simp]: "stage v ns (tick w) = stage v ns w"
  by (simp add: stage_def)

lemma stage_store [simp]: "stage v ns (w\<lparr>store := f\<rparr>) = stage v ns w"
  by (simp add: stage_def quiet_def)

lemma stage_quiet: "stage v ns w \<Longrightarrow> quiet w"
  by (simp add: stage_def)

lemma stage_node:
  "stage (serve f t) ns w \<Longrightarrow> p \<noteq> ''/'' \<Longrightarrow> p \<noteq> ''.'' \<Longrightarrow>
   node_at w p = (case ns p of Some n \<Rightarrow> Some n | None \<Rightarrow> if p = ''/d'' \<or> p = ''/d/pocketdb'' then Some DirN else None)"
  by (simp add: stage_def node_at_def serve_names map_add_def split: option.split)

lemma stage_excl:
  assumes "stage (serve f t) ns w" and "go_dir p = ''/d''" and "p \<noteq> ''/''" and "p \<noteq> ''.''" and "p \<notin> {''/d'', ''/d/pocketdb''}"
    and "ns p = None" and "ns ''/d'' = None"
  shows "\<exists>i w'. open_excl p w = (Inr i, w') \<and> stage (serve f t) (ns(p \<mapsto> FileN i)) w'"
proof -
  have "node_at w p = None" "is_dir w ''/d''"
    using stage_node [OF assms(1,3,4)] stage_node [OF assms(1), of "''/d''"] assms by (auto simp: is_dir_def)
  then show ?thesis
    using assms by (simp add: open_excl_def syscall_quiet stage_quiet new_file_def)
      (auto simp: stage_def quiet_def)
qed

lemma stage_remove:
  assumes "stage (serve f t) ns w" and "ns p = Some (FileN i)" and "p \<notin> {''/d'', ''/d/pocketdb''}"
  shows "\<exists>w'. os_remove p w = (Inr (), w') \<and> stage (serve f t) (ns(p := None)) w' \<and> store w' = store w"
proof -
  have n: "names w p = Some (FileN i)" using assms by (simp add: stage_def)
  have "(names (serve f t) ++ ns)(p := None) = names (serve f t) ++ ns(p := None)"
    using assms(3) serve_names [of f t p] by (auto simp: map_add_def fun_eq_iff)
  then show ?thesis
    using assms n by (simp add: os_remove_def syscall_quiet stage_quiet) (simp add: stage_def quiet_def)
qed

lemma run_running_node:
  assumes "stage (serve g body) Map.empty w"
  shows "running_node idle_host ''/d/pocketdb'' w = (Pass, tick w)"
proof -
  have "node_at w ''/d/pocketdb/main.sqlite3'' = None" using stage_node [OF assms] by simp
  then have "open_read ''/d/pocketdb/main.sqlite3'' w = (Inl NotExist, tick w)"
    using assms by (simp add: open_read_def syscall_quiet stage_quiet)
  moreover have "go_clean ''/d/pocketdb'' = ''/d/pocketdb''" "is_abs ''/d/pocketdb''" by code_simp+
  ultimately show ?thesis
    by (simp add: running_node_def running_node_probe_def flock_probe_def db_file scan_for_pocketnet_core_def
        abs_path_def idle_host_def)
qed

lemma run_paths:
  "go_dir ''/d/plan.json'' = ''/d''" "go_dir ''/d/plan.json.tmp.r'' = ''/d''"
  "probe_name ''/d'' ''r'' = ''/d/.pocketnet-node-doctor-writeprobe-r''"
  "go_dir ''/d/.pocketnet-node-doctor-writeprobe-r'' = ''/d''"
  "go_join [''/d'', ''pocketnet-node-doctor-planemit-'' @ ''r'' @ ''.spool''] = ''/d/pocketnet-node-doctor-planemit-r.spool''"
  "go_dir ''/d/pocketnet-node-doctor-planemit-r.spool'' = ''/d''"
  "has_prefix demo_url https_prefix"
  "is_spool_of ''/d'' ''/d'' = False" "is_spool_of ''/d'' ''/d/pocketdb'' = False"
  "is_spool_of ''/d'' ''/d/pocketnet-node-doctor-planemit-r.spool'' = False"
  "is_abs ''/d/pocketdb''" "go_clean ''/d/pocketdb'' = ''/d/pocketdb''"
  by code_simp+

lemma run_probe:
  assumes "stage (serve g body) Map.empty w"
  shows "\<exists>w'. probe_writable ''/d/plan.json'' w = (Inr (), w') \<and> stage (serve g body) Map.empty w'"
proof -
  let ?p = "''/d/.pocketnet-node-doctor-writeprobe-r''"
  have s: "os_stat ''/d'' w = (Inr DirN, tick w)"
    using assms stage_node [OF assms, of "''/d''"] by (simp add: os_stat_quiet stage_quiet)
  have r: "rand_suffix (tick w) = (Inr ''r'', tick (tick w))"
    using assms by (simp add: rand_suffix_def syscall_quiet stage_quiet) (simp add: stage_def)
  obtain i w1 where o: "open_excl ?p (tick (tick w)) = (Inr i, w1)" and s1: "stage (serve g body) [?p \<mapsto> FileN i] w1"
    using stage_excl [of g body Map.empty "tick (tick w)" ?p] assms run_paths(4) by auto
  obtain w2 where a: "append_ino i [CHR 0x00] w1 = (Inr (), w2)" and s2: "stage (serve g body) [?p \<mapsto> FileN i] w2"
    using s1 by (simp add: append_ino_quiet stage_quiet)
  obtain w3 where "os_remove ?p (tick (tick w2)) = (Inr (), w3)" "stage (serve g body) ([?p \<mapsto> FileN i](?p := None)) w3"
    using stage_remove [of g body "[?p \<mapsto> FileN i]" "tick (tick w2)" ?p i] s2 by auto
  with s r o a s2 show ?thesis
    by (simp add: probe_writable_def run_paths Let_def os_noop_quiet stage_quiet)
qed

abbreviation planemit_file :: string where
  "planemit_file \<equiv> ''/d/pocketnet-node-doctor-planemit-r.spool''"

abbreviation manifest_file :: string where
  "manifest_file \<equiv> ''/d/pocketnet-node-doctor-manifest-r.spool''"

lemma run_emitter:
  assumes "stage (serve g body) Map.empty w"
  shows "\<exists>i em w'. new_plan_emitter ''/d/plan.json'' w = (Inr em, w') \<and> stage (serve g body) [planemit_file \<mapsto> FileN i] w'
     \<and> pe_out em = ''/d/plan.json'' \<and> pe_whole em = [] \<and> pe_spool_path em = planemit_file"
proof -
  obtain i w1 where o: "open_excl planemit_file w = (Inr i, w1)" "stage (serve g body) [planemit_file \<mapsto> FileN i] w1"
    using stage_excl [OF assms run_paths(6)] by auto
  have "rnd w (ticks w) = ''r''" using assms by (simp add: stage_def)
  with o have "create_temp ''/d'' ''pocketnet-node-doctor-planemit-'' ''.spool'' w = (Inr (planemit_file, i), w1)"
    using run_paths(5) by (simp add: create_temp_def Let_def)
  with o(2) show ?thesis by (auto simp add: new_plan_emitter_def run_paths(1))
qed

text \<open>Texts small enough for the spool of the host.\<close>

definition small :: "bytes \<Rightarrow> bool" where
  "small body \<longleftrightarrow> length body < 2 ^ 20"

lemma small_small [simp]: "small small_text"
proof -
  have "length small_text = 138" unfolding small_text_def by code_simp
  then show ?thesis by (simp add: small_def)
qed

lemma run_spool:
  assumes "stage (serve g body) [planemit_file \<mapsto> FileN i] w" and "small body"
  shows "\<exists>j w'. spool_and_verify (free_bytes idle_host) demo_url (sha256_hex body) ''/d'' w = (Inr manifest_file, w')
     \<and> stage (serve g body) [planemit_file \<mapsto> FileN i, manifest_file \<mapsto> FileN j] w' \<and> store w' j = body"
proof -
  have "names (reclaim_stale_spools ''/d'' w) = names w"
    using assms(1) run_paths(8-10)
    by (auto simp: reclaim_stale_spools_def remove_matching_def syscall_quiet stage_quiet stage_def serve_names
        map_add_def fun_eq_iff split: if_splits)
  moreover have "framed (Collect (is_spool_of ''/d'')) w (reclaim_stale_spools ''/d'' w)"
    unfolding reclaim_stale_spools_def by (rule remove_matching_framed)
  ultimately have s0: "stage (serve g body) [planemit_file \<mapsto> FileN i] (reclaim_stale_spools ''/d'' w)" (is "stage (serve g body) ?n ?w0")
    using assms by (auto simp: stage_def framed_def quiet_def)
  have g: "http_get demo_url ?w0 = (Reply 200 (int (length body)) body False, tick ?w0)"
    using s0 by (simp add: http_get_def stage_def)
  obtain j w1 where o: "open_excl manifest_file (tick ?w0) = (Inr j, w1)"
      and s1: "stage (serve g body) (?n(manifest_file \<mapsto> FileN j)) w1"
    using stage_excl [of g body ?n "tick ?w0" manifest_file] s0 demo_spool_name(2) by auto
  have st: "store w1 j = []" using open_excl_Inr(3) [OF o] by simp
  have "rnd (tick ?w0) (ticks (tick ?w0)) = ''r''" using s0 by (simp add: stage_def)
  with o have "create_temp ''/d'' spool_prefix spool_suffix (tick ?w0) = (Inr (manifest_file, j), w1)"
    using demo_spool_name(1) by (simp add: create_temp_def Let_def)
  moreover have "copy_limit (int (length body)) = Suc (length body)"
    using assms(2) by (simp add: copy_limit_eq small_def)
  ultimately have "spool_body_to_verified (free_bytes idle_host) body False (int (length body)) ''/d''
      (sha256_hex body) (tick ?w0) = (Inr manifest_file, tick ((tick w1)\<lparr>store := (store w1)(j := body)\<rparr>))"
    using s1 st by (simp add: spool_body_to_verified_def append_ino_quiet os_noop_quiet stage_quiet)
  moreover have "\<not> (2 ^ 32 :: 64 word) < word_of_int (int (length body)) + capacity_margin"
  proof -
    have "unat (word_of_nat (length body) :: 64 word) = length body" using assms(2) by (simp add: unat_of_nat small_def)
    then show ?thesis using assms(2) by (simp add: capacity_margin_def word_less_nat_alt unat_word_ariths small_def)
  qed
  moreover have "free_bytes idle_host t p = Some (2 ^ 32)" for t p
    by (simp add: free_bytes_def idle_host_def)
  ultimately have "spool_and_verify (free_bytes idle_host) demo_url (sha256_hex body) ''/d'' w
      = (Inr manifest_file, tick ((tick w1)\<lparr>store := (store w1)(j := body)\<rparr>))"
    using g run_paths(7) by (simp add: spool_and_verify_def Let_def)
  then show ?thesis using s1 by (intro exI [of _ j]) simp
qed

text \<open>Entries that are processed without a write: the state they lead to, whatever the other files are.\<close>

definition entries_run :: "(string \<Rightarrow> http_reply) \<Rightarrow> manifest \<Rightarrow> diag_state \<Rightarrow> diag_state \<Rightarrow> bool" where
  "entries_run g m s s' \<longleftrightarrow>
     (\<forall>ns v. stage (serve g (manifest_text m (JArr []))) ns v \<longrightarrow> dom ns = {planemit_file, manifest_file} \<longrightarrow>
        (\<exists>v'. run_entries (entry_fn ''/d/pocketdb'') (m_entries m) (s, v) = Inr (s', v')
          \<and> stage (serve g (manifest_text m (JArr []))) ns v'))"

lemma entries_run_none [simp]: "entries_run g small_manifest s s"
  by (simp add: entries_run_def small_manifest_def)

lemma run_fetch:
  assumes "stage (serve g body) [planemit_file \<mapsto> FileN i] w" and "body = manifest_text m (JArr [])" and "small body"
    and "wf_manifest m" and "entries_run g m s s'"
  shows "\<exists>w'. fetch_and_process (free_bytes idle_host) demo_url (sha256_hex body) ''/d'' (entry_fn ''/d/pocketdb'') (s, w)
       = (Inr (header_of_manifest m (JArr [])), s', w')
     \<and> stage (serve g body) [planemit_file \<mapsto> FileN i] w'"
proof -
  obtain j w1 where sv: "spool_and_verify (free_bytes idle_host) demo_url (sha256_hex body) ''/d'' w = (Inr manifest_file, w1)"
    and s1: "stage (serve g body) [planemit_file \<mapsto> FileN i, manifest_file \<mapsto> FileN j] w1" and st: "store w1 j = body"
    using run_spool [OF assms(1,3)] by blast
  have "node_at w1 manifest_file = Some (FileN j)" using stage_node [OF s1, of manifest_file] by simp
  then have o: "open_read manifest_file w1 = (Inr j, tick w1)"
    using s1 by (simp add: open_read_def syscall_quiet stage_quiet)
  have r: "read_stream j (tick w1) = ((body, None), tick (tick w1))"
    using stage_quiet [OF s1] st by (simp add: read_stream_def quiet_def)
  have d: "dom [planemit_file \<mapsto> FileN i, manifest_file \<mapsto> FileN j] = {planemit_file, manifest_file}" by auto
  obtain v' where re: "run_entries (entry_fn ''/d/pocketdb'') (m_entries m) (s, tick (tick w1)) = Inr (s', v')"
    and s2: "stage (serve g body) [planemit_file \<mapsto> FileN i, manifest_file \<mapsto> FileN j] v'"
    using assms(5) s1 d unfolding entries_run_def assms(2) stage_tick [symmetric, of _ _ w1] stage_tick [symmetric, of _ _ "tick w1"]
    by blast
  have t: "stream_manifest (entry_fn ''/d/pocketdb'') (s, tick (tick w1)) (new_decoder body) =
      (Inr (header_of_manifest m (JArr [])), s', v')"
    unfolding assms(2) by (subst stream_manifest_text [OF assms(4) wf_small(2)]) (simp add: re)
  have v: "validate_trust_anchors_raw (mh_trust (header_of_manifest m (JArr []))) = Inr ()"
    by (simp add: header_of_manifest_def) code_simp
  obtain w2 where "os_remove manifest_file v' = (Inr (), w2)"
    and "stage (serve g body) ([planemit_file \<mapsto> FileN i, manifest_file \<mapsto> FileN j](manifest_file := None)) w2"
    using stage_remove [OF s2, of manifest_file j] by auto
  moreover have "[planemit_file \<mapsto> FileN i, manifest_file \<mapsto> FileN j](manifest_file := None) = [planemit_file \<mapsto> FileN i]"
    by (auto simp: fun_eq_iff)
  ultimately show ?thesis
    by (simp add: fetch_and_process_def sv parse_from_spool_def o r t v)
qed


text \<open>The predicates after the stream pass.\<close>

lemma run_post:
  assumes "m_format_version m = 1" and "mi_core_version (m_identity m) = ''v''"
  shows "post_stream idle_host opts (header_of_manifest m (JArr [])) 0 w = (None, w)"
proof -
  have "check_format_version_value (mh_version (header_of_manifest m (JArr []))) = Inr ()"
    using assms(1) by (simp add: header_of_manifest_def) code_simp
  moreover have "version_lookup idle_host = Some ''v''" by code_simp
  moreover have "mi_core_version (mh_identity (header_of_manifest m (JArr []))) = ''v''"
    using assms(2) by (simp add: header_of_manifest_def)
  moreover have "permission_probe idle_host p = (True, False)" for p
    by (simp add: permission_probe_def idle_host_def split: option.split)
  moreover have "statfs_impl idle_host p w = Some (2 ^ 32, 2 ^ 32)" for p
    by (simp add: statfs_impl_def idle_host_def)
  ultimately show ?thesis
    by (simp add: post_stream_def version_mismatch_value_def permission_read_only_def
        volume_capacity_from_total_bytes_def)
qed

lemma run_finalize:
  assumes "stage (serve g body) [planemit_file \<mapsto> FileN k] w" and "emitting em w ds" and "int64 (ci_block_height ci)"
    and "\<forall>d \<in> set (pe_whole em). wf_divergence d" and "pe_out em = ''/d/plan.json''" and "pe_spool_path em = planemit_file"
  shows "\<exists>em' i w'. emit_finalize em ci url path w = ((Inr (), em'), w')
     \<and> names w' = names (serve g body) ++ [''/d/plan.json'' \<mapsto> FileN i]"
proof -
  have n: "node_at w ''/d/plan.json.tmp.r'' = None" "is_dir w ''/d''" "\<not> is_dir w ''/d/plan.json''"
    "names w ''/d/plan.json'' = None"
    using stage_node [OF assms(1)] assms(1) by (simp_all add: is_dir_def) (simp add: stage_def serve_names)
  have r: "rnd w t = ''r''" for t using assms(1) by (simp add: stage_def)
  obtain e2 w2 i where ef: "emit_finalize em ci url path w = (let (e3, w3) = remove_spool e2 w2 in ((Inr (), e3), w3))"
    and e2: "pe_spool e2 = pe_spool em" "pe_spool_path e2 = planemit_file" and q: "quiet w2"
    and n2: "names w2 = (names w)(''/d/plan.json'' \<mapsto> FileN i)"
    using emit_finalize_stages [OF stage_quiet [OF assms(1)] assms(2-4), of url path] assms(5,6) n r run_paths(1,2) by auto
  have "pe_spool em \<noteq> None" using assms(2) by (auto simp: emitting_def)
  then have w3: "remove_spool e2 w2 = (e2\<lparr>pe_spool := None, pe_spool_path := []\<rparr>, snd (os_remove planemit_file (tick w2)))"
    using e2 q by (simp add: remove_spool_def os_noop_quiet)
  have "names w planemit_file = Some (FileN k)" using assms(1) by (simp add: stage_def)
  then have "names (snd (os_remove planemit_file (tick w2))) = (names w2)(planemit_file := None)"
    using q n2 by (simp add: os_remove_def syscall_quiet)
  also have "\<dots> = names (serve g body) ++ [''/d/plan.json'' \<mapsto> FileN i]"
    using assms(1) n2 by (auto simp: stage_def map_add_def fun_eq_iff serve_names)
  finally show ?thesis using ef w3 by (intro exI [of _ "e2\<lparr>pe_spool := None, pe_spool_path := []\<rparr>"] exI [of _ i]) simp
qed

text \<open>A run on a manifest whose entries are processed without a write.\<close>

lemma serving_run:
  assumes "body = manifest_text m (JArr [])" and "small body" and "wf_manifest m"
    and "m_format_version m = 1" and "mi_core_version (m_identity m) = ''v''"
    and "\<And>em. entries_run g m (init_diag_state em) (S em) \<and> ds_total (S em) = 0"
  shows "\<exists>w' i. diagnose idle_host (serve_opts body) (serve g body) = (Finished Success None, w')
     \<and> stage (serve g body) [''/d/plan.json'' \<mapsto> FileN i] w'"
proof -
  let ?hdr = "header_of_manifest m (JArr [])" and ?w = "serve g body"
  have s0: "stage ?w Map.empty ?w" by (simp add: stage_def)
  obtain w1 where pw: "probe_writable ''/d/plan.json'' (tick ?w) = (Inr (), w1)" "stage ?w Map.empty w1"
    using run_probe [of g body "tick ?w"] s0 by auto
  obtain k em w2 where ne: "new_plan_emitter ''/d/plan.json'' w1 = (Inr em, w2)" "stage ?w [planemit_file \<mapsto> FileN k] w2"
      and em: "pe_out em = ''/d/plan.json''" "pe_whole em = []" "pe_spool_path em = planemit_file"
    using run_emitter [OF pw(2)] by blast
  have en: "entries_run g m (init_diag_state em) (S em)" "ds_total (S em) = 0" using assms(6) by simp_all
  obtain w3 where fp: "fetch_and_process (free_bytes idle_host) demo_url (sha256_hex body) ''/d''
        (entry_fn ''/d/pocketdb'') (init_diag_state em, w2) = (Inr ?hdr, S em, w3)"
      and s3: "stage ?w [planemit_file \<mapsto> FileN k] w3"
    using run_fetch [OF ne(2) assms(1-3) en(1)] by blast
  have net2: "net w2 t demo_url = Reply st d b x \<Longrightarrow> d < 2 ^ 63 - 1" for t st d b x
    using ne(2) assms(2) by (auto simp: stage_def small_def)
  have rc: "recorded ''/d/plan.json'' planemit_file (S em, w3)"
    using fetch_success [of "free_bytes idle_host" "serve_opts body" "init_diag_state em" w2 ?hdr "S em" w3 planemit_file]
      spool_next [OF ne(1)] fp net2 em(3) by (simp add: run_paths(1))
  then obtain ds where ds: "emitting (ds_emitter (S em)) w3 ds" by (auto simp: recorded_def)
  have wh: "\<forall>d \<in> set (pe_whole (ds_emitter (S em))). wf_divergence d" and
    po: "pe_out (ds_emitter (S em)) = ''/d/plan.json''" "pe_spool_path (ds_emitter (S em)) = planemit_file"
    using rc by (auto simp: recorded_def whole_ok_def wf_divergence_def)
  have ci: "int64 (ci_block_height (plan_identity (serve_opts body) ?hdr))"
    using assms(3) by (simp add: plan_identity_def header_of_manifest_def wf_manifest_def)
  obtain em' i w4 where fz: "emit_finalize (ds_emitter (S em)) (plan_identity (serve_opts body) ?hdr) demo_url ''/d/pocketdb'' w3
      = ((Inr (), em'), w4)" and n4: "names w4 = names ?w ++ [''/d/plan.json'' \<mapsto> FileN i]"
    using run_finalize [OF s3 ds ci wh po] by blast
  have "abs_path idle_host ''/d/pocketdb'' = Some ''/d/pocketdb''" by (simp add: abs_path_def run_paths(11,12))
  then have "finish_diagnose idle_host (serve_opts body) ?hdr (S em) w3 = (Finished Success None, em', w4)"
    using fz run_post [OF assms(4,5), of "serve_opts body" w3] en(2) by (simp add: finish_diagnose_def)
  then have d: "diagnose idle_host (serve_opts body) ?w = (Finished Success None, w4)"
    using run_running_node [OF s0] pw(1) ne(1) fp
    by (simp add: diagnose_def stream_and_finish_def run_paths(1))
  have "framed UNIV ?w w4"
    using diagnose_plan_only [OF d] framed_mono by (auto simp: plan_only_def touches_def)
  then have "stage ?w [''/d/plan.json'' \<mapsto> FileN i] w4" using n4 framed_quiet [of UNIV ?w w4] by (simp add: stage_def framed_def)
  with d show ?thesis by blast
qed

lemma small_run: "\<exists>w'. diagnose idle_host run_opts serve_small = (Finished Success None, w')"
proof -
  have "m_format_version small_manifest = 1" "mi_core_version (m_identity small_manifest) = ''v''"
    by (simp_all add: small_manifest_def)
  from serving_run [OF small_text_def small_small wf_small(1) this, of "\<lambda>_. NetErr" init_diag_state]
  show ?thesis by (auto simp: init_diag_state_def)
qed

lemma small_length [simp]: "length small_text < 9223372036854775807"
  using small_small by (simp add: small_def)

lemma small_net: "net serve_small t u = Reply st d b x \<Longrightarrow> d < 2 ^ 63 - 1"
  using small_small by (auto simp: serve_def small_def split: if_splits)

lemma small_temps_run: "do_out (serve_opts body) \<notin> doctor_temps (do_out (serve_opts body)) (rnd (serve g body))"
  using small_temps by fastforce

lemma diagnose_success_plan_witness:
  "\<exists>w' hdr ds whole. diagnose idle_host run_opts serve_small = (Finished Success None, w')
     \<and> file_data w' ''/d/plan.json'' = plan_marshal (emitted_plan (plan_identity run_opts hdr) demo_url ''/d/pocketdb'' (ds @ whole))"
proof -
  obtain w' where d: "diagnose idle_host run_opts serve_small = (Finished Success None, w')" using small_run by blast
  have ab: "abs_path idle_host ''/d/pocketdb'' = Some ''/d/pocketdb''" by (simp add: abs_path_def run_paths(11,12))
  have v: "valid_utf8 (do_url run_opts)" "\<And>p. abs_path idle_host (do_db run_opts) = Some p \<Longrightarrow> valid_utf8 p"
    using ab by auto
  have "\<exists>hdr path ds whole.
     let p = emitted_plan (plan_identity run_opts hdr) (do_url run_opts) path (ds @ whole) in
     file_data w' (do_out run_opts) = plan_marshal p \<and> verify_self_hash p = Inr ()
   \<and> header_of_pinned serve_small run_opts hdr \<and> mh_version hdr = 1
   \<and> version_lookup idle_host = Some (mi_core_version (mh_identity hdr)) \<and> abs_path idle_host (do_db run_opts) = Some path
   \<and> (\<forall>d \<in> set ds. sqlite_ok d) \<and> (\<forall>d \<in> set whole. whole_ok d)"
    by (rule diagnose_success_plan [OF d small_temps_run v]) (auto dest: small_net)
  then obtain hdr ds whole where "file_data w' ''/d/plan.json'' =
      plan_marshal (emitted_plan (plan_identity run_opts hdr) demo_url ''/d/pocketdb'' (ds @ whole))"
    unfolding Let_def by (elim exE conjE) (simp add: ab)
  with d show ?thesis by blast
qed

lemma summary_of_counters_witness:
  "\<exists>em w1 w2 s. new_plan_emitter (do_out run_opts) serve_small = (Inr em, w1)
     \<and> fetch_and_process (free_bytes idle_host) demo_url (sha256_hex small_text) ''/d'' (entry_fn ''/d/pocketdb'')
         (init_diag_state em, w1) = (Inr (header_of_manifest small_manifest (JArr [])), s, w2)
     \<and> (\<exists>ds. emit_summary_counts (ds_pages s) (ds_files s) =
           emit_summary (emitted_plan demo_identity demo_url ''/d/pocketdb'' (ds @ pe_whole (ds_emitter s))))"
proof -
  have s0: "stage serve_small Map.empty serve_small" by (simp add: stage_def)
  obtain i em w1 where e: "new_plan_emitter (do_out run_opts) serve_small = (Inr em, w1)"
      and s1: "stage serve_small [planemit_file \<mapsto> FileN i] w1"
    using run_emitter [OF s0] by auto
  obtain w2 where f: "fetch_and_process (free_bytes idle_host) demo_url (sha256_hex small_text) ''/d'' (entry_fn ''/d/pocketdb'')
      (init_diag_state em, w1) = (Inr (header_of_manifest small_manifest (JArr [])), init_diag_state em, w2)"
    using run_fetch [OF s1 small_text_def small_small wf_small(1) entries_run_none] by blast
  have n: "net w1 t u = Reply st d b x \<Longrightarrow> d < 2 ^ 63 - 1" for t u st d b x
    using s1 small_net by (simp add: stage_def)
  have "\<exists>ds. emitting (ds_emitter (init_diag_state em)) w2 ds
     \<and> emit_summary_counts (ds_pages (init_diag_state em)) (ds_files (init_diag_state em)) =
         emit_summary (emitted_plan demo_identity demo_url ''/d/pocketdb'' (ds @ pe_whole (ds_emitter (init_diag_state em))))
     \<and> ds_total (init_diag_state em) = word_of_nat (page_count ds) * 4096"
    by (rule summary_of_counters [OF e, where free = "free_bytes idle_host"]) (use f n in \<open>auto simp: run_paths(1)\<close>)
  with e f show ?thesis by blast
qed

lemma diagnose_checks_capacity_witness:
  "\<exists>w' hdr path ds t free. diagnose idle_host run_opts serve_small = (Finished Success None, w')
     \<and> file_data w' ''/d/plan.json'' = plan_marshal (emitted_plan (plan_identity run_opts hdr) demo_url path ds)
     \<and> free_bytes idle_host t ''/d/pocketdb'' = Some free \<and> (page_count ds < 2 ^ 51 \<longrightarrow> 2 * 4096 * page_count ds \<le> unat free)"
proof -
  obtain w' where d: "diagnose idle_host run_opts serve_small = (Finished Success None, w')" using small_run by blast
  have ab: "abs_path idle_host ''/d/pocketdb'' = Some ''/d/pocketdb''" by (simp add: abs_path_def run_paths(11,12))
  have "\<exists>hdr path ds t free.
     file_data w' (do_out run_opts) = plan_marshal (emitted_plan (plan_identity run_opts hdr) (do_url run_opts) path ds)
   \<and> free_bytes idle_host t (do_db run_opts) = Some free \<and> (page_count ds < 2 ^ 51 \<longrightarrow> 2 * 4096 * page_count ds \<le> unat free)"
    by (rule diagnose_checks_capacity [OF d small_temps_run]) (use ab in \<open>auto dest: small_net\<close>)
  with d show ?thesis by auto
qed

end
