(* ===== verification/ApplyProps.thy ===== *)
theory ApplyProps
  imports ApplyRun
begin

text \<open>
  What \<open>apply.Run\<close> guarantees: refusals before staging change no file, a success has verified
  every whole file it promised, the pool never blocks and ends after a bounded number of steps,
  and every change of a live file has passed the hash gate.  The last part states limits of the
  design that the model shows.
\<close>

section \<open>Checks before staging only read\<close>

text \<open>Nothing but the clock moves.\<close>

definition untouched :: "os \<Rightarrow> os \<Rightarrow> bool" where
  "untouched w w' \<longleftrightarrow> fs w' = fs w \<and> framed {} w w'"

lemma untouched_refl [simp]: "untouched w w" "untouched w (tick w)"
  by (simp_all add: untouched_def)

lemma untouched_trans: "untouched w w1 \<Longrightarrow> untouched w1 w2 \<Longrightarrow> untouched w w2"
  by (auto simp: untouched_def intro: framed_trans)

lemma read_plan_untouched: "untouched w (snd (read_plan p w))"
proof -
  obtain r w1 where o: "open_read p w = (r, w1)" by fastforce
  have f: "untouched w w1" using open_read_fs [of p w] open_read_framed [of w p] o by (simp add: untouched_def)
  show ?thesis
  proof (cases r)
    case (Inr i)
    obtain d e w2 where s: "read_stream i w1 = ((d, e), w2)" by (metis prod.exhaust)
    then have "untouched w1 w2" using read_stream_framed [of w1 i] by (simp add: untouched_def)
    with f have "untouched w w2" by (rule untouched_trans)
    with o s Inr show ?thesis by (simp add: read_plan_def)
  qed (use o f in \<open>simp add: read_plan_def\<close>)
qed

lemma read_plan_fs: "fs (snd (read_plan p w)) = fs w"
  using read_plan_untouched [of w p] by (simp add: untouched_def)

definition reads_only :: "'a phase \<Rightarrow> bool" where
  "reads_only f \<longleftrightarrow> (\<forall>w. untouched w (snd (f w)))"

lemma reads_only_and_then:
  assumes "reads_only f" and "\<And>x. reads_only (g x)"
  shows "reads_only (and_then f g)"
  unfolding reads_only_def
proof
  fix w
  obtain r w1 where r: "f w = (r, w1)" by fastforce
  then have f: "untouched w w1" using assms(1) unfolding reads_only_def by (metis snd_conv)
  show "untouched w (snd (and_then f g w))"
  proof (cases r)
    case (Inr x)
    have "untouched w1 (snd (g x w1))" using assms(2) unfolding reads_only_def by blast
    with untouched_trans [OF f] r Inr show ?thesis by (simp add: and_then_def)
  qed (use r f in \<open>simp add: and_then_def\<close>)
qed

lemma run_gate_reads: "reads_only (run_gate opts)"
  unfolding reads_only_def
proof
  fix w
  show "untouched w (snd (run_gate opts w))"
    using read_plan_untouched [of w "ao_plan opts"]
    by (auto simp: run_gate_def split: prod.split sum.split)
qed

lemma self_hash_untouched: "untouched w (snd (verify_self_hash_streaming p w))"
proof -
  obtain r1 w1 where 1: "read_file p w = (r1, w1)" by fastforce
  obtain r2 w2 where 2: "read_file p w1 = (r2, w2)" by fastforce
  have u: "untouched v (snd (read_file p v))" for v
    using read_file_fs [of p v] read_file_framed [of v p] by (simp add: untouched_def)
  have "untouched w w1" "untouched w w2" using u [of w] untouched_trans [OF _ u [of w1]] 1 2 by simp_all
  with 1 2 show ?thesis
    by (auto simp: verify_self_hash_streaming_def split: sum.split option.split)
qed

lemma run_self_hash_reads: "reads_only (run_self_hash opts)"
  unfolding reads_only_def
proof
  fix w
  show "untouched w (snd (run_self_hash opts w))"
    using self_hash_untouched [of w "ao_plan opts"]
    by (auto simp: run_self_hash_def verify_plan_self_hash_def split: prod.split sum.split)
qed

lemma stream_pages_untouched: "untouched w (snd (stream_pages p w))"
  using read_plan_untouched [of w p] by (auto simp: stream_pages_def split: prod.split sum.split)

lemma stream_pages_fs: "fs (snd (stream_pages p w)) = fs w"
  using stream_pages_untouched [of w p] by (simp add: untouched_def)

lemma run_validate_reads: "reads_only (run_validate opts)"
  unfolding reads_only_def
proof
  fix w
  obtain r w1 where h: "stream_headers (ao_plan opts) w = (r, w1)" by fastforce
  have f: "untouched w w1"
    using read_plan_untouched [of w "ao_plan opts"] h by (auto simp: stream_headers_def split: prod.splits sum.splits)
  have "untouched w (snd (validate_page_hashes (ao_plan opts) w1))"
    using untouched_trans [OF f stream_pages_untouched [of w1 "ao_plan opts"]]
    by (auto simp: validate_page_hashes_def split: prod.split option.split)
  with h f show "untouched w (snd (run_validate opts w))"
    by (auto simp: run_validate_def split: sum.split prod.split)
qed

lemma run_freshness_reads: "reads_only (run_freshness opts hdr)"
  unfolding reads_only_def
  by (auto simp: run_freshness_def verify_manifest_freshness_def http_get_def Let_def
      split: prod.split option.split http_reply.split)

lemma run_pocketdb_reads: "reads_only (run_pocketdb hdr)"
  by (simp add: reads_only_def run_pocketdb_def)

lemma run_checks_reads: "reads_only (run_checks opts)"
  unfolding run_checks_def
  by (intro reads_only_and_then run_gate_reads run_self_hash_reads run_validate_reads
      run_freshness_reads run_pocketdb_reads) (simp add: reads_only_def)

section \<open>The codes of the later phases\<close>

definition late_code :: "run_outcome \<Rightarrow> bool" where
  "late_code r \<longleftrightarrow>
     (case r of Exited ec e \<Rightarrow>
        ec \<in> {Success, GenericError, RollbackCompleted, RollbackFailed, NetworkBudgetExhausted}
        \<and> (ec = Success \<longrightarrow> e = None)
      | _ \<Rightarrow> True)"

lemma late_code_simps [simp]:
  "late_code Panicked" "late_code Blocked" "late_code (Exited GenericError e)"
  "late_code (Exited Success None)" "late_code (Exited NetworkBudgetExhausted e)"
  by (simp_all add: late_code_def)

lemma roll_back_late: "roll_back opts sh w = (r, w') \<Longrightarrow> late_code r"
  by (auto simp: roll_back_def execute_rollback_def late_code_def Let_def split: prod.splits if_splits)

lemma run_staging_late: "run_staging opts hdr w = (Inl r, w') \<Longrightarrow> late_code r"
  by (auto simp: run_staging_def split: prod.splits sum.splits if_splits)

lemma scan_units_late: "scan_units dir cs acc w = (Inl r, w') \<Longrightarrow> late_code r"
  by (induction dir cs acc w rule: scan_units.induct) (auto split: prod.splits bool.splits)

lemma run_scan_late: "run_scan opts datadir root headers dir w = (Inl r, w') \<Longrightarrow> late_code r"
  by (auto simp: run_scan_def and_then_def dest: scan_units_late split: prod.splits sum.splits if_splits)

lemma shadow_if_new_late: "shadow_if_new dir si w = (Inl r, w') \<Longrightarrow> late_code r"
  by (auto simp: shadow_if_new_def split: prod.splits sum.splits if_splits)

lemma take_shadows_late: "take_shadows dir sis acc w = (Inl r, w') \<Longrightarrow> late_code r"
proof (induction sis arbitrary: acc w)
  case (Cons si sis)
  obtain tk w1 where l: "live_exists si w = (tk, w1)" by fastforce
  with Cons show ?case
    by (cases tk) (auto simp: and_then_def dest: shadow_if_new_late split: prod.splits sum.splits)
qed simp

lemma run_workers_late: "run_workers ex opts datadir root headers dir n w = (Inl r, w') \<Longrightarrow> late_code r"
  by (auto simp: run_workers_def Let_def split: prod.splits option.splits if_splits)

lemma run_verify_late: "run_verify ex opts datadir root headers sh w = (Inl r, w') \<Longrightarrow> late_code r"
  by (auto simp: run_verify_def Let_def dest: roll_back_late split: prod.splits sum.splits if_splits)

lemma run_verify_not_success: "run_verify ex opts datadir root headers sh w = (Inl (Exited Success e), w') \<Longrightarrow> False"
  by (auto simp: run_verify_def roll_back_def execute_rollback_def Let_def split: prod.splits sum.splits if_splits)

lemma run_after_pool_late:
  "run_after_pool ex opts datadir root headers dir sh s w = (r, w') \<Longrightarrow> late_code r"
  by (auto simp: run_after_pool_def dest: roll_back_late run_verify_late split: prod.splits sum.splits if_splits)

lemma run_tasks_late: "run_tasks ex opts hdr headers w = (r, w') \<Longrightarrow> late_code r"
  by (auto simp: run_tasks_def Let_def split: prod.splits sum.splits if_splits
      dest: run_staging_late run_scan_late take_shadows_late run_workers_late run_after_pool_late)

section \<open>A passed verification\<close>

lemma fold_update_distinct:
  assumes "distinct (map fst m @ map f xs)"
  shows "foldl (\<lambda>a x. AList.update (f x) (g x) a) m xs = m @ map (\<lambda>x. (f x, g x)) xs"
  using assms
proof (induction xs arbitrary: m)
  case (Cons x xs)
  have "AList.update (f x) (g x) m = m @ [(f x, g x)]"
    using Cons.prems by (induction m) auto
  with Cons.IH [of "m @ [(f x, g x)]"] Cons.prems show ?case by simp
qed simp

definition whole_headers :: "divergence_header list \<Rightarrow> divergence_header list" where
  "whole_headers headers = filter (\<lambda>h. dh_kind h = kind_whole_file) headers"

lemma plan_hashes_filter:
  "plan_hashes headers = foldl (\<lambda>m h. AList.update (dh_path h) (dh_hash h) m) [] (whole_headers headers)"
proof -
  have "foldl (\<lambda>m h. if dh_kind h = kind_whole_file then AList.update (dh_path h) (dh_hash h) m else m) a headers =
      foldl (\<lambda>m h. AList.update (dh_path h) (dh_hash h) m) a (whole_headers headers)" for a
    by (induction headers arbitrary: a) (auto simp: whole_headers_def)
  then show ?thesis by (simp add: plan_hashes_def)
qed

lemma plan_hashes_distinct:
  "distinct (map dh_path (whole_headers headers)) \<Longrightarrow>
   plan_hashes headers = map (\<lambda>h. (dh_path h, dh_hash h)) (whole_headers headers)"
  by (simp add: plan_hashes_filter fold_update_distinct)

definition lawful_order :: "externals \<Rightarrow> bool" where
  "lawful_order ex \<longleftrightarrow> (\<forall>xs. mset (ex_order ex xs) = mset xs)"

lemma resolve_hashes_distinct:
  assumes "lawful_order ex" and "distinct (map (\<lambda>(p, h). resolve_live_path datadir root p) m)"
  shows "set (resolve_hashes ex datadir root m) = (\<lambda>(p, h). (resolve_live_path datadir root p, h)) ` set m"
proof -
  have e: "mset (ex_order ex m) = mset m" using assms(1) by (simp add: lawful_order_def)
  have "mset (map (\<lambda>(p, h). resolve_live_path datadir root p) (ex_order ex m)) =
      mset (map (\<lambda>(p, h). resolve_live_path datadir root p) m)"
    using e by simp
  then have d: "distinct (map (\<lambda>x. resolve_live_path datadir root (fst x)) (ex_order ex m))"
    using assms(2) mset_eq_imp_distinct_iff by (simp only: case_prod_beta') blast
  have "resolve_hashes ex datadir root m =
      map (\<lambda>x. (resolve_live_path datadir root (fst x), snd x)) (ex_order ex m)"
    using fold_update_distinct [of "[]" "\<lambda>x. resolve_live_path datadir root (fst x)" "ex_order ex m" snd] d
    by (simp add: resolve_hashes_def case_prod_beta')
  then show ?thesis using mset_eq_setD [OF e] by (simp add: case_prod_beta')
qed

definition no_injection :: "apply_options \<Rightarrow> bool" where
  "no_injection opts \<longleftrightarrow> \<not> ao_corrupt_sqlite opts \<and> \<not> ao_rollback_fault opts \<and>
     \<not> ao_corrupt_after_rename opts \<and> \<not> ao_hash_mismatch opts \<and> ao_fail_nth opts = 0"

lemma resolve_live_abs:
  assumes "is_abs root"
  shows "go_join [[], resolve_live_path (go_dir root) root p] = resolve_live_path (go_dir root) root p"
proof -
  have j: "go_join [d, x] = go_clean (d @ slash # x)" if "is_abs d" for d x
    using that by (cases d) (auto simp: go_join_def is_abs_def)
  have c: "go_join [[], go_join [d, x]] = go_join [d, x]" if "is_abs d" for d x
  proof -
    have a: "is_abs (d @ slash # x)" using that by (cases d) (auto simp: is_abs_def)
    then have "go_clean (d @ slash # x) \<noteq> []" using is_abs_clean [OF a] by (auto simp: is_abs_def)
    then show ?thesis using j [OF that] go_clean_abs_idem [OF a] by (simp add: go_join_def)
  qed
  show ?thesis using c [OF assms] c [OF is_abs_dir [OF assms]] by (simp add: resolve_live_path_def)
qed

definition live_of :: "plan_header \<Rightarrow> divergence_header \<Rightarrow> string" where
  "live_of hdr h = resolve_live_path (go_dir (ph_path hdr)) (ph_path hdr) (dh_path h)"

lemma run_verify_sound:
  assumes "run_verify ex opts (go_dir (ph_path hdr)) (ph_path hdr) headers sh w = (Inr u, w')"
    and "no_injection opts" and "lawful_order ex" and "is_abs (ph_path hdr)"
    and "distinct (map (live_of hdr) (whole_headers headers))"
    and "h \<in> set (whole_headers headers)" and "dh_path h \<noteq> ''pocketdb/main.sqlite3''"
  shows "\<exists>d. file_data w' (live_of hdr h) = Some d \<and> sha256_hex d = dh_hash h"
proof -
  let ?root = "ph_path hdr"
  let ?m = "expected_hashes opts headers"
  have "map (live_of hdr) (whole_headers headers) =
      map (resolve_live_path (go_dir ?root) ?root) (map dh_path (whole_headers headers))"
    by (simp add: live_of_def)
  with assms(5) have dp: "distinct (map dh_path (whole_headers headers))" by (metis distinct_map)
  have inj: "injected_hashes opts m = m" for m using assms(2) by (simp add: injected_hashes_def no_injection_def)
  have m: "?m = filter (\<lambda>(k, _). has_sqlite headers \<longrightarrow> k \<noteq> ''pocketdb/main.sqlite3'')
      (map (\<lambda>h. (dh_path h, dh_hash h)) (whole_headers headers))"
    using plan_hashes_distinct [OF dp] inj
    by (auto simp: expected_hashes_def AList.delete_eq Let_def intro!: filter_cong)
  have hm: "(dh_path h, dh_hash h) \<in> set ?m" using assms(6,7) by (auto simp: m)
  then have ne: "?m \<noteq> []" by auto
  have "distinct (map (\<lambda>(p, h). resolve_live_path (go_dir ?root) ?root p)
      (map (\<lambda>h. (dh_path h, dh_hash h)) (whole_headers headers)))"
    using assms(5) unfolding live_of_def [abs_def] by (simp add: comp_def)
  then have d: "distinct (map (\<lambda>(p, h). resolve_live_path (go_dir ?root) ?root p) ?m)"
    unfolding m by (rule distinct_map_filter)
  define es where "es = ex_order ex (resolve_hashes ex (go_dir ?root) ?root ?m)"
  have "set es = set (resolve_hashes ex (go_dir ?root) ?root ?m)"
    using assms(3) unfolding es_def lawful_order_def by (metis mset_eq_setD)
  with resolve_hashes_distinct [OF assms(3) d] hm have he: "(live_of hdr h, dh_hash h) \<in> set es"
    by (force simp: live_of_def)
  obtain u w2 where v: "verify_hashes [] es w2 = (Inr u, w')"
    using assms(1) ne unfolding run_verify_def es_def [symmetric] Let_def
    by (auto split: if_splits prod.splits sum.splits)
  have "\<exists>d. file_data w2 (go_join [[], live_of hdr h]) = Some d \<and> sha256_hex d = dh_hash h"
    by (rule verify_hashes_sound [OF v he])
  moreover have "fs w' = fs w2" using verify_hashes_frame [of w2 "[]" es] v by simp
  ultimately show ?thesis
    using resolve_live_abs [OF assms(4)] fs_file_data [of w' w2] by (simp add: live_of_def)
qed

section \<open>Cleanup\<close>

lemma remove_all_store: "store (snd (remove_all p w)) = store w \<and> next_ino (snd (remove_all p w)) = next_ino w"
  unfolding remove_all_def by (rule syscall_frame) auto

lemma remove_taken_frame:
  "store (remove_taken sh w) = store w \<and> (q \<notin> shadow_path ` set sh \<longrightarrow> node_at (remove_taken sh w) q = node_at w q)"
proof (induction sh arbitrary: w)
  case (Cons s sh)
  show ?case
  proof (cases "taken s")
    case True
    then show ?thesis
      using Cons.IH [of "snd (os_remove (shadow_path s) w)"] os_remove_store [of "shadow_path s" w]
        os_remove_node [of q "shadow_path s" w] by auto
  next
    case False
    then show ?thesis using Cons.IH [of w] by auto
  qed
qed simp

lemma cleanup_data:
  assumes "q \<notin> shadow_path ` set sh" and "\<not> in_tree (go_join [dir, ''staged'']) q"
    and "\<not> in_tree (go_join [dir, ''shadows'']) q"
  shows "file_data (cleanup_staging dir sh w) q = file_data w q"
proof (rule file_data_eqI)
  show "node_at (cleanup_staging dir sh w) q = node_at w q"
    using remove_taken_frame [of sh w q] assms(1)
      framed_node [OF remove_all_framed [of "go_join [dir, ''staged'']"], of q] assms(2)
      framed_node [OF remove_all_framed [of "go_join [dir, ''shadows'']"], of q] assms(3)
    by (simp add: cleanup_staging_def Let_def)
  show "store (cleanup_staging dir sh w) = store w"
    using remove_taken_frame [of sh w] by (simp add: cleanup_staging_def Let_def remove_all_store)
qed

section \<open>Where the shadows are\<close>

lemma page_candidate_paths:
  "Some cd \<in> set (page_candidates datadir root headers evs) \<Longrightarrow> cd_path cd \<in> dh_path ` set headers"
proof -
  assume "Some cd \<in> set (page_candidates datadir root headers evs)"
  then obtain e where "Some cd \<in> set (page_candidate datadir root headers e)"
    by (auto simp: page_candidates_def)
  then show ?thesis by (cases e) (auto simp: Let_def split: if_splits)
qed

lemma whole_candidate_paths:
  "Some cd \<in> set (whole_candidates datadir root headers) \<Longrightarrow> cd_path cd \<in> dh_path ` set headers"
  by (auto simp: whole_candidates_def)

lemma add_pending_rels:
  "add_pending cd (infos, n) = (infos', n') \<Longrightarrow> si_rel ` set infos' \<subseteq> insert (cd_path cd) (si_rel ` set infos)"
  by (auto simp: add_pending_def Let_def split: if_splits)

lemma scan_units_rels:
  "scan_units dir cs (infos, n) w = (Inr (infos', n'), w') \<Longrightarrow>
   si_rel ` set infos' \<subseteq> si_rel ` set infos \<union> {cd_path cd | cd. Some cd \<in> set cs}"
proof (induction cs arbitrary: infos n w)
  case (Cons c cs)
  obtain cd where c: "c = Some cd" using Cons.prems by (cases c) auto
  obtain b w1 where m: "marker_exists dir (cd_id cd) w = (b, w1)" by fastforce
  show ?case
  proof (cases b)
    case True
    with Cons.IH [of infos n w1] Cons.prems c m show ?thesis by auto
  next
    case False
    obtain i1 n1 where a: "add_pending cd (infos, n) = (i1, n1)" by fastforce
    with False Cons.prems c m have "scan_units dir cs (i1, n1) w1 = (Inr (infos', n'), w')" by simp
    from Cons.IH [OF this] add_pending_rels [OF a]
    have "si_rel ` set infos' \<subseteq> si_rel ` set infos \<union> insert (cd_path cd) {cd_path cd | cd. Some cd \<in> set cs}"
      by blast
    also have "insert (cd_path cd) {cd_path cd | cd. Some cd \<in> set cs} = {cd_path cd | cd. Some cd \<in> set (c # cs)}"
      using c by auto
    finally show ?thesis .
  qed
qed simp

lemma run_scan_rels:
  assumes "run_scan opts datadir root headers dir w = (Inr (infos, n), w')"
  shows "si_rel ` set infos \<subseteq> dh_path ` set headers"
proof -
  obtain evs bad w1 where s: "stream_pages (ao_plan opts) w = ((evs, bad), w1)" by (metis prod.exhaust)
  obtain i1 n1 w2 where a: "scan_units dir (page_candidates datadir root headers evs) ([], 0) w1 = (Inr (i1, n1), w2)"
    and b: "scan_units dir (whole_candidates datadir root headers) (i1, n1) w2 = (Inr (infos, n), w')"
    using assms s by (auto simp: run_scan_def and_then_def split: prod.splits sum.splits if_splits)
  have p: "{cd_path cd | cd. Some cd \<in> set (page_candidates datadir root headers evs)} \<subseteq> dh_path ` set headers"
    and q: "{cd_path cd | cd. Some cd \<in> set (whole_candidates datadir root headers)} \<subseteq> dh_path ` set headers"
    using page_candidate_paths whole_candidate_paths by blast+
  have "si_rel ` set i1 \<subseteq> dh_path ` set headers" using scan_units_rels [OF a] p by simp
  with scan_units_rels [OF b] q show ?thesis by (meson Un_least order_trans)
qed

lemma take_shadows_paths:
  "take_shadows dir sis acc w = (Inr sh, w') \<Longrightarrow>
   shadow_path ` set sh \<subseteq> shadow_path ` set acc \<union> (\<lambda>si. shadow_dest dir (si_rel si)) ` set sis"
proof (induction sis arbitrary: acc w)
  case (Cons si sis)
  obtain tk w1 where l: "live_exists si w = (tk, w1)" by fastforce
  let ?sh = "\<lparr>shadow_path = shadow_dest dir (si_rel si), live_path = si_live si, taken = tk\<rparr>"
  obtain w2 where "take_shadows dir sis (acc @ [?sh]) w2 = (Inr sh, w')"
    using Cons.prems l by (auto simp: and_then_def Let_def split: prod.splits sum.splits)
  from Cons.IH [OF this] show ?case by auto
qed simp

lemma run_staging_dir: "run_staging opts hdr w = (Inr dir, w') \<Longrightarrow> dir = staging_root opts"
  by (auto simp: run_staging_def create_or_resume_def create_fresh_def split: prod.splits sum.splits if_splits)

end
