(* ===== verification/ApplyClaims.thy ===== *)
theory ApplyClaims
  imports ApplyProps PlanProps
begin

text \<open>
  The properties of the apply path, with concrete instances.
\<close>

section \<open>Refusals and exit codes\<close>

text \<open>
  C4. A run that refuses the plan (unknown format version, tampered plan, superseded canonical) has
  changed no file and no directory, in any environment.
\<close>

theorem refusal_changes_nothing:
  assumes "apply_run ex opts w = (Exited ec e, w')"
    and "ec \<in> {ManifestFormatVersionUnrecognized, PlanTampered, SupersededCanonical}"
  shows "fs w' = fs w"
proof -
  obtain r w1 where c: "run_checks opts w = (r, w1)" by fastforce
  have f: "fs w1 = fs w" using run_checks_reads [of opts] c unfolding reads_only_def untouched_def by (metis snd_conv)
  show ?thesis
  proof (cases r)
    case (Inl x)
    with assms(1) c f show ?thesis by (simp add: apply_run_def)
  next
    case (Inr hh)
    obtain hdr headers where "hh = (hdr, headers)" by fastforce
    with assms(1) c Inr have "run_tasks ex (inherit_url opts hdr) hdr headers w1 = (Exited ec e, w')"
      by (simp add: apply_run_def)
    from run_tasks_late [OF this] assms(2) show ?thesis by (auto simp: late_code_def)
  qed
qed

definition demo_opts :: apply_options where
  "demo_opts = \<lparr>ao_plan = ''/d/plan.json'', ao_parallel = 2, ao_manifest_url = [], ao_chunk_base = ''http://h'',
     ao_corrupt_sqlite = False, ao_rollback_fault = False, ao_fail_nth = 0,
     ao_corrupt_after_rename = False, ao_hash_mismatch = False\<rparr>"

definition demo_ex :: externals where
  "demo_ex = \<lparr>ex_decoders = \<lparr>zstd_reader = (\<lambda>b broken. Some (b, broken)), gzip_reader = (\<lambda>b broken. Some (b, broken))\<rparr>,
     ex_url = (\<lambda>_. None), ex_integrity = (\<lambda>_ w. (Some ''ok'', w)), ex_order = (\<lambda>xs. xs),
     ex_sched = (\<lambda>_. MainGo)\<rparr>"

definition demo_ctx :: pool_ctx where
  "demo_ctx = \<lparr>pc_parallel = 1, pc_staging = ''/d/s'', pc_staged = ''/d/s/staged'', pc_chunks = ''http://h'',
     pc_fail_nth = 0, pc_decoders = ex_decoders demo_ex\<rparr>"

definition old_plan :: plan where
  "old_plan = demo_plan\<lparr>p_format_version := 1\<rparr>"

lemma wf_old: "wf_plan old_plan"
  using wf_demo(1) by (simp add: old_plan_def wf_plan_def int64_def)

lemma read_plan_quiet:
  assumes "quiet w" and "file_data w p = Some d"
  shows "read_plan p w = (Inr d, tick (tick w))"
proof -
  obtain i where i: "node_at w p = Some (FileN i)" "store w i = d"
    using assms(2) by (auto simp: file_data_Some_iff)
  have "open_read p w = (Inr i, tick w)" using assms(1) i by (simp add: open_read_def syscall_quiet)
  moreover have "read_stream i (tick w) = ((d, None), tick (tick w))"
    using assms(1) i by (simp add: read_stream_def quiet_def)
  ultimately show ?thesis by (simp add: read_plan_def)
qed

text \<open>A plan of an older format.\<close>

lemma old_plan_refused:
  "\<exists>w'. apply_run demo_ex demo_opts (world_of [''/d''] [(''/d/plan.json'', plan_text old_plan)]) =
      (Exited ManifestFormatVersionUnrecognized (Some (UnrecognizedVersion 1 2)), w')"
proof -
  have g: "\<exists>h. gate_format_version (plan_text old_plan) = Inr h \<and> ph_version h = 1"
    unfolding gate_plan_text [OF wf_old] by (simp add: old_plan_def)
  then show ?thesis
    using read_plan_quiet [OF quiet_world_of demo_file_data, of "plan_text old_plan"]
    by (auto simp: apply_run_def run_checks_def and_then_def run_gate_def demo_opts_def plan_format_version_def)
qed

lemma refusal_changes_nothing_witness:
  "fs (snd (apply_run demo_ex demo_opts (world_of [''/d''] [(''/d/plan.json'', plan_text old_plan)])))
   = fs (world_of [''/d''] [(''/d/plan.json'', plan_text old_plan)])"
proof -
  obtain w' where r: "apply_run demo_ex demo_opts (world_of [''/d''] [(''/d/plan.json'', plan_text old_plan)]) =
      (Exited ManifestFormatVersionUnrecognized (Some (UnrecognizedVersion 1 2)), w')"
    using old_plan_refused by blast
  from refusal_changes_nothing [OF r] r show ?thesis by simp
qed

text \<open>
  What each exit code tells: the observation on the plan, the network or the live files that led to it.
  \<open>w\<close> is the world at the start of the run, \<open>w'\<close> the one at its end.  A code that apply does not use has no
  explanation.
\<close>

definition freshness_cause :: "string \<Rightarrow> canonical_identity \<Rightarrow> os \<Rightarrow> guard_err \<Rightarrow> bool" where
  "freshness_cause url ident w e \<longleftrightarrow> (\<exists>t. case e of
       FreshnessFetch \<Rightarrow> net w t url = NetErr
     | FreshnessStatus st \<Rightarrow> st \<noteq> 200 \<and> (\<exists>len body broken. net w t url = Reply st len body broken)
     | FreshnessBody \<Rightarrow> (\<exists>len body. net w t url = Reply 200 len body True)
     | SupersededCanonicalError planned live height \<Rightarrow>
         planned = ci_manifest_hash ident \<and> live \<noteq> planned \<and> (\<exists>len body. net w t url = Reply 200 len body False \<and> live = sha256_hex body)
     | PlanTamperedError _ \<Rightarrow> False)"

text \<open>The run got through the pool, with these backups, this state of the pool and this world.\<close>

definition pool_over ::
  "externals \<Rightarrow> apply_options \<Rightarrow> plan_header \<Rightarrow> divergence_header list \<Rightarrow> os \<Rightarrow> shadow list \<Rightarrow> pool \<Rightarrow> os \<Rightarrow> bool" where
  "pool_over ex opts hdr headers w0 sh s v \<longleftrightarrow> (\<exists>w1 infos n w2 w3.
     run_staging opts hdr w0 = (Inr (staging_root opts), w1)
   \<and> run_scan opts (go_dir (ph_path hdr)) (ph_path hdr) headers (staging_root opts) w1 = (Inr (infos, n), w2)
   \<and> take_shadows (staging_root opts) infos [] w2 = (Inr sh, w3)
   \<and> run_workers ex opts (go_dir (ph_path hdr)) (ph_path hdr) headers (staging_root opts) n w3 = (Inr s, v))"

text \<open>
  A rollback of the backups \<open>sh\<close> was due in the world \<open>u\<close>: a promotion had failed, or the verification failed
  (with no backups to restore it ends the run right there).
\<close>

definition rollback_due :: "externals \<Rightarrow> apply_options \<Rightarrow> os \<Rightarrow> shadow list \<Rightarrow> os \<Rightarrow> bool" where
  "rollback_due ex opts w sh u \<longleftrightarrow> (\<exists>hdr headers w0 s v.
     run_checks opts w = (Inr (hdr, headers), w0) \<and> pool_over ex (inherit_url opts hdr) hdr headers w0 sh s v
   \<and> (if q_failed s then u = v
      else \<not> q_exhausted s \<and>
        (\<exists>r. run_verify ex (inherit_url opts hdr) (go_dir (ph_path hdr)) (ph_path hdr) headers [] v = (Inl r, u))))"

fun explained :: "externals \<Rightarrow> apply_options \<Rightarrow> os \<Rightarrow> os \<Rightarrow> exit_code \<Rightarrow> apply_err option \<Rightarrow> bool" where
  "explained ex opts w w' Success e = (e = None)"
| "explained ex opts w w' GenericError e =
     (\<exists>x. e = Some x \<and> x \<noteq> BudgetExhausted \<and> (\<forall>g. x \<noteq> GuardErr g) \<and> (\<forall>a b. x \<noteq> UnrecognizedVersion a b))"
| "explained ex opts w w' ManifestFormatVersionUnrecognized e =
     (\<exists>text k hdr. file_data w (ao_plan opts) = Some text \<and> gate_format_version (take k text) = Inr hdr
       \<and> ph_version hdr \<noteq> plan_format_version
       \<and> e = Some (UnrecognizedVersion (ph_version hdr) plan_format_version))"
| "explained ex opts w w' PlanTampered e =
     (\<exists>x v. e = Some (GuardErr (PlanTamperedError x)) \<and> fs v = fs w
       \<and> fst (verify_self_hash_streaming (ao_plan opts) v) = Inl x)"
| "explained ex opts w w' SupersededCanonical e =
     (\<exists>x hdr v. run_gate opts w = (Inr hdr, v) \<and> e = Some (GuardErr x)
       \<and> freshness_cause (ao_manifest_url (inherit_url opts hdr)) (ph_identity hdr) w x)"
| "explained ex opts w w' RollbackCompleted e =
     (e = None \<and> (\<exists>sh u. rollback_due ex opts w sh u
       \<and> rollback_loop (rev sh) [] (inject_fault_before_rollback opts sh u) = ([], w')))"
| "explained ex opts w w' RollbackFailed e =
     (e = None \<and> (\<exists>sh u lost. rollback_due ex opts w sh u \<and> lost \<noteq> []
       \<and> rollback_loop (rev sh) [] (inject_fault_before_rollback opts sh u) = (lost, w')))"
| "explained ex opts w w' NetworkBudgetExhausted e =
     (e = Some BudgetExhausted \<and> (\<exists>hdr headers w0 sh s. run_checks opts w = (Inr (hdr, headers), w0)
       \<and> pool_over ex (inherit_url opts hdr) hdr headers w0 sh s w' \<and> q_exhausted s \<and> \<not> q_failed s))"
| "explained ex opts w w' ec e = False"

text \<open>An outcome with its world; a panic and a blocked loop are no exits.\<close>

definition tells :: "externals \<Rightarrow> apply_options \<Rightarrow> os \<Rightarrow> run_outcome \<times> os \<Rightarrow> bool" where
  "tells ex opts w out \<longleftrightarrow> (\<forall>ec e w'. out = (Exited ec e, w') \<longrightarrow> explained ex opts w w' ec e)"

lemma roll_back_tells:
  assumes "rollback_due ex opts w sh u" and "ao_rollback_fault o' = ao_rollback_fault opts"
  shows "tells ex opts w (roll_back o' sh u)"
proof -
  have i: "inject_fault_before_rollback o' sh u = inject_fault_before_rollback opts sh u"
    using assms(2) by (simp add: inject_fault_before_rollback_def)
  obtain failed w1 where r: "rollback_loop (rev sh) [] (inject_fault_before_rollback opts sh u) = (failed, w1)" by fastforce
  have e: "roll_back o' sh u = (Exited (if failed = [] then RollbackCompleted else RollbackFailed) None, w1)"
    by (simp add: roll_back_def execute_rollback_def rollback_def i r)
  show ?thesis
  proof (cases "failed = []")
    case True
    with assms(1) r have "explained ex opts w w1 RollbackCompleted None" by auto
    with True show ?thesis unfolding e tells_def by simp
  next
    case False
    with assms(1) r have "explained ex opts w w1 RollbackFailed None" by auto
    with False show ?thesis unfolding e tells_def by simp
  qed
qed

text \<open>Failures of the phases between the checks and the pool carry the generic code.\<close>

definition generic :: "run_outcome \<Rightarrow> bool" where
  "generic r \<longleftrightarrow> (\<forall>ec e. r = Exited ec e \<longrightarrow> ec = GenericError \<and> (\<exists>x. e = Some x \<and> x \<noteq> BudgetExhausted
     \<and> (\<forall>g. x \<noteq> GuardErr g) \<and> (\<forall>a b. x \<noteq> UnrecognizedVersion a b)))"

lemma generic_tells: "generic r \<Longrightarrow> tells ex opts w (r, w')"
  by (auto simp: tells_def generic_def)

lemma run_staging_generic: "run_staging opts hdr w = (Inl r, w') \<Longrightarrow> generic r"
  by (auto simp: run_staging_def generic_def split: prod.splits sum.splits if_splits)

lemma scan_units_generic: "scan_units dir cs acc w = (Inl r, w') \<Longrightarrow> generic r"
  by (induction dir cs acc w rule: scan_units.induct) (auto simp: generic_def split: prod.splits bool.splits)

lemma run_scan_generic: "run_scan opts datadir root headers dir w = (Inl r, w') \<Longrightarrow> generic r"
proof -
  have "generic (Exited GenericError (Some ScanErr))" by (simp add: generic_def)
  then show "run_scan opts datadir root headers dir w = (Inl r, w') \<Longrightarrow> generic r"
    by (auto simp: run_scan_def and_then_def dest: scan_units_generic split: prod.splits sum.splits if_splits)
qed

lemma take_shadows_generic: "take_shadows dir sis acc w = (Inl r, w') \<Longrightarrow> generic r"
proof (induction sis arbitrary: acc w)
  case (Cons si sis)
  have s: "shadow_if_new dir si v = (Inl x, v') \<Longrightarrow> generic x" for v x v'
    by (auto simp: shadow_if_new_def generic_def split: prod.splits sum.splits if_splits)
  obtain tk w1 where l: "live_exists si w = (tk, w1)" by fastforce
  with Cons show ?case
    by (cases tk) (auto simp: and_then_def dest: s split: prod.splits sum.splits)
qed simp

lemma run_workers_generic: "run_workers ex opts datadir root headers dir n w = (Inl r, w') \<Longrightarrow> generic r"
  by (auto simp: run_workers_def Let_def generic_def split: prod.splits option.splits if_splits)

text \<open>A failing verification is a rollback from the world that it ends in when there is nothing to restore.\<close>

lemma run_verify_fails:
  assumes "run_verify ex o' datadir root headers sh v = (Inl r, w')"
  shows "\<exists>u r'. run_verify ex o' datadir root headers [] v = (Inl r', u) \<and> roll_back o' sh u = (r, w')"
proof -
  have r: "roll_back o' [] u = (Exited RollbackCompleted None, u)" for u
    by (simp add: roll_back_def execute_rollback_def rollback_def inject_fault_before_rollback_def)
  show ?thesis
    using assms unfolding run_verify_def Let_def r by (auto split: prod.splits sum.splits if_splits)
qed

lemma run_after_pool_tells:
  assumes c: "run_checks opts w = (Inr (hdr, headers), w0)" and p: "pool_over ex (inherit_url opts hdr) hdr headers w0 sh s v"
  shows "tells ex opts w (run_after_pool ex (inherit_url opts hdr) (go_dir (ph_path hdr)) (ph_path hdr) headers dir sh s v)"
proof -
  let ?o = "inherit_url opts hdr" and ?root = "ph_path hdr"
  have o: "ao_rollback_fault ?o = ao_rollback_fault opts" by (simp add: inherit_url_def)
  consider (failed) "q_failed s" | (exhausted) "\<not> q_failed s" "q_exhausted s" | (verify) "\<not> q_failed s" "\<not> q_exhausted s" by blast
  then show ?thesis
  proof cases
    case failed
    with c p have "rollback_due ex opts w sh v" unfolding rollback_due_def by auto
    with failed roll_back_tells [OF this o] show ?thesis by (simp add: run_after_pool_def)
  next
    case exhausted
    with c p have "explained ex opts w v NetworkBudgetExhausted (Some BudgetExhausted)" by auto
    with exhausted show ?thesis by (simp add: run_after_pool_def tells_def)
  next
    case verify
    obtain x w1 where v: "run_verify ex ?o (go_dir ?root) ?root headers sh v = (x, w1)" by fastforce
    show ?thesis
    proof (cases x)
      case (Inr y)
      with v verify show ?thesis by (simp add: run_after_pool_def tells_def)
    next
      case (Inl r)
      with run_verify_fails v obtain u r' where u: "run_verify ex ?o (go_dir ?root) ?root headers [] v = (Inl r', u)"
        "roll_back ?o sh u = (r, w1)" by blast
      with c p verify have "rollback_due ex opts w sh u" unfolding rollback_due_def by auto
      from roll_back_tells [OF this o] u(2) Inl v verify show ?thesis by (simp add: run_after_pool_def)
    qed
  qed
qed

lemma run_tasks_tells:
  assumes c: "run_checks opts w = (Inr (hdr, headers), w0)"
  shows "tells ex opts w (run_tasks ex (inherit_url opts hdr) hdr headers w0)"
proof -
  let ?o = "inherit_url opts hdr" and ?root = "ph_path hdr"
  obtain x1 w1 where 1: "run_staging ?o hdr w0 = (x1, w1)" by fastforce
  show ?thesis
  proof (cases x1)
    case (Inl r)
    with 1 show ?thesis using generic_tells [OF run_staging_generic [of ?o hdr w0 r w1]] by (simp add: run_tasks_def Let_def)
  next
    case dir: (Inr dir)
    then have d: "dir = staging_root ?o" using run_staging_dir 1 by blast
    obtain x2 w2 where 2: "run_scan ?o (go_dir ?root) ?root headers dir w1 = (x2, w2)" by fastforce
    show ?thesis
    proof (cases x2)
      case (Inl r)
      with 1 2 dir show ?thesis using generic_tells [OF run_scan_generic] by (simp add: run_tasks_def Let_def)
    next
      case (Inr y)
      then obtain infos n where x2: "x2 = Inr (infos, n)" by (cases y) auto
      show ?thesis
      proof (cases "n = 0")
        case True
        with 1 2 dir x2 show ?thesis by (simp add: run_tasks_def Let_def tells_def)
      next
        case n: False
        obtain x3 w3 where 3: "take_shadows dir infos [] w2 = (x3, w3)" by fastforce
        show ?thesis
        proof (cases x3)
          case (Inl r)
          with 1 2 3 dir x2 n show ?thesis using generic_tells [OF take_shadows_generic] by (simp add: run_tasks_def Let_def)
        next
          case sh: (Inr sh)
          obtain x4 w4 where 4: "run_workers ex ?o (go_dir ?root) ?root headers dir n w3 = (x4, w4)" by fastforce
          show ?thesis
          proof (cases x4)
            case (Inl r)
            with 1 2 3 4 dir x2 n sh show ?thesis
              using generic_tells [OF run_workers_generic] by (simp add: run_tasks_def Let_def)
          next
            case (Inr s)
            with 1 2 3 4 dir x2 sh d have "pool_over ex ?o hdr headers w0 sh s w4" unfolding pool_over_def by blast
            from run_after_pool_tells [OF c this] show ?thesis
              using 1 2 3 4 dir x2 n sh Inr by (simp add: run_tasks_def Let_def)
          qed
        qed
      qed
    qed
  qed
qed

lemma freshness_tells:
  "verify_manifest_freshness c u v = ((h, Some e), w') \<Longrightarrow> net v = net w \<Longrightarrow> freshness_cause u c w e"
  by (auto simp: verify_manifest_freshness_def http_get_def freshness_cause_def Let_def
      split: prod.splits http_reply.splits if_splits) blast+

lemma self_hash_tells:
  "verify_plan_self_hash p v = (Inl e, w') \<Longrightarrow> \<exists>x. e = PlanTamperedError x \<and> fst (verify_self_hash_streaming p v) = Inl x"
  by (auto simp: verify_plan_self_hash_def split: prod.splits sum.splits)

lemma read_stream_take: "\<exists>k. fst (fst (read_stream i w)) = take k (store w i)"
  by (cases "faults w (ticks w)"; cases "the (faults w (ticks w))")
     (auto simp: read_stream_def intro: exI [of _ "length (store w i)"])

lemma read_plan_data:
  assumes "read_plan p w = (Inr dat, w')"
  shows "\<exists>text k. file_data w p = Some text \<and> dat = take k text"
proof -
  obtain i w1 where o: "open_read p w = (Inr i, w1)" and d: "dat = fst (fst (read_stream i w1))"
    using assms by (auto simp: read_plan_def split: prod.splits sum.splits)
  have "node_at w p = Some (FileN i)" "store w1 = store w" using open_read_Inr [OF o] by (auto simp: fs_iff)
  with d read_stream_take [of i w1] show ?thesis by (auto simp: file_data_def)
qed

lemma run_checks_tells:
  assumes "run_checks opts w = (Inl r, w')"
  shows "tells ex opts w (r, w')"
proof -
  have same: "fs v' = fs v \<and> net v' = net v" if "reads_only f" "f v = (x, v')" for f :: "'b phase" and v x v'
    using that by (auto simp: reads_only_def untouched_def framed_def dest: spec [of _ v])
  consider (gate) "run_gate opts w = (Inl r, w')"
    | (self) h w1 where "run_gate opts w = (Inr h, w1)" "run_self_hash opts w1 = (Inl r, w')"
    | (val) h w1 w2 where "run_gate opts w = (Inr h, w1)" "run_self_hash opts w1 = (Inr (), w2)" "run_validate opts w2 = (Inl r, w')"
    | (fresh) h w1 w2 hs w3 where "run_gate opts w = (Inr h, w1)" "run_self_hash opts w1 = (Inr (), w2)"
        "run_validate opts w2 = (Inr hs, w3)" "run_freshness (inherit_url opts h) h w3 = (Inl r, w')"
    | (path) h v where "run_pocketdb h v = (Inl r, w')"
    using assms by (auto simp: run_checks_def and_then_def split: prod.splits sum.splits)
  then show ?thesis
  proof cases
    case gate
    then show ?thesis
      by (auto simp: run_gate_def tells_def dest!: read_plan_data split: prod.splits sum.splits if_splits) metis
  next
    case self
    with same [OF run_gate_reads] have "fs w1 = fs w" by blast
    with self show ?thesis
      by (auto simp: run_self_hash_def tells_def dest!: self_hash_tells split: prod.splits sum.splits)
  next
    case val
    then show ?thesis by (auto simp: run_validate_def tells_def split: prod.splits sum.splits)
  next
    case fresh
    with same [OF run_gate_reads] same [OF run_self_hash_reads] same [OF run_validate_reads] have "net w3 = net w" by metis
    from fresh(4) obtain x where r: "r = Exited SupersededCanonical (Some (GuardErr x))"
      and f: "freshness_cause (ao_manifest_url (inherit_url opts h)) (ph_identity h) w x"
      using freshness_tells [OF _ \<open>net w3 = net w\<close>]
      by (auto simp: run_freshness_def split: prod.splits option.splits if_splits)
    with fresh(1) show ?thesis unfolding tells_def r by auto
  next
    case path
    then show ?thesis by (auto simp: run_pocketdb_def tells_def split: if_splits)
  qed
qed

text \<open>
  C25. What the exit codes of apply tell. Code 7 means that the plan file, as far as it could be
  read, names another format version; 15 that the check of its self-hash failed on it, because the hash differs or the plan cannot be decoded; 14 that the
  manifest at the address of the run has another hash than the plan names, or could not be fetched; 10 that a rollback has
  just put every backup back in place, and 11 that one failed for some file; 12 that no promotion failed but a
  download used up its attempts; 1 comes with an error of its own kind and 0 with none. Other codes never occur.
\<close>

theorem exit_codes_explained:
  assumes "apply_run ex opts w = (Exited ec e, w')"
  shows "explained ex opts w w' ec e"
proof -
  obtain r w1 where c: "run_checks opts w = (r, w1)" by fastforce
  have "tells ex opts w (apply_run ex opts w)"
    using run_checks_tells [of opts w _ w1 ex] run_tasks_tells [of opts w _ _ w1 ex] c
    by (cases r) (auto simp: apply_run_def)
  with assms show ?thesis by (simp add: tells_def)
qed

lemma exit_codes_explained_witness:
  "\<exists>text k hdr. file_data (world_of [''/d''] [(''/d/plan.json'', plan_text old_plan)]) ''/d/plan.json'' = Some text
     \<and> gate_format_version (take k text) = Inr hdr \<and> ph_version hdr = 1"
proof -
  obtain w' where r: "apply_run demo_ex demo_opts (world_of [''/d''] [(''/d/plan.json'', plan_text old_plan)]) =
      (Exited ManifestFormatVersionUnrecognized (Some (UnrecognizedVersion 1 2)), w')"
    using old_plan_refused by blast
  have "ao_plan demo_opts = ''/d/plan.json''" by (simp add: demo_opts_def)
  with exit_codes_explained [OF r] show ?thesis by auto
qed

section \<open>An emitted plan is accepted\<close>

lemma tick_net: "net (tick w) t u = net w t u" "fs (tick w) = fs w" "quiet (tick w) = quiet w"
  by simp_all

lemma run_freshness_ok:
  assumes "ao_manifest_url opts = [] \<or>
    (\<forall>t. \<exists>len body. net w t (ao_manifest_url opts) = Reply 200 len body False
        \<and> sha256_hex body = ci_manifest_hash (ph_identity hdr))"
  shows "\<exists>w'. run_freshness opts hdr w = (Inr (), w') \<and> fs w' = fs w \<and> net w' = net w \<and> (quiet w \<longrightarrow> quiet w')"
proof (cases "ao_manifest_url opts = []")
  case False
  then obtain len body where "net w (ticks w) (ao_manifest_url opts) = Reply 200 len body False"
    "sha256_hex body = ci_manifest_hash (ph_identity hdr)"
    using assms by blast
  with False show ?thesis
    by (auto simp: run_freshness_def verify_manifest_freshness_def http_get_def Let_def)
qed (auto simp: run_freshness_def)

lemma verify_streaming_world:
  assumes "quiet w" and "fst (verify_self_hash_streaming f w) = Inr ()"
  shows "verify_self_hash_streaming f w = (Inr (), tick (tick w))"
  using assms
  by (auto simp: verify_self_hash_streaming_def read_file_def syscall_quiet
      split: prod.splits sum.splits option.splits node.splits if_splits)

lemma emitted_plan_checks:
  assumes "int64 (ci_block_height ci)" and "\<forall>d \<in> set ds. wf_divergence d"
    and "\<forall>h \<in> set (headers_of ds). validate_header_shape h = Inr ()"
    and "check_page_events (events_of ds) = None"
    and "valid_utf8 url" and "valid_utf8 path" and "valid_utf8 (ci_manifest_hash ci)" and "valid_utf8 (ci_core_version ci)"
    and "path \<noteq> []" and "quiet w" and "file_data w (ao_plan opts) = Some (plan_text (emitted_plan ci url path ds))"
    and "hdr = \<lparr>ph_version = plan_format_version, ph_identity = ci, ph_url = url, ph_path = path,
            ph_self = p_self_hash (emitted_plan ci url path ds)\<rparr>"
    and "ao_manifest_url (inherit_url opts hdr) = [] \<or>
      (\<forall>t. \<exists>len body. net w t (ao_manifest_url (inherit_url opts hdr)) = Reply 200 len body False
          \<and> sha256_hex body = ci_manifest_hash ci)"
  shows "\<exists>w'. run_checks opts w = (Inr (hdr, headers_of ds), w') \<and> fs w' = fs w \<and> quiet w' \<and> net w' = net w"
proof -
  let ?t = "plan_text (emitted_plan ci url path ds)"
  note pass = emitted_passes [OF assms(1-3,5-8)]
  have rp: "read_plan (ao_plan opts) v = (Inr ?t, tick (tick v))" if "quiet v" "fs v = fs w" for v
    using read_plan_quiet [OF that(1)] fs_file_data [OF that(2)] assms(11) by simp
  define w1 where "w1 = tick (tick w)"
  have 1: "run_gate opts w = (Inr hdr, w1)" "quiet w1" "fs w1 = fs w"
    using rp [of w] assms(10,12) pass(1) by (simp_all add: run_gate_def w1_def)
  obtain w2 where 2: "run_self_hash opts w1 = (Inr (), w2)" "quiet w2" "fs w2 = fs w" "net w2 = net w"
    using verify_streaming_world [OF 1(2)] pass(2) [OF 1(2), of "ao_plan opts"] fs_file_data [OF 1(3)] assms(11) 1
    by (force simp: run_self_hash_def verify_plan_self_hash_def w1_def)
  define w4 where "w4 = tick (tick (tick (tick w2)))"
  have h: "stream_headers (ao_plan opts) w2 = (Inr (headers_of ds), tick (tick w2))"
    using rp [of w2] 2 pass(3) by (simp add: stream_headers_def)
  have p: "stream_pages (ao_plan opts) (tick (tick w2)) = ((events_of ds, False), w4)"
    using rp [of "tick (tick w2)"] 2 pass(4) by (simp add: stream_pages_def w4_def)
  have 3: "run_validate opts w2 = (Inr (headers_of ds), w4)" "quiet w4" "fs w4 = fs w" "net w4 = net w"
    using h p assms(4) 2 by (simp_all add: run_validate_def validate_page_hashes_def w4_def)
  obtain w5 where 4: "run_freshness (inherit_url opts hdr) hdr w4 = (Inr (), w5)" "fs w5 = fs w" "quiet w5" "net w5 = net w"
    using run_freshness_ok [of "inherit_url opts hdr" w4 hdr] assms(12,13) 3 by auto
  show ?thesis
    using 1(1) 2(1) 3(1) 4 assms(9,12) by (simp add: run_checks_def and_then_def run_pocketdb_def)
qed

definition demo_whole :: divergence where
  "demo_whole = \<lparr>d_kind = kind_whole_file, d_path = ''chainstate/CURRENT'', d_pages = [],
     d_expected_hash = sha256_hex ''x'', d_expected_source = ''fetch_full''\<rparr>"

definition demo_header_whole :: divergence_header where
  "demo_header_whole = \<lparr>dh_index = 0, dh_kind = kind_whole_file, dh_path = ''chainstate/CURRENT'',
     dh_hash = sha256_hex ''x'', dh_source = ''fetch_full'', dh_pages = False\<rparr>"

definition demo_hdr :: plan_header where
  "demo_hdr = \<lparr>ph_version = plan_format_version, ph_identity = demo_identity, ph_url = [], ph_path = ''/d/pocketdb'',
     ph_self = p_self_hash (emitted_plan demo_identity [] ''/d/pocketdb'' [demo_whole])\<rparr>"

abbreviation demo_text :: string where
  "demo_text \<equiv> plan_text (emitted_plan demo_identity [] ''/d/pocketdb'' [demo_whole])"

lemma ascii_valid: "valid_utf8 ''chainstate/CURRENT''" "valid_utf8 ''whole_file''" "valid_utf8 ''fetch_full''" "valid_utf8 []"
  by (rule valid_utf8_ascii, auto)+

lemma demo_whole_header: "headers_of [demo_whole] = [demo_header_whole]"
  using sanitize_valid [OF ascii_valid(1)] sanitize_valid [OF ascii_valid(2)] sanitize_valid [OF ascii_valid(3)]
  by (simp add: headers_of_def header_of_def demo_whole_def demo_header_whole_def sanitize_hex kind_whole_file_def)

lemma demo_whole_ok: "\<forall>d \<in> set [demo_whole]. wf_divergence d"
    "\<forall>h \<in> set (headers_of [demo_whole]). validate_header_shape h = Inr ()"
    "events_of [demo_whole] = []"
  unfolding demo_whole_header
  by (auto simp: wf_divergence_def demo_whole_def validate_header_shape_def demo_header_whole_def is_canon_hash_def
      list_all_iff sha256_hex_lower events_of_def div_events_def)

lemma demo_facts:
  "check_page_events (events_of [demo_whole]) = None" "valid_utf8 (ci_manifest_hash demo_identity)"
  "valid_utf8 (ci_core_version demo_identity)" "''/d/pocketdb'' \<noteq> []"
  "ao_manifest_url (inherit_url demo_opts demo_hdr) = []" "ao_plan demo_opts = ''/d/plan.json''"
  using demo_valid by (simp_all add: demo_whole_ok demo_identity_def demo_opts_def demo_hdr_def inherit_url_def)

lemmas demo_accept = wf_demo(3) demo_whole_ok(1,2) demo_facts(1) ascii_valid(4) demo_valid(2) demo_facts(2,3,4)

lemma demo_checks:
  assumes "quiet w" and "file_data w ''/d/plan.json'' = Some demo_text"
  shows "\<exists>w'. run_checks demo_opts w = (Inr (demo_hdr, [demo_header_whole]), w') \<and> fs w' = fs w \<and> quiet w' \<and> net w' = net w"
  using emitted_plan_checks [OF demo_accept assms(1) _ demo_hdr_def disjI1 [OF demo_facts(5)]] assms(2)
  by (simp add: demo_facts(6) demo_whole_header)

section \<open>Success\<close>

text \<open>
  The end of a run that had work: every whole file of the plan has exactly the bytes whose hash the plan
  names, after the cleanup too.
\<close>

lemma pool_success_verified:
  assumes "run_after_pool ex opts (go_dir (ph_path hdr)) (ph_path hdr) headers dir sh s w = (Exited Success None, w')"
    and "no_injection opts" and "lawful_order ex" and "is_abs (ph_path hdr)" and "distinct (map (live_of hdr) (whole_headers headers))"
    and "h \<in> set (whole_headers headers)" and "dh_path h \<noteq> ''pocketdb/main.sqlite3''"
    and "live_of hdr h \<notin> shadow_path ` set sh" and "\<not> in_tree (go_join [dir, ''staged'']) (live_of hdr h)"
    and "\<not> in_tree (go_join [dir, ''shadows'']) (live_of hdr h)"
  shows "\<exists>d. file_data w' (live_of hdr h) = Some d \<and> sha256_hex d = dh_hash h"
proof -
  obtain u w1 where v: "run_verify ex opts (go_dir (ph_path hdr)) (ph_path hdr) headers sh w = (Inr u, w1)"
    and w': "w' = cleanup_staging dir sh w1"
    using assms(1)
    by (auto simp: run_after_pool_def roll_back_def execute_rollback_def Let_def
        dest: run_verify_not_success split: prod.splits sum.splits if_splits)
  show ?thesis
    unfolding w' cleanup_data [OF assms(8-10)] by (rule run_verify_sound [OF v assms(2-7)])
qed

definition demo_live_world :: os where
  "demo_live_world = world_of [''/d'', ''/d/chainstate''] [(''/d/chainstate/CURRENT'', ''x'')]"

lemma demo_live: "live_of demo_hdr demo_header_whole = ''/d/chainstate/CURRENT''"
  by (simp add: live_of_def demo_hdr_def demo_header_whole_def resolve_live_path_def) code_simp

lemma demo_live_data: "file_data demo_live_world ''/d/chainstate/CURRENT'' = Some ''x''"
  by (simp add: demo_live_world_def world_of_def file_data_def node_at_def)

section \<open>The pool\<close>

lemma scan_units_count:
  "quiet w \<Longrightarrow> scan_units (pc_staging c) (map Some cds) (infos0, n0) w = (Inr (infos, n), w1) \<Longrightarrow>
   n = n0 + int (length (pending c w cds)) \<and> fs w1 = fs w \<and> quiet w1"
proof (induction cds arbitrary: infos0 n0 w)
  case (Cons cd cds)
  have m: "marker_exists (pc_staging c) (cd_id cd) w = (has_marker (pc_staging c) w (cd_id cd), tick w)"
    using Cons.prems(1) by (rule marker_exists_quiet)
  have q: "quiet (tick w)" using Cons.prems(1) by simp
  have p: "pending c (tick w) cds = pending c w cds" by (simp add: pending_def has_marker_def)
  obtain i1 where i1: "add_pending cd (infos0, n0) = (i1, n0 + 1)" by (simp add: add_pending_def)
  show ?case
    using Cons.IH [OF q, of infos0 n0] Cons.IH [OF q, of i1 "n0 + 1"] Cons.prems(2) m i1 p
    by (cases "has_marker (pc_staging c) w (cd_id cd)") (auto simp: pending_def)
qed (auto simp: pending_def)

text \<open>
  C3. The apply loop never deadlocks. Without faults, and when no unit's marker is a name another
  unit's task touches, the loop that starts with the count of the first pass ends under every
  schedule of the workers, with nothing in flight and every unit of the plan dealt with.
\<close>

theorem pool_never_blocks:
  assumes "quiet w" and "apart c cds" and "0 < pc_parallel c"
    and "scan_units (pc_staging c) (map Some cds) ([], 0) w = (Inr (infos, n), w1)"
  shows "\<exists>s. run_pool c sched (init_pool c (map Some cds) n w1) = Some s \<and> \<not> q_panicked s
     \<and> q_remaining s = 0 \<and> outstanding s = []"
proof -
  have n: "n = int (length (pending c w cds))" "fs w1 = fs w" "quiet w1"
    using scan_units_count [OF assms(1,4)] by simp_all
  have "pending c w1 cds = pending c w cds"
    using fs_node_at [OF n(2)] by (simp add: pending_def has_marker_def)
  then have "accounted c (init_pool c (map Some cds) n w1)"
    using init_accounted [OF n(3) assms(2)] n(1) by simp
  from run_pool_ends [OF this assms(3)] obtain s where
    s: "run_pool c sched (init_pool c (map Some cds) n w1) = Some s" "loop_over s" "accounted c s" by blast
  from accounted_end [OF s(3,2)] s(3) have "outstanding s = []" "\<not> q_panicked s" "q_remaining s = 0"
    by (auto simp: accounted_def)
  with s(1) show ?thesis by blast
qed

definition demo_unit :: candidate where
  "demo_unit = \<lparr>cd_id = ''chainstate/CURRENT'', cd_path = ''chainstate/CURRENT'', cd_hash = sha256_hex ''x'',
     cd_live = ''/d/chainstate/CURRENT'', cd_absent = True, cd_offset = -1\<rparr>"

lemma demo_unit_ok: "apart demo_ctx [demo_unit]" "0 < pc_parallel demo_ctx"
  by (simp_all add: unit_ok_def demo_unit_def task_of_def staging_identifier_def demo_ctx_def)

lemma demo_scan:
  "\<exists>infos n w1. scan_units (pc_staging demo_ctx) (map Some [demo_unit]) ([], 0) demo_live_world = (Inr (infos, n), w1)"
  by (auto simp: add_pending_def Let_def split: prod.split bool.split)

lemma pool_never_blocks_witness:
  "\<exists>n w1 s. run_pool demo_ctx (\<lambda>_. MainGo) (init_pool demo_ctx [Some demo_unit] n w1) = Some s \<and> outstanding s = []"
proof -
  obtain infos n w1 where
    s: "scan_units (pc_staging demo_ctx) (map Some [demo_unit]) ([], 0) demo_live_world = (Inr (infos, n), w1)"
    using demo_scan by blast
  have "quiet demo_live_world" by (simp add: demo_live_world_def)
  from pool_never_blocks [OF this demo_unit_ok s, of "\<lambda>_. MainGo"] show ?thesis by auto
qed

text \<open>
  C24. The loop and the workers together take at most \<open>parallel + 25 n + 1\<close> steps on a feed of \<open>n\<close>
  units, whatever the network, the file system and the scheduler do.
\<close>

theorem pool_steps_bounded:
  assumes "(pool_trans c ^^ k) (init_pool c feed n w) s"
  shows "k \<le> pc_parallel c + 25 * length feed + 1"
proof -
  have "pool_weight s + k \<le> pool_weight s0" if "(pool_trans c ^^ k) s0 s" for s0
    using that
  proof (induction k arbitrary: s)
    case (Suc k)
    then obtain s1 where s1: "(pool_trans c ^^ k) s0 s1" "pool_trans c s1 s" by auto
    from s1(2) have "pool_weight s < pool_weight s1" by (auto elim!: pool_trans.cases dest: pool_step_weight)
    with Suc.IH [OF s1(1)] show ?case by simp
  qed simp
  from this [OF assms] show ?thesis
    by (simp add: pool_weight_def queue_weight_def init_pool_def)
qed

lemma pool_steps_bounded_witness:
  "\<exists>s. (pool_trans demo_ctx ^^ 1) (init_pool demo_ctx [] 0 demo_live_world) s \<and> 1 \<le> pc_parallel demo_ctx + 25 * 0 + 1"
proof -
  have "pool_step demo_ctx MainGo (init_pool demo_ctx [] 0 demo_live_world) =
      Some (pull_task demo_ctx 0 (init_pool demo_ctx [] 0 demo_live_world))"
    by (simp add: main_step_def init_pool_def demo_ctx_def)
  then have "(pool_trans demo_ctx ^^ 1) (init_pool demo_ctx [] 0 demo_live_world)
      (pull_task demo_ctx 0 (init_pool demo_ctx [] 0 demo_live_world))"
    unfolding relpowp_1 by (rule pool_trans.step)
  with pool_steps_bounded [OF this] show ?thesis by auto
qed

text \<open>
  C23. In every reachable state at most \<open>parallel\<close> tasks are in flight and each has been tried fewer
  than five times before; so no send of the main goroutine and none of a worker ever blocks.
\<close>

theorem in_flight_bounded:
  assumes "reachable c (init_pool c feed n w) s"
  shows "(\<not> q_panicked s \<longrightarrow> length (outstanding s) \<le> pc_parallel c)
     \<and> (\<forall>t \<in> set (outstanding s). 0 \<le> dt_attempt t \<and> dt_attempt t < 5)
     \<and> (\<forall>t k. \<not> q_panicked s \<longrightarrow> q_point s = Sending t k \<longrightarrow> main_step c s \<noteq> None)
     \<and> (\<forall>k. \<not> q_panicked s \<longrightarrow> k < length (q_busy s) \<longrightarrow> finish_step c k s \<noteq> None)"
proof -
  have i: "in_flight_ok c s" by (rule reachable_in_flight [OF assms init_in_flight])
  moreover have "\<forall>k. \<not> q_panicked s \<longrightarrow> k < length (q_busy s) \<longrightarrow> finish_step c k s \<noteq> None"
    using no_send_blocks(2) [OF i] by fastforce
  ultimately show ?thesis
    using no_send_blocks(1) [OF i] by (auto simp: in_flight_ok_def max_attempts_def)
qed

lemma in_flight_bounded_witness:
  "length (outstanding (init_pool demo_ctx [Some demo_unit] 1 demo_live_world)) \<le> pc_parallel demo_ctx"
  using in_flight_bounded [OF reachable.start, of demo_ctx "[Some demo_unit]" 1 demo_live_world]
  by (simp add: init_pool_def)

section \<open>The hash gate\<close>

text \<open>
  C11. A whole file is promoted atomically and only with the bytes the plan names: after any outcome, in
  any environment, the live file has its old contents or contents with the expected hash, and no
  other file but the staged one has changed.
\<close>

theorem whole_file_gate:
  assumes "promote_whole_file r rc n w = ((x, rc'), w')"
    and "fr_path r \<noteq> ''/''" and "fr_path r \<noteq> ''.''" and "fr_path r \<noteq> dt_live (fr_task r)"
  shows "(file_data w' (dt_live (fr_task r)) = file_data w (dt_live (fr_task r))
        \<or> (\<exists>d. file_data w' (dt_live (fr_task r)) = Some d \<and> sha256_hex d = dt_hash (fr_task r)))
     \<and> (x = Inr False \<longrightarrow> (\<exists>d. file_data w' (dt_live (fr_task r)) = Some d \<and> sha256_hex d = dt_hash (fr_task r)))
     \<and> (\<forall>q. q \<noteq> fr_path r \<longrightarrow> q \<noteq> dt_live (fr_task r) \<longrightarrow> file_data w' q = file_data w q)"
proof -
  note p = promote_whole_cases [OF assms(1-3)]
  have others: "\<forall>q. q \<noteq> fr_path r \<longrightarrow> q \<noteq> dt_live (fr_task r) \<longrightarrow> file_data w' q = file_data w q"
    using p(2) by blast
  show ?thesis
  proof (cases "x = Inr False")
    case True
    from p(4) [OF True] obtain d where "file_data w' (dt_live (fr_task r)) = Some d" "sha256_hex d = dt_hash (fr_task r)"
      by blast
    with others show ?thesis by simp
  next
    case False
    from p(3) [OF False, of "dt_live (fr_task r)"] assms(4)
    have "file_data w' (dt_live (fr_task r)) = file_data w (dt_live (fr_task r))" by simp
    with others False show ?thesis by simp
  qed
qed

definition demo_result :: fetch_result where
  "demo_result = \<lparr>fr_task = \<lparr>dt_path = ''chainstate/CURRENT'', dt_url = [], dt_hash = sha256_hex ''y'',
       dt_staging = ''/d/t'', dt_live = ''/d/f'', dt_attempt = 0, dt_absent = False, dt_offset = -1\<rparr>,
     fr_path = ''/d/t'', fr_rel = ''chainstate/CURRENT'', fr_err = None\<rparr>"

definition demo_promote_world :: os where
  "demo_promote_world = world_of [''/d''] [(''/d/f'', ''x''), (''/d/t'', ''y'')]"

lemma demo_promote:
  "\<exists>w'. promote_whole_file demo_result 0 0 demo_promote_world = ((Inr False, 0), w')"
proof -
  have q: "quiet demo_promote_world" by (simp add: demo_promote_world_def)
  have d: "file_data demo_promote_world ''/d/t'' = Some ''y''"
    by (simp add: demo_promote_world_def world_of_def file_data_def node_at_def)
  have g: "go_dir ''/d/f'' = ''/d''" "ancestors ''/d'' = [''/d'']" by code_simp+
  have n: "names demo_promote_world ''/d'' = Some DirN" "names demo_promote_world ''/d/f'' = Some (FileN 0)"
    "names demo_promote_world ''/d/t'' = Some (FileN 1)"
    by (simp_all add: demo_promote_world_def world_of_def)
  let ?w1 = "tick demo_promote_world"
  let ?w2 = "mk_dirs [''/d''] (tick ?w1)"
  have m: "mkdir_all ''/d'' ?w1 = (Inr (), ?w2)"
    using q n by (simp add: mkdir_all_def syscall_quiet g is_dir_def node_at_def)
  have n2: "names ?w2 ''/d/f'' = Some (FileN 0)" "names ?w2 ''/d/t'' = Some (FileN 1)" "quiet ?w2"
    using n q by (simp_all add: mk_dirs_def quiet_def)
  have "\<exists>w'. os_rename ''/d/t'' ''/d/f'' ?w2 = (Inr (), w')"
    using n2 by (simp add: os_rename_def syscall_quiet node_at_def)
  then show ?thesis
    using read_file_quiet [OF q d] m
    by (auto simp: promote_whole_file_def demo_result_def g inject_nth_def)
qed

lemma whole_file_gate_witness:
  "\<exists>w'. promote_whole_file demo_result 0 0 demo_promote_world = ((Inr False, 0), w')
     \<and> (\<exists>d. file_data w' ''/d/f'' = Some d \<and> sha256_hex d = sha256_hex ''y'')"
proof -
  obtain w' where w': "promote_whole_file demo_result 0 0 demo_promote_world = ((Inr False, 0), w')"
    using demo_promote by blast
  with whole_file_gate [OF w'] show ?thesis by (simp add: demo_result_def)
qed

end
