(* ===== verification/ApplyLimits.thy ===== *)
theory ApplyLimits
  imports ApplyClaims
begin

text \<open>
  The page gate, and behaviours of the apply path that fall short of what its comments promise: the
  rollback of pages, negative page offsets,
  the chunk address of a manifest without a path, the served block height.
\<close>

section \<open>Pages\<close>

text \<open>
  C15. A page is written only with the bytes the plan names, and the bytes of the live file outside the
  page survive every outcome, a torn write included.
\<close>

theorem page_gate:
  assumes "promote_sqlite_page r rc n w = ((x, rc'), w')" and "fr_path r \<noteq> dt_live (fr_task r)"
    and "file_data w (dt_live (fr_task r)) = Some old"
  shows "\<exists>new. file_data w' (dt_live (fr_task r)) = Some new
     \<and> (\<forall>i < length old. new ! i \<noteq> old ! i \<longrightarrow>
          (\<exists>d. file_data w (fr_path r) = Some d \<and> sha256_hex d = dt_hash (fr_task r)
             \<and> nat (dt_offset (fr_task r)) \<le> i \<and> i < nat (dt_offset (fr_task r)) + length d))
     \<and> (x = Inr False \<longrightarrow> 0 \<le> dt_offset (fr_task r) \<and>
          (\<exists>d. sha256_hex d = dt_hash (fr_task r) \<and> take (length d) (drop (nat (dt_offset (fr_task r))) new) = d))"
proof -
  let ?live = "dt_live (fr_task r)" and ?off = "nat (dt_offset (fr_task r))"
  obtain new where n: "file_data w' ?live = Some new"
    and c: "new = old \<or> (\<exists>d k. file_data w (fr_path r) = Some d \<and> sha256_hex d = dt_hash (fr_task r) \<and>
                       new = splice old ?off (take k d))"
    using promote_page_outside [OF assms] by blast
  have in_page: "\<exists>d. file_data w (fr_path r) = Some d \<and> sha256_hex d = dt_hash (fr_task r) \<and> ?off \<le> i \<and> i < ?off + length d"
    if i: "i < length old" "new ! i \<noteq> old ! i" for i
  proof -
    from c i(2) obtain d k where d: "file_data w (fr_path r) = Some d" "sha256_hex d = dt_hash (fr_task r)"
      "new = splice old ?off (take k d)" by blast
    have "\<not> (i < ?off \<or> ?off + length (take k d) \<le> i)"
      using splice_nth_out [OF i(1)] i(2) d(3) by metis
    then have "?off \<le> i" "i < ?off + length d" by auto
    with d show ?thesis by blast
  qed
  have ok: "0 \<le> dt_offset (fr_task r) \<and>
      (\<exists>d. sha256_hex d = dt_hash (fr_task r) \<and> take (length d) (drop ?off new) = d)" if x: "x = Inr False"
  proof -
    obtain d where d: "sha256_hex d = dt_hash (fr_task r)" "0 \<le> dt_offset (fr_task r)"
      "file_data w' ?live = Some (splice (contents_or_empty w ?live) ?off d)"
      using promote_page_ok [OF assms(1) [unfolded x] assms(2)] by blast
    then have "new = splice (contents_or_empty w ?live) ?off d" using n by simp
    with splice_read_back d(1,2) show ?thesis by blast
  qed
  show ?thesis using n in_page ok by blast
qed

definition page_result :: fetch_result where
  "page_result = \<lparr>fr_task = \<lparr>dt_path = ''pocketdb/f'', dt_url = [], dt_hash = sha256_hex ''y'',
       dt_staging = ''/d/t'', dt_live = ''/d/f'', dt_attempt = 0, dt_absent = False, dt_offset = 1\<rparr>,
     fr_path = ''/d/t'', fr_rel = ''pocketdb/f'', fr_err = None\<rparr>"

definition page_world :: os where
  "page_world = world_of [''/d'', ''/d/shadows''] [(''/d/f'', ''abc''), (''/d/t'', ''y'')]"

text \<open>The steps of a page promotion in a world without faults.\<close>

lemma promote_page_quiet:
  assumes "quiet w" and "file_data w (fr_path r) = Some d" and "sha256_hex d = dt_hash (fr_task r)"
    and "is_dir w (go_dir (dt_live (fr_task r)))" and "ancestors (go_dir (dt_live (fr_task r))) = [go_dir (dt_live (fr_task r))]"
    and "node_at w (dt_live (fr_task r)) = Some (FileN i)" and "dt_live (fr_task r) \<noteq> go_dir (dt_live (fr_task r))"
    and "0 \<le> dt_offset (fr_task r)"
  shows "\<exists>w'. promote_sqlite_page r rc 0 w = ((Inr False, rc), w') \<and> quiet w'"
proof -
  let ?live = "dt_live (fr_task r)"
  let ?w2 = "mk_dirs [go_dir ?live] (tick (tick w))"
  have m: "mkdir_all (go_dir ?live) (tick w) = (Inr (), ?w2)"
    using assms(1,4) by (simp add: mkdir_all_def syscall_quiet assms(5) is_dir_def)
  have q2: "quiet ?w2" using assms(1) by (simp add: quiet_def mk_dirs_def)
  have n2: "node_at ?w2 ?live = Some (FileN i)"
    using assms(6,7) by (auto simp: node_at_def mk_dirs_def split: if_splits)
  have o: "open_create ?live ?w2 = (Inr i, tick ?w2)" using q2 n2 by (simp add: open_create_def syscall_quiet)
  obtain w4 where wr: "write_at i (dt_offset (fr_task r)) d (tick ?w2) = (Inr (), w4)" "quiet w4"
    using q2 assms(8) by (auto simp: write_at_def write_ino_def syscall_quiet quiet_def)
  have "quiet (snd (os_remove (fr_path r) w4))"
    using wr(2) framed_quiet [OF os_remove_framed] by blast
  then show ?thesis
    using read_file_quiet [OF assms(1,2)] assms(3) m o wr(1)
    by (simp add: promote_sqlite_page_def inject_nth_def)
qed

lemma page_world_facts:
  "quiet page_world" "file_data page_world ''/d/t'' = Some ''y''" "file_data page_world ''/d/f'' = Some ''abc''"
  "names page_world ''/d/f'' = Some (FileN 0)" "is_dir page_world ''/d''"
  by (simp_all add: page_world_def world_of_def file_data_def node_at_def is_dir_def quiet_def)

lemma page_promote: "\<exists>w'. promote_sqlite_page page_result 0 0 page_world = ((Inr False, 0), w') \<and> quiet w'"
proof -
  have g: "go_dir ''/d/f'' = ''/d''" "ancestors ''/d'' = [''/d'']" by code_simp+
  show ?thesis
    by (rule promote_page_quiet [where i = 0 and d = "''y''"])
       (use page_world_facts in \<open>simp_all add: page_result_def g node_at_def\<close>)
qed

lemma page_gate_witness:
  "\<exists>w' new. promote_sqlite_page page_result 0 0 page_world = ((Inr False, 0), w') \<and> file_data w' ''/d/f'' = Some new
     \<and> (\<exists>d. sha256_hex d = sha256_hex ''y'' \<and> take (length d) (drop 1 new) = d)"
proof -
  obtain w' where w': "promote_sqlite_page page_result 0 0 page_world = ((Inr False, 0), w')"
    using page_promote by blast
  have "fr_path page_result \<noteq> dt_live (fr_task page_result)"
    "file_data page_world (dt_live (fr_task page_result)) = Some ''abc''"
    using page_world_facts by (simp_all add: page_result_def)
  from page_gate [OF w' this] w' show ?thesis by (simp add: page_result_def) blast
qed

section \<open>Rolling back pages\<close>

text \<open>
  C32. The rollback does not undo page writes. The shadow of a live file is a hard link where links
  work, and pages are written in place, so the shadow is written too: the rollback reports
  completion and the file keeps the new page.
\<close>

theorem page_rollback_restores_nothing:
  assumes "quiet w" and "names w live = Some (FileN i)" and "live \<noteq> ''/''" and "live \<noteq> ''.''"
    and "node_at (snd (mkdir_all (go_dir (shadow_dest dir rel)) w)) (shadow_dest dir rel) = None"
    and "take_shadow live dir rel [] w = (Inr u, w1)"
    and "promote_sqlite_page r rc n w1 = ((Inr False, rc'), w2)" and "dt_live (fr_task r) = live"
    and "fr_path r \<noteq> live" and "fr_path r \<noteq> shadow_dest dir rel"
    and "shadow_dest dir rel \<notin> set (ancestors (go_dir live))"
    and "roll_back opts [\<lparr>shadow_path = shadow_dest dir rel, live_path = live, taken = True\<rparr>] w2 = (out, w3)"
    and "\<not> ao_rollback_fault opts"
  shows "out = Exited RollbackCompleted None \<and>
     (\<exists>d. sha256_hex d = dt_hash (fr_task r) \<and>
        file_data w3 live = Some (splice (store w i) (nat (dt_offset (fr_task r))) d))"
proof -
  let ?sd = "shadow_dest dir rel"
  have l: "names w1 ?sd = Some (FileN i)" "names w1 live = Some (FileN i)" "store w1 = store w"
    using take_shadow_links [OF assms(6,1,2,3,4,5)] by simp_all
  have q1: "quiet w1" using take_shadow_quiet [OF assms(6,1)] .
  have fl: "file_data w1 live = Some (store w i)"
    using l assms(3,4) by (simp add: file_data_def node_at_def)
  have fr: "framed (promote_names r) w1 w2"
    using promote_sqlite_page_framed [of r w1 rc n] assms(7) by simp
  have q2: "quiet w2" using framed_quiet [OF fr] q1 by simp
  obtain d where d: "sha256_hex d = dt_hash (fr_task r)"
    "file_data w2 live = Some (splice (store w i) (nat (dt_offset (fr_task r))) d)"
    using promote_page_ok [OF assms(7)] assms(8,9) fl by (auto simp: contents_or_empty_def)
  have nl: "names w2 live = Some (FileN i)"
    using promote_page_live_node [OF assms(7)] l(2) assms(3,4,8,9) by (simp add: node_at_def)
  have ns: "names w2 ?sd = Some (FileN i)"
  proof (cases "?sd = live")
    case True
    with nl show ?thesis by simp
  next
    case False
    then have "?sd \<notin> promote_names r" using assms(8,10,11) by (simp add: promote_names_def)
    with framed_names [OF fr] l(1) show ?thesis by simp
  qed
  have "os_rename ?sd live w2 = (Inr (), tick w2)"
    using q2 ns nl assms(3,4) by (simp add: os_rename_def syscall_quiet node_at_def)
  then have "roll_back opts [\<lparr>shadow_path = ?sd, live_path = live, taken = True\<rparr>] w2 = (Exited RollbackCompleted None, tick w2)"
    using assms(13) by (simp add: roll_back_def execute_rollback_def rollback_def inject_fault_before_rollback_def)
  with assms(12) d show ?thesis by auto
qed

lemma page_shadow_facts:
  "shadow_dest ''/d'' ''f'' = ''/d/shadows/f''" "go_dir ''/d/shadows/f'' = ''/d/shadows''"
  "ancestors ''/d/shadows'' = [''/d'', ''/d/shadows'']" "go_dir ''/d/f'' = ''/d''" "ancestors ''/d'' = [''/d'']"
  by (simp_all add: shadow_dest_def) code_simp+

lemma page_world_names:
  "names page_world ''/d'' = Some DirN" "names page_world ''/d/shadows'' = Some DirN"
  "names page_world ''/d/shadows/f'' = None" "names page_world ''/d/t'' = Some (FileN 1)"
  "store page_world 0 = ''abc''" "store page_world 1 = ''y''"
  by (simp_all add: page_world_def world_of_def)

lemma page_shadow_taken:
  "\<exists>w1. take_shadow ''/d/f'' ''/d'' ''f'' [] page_world = (Inr (), w1) \<and> quiet w1 \<and> store w1 = store page_world
     \<and> (\<forall>q. q \<noteq> ''/d/shadows/f'' \<longrightarrow> names w1 q = names page_world q)"
  "node_at (snd (mkdir_all (go_dir (shadow_dest ''/d'' ''f'')) page_world)) (shadow_dest ''/d'' ''f'') = None"
proof -
  let ?w2 = "mk_dirs [''/d'', ''/d/shadows''] (tick page_world)"
  have m: "mkdir_all ''/d/shadows'' page_world = (Inr (), ?w2)"
    using page_world_facts(1) page_world_names
    by (simp add: mkdir_all_def syscall_quiet page_shadow_facts is_dir_def node_at_def)
  have n: "names ?w2 q = names page_world q" for q using page_world_names by (simp add: mk_dirs_def)
  have q: "quiet ?w2" using page_world_facts(1) by (simp add: mk_dirs_def quiet_def)
  have l: "os_link ''/d/f'' ''/d/shadows/f'' ?w2 =
      (Inr (), (tick ?w2)\<lparr>names := (names ?w2)(''/d/shadows/f'' := Some (FileN 0))\<rparr>)"
    using q n page_world_names page_world_facts(4)
    by (simp add: os_link_def syscall_quiet is_dir_def node_at_def page_shadow_facts)
  show "\<exists>w1. take_shadow ''/d/f'' ''/d'' ''f'' [] page_world = (Inr (), w1) \<and> quiet w1 \<and> store w1 = store page_world
     \<and> (\<forall>q. q \<noteq> ''/d/shadows/f'' \<longrightarrow> names w1 q = names page_world q)"
    using m l q n by (simp add: take_shadow_def page_shadow_facts quiet_def) (simp add: mk_dirs_def)
  show "node_at (snd (mkdir_all (go_dir (shadow_dest ''/d'' ''f'')) page_world)) (shadow_dest ''/d'' ''f'') = None"
    using m n [of "''/d/shadows/f''"] page_world_names by (simp add: page_shadow_facts node_at_def)
qed

lemma page_rollback_restores_nothing_witness:
  "\<exists>w1 w2 w3 d. take_shadow ''/d/f'' ''/d'' ''f'' [] page_world = (Inr (), w1)
     \<and> promote_sqlite_page page_result 0 0 w1 = ((Inr False, 0), w2)
     \<and> roll_back demo_opts [\<lparr>shadow_path = ''/d/shadows/f'', live_path = ''/d/f'', taken = True\<rparr>] w2
         = (Exited RollbackCompleted None, w3)
     \<and> sha256_hex d = sha256_hex ''y'' \<and> file_data w3 ''/d/f'' = Some (splice ''abc'' 1 d)"
proof -
  obtain w1 where t: "take_shadow ''/d/f'' ''/d'' ''f'' [] page_world = (Inr (), w1)" "quiet w1"
    "store w1 = store page_world" "\<And>q. q \<noteq> ''/d/shadows/f'' \<Longrightarrow> names w1 q = names page_world q"
    using page_shadow_taken(1) by blast
  have n: "names w1 ''/d'' = Some DirN" "names w1 ''/d/f'' = Some (FileN 0)" "names w1 ''/d/t'' = Some (FileN 1)"
    using t(4) [of "''/d''"] t(4) [of "''/d/f''"] t(4) [of "''/d/t''"] page_world_names page_world_facts(4) by simp_all
  have "\<exists>w2. promote_sqlite_page page_result 0 0 w1 = ((Inr False, 0), w2) \<and> quiet w2"
    by (rule promote_page_quiet [OF t(2), where d = "''y''" and i = 0])
       (simp_all add: page_result_def page_shadow_facts file_data_def node_at_def is_dir_def n t(3) page_world_names [unfolded One_nat_def])
  then obtain w2 where p: "promote_sqlite_page page_result 0 0 w1 = ((Inr False, 0), w2)" by blast
  obtain out w3 where r: "roll_back demo_opts [\<lparr>shadow_path = shadow_dest ''/d'' ''f'', live_path = ''/d/f'', taken = True\<rparr>] w2
      = (out, w3)" by fastforce
  have "out = Exited RollbackCompleted None \<and>
     (\<exists>d. sha256_hex d = dt_hash (fr_task page_result) \<and>
        file_data w3 ''/d/f'' = Some (splice (store page_world 0) (nat (dt_offset (fr_task page_result))) d))"
    by (rule page_rollback_restores_nothing [OF page_world_facts(1,4) _ _ page_shadow_taken(2) t(1) p _ _ _ _ r])
       (simp_all add: page_result_def page_shadow_facts demo_opts_def)
  with t(1) p r show ?thesis by (auto simp: page_result_def page_shadow_facts page_world_names)
qed

section \<open>Negative page offsets\<close>

text \<open>
  A page with a negative offset passes every check of the plan, but the task built from it is
  handled as a whole file: its marker is the bare path, which is not the marker the feed looks
  for, so the unit stays pending after its promotion.
\<close>

lemma negative_offset_mismatch:
  assumes "Some cd \<in> set (page_candidates datadir root headers evs)" and "cd_offset cd < 0"
  shows "staging_identifier (task_of chunks staged cd) = cd_path cd
     \<and> staging_identifier (task_of chunks staged cd) \<noteq> cd_id cd
     \<and> dt_staging (task_of chunks staged cd) = go_join [staged, sha256_hex (cd_path cd)]"
proof -
  obtain e where "Some cd \<in> set (page_candidate datadir root headers e)"
    using assms(1) by (auto simp: page_candidates_def)
  then have "cd_id cd = cd_path cd @ '':'' @ fmt_int (cd_offset cd)"
    by (cases e) (auto simp: Let_def split: if_splits)
  then show ?thesis using assms(2)
    by (simp add: staging_identifier_def task_of_def staging_filename_def)
qed

definition negative_page :: page_event where
  "negative_page = OnePage 0 \<lparr>pp_offset = -1, pp_hash = sha256_hex ''x''\<rparr>"

lemma negative_offset_mismatch_witness:
  "check_page_events [OpenPages 0, negative_page] = None
   \<and> (\<exists>cd. Some cd \<in> set (page_candidates ''/d'' ''/d/pocketdb'' [demo_header_whole] [OpenPages 0, negative_page])
        \<and> staging_identifier (task_of [] ''/s'' cd) \<noteq> cd_id cd)"
proof -
  let ?cd = "\<lparr>cd_id = ''chainstate/CURRENT:-1'', cd_path = ''chainstate/CURRENT'', cd_hash = sha256_hex ''x'',
     cd_live = resolve_live_path ''/d'' ''/d/pocketdb'' ''chainstate/CURRENT'', cd_absent = False, cd_offset = -1\<rparr>"
  have f: "fmt_int (-1) = ''-1''" by (simp add: fmt_int_def nat_digits.simps [of 1]) code_simp
  have c: "Some ?cd \<in> set (page_candidates ''/d'' ''/d/pocketdb'' [demo_header_whole] [OpenPages 0, negative_page])"
    by (simp add: page_candidates_def negative_page_def demo_header_whole_def f Let_def)
  have v: "check_page_events [OpenPages 0, negative_page] = None"
    by (simp add: negative_page_def validate_page_hash_def is_canon_hash_def list_all_iff sha256_hex_lower)
  from negative_offset_mismatch [OF c, of "[]" "''/s''"] c v show ?thesis by auto
qed

section \<open>The chunk address\<close>

text \<open>
  For a manifest address without a path the chunk base is not scheme and host: \<open>path.Dir\<close> of the
  empty path is a dot, which is appended to the host.
\<close>

lemma chunk_base_without_path:
  assumes "parse (ao_manifest_url opts) = Some (scheme, host, [])" and "ao_manifest_url opts \<noteq> []"
    and "ao_chunk_base opts = []"
  shows "derive_chunk_base_url parse opts = scheme @ ''://'' @ host @ ''.''"
proof -
  have "go_dir [] = ''.''" by code_simp
  with assms show ?thesis by (simp add: derive_chunk_base_url_def)
qed

lemma chunk_base_without_path_witness:
  "derive_chunk_base_url (\<lambda>_. Some (''https'', ''h'', [])) (demo_opts\<lparr>ao_manifest_url := ''https://h'', ao_chunk_base := []\<rparr>)
   = ''https://h.''"
  using chunk_base_without_path [of "\<lambda>_. Some (''https'', ''h'', [])"
      "demo_opts\<lparr>ao_manifest_url := ''https://h'', ao_chunk_base := []\<rparr>" "''https''" "''h''"]
  by simp

section \<open>The served block height\<close>

text \<open>
  The block height that a refusal reports is read from the top level of the manifest. A manifest
  has it inside \<open>canonical_identity\<close>, so the reported height of a served manifest is zero.
\<close>

lemma served_height_is_zero:
  assumes "read_value body = Some (JObj ms, rest)"
    and "\<forall>(k, v) \<in> set ms. find_field [''block_height''] k = None"
  shows "extract_block_height body = 0"
proof -
  have "foldl (\<lambda>h (k, v). case find_field [''block_height''] k of
                         None \<Rightarrow> h
                       | Some _ \<Rightarrow> (case into_int64 h v of None \<Rightarrow> h | Some i \<Rightarrow> i)) 0 ms = 0"
    using assms(2) by (induction ms) auto
  with assms(1) show ?thesis by (simp add: extract_block_height_def)
qed

definition served_tree :: json where
  "served_tree = JObj [(''canonical_identity'', JObj [(''block_height'', JNum (fmt_int 42))]), (''format_version'', JNum (fmt_int 1))]"

lemma served_height_is_zero_witness: "extract_block_height (print_json False served_tree) = 0"
proof -
  have w: "writable max_depth served_tree" by (auto simp: served_tree_def max_depth_def)
  have "read_value (print_json False served_tree @ []) = Some (sanitize_json served_tree, [])"
    by (rule read_print [OF w]) (simp add: stops_def)
  moreover have "sanitize ''canonical_identity'' = ''canonical_identity''" "sanitize ''format_version'' = ''format_version''"
    by (rule sanitize_valid, rule valid_utf8_ascii, auto)+
  moreover have "find_field [''block_height''] ''canonical_identity'' = None" "find_field [''block_height''] ''format_version'' = None"
    by (simp add: find_field_def, code_simp)+
  ultimately show ?thesis
    by (intro served_height_is_zero) (auto simp: served_tree_def)
qed

end
