(* ===== verification/EndToEnd.thy ===== *)
theory EndToEnd
  imports CliClaims DiagnoseRun ApplyLimits
begin

text \<open>
  Diagnose and apply together: the plan that a successful diagnose leaves is accepted by apply, with the
  divergences diagnose recorded; the two commands communicate through that file only.
\<close>

text \<open>
  Apply insists on hashes of 64 lower-case hex digits.  Diagnose copies the hashes of the manifest
  unchecked, so this is a property of the pinned manifest.
\<close>

definition hashes_canonical :: "divergence list \<Rightarrow> bool" where
  "hashes_canonical ds \<longleftrightarrow>
     (\<forall>d \<in> set ds. (\<forall>p \<in> set (d_pages d). is_canon_hash (pp_hash p)) \<and>
                   (d_kind d = kind_whole_file \<longrightarrow> is_canon_hash (d_expected_hash d)))"

lemma enumerate_in: "x \<in> set (enumerate n ds) \<Longrightarrow> snd x \<in> set ds"
  by (cases x) (auto simp: in_set_enumerate_eq)

lemma canon_hash_clean: "is_canon_hash v \<Longrightarrow> sanitize v = v \<and> v \<noteq> []"
proof -
  assume c: "is_canon_hash v"
  have "of_char x < (128 :: nat)" if "x \<in> set v" for x
    using c that by (auto simp: is_canon_hash_def list_all_iff is_lower_hex_def less_eq_char_def)
  then show ?thesis
    using c by (auto simp: is_canon_hash_def intro!: sanitize_valid valid_utf8_ascii)
qed

lemma valid_kinds: "sanitize kind_sqlite_pages = kind_sqlite_pages" "sanitize kind_whole_file = kind_whole_file"
  by (auto simp: kind_sqlite_pages_def kind_whole_file_def intro!: sanitize_valid valid_utf8_ascii)

lemma canon_header:
  assumes "sqlite_ok d \<or> whole_ok d" and "d_kind d = kind_whole_file \<longrightarrow> is_canon_hash (d_expected_hash d)"
  shows "validate_header_shape (header_of i d) = Inr ()"
  using assms(1)
proof
  assume "sqlite_ok d"
  then have "d = sqlite_divergence sqlite_entry_path (d_pages d)" "d_pages d \<noteq> []" by (auto simp: sqlite_ok_def)
  then have "d_kind d = kind_sqlite_pages" "d_expected_hash d = []" "d_expected_source d = []" "d_pages d \<noteq> []"
    by (metis divergence.select_convs sqlite_divergence_def)+
  then show ?thesis by (simp add: validate_header_shape_def header_of_def valid_kinds)
next
  assume w: "whole_ok d"
  then have "is_canon_hash (d_expected_hash d)" using assms(2) by (simp add: whole_ok_def)
  with w canon_hash_clean [OF this] show ?thesis
    by (simp add: validate_header_shape_def header_of_def whole_ok_def valid_kinds kinds_distinct [symmetric])
qed

lemma check_events_append: "check_page_events (xs @ ys) = None \<longleftrightarrow> check_page_events xs = None \<and> check_page_events ys = None"
  by (induction xs rule: check_page_events.induct) (auto split: sum.splits)

lemma canon_events:
  assumes "hashes_canonical ds"
  shows "check_page_events (events_of ds) = None"
proof -
  have pages: "check_page_events (map (\<lambda>p. OnePage i (clean_page p)) ps) = None" if "\<forall>p \<in> set ps. is_canon_hash (pp_hash p)" for i ps
    using that canon_hash_clean by (induction ps) (auto simp: validate_page_hash_def clean_page_def)
  have "check_page_events (div_events i d) = None" if "d \<in> set ds" for i d
    using pages assms that by (simp add: div_events_def hashes_canonical_def)
  then have "\<forall>x \<in> set xs. snd x \<in> set ds \<Longrightarrow> check_page_events (concat (map (\<lambda>(i, d). div_events i d) xs)) = None" for xs
    by (induction xs) (auto simp: check_events_append)
  then show ?thesis unfolding events_of_def using enumerate_in by blast
qed

text \<open>
  C7. The two commands fit: after a successful diagnose, under any faults and against any server, the plan
  file holds the recorded divergences, and when the hashes of the manifest are canonical and it is still
  the one served, apply on that file passes all its checks with the file system untouched and goes on to
  its tasks with one header per divergence, in order, for the data directory diagnose looked at.
\<close>

theorem diagnosed_plan_applies:
  assumes "diagnose h opts w = (Finished Success None, w')"
    and "do_out opts \<notin> doctor_temps (do_out opts) (rnd w)"
    and "valid_utf8 (do_url opts)" and "valid_utf8 (do_pinned opts)"
    and "\<And>p. abs_path h (do_db opts) = Some p \<Longrightarrow> valid_utf8 p \<and> p \<noteq> []"
    and "\<And>v. version_lookup h = Some v \<Longrightarrow> valid_utf8 v"
    and "\<And>t d b x st. net w t (do_url opts) = Reply st d b x \<Longrightarrow> d < 2 ^ 63 - 1"
    and "quiet v" and "file_data v (ao_plan aopts) = file_data w' (do_out opts)" and "ao_manifest_url aopts = []"
    and "\<And>t. \<exists>len body. net v t (do_url opts) = Reply 200 len body False \<and> sha256_hex body = do_pinned opts"
  shows "\<exists>hdr ds path.
     file_data v (ao_plan aopts) = plan_marshal (emitted_plan (plan_identity opts hdr) (do_url opts) path ds)
   \<and> (\<forall>d \<in> set ds. sqlite_ok d \<or> whole_ok d) \<and> abs_path h (do_db opts) = Some path
   \<and> (hashes_canonical ds \<longrightarrow>
        (\<exists>ph v'. ph_path ph = path \<and> ph_identity ph = plan_identity opts hdr \<and> fs v' = fs v
           \<and> apply_run ex aopts v = run_tasks ex (inherit_url aopts ph) ph (headers_of ds) v'))"
proof -
  obtain hdr path ds whole where ht: "int64 (mi_block_height (mh_identity hdr))"
    and fd: "file_data w' (do_out opts) = plan_marshal (emitted_plan (plan_identity opts hdr) (do_url opts) path (ds @ whole))"
    and vl: "version_lookup h = Some (mi_core_version (mh_identity hdr))" and ab: "abs_path h (do_db opts) = Some path"
    and ok: "\<forall>d \<in> set ds. sqlite_ok d" "\<forall>d \<in> set whole. whole_ok d"
    using diagnosed_plan [OF assms(1,2,3)] assms(5,7) unfolding Let_def by metis
  let ?ds = "ds @ whole" and ?ci = "plan_identity opts hdr"
  let ?plan = "emitted_plan ?ci (do_url opts) path ?ds"
  have ok': "\<forall>d \<in> set ?ds. sqlite_ok d \<or> whole_ok d" using ok by auto
  then have wf: "\<forall>d \<in> set ?ds. wf_divergence d" by (auto simp: sqlite_ok_def whole_ok_def wf_divergence_def)
  have ci: "int64 (ci_block_height ?ci)" "valid_utf8 (ci_manifest_hash ?ci)" "valid_utf8 (ci_core_version ?ci)"
    using ht assms(4) assms(6) [OF vl] by (simp_all add: plan_identity_def)
  define ph where "ph = \<lparr>ph_version = plan_format_version, ph_identity = ?ci, ph_url = do_url opts, ph_path = path,
      ph_self = p_self_hash ?plan\<rparr>"
  have "file_data v (ao_plan aopts) = Some (plan_text ?plan)"
    using assms(9) fd plan_marshal_text [OF wf_emitted [OF ci(1) wf]] by simp
  note plan = this
  have url: "ao_manifest_url (inherit_url aopts ph) = [] \<or>
      (\<forall>t. \<exists>len body. net v t (ao_manifest_url (inherit_url aopts ph)) = Reply 200 len body False
          \<and> sha256_hex body = ci_manifest_hash ?ci)"
    using assms(10,11) by (simp add: inherit_url_def ph_def plan_identity_def)
  have "\<exists>v'. fs v' = fs v \<and> apply_run ex aopts v = run_tasks ex (inherit_url aopts ph) ph (headers_of ?ds) v'"
    if "hashes_canonical ?ds"
  proof -
    have "\<forall>h \<in> set (headers_of ?ds). validate_header_shape h = Inr ()"
      using ok' that unfolding headers_of_def hashes_canonical_def
      by (auto dest!: enumerate_in intro!: canon_header simp del: set_append)
    from emitted_plan_checks [OF ci(1) wf this canon_events [OF that] assms(3) _ ci(2,3) _ assms(8) plan ph_def url]
    obtain v' where "run_checks aopts v = (Inr (ph, headers_of ?ds), v')" "fs v' = fs v"
      using assms(5) [OF ab] by auto
    then show ?thesis by (auto simp: apply_run_def)
  qed
  then show ?thesis using assms(9) fd ok' ab by (metis (no_types, lifting) ph_def plan_header.select_convs)
qed

text \<open>The run of \<open>DiagnoseRun\<close>, then apply on what it left.\<close>

definition apply_opts :: apply_options where
  "apply_opts = apply_options_of (no_options\<lparr>co_subcommand := ''apply'', co_plan_path := ''/d/plan.json'', co_parallel := 4\<rparr>)"

lemma diagnosed_plan_applies_witness:
  "\<exists>w' hdr ds. diagnose idle_host run_opts serve_small = (Finished Success None, w')
     \<and> file_data w' ''/d/plan.json'' = plan_marshal (emitted_plan (plan_identity run_opts hdr) demo_url ''/d/pocketdb'' ds)
     \<and> (hashes_canonical ds \<longrightarrow> (\<exists>ph v'. fs v' = fs w'
          \<and> apply_run demo_ex apply_opts w' = run_tasks demo_ex (inherit_url apply_opts ph) ph (headers_of ds) v'))"
proof -
  obtain w' where d: "diagnose idle_host run_opts serve_small = (Finished Success None, w')" using small_run by blast
  have ab: "abs_path idle_host ''/d/pocketdb'' = Some ''/d/pocketdb''" by (simp add: abs_path_def run_paths(11,12))
  have f: "framed UNIV serve_small w'"
    using diagnose_plan_only [OF d] framed_mono [OF _ subset_UNIV] by (auto simp: plan_only_def touches_def)
  then have q: "quiet w'" "net w' = net serve_small"
    using framed_quiet [OF f] by (simp_all add: framed_def)
  have v: "version_lookup idle_host = Some ''v''" by code_simp
  have a: "ao_plan apply_opts = ''/d/plan.json''" "ao_manifest_url apply_opts = []"
    by (simp_all add: apply_opts_def apply_options_of_def)
  have "\<exists>len body. net w' t demo_url = Reply 200 len body False \<and> sha256_hex body = sha256_hex small_text" for t
    by (simp add: q(2))
  note served = this
  have "\<exists>hdr ds path.
     file_data w' (ao_plan apply_opts) = plan_marshal (emitted_plan (plan_identity run_opts hdr) (do_url run_opts) path ds)
   \<and> (\<forall>d \<in> set ds. sqlite_ok d \<or> whole_ok d) \<and> abs_path idle_host (do_db run_opts) = Some path
   \<and> (hashes_canonical ds \<longrightarrow>
        (\<exists>ph v'. ph_path ph = path \<and> ph_identity ph = plan_identity run_opts hdr \<and> fs v' = fs w'
           \<and> apply_run demo_ex apply_opts w' = run_tasks demo_ex (inherit_url apply_opts ph) ph (headers_of ds) v'))"
    by (rule diagnosed_plan_applies [OF d small_temps_run _ _ _ _ _ q(1)])
       (use served ab v in \<open>auto simp: a valid_hex\<close>)
  then show ?thesis using d ab by (auto simp: a)
qed

end
