(* ===== verification/DiagnoseExact.thy ===== *)
theory DiagnoseExact
  imports DiagnoseClaims
begin

text \<open>
  What a successful diagnose has found, exactly: without faults, for a server that answers with the canonical
  text of a manifest, the plan lists the pages and the files of the manifest that the local data lack, all
  of them and no others, in the order of the entries.
\<close>

section \<open>What there is to find\<close>

definition whole_divergence :: "man_entry \<Rightarrow> string \<Rightarrow> divergence" where
  "whole_divergence e src =
     \<lparr>d_kind = kind_whole_file, d_path = me_path e, d_pages = [], d_expected_hash = me_hash e,
      d_expected_source = src\<rparr>"

definition page_findings :: "os \<Rightarrow> string \<Rightarrow> man_entry \<Rightarrow> divergence list" where
  "page_findings w db e =
     (let ps = missing_pages (file_data w (join_rel db (me_path e))) (me_pages e) in
      if me_kind e \<noteq> entry_kind_sqlite_pages \<or> ps = [] then [] else [sqlite_divergence (me_path e) ps])"

definition file_findings :: "os \<Rightarrow> string \<Rightarrow> man_entry \<Rightarrow> divergence list" where
  "file_findings w db e =
     (if me_kind e \<noteq> entry_kind_whole_file then []
      else case file_data w (join_rel db (me_path e)) of
        None \<Rightarrow> [whole_divergence e ''fetch_full'']
      | Some d \<Rightarrow> if sha256_hex d = me_hash e then [] else [whole_divergence e []])"

definition findings :: "os \<Rightarrow> string \<Rightarrow> manifest \<Rightarrow> divergence list" where
  "findings w db m =
     concat (map (page_findings w db) (m_entries m)) @ concat (map (file_findings w db) (m_entries m))"

definition ascending_pages :: "manifest \<Rightarrow> bool" where
  "ascending_pages m \<longleftrightarrow> (\<forall>e \<in> set (m_entries m). sorted_wrt (<) (map mp_offset (me_pages e)))"

section \<open>One entry\<close>

lemma kinds_of_entries: "entry_kind_whole_file \<noteq> entry_kind_sqlite_pages"
  by (simp add: entry_kind_whole_file_def entry_kind_sqlite_pages_def)

lemma collect_oks: "ys = map Inr (oks ys) \<Longrightarrow> collect ys = Inr (oks ys)"
  by (metis collect_map_Inr)

lemma page_feed_exact:
  assumes "page_feed db path (Some (map Inr ms)) w = (Some ys, w1)" and "ys = map Inr (oks ys)"
    and "quiet w" and "sorted_wrt (<) (map mp_offset ms)"
  shows "oks ys = missing_pages (file_data w (join_rel db path)) ms"
proof -
  let ?p = "join_rel db path"
  have s: "compare_pages_streaming db path (map Inr ms) w = (ys, w1)"
    using assms(1) by (auto simp: page_feed_def split: prod.splits)
  consider (absent) "node_at w ?p = None" | (folder) "node_at w ?p = Some DirN"
    | (doc) i where "node_at w ?p = Some (FileN i)"
    by (metis node.exhaust option.exhaust)
  then show ?thesis
  proof cases
    case absent
    with s assms(3) have "ys = map Inr (map to_plan_page ms)"
      by (simp add: compare_pages_streaming_def os_stat_quiet drain_missing_map)
    then have "oks ys = map to_plan_page ms" by (metis oks_map_Inr)
    with absent show ?thesis by (simp add: missing_pages_def file_data_def)
  next
    case folder
    with s assms(3) have "\<exists>e. ys = [Inl e]"
      by (auto simp: compare_pages_streaming_def os_stat_quiet hash_sqlite_pages_def page_size_def open_read_def
          syscall_quiet)
    then show ?thesis using assms(2) by auto
  next
    case (doc i)
    then have d: "file_data w ?p = Some (store w i)" by (simp add: file_data_def)
    obtain cur it where c: "in_hand ms = (cur, it)" by fastforce
    have "hash_sqlite_pages ?p page_size (tick w) =
        (Inr (page_seq (nat page_size) 0 (store w i) None), tick (tick (tick w)))"
      using hash_sqlite_pages_quiet [of "tick w"] assms(3) d by simp
    then have "ys = compare_stream (page_seq (nat page_size) 0 (store w i) None) cur it"
      using s doc assms(3) c by (simp add: compare_pages_streaming_def os_stat_quiet)
    then have "Inr (oks ys) = (Inr (map to_plan_page (filter (\<lambda>m. \<not> page_in_file (store w i) m) ms)) :: cmp_err + _)"
      using file_pages.stream_spec [OF page_seq_only_eof assms(4) c] collect_oks [OF assms(2)]
      by (simp add: holds_page_file)
    with d show ?thesis by (simp add: missing_pages_def)
  qed
qed

lemma compare_file_found:
  assumes "compare_file_by_path_hash db (me_path e) (me_hash e) w = (Inr od, w1)" and "quiet w"
    and "me_kind e = entry_kind_whole_file"
  shows "file_findings w db e = (case od of None \<Rightarrow> [] | Some d \<Rightarrow> [d])"
proof -
  have "node_at w (join_rel db (me_path e)) \<noteq> Some DirN"
  proof
    assume "node_at w (join_rel db (me_path e)) = Some DirN"
    then have "\<exists>x. fst (compare_file_by_path_hash db (me_path e) (me_hash e) w) = Inl x"
      using assms(2)
      by (simp add: compare_file_by_path_hash_def os_stat_quiet hash_whole_file_def read_file_def syscall_quiet)
    with assms(1) show False by simp
  qed
  from compare_file_quiet [OF assms(2) this, of "me_hash e"] assms(1,3) show ?thesis
    by (auto simp: file_findings_def whole_divergence_def split: option.splits if_splits)
qed

text \<open>The state while the entries stream in: what was there at the start is still there.\<close>

definition finding :: "string \<Rightarrow> os \<Rightarrow> diag_state \<times> os \<Rightarrow> divergence list \<Rightarrow> divergence list \<Rightarrow> bool" where
  "finding out w0 st ds whole \<longleftrightarrow>
     diag_inv out (next_ino w0) w0 st \<and> emitting (ds_emitter (fst st)) (snd st) ds \<and>
     pe_whole (ds_emitter (fst st)) = whole"

lemma finding_local:
  assumes "finding out w0 st ds whole" and "wf_os w0" and "q \<notin> doctor_temps out (rnd w0)"
  shows "file_data (snd st) q = file_data w0 q" and "quiet (snd st) = quiet w0"
proof -
  have t: "touches (doctor_temps out (rnd w0)) (next_ino w0) w0 (snd st)"
    using assms(1) by (simp add: finding_def diag_inv_def temps_only_def)
  then have f: "framed (doctor_temps out (rnd w0)) w0 (snd st)" by (simp add: touches_def)
  have "store (snd st) i = store w0 i" if "node_at w0 q = Some (FileN i)" for i
    using that t assms(2) by (auto simp: touches_def wf_os_def node_at_def split: if_splits)
  with framed_node [OF f assms(3)] show "file_data (snd st) q = file_data w0 q"
    by (auto simp: file_data_def split: option.split node.split)
  show "quiet (snd st) = quiet w0" by (rule framed_quiet [OF f])
qed

lemma sqlite_entry_found:
  assumes "sqlite_entry db hdr (Some (map Inr ms)) (s, w) = (Inr hdr', s', w')"
    and "finding out w0 (s, w) ds whole" and "quiet w0" and "wf_os w0"
    and "join_rel db sqlite_entry_path \<notin> doctor_temps out (rnd w0)"
    and "sorted_wrt (<) (map mp_offset ms)" and "\<forall>m \<in> set ms. int64 (mp_offset m)"
  shows "finding out w0 (s', w')
     (ds @ (let ps = missing_pages (file_data w0 (join_rel db sqlite_entry_path)) ms in
            if ps = [] then [] else [sqlite_divergence sqlite_entry_path ps])) whole"
proof -
  obtain ys w1 n em where f: "page_feed db sqlite_entry_path (Some (map Inr ms)) w = (Some ys, w1)"
    and e: "emit_sqlite_pages (ds_emitter s) sqlite_entry_path ys w1 = (((n, None), em), w')"
    and em: "ds_emitter s' = em"
    using assms(1) by (auto simp: sqlite_entry_def split: prod.splits option.splits)
  have ds: "emitting (ds_emitter s) w ds" "pe_whole (ds_emitter s) = whole" using assms(2) by (auto simp: finding_def)
  note l = finding_local [OF assms(2,4)]
  have "touches {} (next_ino w) w w1" using page_feed_touches [of "next_ino w" w db] f by (metis snd_conv)
  note em1 = emitting_kept [OF ds(1) this]
  have off: "\<forall>p \<in> set (oks ys). int64 (pp_offset p)"
    by (rule page_feed_offsets [OF f]) (use assms(7) in \<open>simp add: pages_ok_def\<close>)
  note ok = emit_sqlite_pages_ok [OF e em1 off valid_sqlite_path]
  have "oks ys = missing_pages (file_data w0 (join_rel db sqlite_entry_path)) ms"
    using page_feed_exact [OF f _ _ assms(6)] ok l(1) [OF assms(5)] l(2) assms(3,5) by simp
  moreover have "diag_inv out (next_ino w0) w0 (s', w')"
    using sqlite_entry_inv [of out "next_ino w0" w0 "(s, w)" db hdr "Some (map Inr ms)"] assms(1,2)
    by (simp add: finding_def)
  ultimately show ?thesis
    using ok em ds(2) emit_sqlite_fields [OF e] by (auto simp: finding_def Let_def)
qed

lemma whole_file_entry_found:
  assumes "whole_file_entry db hdr it (s, w) = (Inr hdr', s', w')"
    and "eh_path hdr = me_path e" "eh_hash hdr = me_hash e" "me_kind e = entry_kind_whole_file"
    and "finding out w0 (s, w) ds whole" and "quiet w0" and "wf_os w0"
    and "join_rel db (me_path e) \<notin> doctor_temps out (rnd w0)"
  shows "finding out w0 (s', w') ds (whole @ file_findings w0 db e)"
proof -
  obtain od w1 where c: "compare_file_by_path_hash db (me_path e) (me_hash e) w = (Inr od, w1)"
    and st': "w' = w1" "ds_emitter s' = (case od of None \<Rightarrow> ds_emitter s | Some d \<Rightarrow> buffer_whole_file (ds_emitter s) d)"
    using assms(1,2,3) by (auto simp: whole_file_entry_def split: prod.splits option.splits sum.splits)
  note l = finding_local [OF assms(5,7)]
  have "file_findings w db e = file_findings w0 db e"
    using l(1) [OF assms(8)] by (simp add: file_findings_def)
  moreover have "file_findings w db e = (case od of None \<Rightarrow> [] | Some d \<Rightarrow> [d])"
    by (rule compare_file_found [OF c _ assms(4)]) (use l(2) assms(6,8) in simp)
  moreover have "touches {} (next_ino w) w w1" using compare_file_touches [of "next_ino w" w db] c by (metis snd_conv)
  then have "emitting (ds_emitter s) w1 ds" using assms(5) emitting_kept by (auto simp: finding_def)
  moreover have "diag_inv out (next_ino w0) w0 (s', w')"
    using whole_file_entry_inv [of out "next_ino w0" w0 "(s, w)" db hdr it] assms(1,5) by (simp add: finding_def)
  ultimately show ?thesis
    using assms(5) st' by (cases od) (auto simp: finding_def buffer_whole_file_def emitting_def)
qed

lemma run_entry_found:
  assumes "run_entry (entry_fn db) e (s, w) = Inr (s', w')"
    and "finding out w0 (s, w) ds whole" and "quiet w0" and "wf_os w0"
    and "join_rel db (me_path e) \<notin> doctor_temps out (rnd w0)"
    and "sorted_wrt (<) (map mp_offset (me_pages e))" and "wf_entry e"
  shows "finding out w0 (s', w') (ds @ page_findings w0 db e) (whole @ file_findings w0 db e)"
proof (cases "me_kind e = entry_kind_sqlite_pages")
  case True
  have p: "me_path e = sqlite_entry_path"
    using run_entry_foreign [OF True, of db "(s, w)"] assms(1) by auto
  obtain hdr where "sqlite_entry db (entry_start e) (Some (map Inr (me_pages e))) (s, w) = (Inr hdr, s', w')"
    using assms(1) True
    by (auto simp: run_entry_def entry_fn_def entry_start_def settle_def split: prod.splits sum.splits if_splits)
  from sqlite_entry_found [OF this assms(2,3,4) _ assms(6)] assms(5,7) p True kinds_of_entries
  show ?thesis by (auto simp: page_findings_def file_findings_def wf_entry_def Let_def split: if_splits)
next
  case False
  then obtain hdr where r: "entry_fn db ((entry_start e)\<lparr>eh_path := me_path e\<rparr>) None (s, w) = (Inr hdr, s', w')"
    using assms(1) by (auto simp: run_entry_def settle_def split: prod.splits sum.splits if_splits)
  show ?thesis
  proof (cases "me_kind e = entry_kind_whole_file")
    case True
    with r False have "whole_file_entry db ((entry_start e)\<lparr>eh_path := me_path e\<rparr>) None (s, w) = (Inr hdr, s', w')"
      by (simp add: entry_fn_def entry_start_def)
    from whole_file_entry_found [OF this _ _ True assms(2,3,4,5)] False
    show ?thesis by (simp add: page_findings_def entry_start_def)
  next
    case other: False
    with r False have "s' = s" "w' = w" by (auto simp: entry_fn_def entry_start_def)
    with assms(2) False other show ?thesis by (simp add: page_findings_def file_findings_def)
  qed
qed

lemma run_entries_found:
  assumes "run_entries (entry_fn db) es st = Inr st'"
    and "finding out w0 st ds whole" and "quiet w0" and "wf_os w0"
    and "\<forall>e \<in> set es. join_rel db (me_path e) \<notin> doctor_temps out (rnd w0)
       \<and> sorted_wrt (<) (map mp_offset (me_pages e)) \<and> wf_entry e"
  shows "finding out w0 st' (ds @ concat (map (page_findings w0 db) es)) (whole @ concat (map (file_findings w0 db) es))"
  using assms(1,2,5)
proof (induction es arbitrary: st ds whole)
  case (Cons e es)
  obtain s w where st: "st = (s, w)" by fastforce
  obtain s1 w1 where e: "run_entry (entry_fn db) e (s, w) = Inr (s1, w1)"
    and r: "run_entries (entry_fn db) es (s1, w1) = Inr st'"
    using Cons.prems(1) st by (auto split: sum.splits)
  have "finding out w0 (s1, w1) (ds @ page_findings w0 db e) (whole @ file_findings w0 db e)"
    by (rule run_entry_found [OF e _ assms(3,4)]) (use Cons.prems st in auto)
  from Cons.IH [OF r this] Cons.prems(3) show ?case by simp
qed simp

text \<open>The entries of a manifest that was processed to its end.\<close>

definition entry_accepted :: "man_entry \<Rightarrow> bool" where
  "entry_accepted e \<longleftrightarrow> validate_entry_path (me_path e) = Inr () \<and>
     (me_kind e = entry_kind_sqlite_pages \<longrightarrow> me_path e = sqlite_entry_path)"

lemma run_entries_accept: "run_entries (entry_fn db) es st = Inr st' \<Longrightarrow> e \<in> set es \<Longrightarrow> entry_accepted e"
proof (induction es arbitrary: st)
  case (Cons a es)
  obtain st1 where a: "run_entry (entry_fn db) a st = Inr st1" and r: "run_entries (entry_fn db) es st1 = Inr st'"
    using Cons.prems(1) by (auto split: sum.splits)
  have "entry_accepted a"
    using a run_entry_foreign [of a db st]
    by (auto simp: entry_accepted_def run_entry_def split: sum.splits prod.splits if_splits)
  with Cons.IH [OF r] Cons.prems(2) show ?case by auto
qed simp

section \<open>A whole run\<close>

text \<open>The server answers with the manifest, or with something that does not have the pinned hash.\<close>

definition serves_manifest :: "os \<Rightarrow> diag_options \<Rightarrow> manifest \<Rightarrow> json \<Rightarrow> bool" where
  "serves_manifest w opts m anchors \<longleftrightarrow>
     (\<forall>t st d b x. net w t (do_url opts) = Reply st d b x \<longrightarrow>
        d < 2 ^ 63 - 1 \<and> (sha256_hex b = do_pinned opts \<longrightarrow> b = manifest_text m anchors))"

text \<open>The local files of the manifest are none of the program's own.\<close>

definition local_apart :: "os \<Rightarrow> diag_options \<Rightarrow> manifest \<Rightarrow> bool" where
  "local_apart w opts m \<longleftrightarrow>
     (\<forall>e \<in> set (m_entries m). join_rel (do_db opts) (me_path e) \<notin> doctor_temps (do_out opts) (rnd w))"

lemma stream_found:
  assumes "fetch_and_process free (do_url opts) (do_pinned opts) (go_dir (do_out opts)) (entry_fn (do_db opts)) (s, w)
      = (Inr hdr, s', w')"
    and "finding (do_out opts) w0 (s, w) [] []" and "quiet w0" and "wf_os w0"
    and "serves_manifest w0 opts m anchors" and "local_apart w0 opts m"
    and "wf_manifest m" and "writable max_depth anchors" and "ascending_pages m"
  shows "hdr = header_of_manifest m anchors \<and> (\<forall>e \<in> set (m_entries m). entry_accepted e) \<and>
     finding (do_out opts) w0 (s', w') (concat (map (page_findings w0 (do_db opts)) (m_entries m)))
       (concat (map (file_findings w0 (do_db opts)) (m_entries m)))"
proof -
  let ?out = "do_out opts" and ?db = "do_db opts"
  obtain p w1 where sv: "spool_and_verify free (do_url opts) (do_pinned opts) (go_dir ?out) w = (Inr p, w1)"
    and ps: "parse_from_spool p (entry_fn ?db) (s, w1) = (Inr hdr, s', w')"
    using assms(1) by (auto simp: fetch_and_process_def split: prod.splits sum.splits)
  have t0: "temps_only ?out (next_ino w0) w0 w" and em: "emitter_ok ?out (next_ino w0) (rnd w0) (ds_emitter s)"
    and ds: "emitting (ds_emitter s) w []" "pe_whole (ds_emitter s) = []"
    using assms(2) by (auto simp: finding_def diag_inv_def)
  then have fr: "framed (doctor_temps ?out (rnd w0)) w0 w" by (simp add: temps_only_def touches_def)
  have nt: "net w = net w0" using fr by (simp add: framed_def)
  note sp = spool_and_verify_temps [OF t0, where free = free and url = "do_url opts" and h = "do_pinned opts"]
  have t1: "temps_only ?out (next_ino w0) w0 w1" using sp(1) sv by simp
  have pt: "p \<in> doctor_temps ?out (rnd w0)" by (rule sp(2) [OF sv])
  obtain body where b: "file_data w1 p = Some body" "body = manifest_text m anchors"
    using spool_ok [OF sv] assms(5) unfolding serves_manifest_def nt by metis
  have q1: "quiet w1" using t1 framed_quiet assms(3) by (auto simp: temps_only_def touches_def)
  obtain i where i: "node_at w1 p = Some (FileN i)" "store w1 i = body" using b(1) by (auto simp: file_data_Some_iff)
  have o: "open_read p w1 = (Inr i, tick w1)" using q1 i by (simp add: open_read_def syscall_quiet)
  have r: "read_stream i (tick w1) = ((body, None), tick (tick w1))" using q1 i by (simp add: read_stream_def quiet_def)
  let ?w2 = "tick (tick w1)"
  obtain w3 where sm: "stream_manifest (entry_fn ?db) (s, ?w2) (new_decoder body) = (Inr hdr, s', w3)"
    and w': "w' = snd (os_remove p w3)"
    using ps o r by (auto simp: parse_from_spool_def Let_def split: prod.splits sum.splits)
  obtain st' where re: "run_entries (entry_fn ?db) (m_entries m) (s, ?w2) = Inr st'"
    and st: "st' = (s', w3)" and hdr: "hdr = header_of_manifest m anchors"
    using sm unfolding b(2) stream_manifest_text [OF assms(7,8)] by (auto split: sum.splits)
  have "touches (doctor_temps ?out (rnd w)) (next_ino w) w w1"
    using spool_and_verify_temps(1) [OF temps_refl, where out = ?out and w = w and free = free and
        url = "do_url opts" and h = "do_pinned opts"] sv by (simp add: temps_only_def)
  from emitting_kept [OF ds(1) this] have "emitting (ds_emitter s) ?w2 []" by (simp add: emitting_def)
  moreover have "temps_only ?out (next_ino w0) w0 ?w2" by (rule temps_then [OF t1 touches_trans [OF touches_tick touches_tick], of "{}"]) simp
  ultimately have f2: "finding ?out w0 (s, ?w2) [] []" using em ds(2) by (simp add: finding_def diag_inv_def)
  have "finding ?out w0 (s', w3) ([] @ concat (map (page_findings w0 ?db) (m_entries m)))
       ([] @ concat (map (file_findings w0 ?db) (m_entries m)))"
    using run_entries_found [OF re f2 assms(3,4)] assms(6,7,9) st
    by (simp add: local_apart_def ascending_pages_def wf_manifest_def)
  then have f3: "finding ?out w0 (s', w3) (concat (map (page_findings w0 ?db) (m_entries m)))
       (concat (map (file_findings w0 ?db) (m_entries m)))" by simp
  have "finding ?out w0 (s', w') (concat (map (page_findings w0 ?db) (m_entries m)))
       (concat (map (file_findings w0 ?db) (m_entries m)))"
    using f3 temps_then [of ?out "next_ino w0" w0 w3 "{p}" w', OF _ _ ] os_remove_touches [of p "next_ino w0" w3]
      emitting_kept [OF _ os_remove_touches [of p "next_ino w3" w3]] pt
    by (auto simp: finding_def diag_inv_def w')
  with hdr run_entries_accept [OF re] show ?thesis by simp
qed

lemma findings_wf:
  assumes "wf_manifest m" and "d \<in> set (findings w db m)"
  shows "wf_divergence d"
proof -
  have "int64 (pp_offset p)" if "p \<in> set (missing_pages loc ms)" "\<forall>x \<in> set ms. int64 (mp_offset x)" for p loc ms
    using that by (auto simp: missing_pages_def to_plan_page_def split: option.splits)
  then show ?thesis
    using assms
    by (auto simp: findings_def page_findings_def file_findings_def whole_divergence_def sqlite_divergence_def
        wf_divergence_def wf_manifest_def wf_entry_def Let_def split: if_splits option.splits)
qed

lemma diagnosed_findings:
  assumes "diagnose h opts w = (Finished Success None, w')" and "quiet w" and "wf_os w"
    and "do_out opts \<notin> doctor_temps (do_out opts) (rnd w)"
    and "valid_utf8 (do_url opts)" and "\<And>p. abs_path h (do_db opts) = Some p \<Longrightarrow> valid_utf8 p"
    and "serves_manifest w opts m anchors" and "local_apart w opts m"
    and "wf_manifest m" and "writable max_depth anchors" and "ascending_pages m"
  shows "\<exists>path. abs_path h (do_db opts) = Some path \<and> version_lookup h = Some (mi_core_version (m_identity m)) \<and>
     file_data w' (do_out opts) = plan_marshal (emitted_plan (plan_identity opts (header_of_manifest m anchors))
       (do_url opts) path (findings w (do_db opts) m)) \<and> (\<forall>e \<in> set (m_entries m). entry_accepted e)"
proof -
  let ?n = "next_ino w"
  obtain em w2 w3 em' where ne: "new_plan_emitter (do_out opts) w2 = (Inr em, w3)"
    and 2: "temps_only (do_out opts) ?n w w2"
    and sf: "stream_and_finish h opts em w3 = (Finished Success None, em', w')"
    using diagnose_stages [OF assms(1)] by metis
  obtain hdr s w4 where fp: "fetch_and_process (free_bytes h) (do_url opts) (do_pinned opts) (go_dir (do_out opts))
        (entry_fn (do_db opts)) (init_diag_state em, w3) = (Inr hdr, s, w4)"
    and fd: "finish_diagnose h opts hdr s w4 = (Finished Success None, em', w')"
    using sf by (auto simp: stream_and_finish_def stream_failed_def split: prod.splits sum.splits stream_err.splits entry_err.splits)
  note 3 = new_emitter_temps [OF 2 ne]
  obtain ds where r: "emitting em w3 ds" "counted (init_diag_state em) ds" "pe_out em = do_out opts"
    using spool_next [OF ne] by (auto simp: recorded_def init_diag_state_def)
  have "int (length ds + length (pe_whole em)) = 0" using r(2) by (simp add: counted_def init_diag_state_def)
  then have "length ds + length (pe_whole em) = 0" by linarith
  then have "ds = []" "pe_whole em = []" by simp_all
  with r 3 have f3: "finding (do_out opts) w (init_diag_state em, w3) [] []"
    by (simp add: finding_def diag_inv_def init_diag_state_def)
  have hdr: "hdr = header_of_manifest m anchors" and acc: "\<forall>e \<in> set (m_entries m). entry_accepted e" and
    f4: "finding (do_out opts) w (s, w4) (concat (map (page_findings w (do_db opts)) (m_entries m)))
       (concat (map (file_findings w (do_db opts)) (m_entries m)))"
    using stream_found [OF fp f3 assms(2,3,7,8,9,10,11)] by auto
  have sp: "pe_spool_path em \<in> doctor_temps (do_out opts) (rnd w)"
    using ne temps_rnd [OF 2]
    by (auto simp: new_plan_emitter_def doctor_temps_def dest!: create_temp_Inr(1) split: prod.splits sum.splits)
  have "net w3 = net w" using 3 by (auto simp: temps_only_def touches_def framed_def)
  then have "d < 2 ^ 63 - 1" if "net w3 t (do_url opts) = Reply st d b x" for t st d b x
    using assms(7) that unfolding serves_manifest_def by metis
  then have "recorded (do_out opts) (pe_spool_path em) (s, w4)"
    using fetch_success [OF fp spool_next [OF ne]] by blast
  then have pe: "pe_out (ds_emitter s) = do_out opts" "pe_spool_path (ds_emitter s) = pe_spool_path em"
    by (auto simp: recorded_def)
  obtain w5 where ps: "post_stream h opts hdr (ds_total s) w4 = (None, w5)"
    using fd by (auto simp: finish_diagnose_def post_stream_def split: option.splits prod.splits sum.splits predicate_result.splits if_splits)
  have w5: "w5 = w4" using post_stream_world [of h opts hdr "ds_total s" w4] ps by simp
  have vl: "version_lookup h = Some (mi_core_version (m_identity m))"
    using ps hdr by (auto simp: post_stream_def version_mismatch_value_def header_of_manifest_def
        split: option.splits prod.splits sum.splits predicate_result.splits if_splits)
  obtain path u where ab: "abs_path h (do_db opts) = Some path"
    and fz: "emit_finalize (ds_emitter s) (plan_identity opts hdr) (do_url opts) path w4 = ((Inr u, em'), w')"
    using fd ps w5 by (auto simp: finish_diagnose_def split: option.splits prod.splits sum.splits)
  let ?ds = "concat (map (page_findings w (do_db opts)) (m_entries m))"
  have e4: "emitting (ds_emitter s) w4 ?ds" "?ds @ pe_whole (ds_emitter s) = findings w (do_db opts) m"
    using f4 by (simp_all add: finding_def findings_def)
  have ci: "int64 (ci_block_height (plan_identity opts hdr))"
    using assms(9) hdr by (simp add: plan_identity_def header_of_manifest_def wf_manifest_def)
  have "\<forall>d \<in> set (?ds @ pe_whole (ds_emitter s)). wf_divergence d" using findings_wf [OF assms(9)] e4(2) by simp
  moreover have "pe_out (ds_emitter s) \<noteq> pe_spool_path (ds_emitter s)" using pe sp assms(4) by metis
  ultimately have "file_data w' (do_out opts) = plan_marshal (emitted_plan (plan_identity opts hdr) (do_url opts) path
      (?ds @ pe_whole (ds_emitter s)))"
    using emitted_file_is_marshal [OF fz e4(1) ci _ assms(5) assms(6) [OF ab]] pe(1) by simp
  with ab vl hdr acc e4(2) show ?thesis by simp
qed


text \<open>
  C5. Diagnosis is exact: when, without faults, diagnose succeeds against a server of the pinned manifest, the plan
  file is the canonical text of the plan that lists the pages and the files of the manifest which the local
  files lacked at the start, all of them and no others: the pages first, then the whole files, each in the order
  of the manifest. The local version is that of the manifest, and every entry names a safe path.
\<close>

theorem diagnose_exact:
  assumes "diagnose h opts w = (Finished Success None, w')" and "quiet w" and "wf_os w"
    and "do_out opts \<notin> doctor_temps (do_out opts) (rnd w)"
    and "valid_utf8 (do_url opts)" and "\<And>p. abs_path h (do_db opts) = Some p \<Longrightarrow> valid_utf8 p"
    and "serves_manifest w opts m anchors" and "local_apart w opts m"
    and "wf_manifest m" and "writable max_depth anchors" and "ascending_pages m"
  shows "\<exists>path. abs_path h (do_db opts) = Some path \<and> version_lookup h = Some (mi_core_version (m_identity m)) \<and>
     file_data w' (do_out opts) = plan_marshal (emitted_plan (plan_identity opts (header_of_manifest m anchors))
       (do_url opts) path (findings w (do_db opts) m)) \<and> (\<forall>e \<in> set (m_entries m). entry_accepted e)"
  by (rule diagnosed_findings [OF assms])

end
