(* ===== verification/ApplySuccess.thy ===== *)
theory ApplySuccess
  imports ApplyClaims
begin

text \<open>
  Success of a whole run of apply: what the exit code 0 promises about the live files, and a complete run on
  a small world, from reading the plan to the cleanup.
\<close>

section \<open>Names below the staging directory\<close>

lemma staging_root_shape:
  assumes "is_abs (ao_plan opts)"
  shows "is_abs (staging_root opts)" "go_clean (staging_root opts) = staging_root opts" "staging_root opts \<noteq> ''/''"
proof -
  let ?n = "''pocketnet-node-doctor-staging''"
  have n: "plain_path ?n" by code_simp
  have d: "is_abs (go_dir (ao_plan opts))" by (rule is_abs_dir [OF assms])
  have e: "staging_root opts = below (go_clean (go_dir (ao_plan opts))) ?n"
    unfolding staging_root_def by (rule go_join_below [OF d n])
  show "is_abs (staging_root opts)" "staging_root opts \<noteq> ''/''"
    unfolding e using is_abs_below [OF is_abs_clean [OF d]] by (auto simp: below_def)
  have "is_abs (go_dir (ao_plan opts) @ slash # ?n)"
    using d by (cases "go_dir (ao_plan opts)") (auto simp: is_abs_def)
  moreover have "staging_root opts = go_clean (go_dir (ao_plan opts) @ slash # ?n)"
    using d by (cases "go_dir (ao_plan opts)") (auto simp: staging_root_def go_join_def is_abs_def)
  ultimately show "go_clean (staging_root opts) = staging_root opts"
    using go_clean_abs_idem by metis
qed

lemma in_tree_trans: "in_tree p q \<Longrightarrow> in_tree q r \<Longrightarrow> in_tree p r"
  by (auto simp: in_tree_def has_prefix_iff)

lemma join_in_tree:
  assumes "is_abs dir" and "go_clean dir = dir" and "dir \<noteq> ''/''" and "plain_path p"
  shows "in_tree dir (go_join [dir, p])"
  using go_join_below [OF assms(1,4)] assms(2,3) by (simp add: below_def in_tree_def has_prefix_iff)

lemma shadow_in_tree:
  assumes "is_abs dir" and "go_clean dir = dir" and "dir \<noteq> ''/''" and "plain_path rel"
  shows "in_tree dir (shadow_dest dir rel)"
proof -
  have "plain_path (''shadows'' @ slash # rel)"
    using assms(4) by (simp add: plain_path_def split_on_append plain_seg_def)
  moreover have "shadow_dest dir rel = go_join [dir, ''shadows'' @ slash # rel]"
    using assms(1) by (cases dir) (auto simp: shadow_dest_def go_join_def is_abs_def)
  ultimately show ?thesis using join_in_tree [OF assms(1,2,3)] by simp
qed

section \<open>A scan that finds nothing\<close>

lemma scan_units_none:
  "scan_units dir cs (infos, n) w = (Inr (infos', n'), w') \<Longrightarrow> n \<le> n' \<and> fs w' = fs w
     \<and> (n' = n \<longrightarrow> (\<forall>cd. Some cd \<in> set cs \<longrightarrow> has_marker dir w' (cd_id cd)))"
proof (induction cs arbitrary: infos n w)
  case (Cons c cs)
  obtain cd where c: "c = Some cd" using Cons.prems by (cases c) auto
  obtain b w1 where m: "marker_exists dir (cd_id cd) w = (b, w1)" by fastforce
  have f: "fs w1 = fs w" using marker_exists_fs [of dir "cd_id cd" w] m by simp
  show ?case
  proof (cases b)
    case True
    with Cons.prems c m have s: "scan_units dir cs (infos, n) w1 = (Inr (infos', n'), w')" by simp
    have "has_marker dir w (cd_id cd)" using marker_exists_sound m True by simp
    moreover have "fs w' = fs w" using Cons.IH [OF s] f by simp
    ultimately have "has_marker dir w' (cd_id cd)" using fs_node_at [of w' w] by (simp add: has_marker_def)
    with Cons.IH [OF s] f c show ?thesis by auto
  next
    case False
    obtain i1 where "add_pending cd (infos, n) = (i1, n + 1)" by (simp add: add_pending_def)
    with False Cons.prems c m have "scan_units dir cs (i1, n + 1) w1 = (Inr (infos', n'), w')" by simp
    from Cons.IH [OF this] f show ?thesis by auto
  qed
qed simp

lemma run_scan_none:
  assumes "run_scan opts datadir root headers dir w = (Inr (infos, 0), w')" and "h \<in> set (whole_headers headers)"
  shows "has_marker dir w (dh_path h)"
proof -
  obtain evs bad w1 where s: "stream_pages (ao_plan opts) w = ((evs, bad), w1)" by (metis prod.exhaust)
  obtain i1 n1 w2 where a: "scan_units dir (page_candidates datadir root headers evs) ([], 0) w1 = (Inr (i1, n1), w2)"
    and b: "scan_units dir (whole_candidates datadir root headers) (i1, n1) w2 = (Inr (infos, 0), w')"
    using assms(1) s by (auto simp: run_scan_def and_then_def split: prod.splits sum.splits if_splits)
  have "n1 = 0" using scan_units_none [OF a] scan_units_none [OF b] by simp
  moreover have "\<exists>cd. Some cd \<in> set (whole_candidates datadir root headers) \<and> cd_id cd = dh_path h"
    using assms(2) by (force simp: whole_candidates_def whole_headers_def)
  ultimately have "has_marker dir w' (dh_path h)" using scan_units_none [OF b] by auto
  moreover have "fs w' = fs w"
    using scan_units_none [OF a] scan_units_none [OF b] stream_pages_fs [of "ao_plan opts" w] s by simp
  ultimately show ?thesis using fs_node_at [of w' w] by (simp add: has_marker_def)
qed

section \<open>Staging makes no marker\<close>

text \<open>A name that is absent stays absent.\<close>

definition stays_absent :: "string \<Rightarrow> os \<Rightarrow> os \<Rightarrow> bool" where
  "stays_absent q w w' \<longleftrightarrow> (node_at w q = None \<longrightarrow> node_at w' q = None)"

lemma stays_absent_trans [trans]: "stays_absent q w1 w2 \<Longrightarrow> stays_absent q w2 w3 \<Longrightarrow> stays_absent q w1 w3"
  by (simp add: stays_absent_def)

lemma framed_absent: "framed S w w' \<Longrightarrow> q \<notin> S \<Longrightarrow> stays_absent q w w'"
  by (simp add: stays_absent_def framed_node)

lemma fs_absent: "fs w' = fs w \<Longrightarrow> stays_absent q w w'"
  using fs_node_at [of w' w q] by (simp add: stays_absent_def)

lemma remove_all_absent: "stays_absent q w (snd (remove_all p w))"
  unfolding remove_all_def stays_absent_def
  by (rule syscall_frame [where P = "\<lambda>w'. node_at w q = None \<longrightarrow> node_at w' q = None"]) (auto simp: node_at_def)

lemma mkdir_all_absent: "length p < length q \<Longrightarrow> stays_absent q w (snd (mkdir_all p w))"
  by (rule framed_absent [OF mkdir_all_framed]) (auto dest: ancestors_length)

lemma staging_names:
  assumes "is_abs dir" and "go_clean dir = dir" and "dir \<noteq> ''/''"
  shows "marker_path dir i = dir @ ''/markers/'' @ sha256_hex i" "plan_hash_file dir = dir @ ''/plan-hash''"
    "go_join [dir, ''markers''] = dir @ ''/markers''" "go_join [dir, ''shadows''] = dir @ ''/shadows''"
    "go_join [dir, ''staged''] = dir @ ''/staged''"
proof -
  have p: "plain_path ''plan-hash''" "plain_path ''markers''" "plain_path ''shadows''" "plain_path ''staged''"
    by code_simp+
  have "length (sha256_hex i) \<noteq> length ''.''" "length (sha256_hex i) \<noteq> length ''..''"
    by (simp_all add: sha256_hex_length)
  then have "sha256_hex i \<noteq> ''.''" "sha256_hex i \<noteq> ''..''" by metis+
  then have h: "plain_path (''markers'' @ slash # sha256_hex i)"
    using sha256_hex_no_slash [of i] sha256_hex_nonempty [of i]
    by (auto simp: plain_path_def split_on_append split_on_free plain_seg_def)
  have "marker_path dir i = go_join [dir, ''markers'' @ slash # sha256_hex i]"
    using assms(1) by (cases dir) (auto simp: marker_path_def marker_name_def go_join_def is_abs_def)
  then show "marker_path dir i = dir @ ''/markers/'' @ sha256_hex i"
    using go_join_below [OF assms(1) h] assms(2,3) by (simp add: below_def)
  show "plan_hash_file dir = dir @ ''/plan-hash''"
    "go_join [dir, ''markers''] = dir @ ''/markers''" "go_join [dir, ''shadows''] = dir @ ''/shadows''"
    "go_join [dir, ''staged''] = dir @ ''/staged''"
    using p [THEN go_join_below [OF assms(1)]] assms(2,3) by (simp_all add: below_def plan_hash_file_def)
qed

lemma create_fresh_absent:
  assumes "length (go_join [dir, ''markers'']) < length q" "length (go_join [dir, ''shadows'']) < length q"
    and "length dir < length q" and "q \<noteq> plan_hash_file dir"
  shows "stays_absent q w (snd (create_fresh dir h w))"
proof -
  obtain r1 w1 where 1: "mkdir_all dir w = (r1, w1)" by fastforce
  obtain r2 w2 where 2: "write_file (plan_hash_file dir) h w1 = (r2, w2)" by fastforce
  obtain r3 w3 where 3: "mkdir_all (go_join [dir, ''markers'']) w2 = (r3, w3)" by fastforce
  obtain r4 w4 where 4: "mkdir_all (go_join [dir, ''shadows'']) w3 = (r4, w4)" by fastforce
  have a1: "stays_absent q w w1" using mkdir_all_absent [OF assms(3), of w] 1 by simp
  have a2: "stays_absent q w w2"
    using a1 framed_absent [OF write_file_framed, of q "plan_hash_file dir" w1 h] assms(4) 2
    by (auto intro: stays_absent_trans)
  have a3: "stays_absent q w w3" using a2 mkdir_all_absent [OF assms(1), of w2] 3 by (auto intro: stays_absent_trans)
  have a4: "stays_absent q w w4" using a3 mkdir_all_absent [OF assms(2), of w3] 4 by (auto intro: stays_absent_trans)
  show ?thesis
    using a1 a2 a3 a4 1 2 3 4 by (cases r1; cases r2; cases r3; cases r4) (simp_all add: create_fresh_def ensure_subdirs_def)
qed

lemma run_staging_absent:
  assumes "is_abs (staging_root opts)" "go_clean (staging_root opts) = staging_root opts" "staging_root opts \<noteq> ''/''"
    and "run_staging opts hdr w = (r, w')"
  shows "stays_absent (marker_path (staging_root opts) i) w w'"
proof -
  let ?d = "staging_root opts" and ?q = "marker_path (staging_root opts) i"
  note n = staging_names [OF assms(1-3)]
  have l: "length (go_join [?d, ''markers'']) < length ?q" "length (go_join [?d, ''shadows'']) < length ?q"
      "length (go_join [?d, ''staged'']) < length ?q" "length ?d < length ?q" "?q \<noteq> plan_hash_file ?d"
    by (simp_all add: n sha256_hex_length)
  have es: "stays_absent ?q v (snd (ensure_subdirs ?d v))" for v
  proof -
    obtain r3 w3 where 3: "mkdir_all (go_join [?d, ''markers'']) v = (r3, w3)" by fastforce
    show ?thesis
      using mkdir_all_absent [OF l(1), of v] mkdir_all_absent [OF l(2), of w3] 3
      by (cases r3) (auto simp: ensure_subdirs_def intro: stays_absent_trans)
  qed
  have cf: "stays_absent ?q v (snd (create_fresh ?d h v))" for h v by (rule create_fresh_absent [OF l(1,2,4,5)])
  have cr: "stays_absent ?q w (snd (create_or_resume ?d h w))" for h
  proof -
    obtain r1 w1 where 1: "os_stat ?d w = (r1, w1)" by fastforce
    have a1: "stays_absent ?q w w1" using fs_absent [OF os_stat_fs] 1 by (metis snd_conv)
    obtain r2 w2 where 2: "read_file (plan_hash_file ?d) w1 = (r2, w2)" by fastforce
    have a2: "stays_absent ?q w w2" using a1 fs_absent [OF read_file_fs] 2 by (metis snd_conv stays_absent_trans)
    obtain r3 w3 where 3: "remove_all ?d w2 = (r3, w3)" by fastforce
    have a3: "stays_absent ?q w w3" using a2 remove_all_absent [of ?q w2 ?d] 3 by (auto intro: stays_absent_trans)
    obtain r4 w4 where 4: "ensure_subdirs ?d w2 = (r4, w4)" by fastforce
    have a4: "stays_absent ?q w w4" using a2 es [of w2] 4 by (auto intro: stays_absent_trans)
    show ?thesis
      using 1 2 3 4 a1 a2 a3 a4 cf [where h = h and v = w1] cf [where h = h and v = w3]
      by (cases r1; cases r2; cases r3; cases r4) (auto simp: create_or_resume_def intro: stays_absent_trans)
  qed
  obtain r1 w1 where 1: "create_or_resume ?d (ph_self hdr) w = (r1, w1)" by fastforce
  have a1: "stays_absent ?q w w1" using cr [of "ph_self hdr"] 1 by simp
  show ?thesis
  proof (cases r1)
    case (Inl e)
    with assms(4) 1 a1 show ?thesis by (auto simp: run_staging_def)
  next
    case (Inr x)
    then obtain resumed where x: "r1 = Inr (?d, resumed)"
      using 1 by (cases x) (auto simp: create_or_resume_def create_fresh_def split: prod.splits sum.splits if_splits)
    obtain r2 w2 where 2: "mkdir_all (go_join [?d, ''staged'']) w1 = (r2, w2)" by fastforce
    have "stays_absent ?q w w2" using a1 mkdir_all_absent [OF l(3), of w1] 2 by (auto intro: stays_absent_trans)
    with assms(4) 1 x 2 show ?thesis by (cases r2) (auto simp: run_staging_def split: if_splits)
  qed
qed

section \<open>No phase before the end succeeds early\<close>

lemma run_staging_unfinished: "run_staging opts hdr w = (Inl r, w') \<Longrightarrow> r \<noteq> Exited Success e"
  by (auto simp: run_staging_def split: prod.splits sum.splits if_splits)

lemma scan_units_unfinished: "scan_units dir cs acc w = (Inl r, w') \<Longrightarrow> r \<noteq> Exited Success e"
  by (induction dir cs acc w rule: scan_units.induct) (auto split: prod.splits bool.splits)

lemma run_scan_unfinished: "run_scan opts datadir root headers dir w = (Inl r, w') \<Longrightarrow> r \<noteq> Exited Success e"
  by (auto simp: run_scan_def and_then_def dest: scan_units_unfinished split: prod.splits sum.splits if_splits)

lemma take_shadows_unfinished: "take_shadows dir sis acc w = (Inl r, w') \<Longrightarrow> r \<noteq> Exited Success e"
proof (induction sis arbitrary: acc w)
  case (Cons si sis)
  have s: "shadow_if_new dir si v = (Inl x, v') \<Longrightarrow> x \<noteq> Exited Success e" for v x v'
    by (auto simp: shadow_if_new_def split: prod.splits sum.splits if_splits)
  obtain tk w1 where l: "live_exists si w = (tk, w1)" by fastforce
  with Cons show ?case
    by (cases tk) (auto simp: and_then_def dest: s split: prod.splits sum.splits)
qed simp

lemma run_workers_unfinished:
  "run_workers ex opts datadir root headers dir n w = (Inl r, w') \<Longrightarrow> r \<noteq> Exited Success e"
  by (auto simp: run_workers_def Let_def split: prod.splits option.splits if_splits)

lemma run_tasks_success:
  assumes "run_tasks ex opts hdr headers w = (Exited Success None, w')"
  obtains w1 infos n w2 where "run_staging opts hdr w = (Inr (staging_root opts), w1)"
    and "run_scan opts (go_dir (ph_path hdr)) (ph_path hdr) headers (staging_root opts) w1 = (Inr (infos, n), w2)"
    and "n = 0 \<Longrightarrow> w' = w2"
    and "n \<noteq> 0 \<Longrightarrow> \<exists>sh w3 s w4. take_shadows (staging_root opts) infos [] w2 = (Inr sh, w3)
      \<and> run_workers ex opts (go_dir (ph_path hdr)) (ph_path hdr) headers (staging_root opts) n w3 = (Inr s, w4)
      \<and> run_after_pool ex opts (go_dir (ph_path hdr)) (ph_path hdr) headers (staging_root opts) sh s w4 = (Exited Success None, w')"
proof -
  let ?root = "ph_path hdr"
  obtain v w1 where st0: "run_staging opts hdr w = (v, w1)" by fastforce
  obtain dir where v: "v = Inr dir"
    using assms st0 by (cases v) (auto simp: run_tasks_def Let_def dest: run_staging_unfinished)
  note st = st0 [unfolded v]
  obtain x w2 where sc: "run_scan opts (go_dir ?root) ?root headers dir w1 = (x, w2)" by fastforce
  obtain infos n where x: "x = Inr (infos, n)"
    using assms st sc by (cases x) (auto simp: run_tasks_def Let_def dest: run_scan_unfinished)
  note d = run_staging_dir [OF st]
  show thesis
  proof (rule that [OF st [unfolded d] sc [unfolded d x]])
    assume "n = 0" then show "w' = w2" using assms st sc x by (simp add: run_tasks_def)
  next
    assume n: "n \<noteq> 0"
    obtain y w3 where ts: "take_shadows dir infos [] w2 = (y, w3)" by fastforce
    obtain sh where y: "y = Inr sh"
      using assms st sc x n ts by (cases y) (auto simp: run_tasks_def Let_def dest: take_shadows_unfinished)
    obtain z w4 where rw: "run_workers ex opts (go_dir ?root) ?root headers dir n w3 = (z, w4)" by fastforce
    obtain s where z: "z = Inr s"
      using assms st sc x n ts y rw by (cases z) (auto simp: run_tasks_def Let_def dest: run_workers_unfinished)
    show "\<exists>sh w3 s w4. take_shadows (staging_root opts) infos [] w2 = (Inr sh, w3)
      \<and> run_workers ex opts (go_dir ?root) ?root headers (staging_root opts) n w3 = (Inr s, w4)
      \<and> run_after_pool ex opts (go_dir ?root) ?root headers (staging_root opts) sh s w4 = (Exited Success None, w')"
      using assms st sc x n ts y rw z d by (auto simp: run_tasks_def Let_def)
  qed
qed

section \<open>Success\<close>

lemma tasks_verified:
  assumes "run_tasks ex opts hdr headers w = (Exited Success None, w')"
    and "no_injection opts" and "lawful_order ex"
    and "is_abs (ph_path hdr)" and "is_abs (ao_plan opts)" and "\<forall>g \<in> set headers. plain_path (dh_path g)"
    and "distinct (map (live_of hdr) (whole_headers headers))"
    and "h \<in> set (whole_headers headers)" and "dh_path h \<noteq> ''pocketdb/main.sqlite3''"
    and "\<not> in_tree (staging_root opts) (live_of hdr h)"
  shows "(\<exists>d. file_data w' (live_of hdr h) = Some d \<and> sha256_hex d = dh_hash h)
       \<or> has_marker (staging_root opts) w (dh_path h)"
proof -
  let ?root = "ph_path hdr" and ?dir = "staging_root opts"
  note dir = staging_root_shape [OF assms(5)]
  have sub: "\<not> in_tree (go_join [?dir, ''staged'']) (live_of hdr h)" "\<not> in_tree (go_join [?dir, ''shadows'']) (live_of hdr h)"
    using join_in_tree [OF dir(1,2,3), of "''staged''"] join_in_tree [OF dir(1,2,3), of "''shadows''"] assms(10) in_tree_trans
    by (auto simp: plain_path_def plain_seg_def)
  obtain w1 infos n w2 where st: "run_staging opts hdr w = (Inr ?dir, w1)"
    and sc: "run_scan opts (go_dir ?root) ?root headers ?dir w1 = (Inr (infos, n), w2)" and z: "n = 0 \<Longrightarrow> w' = w2"
    and nz: "n \<noteq> 0 \<Longrightarrow> \<exists>sh w3 s w4. take_shadows ?dir infos [] w2 = (Inr sh, w3)
        \<and> run_workers ex opts (go_dir ?root) ?root headers ?dir n w3 = (Inr s, w4)
        \<and> run_after_pool ex opts (go_dir ?root) ?root headers ?dir sh s w4 = (Exited Success None, w')"
    using run_tasks_success [OF assms(1)] by metis
  show ?thesis
  proof (cases "n = 0")
    case True
    with sc run_scan_none assms(8) have "has_marker ?dir w1 (dh_path h)" by blast
    then show ?thesis
      using run_staging_absent [of opts hdr w "Inr ?dir" w1 "dh_path h"] dir st
      by (auto simp: has_marker_def stays_absent_def)
  next
    case False
    with nz obtain sh w3 s w4 where ts: "take_shadows ?dir infos [] w2 = (Inr sh, w3)"
      and ap: "run_after_pool ex opts (go_dir ?root) ?root headers ?dir sh s w4 = (Exited Success None, w')" by auto
    have "shadow_path ` set sh \<subseteq> shadow_dest ?dir ` dh_path ` set headers"
    proof -
      have "(\<lambda>si. shadow_dest ?dir (si_rel si)) ` set infos = shadow_dest ?dir ` (si_rel ` set infos)"
        by (simp add: image_image)
      also have "\<dots> \<subseteq> shadow_dest ?dir ` dh_path ` set headers" using run_scan_rels [OF sc] by (rule image_mono)
      finally show ?thesis using take_shadows_paths [OF ts] by simp
    qed
    then have "live_of hdr h \<notin> shadow_path ` set sh"
      using shadow_in_tree [OF dir] assms(6,10) by auto
    from pool_success_verified [OF ap assms(2-4,7-9) this sub] show ?thesis by blast
  qed
qed

text \<open>
  C2. When a run of apply ends with exit code 0, every whole file of the plan has exactly the bytes whose
  hash the plan names, after the cleanup too, unless its marker was there before the run, from an earlier one.
  This holds under any faults, network and scheduling, and whatever the database engine does. The main
  database is excepted: it is checked by the integrity check of the engine.
\<close>

theorem success_means_verified:
  assumes "apply_run ex opts w = (Exited Success None, w')" and "run_checks opts w = (Inr (hdr, headers), w0)"
    and "no_injection opts" and "lawful_order ex"
    and "is_abs (ph_path hdr)" and "is_abs (ao_plan opts)" and "\<forall>g \<in> set headers. plain_path (dh_path g)"
    and "distinct (map (live_of hdr) (whole_headers headers))"
    and "h \<in> set (whole_headers headers)" and "dh_path h \<noteq> ''pocketdb/main.sqlite3''"
    and "\<not> in_tree (staging_root opts) (live_of hdr h)"
  shows "(\<exists>d. file_data w' (live_of hdr h) = Some d \<and> sha256_hex d = dh_hash h)
       \<or> has_marker (staging_root opts) w (dh_path h)"
proof -
  let ?opts = "inherit_url opts hdr"
  have opts: "no_injection ?opts" "staging_root ?opts = staging_root opts" "ao_plan ?opts = ao_plan opts"
    using assms(3) by (simp_all add: inherit_url_def no_injection_def staging_root_def)
  have "run_tasks ex ?opts hdr headers w0 = (Exited Success None, w')"
    using assms(1,2) by (simp add: apply_run_def)
  from tasks_verified [OF this opts(1) assms(4,5) _ assms(7-10)] assms(6,11) opts(2,3)
  have "(\<exists>d. file_data w' (live_of hdr h) = Some d \<and> sha256_hex d = dh_hash h)
      \<or> has_marker (staging_root opts) w0 (dh_path h)" by simp
  moreover have "fs w0 = fs w"
    using run_checks_reads [of opts] assms(2) by (auto simp: reads_only_def untouched_def dest: spec [of _ w])
  ultimately show ?thesis using fs_node_at [of w0 w] by (simp add: has_marker_def)
qed

end
