(* ===== verification/Spares.thy ===== *)
theory Spares
  imports Promote
begin

text \<open>
  Protected files.  \<open>shielded L X w\<close>: no name outside \<open>X\<close> is a hard link of the file \<open>L\<close>, so a write
  through a name other than \<open>L\<close> and those of \<open>X\<close> does not reach it.  \<open>spares L X w w'\<close>: a step keeps the
  file (its inode and its bytes, or its absence) and the shield.  The collection \<open>sparing\<close> has one entry per
  operation, with the side conditions on the names it is given.
\<close>

named_theorems sparing \<open>which files each operation leaves alone\<close>

definition shielded :: "string \<Rightarrow> string set \<Rightarrow> os \<Rightarrow> bool" where
  "shielded L X w \<longleftrightarrow>
     wf_os w \<and> (\<forall>i q. node_at w L = Some (FileN i) \<longrightarrow> node_at w q = Some (FileN i) \<longrightarrow> q = L \<or> q \<in> X)"

definition spares :: "string \<Rightarrow> string set \<Rightarrow> os \<Rightarrow> os \<Rightarrow> bool" where
  "spares L X w w' \<longleftrightarrow>
     (shielded L X w \<longrightarrow> shielded L X w' \<and> node_at w' L = node_at w L \<and> file_data w' L = file_data w L)"

lemma spares_refl [simp]: "spares L X w w"
  by (simp add: spares_def)

lemma spares_trans [trans]: "spares L X w w1 \<Longrightarrow> spares L X w1 w2 \<Longrightarrow> spares L X w w2"
  by (simp add: spares_def)

lemma sparesD:
  "spares L X w w' \<Longrightarrow> shielded L X w \<Longrightarrow> shielded L X w' \<and> node_at w' L = node_at w L \<and> file_data w' L = file_data w L"
  by (simp add: spares_def)

text \<open>One more operation.\<close>

lemma spares_step: "spares L X w w1 \<Longrightarrow> x = (r, w2) \<Longrightarrow> spares L X w1 (snd x) \<Longrightarrow> spares L X w w2"
  by (auto intro: spares_trans)

lemma spares_fs:
  assumes "fs w' = fs w"
  shows "spares L X w w'"
proof -
  have n: "node_at w' q = node_at w q" for q by (rule fs_node_at [OF assms])
  have "wf_os w' = wf_os w" using assms by (simp add: wf_os_def fs_iff)
  with n fs_file_data [OF assms, of L] show ?thesis by (simp add: spares_def shielded_def)
qed

lemma spares_tick [simp]: "spares L X w (tick w)"
  by (rule spares_fs) simp

lemma file_id: "node_at w p = Some (FileN i) \<Longrightarrow> wf_os w \<Longrightarrow> i < next_ino w"
  by (auto simp: wf_os_def node_at_def split: if_splits)

text \<open>Names of files are only taken away, or come from names that are no link of \<open>L\<close>.\<close>

lemma sparesI:
  assumes "wf_os w \<Longrightarrow> wf_os w'" and "shielded L X w \<Longrightarrow> node_at w' L = node_at w L"
    and "\<And>i. shielded L X w \<Longrightarrow> node_at w L = Some (FileN i) \<Longrightarrow> store w' i = store w i"
    and "\<And>i q. shielded L X w \<Longrightarrow> node_at w L = Some (FileN i) \<Longrightarrow> node_at w' q = Some (FileN i) \<Longrightarrow> q \<noteq> L \<Longrightarrow> q \<notin> X
      \<Longrightarrow> \<exists>p. p \<noteq> L \<and> p \<notin> X \<and> node_at w p = Some (FileN i)"
  shows "spares L X w w'"
  unfolding spares_def
proof (intro impI conjI)
  assume s: "shielded L X w"
  note n = assms(2) [OF s]
  show "node_at w' L = node_at w L" by (rule n)
  show "file_data w' L = file_data w L"
    using n assms(3) [OF s] by (auto simp: file_data_def split: option.split node.split)
  have "q = L \<or> q \<in> X" if "node_at w L = Some (FileN i)" "node_at w' q = Some (FileN i)" for i q
    using assms(4) [OF s that] s that(1) by (auto simp: shielded_def)
  with n assms(1) s show "shielded L X w'" by (auto simp: shielded_def)
qed

lemma call_spares:
  assumes "\<And>k ns. spares L X (tick w) (pt k ns (tick w))" and "spares L X (tick w) (snd (body (tick w)))"
  shows "spares L X w (snd (syscall pt body w))"
  using syscall_frame [where P = "spares L X w" and pt = pt and body = body and w = w] assms
    spares_trans [OF spares_tick] by blast

section \<open>The calls\<close>

lemma os_stat_spares [sparing]: "spares L X w (snd (os_stat p w))"
  by (rule spares_fs [OF os_stat_fs])

lemma read_file_spares [sparing]: "spares L X w (snd (read_file p w))"
  by (rule spares_fs [OF read_file_fs])

lemma open_read_spares [sparing]: "spares L X w (snd (open_read p w))"
  by (rule spares_fs [OF open_read_fs])

lemma os_noop_spares [sparing]: "spares L X w (snd (os_noop w))"
  by (rule spares_fs [OF os_noop_fs])

lemma new_file_spares:
  assumes "node_at w p = None" and "p \<noteq> L"
  shows "spares L X w (snd (new_file p w))"
proof (rule sparesI)
  show "node_at (snd (new_file p w)) L = node_at w L" using assms by (simp add: new_file_def node_at_def)
  fix i q assume s: "shielded L X w" and i: "node_at w L = Some (FileN i)"
  have "i < next_ino w" using file_id [OF i] s by (simp add: shielded_def)
  then show "store (snd (new_file p w)) i = store w i"
    and "node_at (snd (new_file p w)) q = Some (FileN i) \<Longrightarrow> q \<noteq> L \<Longrightarrow> q \<notin> X
      \<Longrightarrow> \<exists>p. p \<noteq> L \<and> p \<notin> X \<and> node_at w p = Some (FileN i)"
    by (auto simp: new_file_def node_at_def split: if_splits)
qed (auto simp: wf_os_def new_file_def less_Suc_eq)

lemma spares_store:
  assumes "node_at w p = Some (FileN j)" and "p \<noteq> L" and "p \<notin> X"
  shows "spares L X w (w\<lparr>store := (store w)(j := d)\<rparr>)"
proof (rule sparesI)
  fix i assume "shielded L X w" "node_at w L = Some (FileN i)"
  with assms show "store (w\<lparr>store := (store w)(j := d)\<rparr>) i = store w i" by (auto simp: shielded_def)
next
  fix i q assume "node_at (w\<lparr>store := (store w)(j := d)\<rparr>) q = Some (FileN i)" "q \<noteq> L" "q \<notin> X"
  then show "\<exists>p. p \<noteq> L \<and> p \<notin> X \<and> node_at w p = Some (FileN i)" by (intro exI [of _ q]) (simp add: node_at_def split: if_splits)
qed (simp_all add: wf_os_def node_at_def)

lemma open_trunc_spares [sparing]:
  assumes "p \<noteq> L" and "p \<notin> X"
  shows "spares L X w (snd (open_trunc p w))"
  unfolding open_trunc_def
proof (rule call_spares)
  show "spares L X (tick w) (snd (case node_at (tick w) p of
            Some (FileN i) \<Rightarrow> (Inr i, (tick w)\<lparr>store := (store (tick w))(i := [])\<rparr>)
          | Some DirN \<Rightarrow> (Inl BadOp, tick w)
          | None \<Rightarrow> if is_dir (tick w) (go_dir p) then (let (i, w') = new_file p (tick w) in (Inr i, w'))
                    else (Inl NotExist, tick w)))"
  proof (cases "node_at (tick w) p")
    case None
    with new_file_spares [OF None assms(1), of X] show ?thesis by (simp add: case_prod_unfold Let_def)
  next
    case (Some n)
    with assms show ?thesis by (cases n) (auto intro: spares_store simp del: tick_simps)
  qed
qed simp

lemma append_ino_spares:
  assumes "node_at w p = Some (FileN j)" and "p \<noteq> L" and "p \<notin> X"
  shows "spares L X w (snd (append_ino j d w))"
proof -
  have "spares L X (tick w) ((tick w)\<lparr>store := (store (tick w))(j := v)\<rparr>)" for v
    by (rule spares_store [OF _ assms(2,3)]) (simp add: assms(1))
  then show ?thesis unfolding append_ino_def by (intro call_spares) simp_all
qed

lemma write_file_spares [sparing]:
  assumes "p \<noteq> L" and "p \<notin> X"
  shows "spares L X w (snd (write_file p d w))"
proof -
  obtain r w1 where o: "open_trunc p w = (r, w1)" by fastforce
  have 1: "spares L X w w1" by (rule spares_step [OF spares_refl o open_trunc_spares [OF assms]])
  show ?thesis
  proof (cases r)
    case (Inr i)
    have "spares L X w1 (snd (append_ino i d w1))"
      by (rule append_ino_spares [OF _ assms]) (rule open_trunc_Inr(1) [OF o [unfolded Inr]])
    with 1 o Inr show ?thesis by (auto simp: write_file_def intro: spares_trans)
  qed (use 1 o in \<open>simp add: write_file_def\<close>)
qed

lemma mkdir_all_spares [sparing]:
  assumes "L \<notin> set (ancestors p)"
  shows "spares L X w (snd (mkdir_all p w))"
proof (rule sparesI)
  show "node_at (snd (mkdir_all p w)) L = node_at w L" by (rule framed_node [OF mkdir_all_framed assms])
qed (auto simp: mkdir_all_store mkdir_all_file dest: mkdir_all_wf)

lemma os_remove_spares [sparing]:
  assumes "p \<noteq> L"
  shows "spares L X w (snd (os_remove p w))"
proof (rule sparesI)
  show "node_at (snd (os_remove p w)) L = node_at w L" using assms by (simp add: os_remove_node)
  have "names (snd (os_remove p w)) q \<noteq> None \<Longrightarrow> names (snd (os_remove p w)) q = names w q" for q
    unfolding os_remove_def
    by (rule syscall_frame [where P = "\<lambda>w'. names w' q \<noteq> None \<longrightarrow> names w' q = names w q", THEN mp])
       (auto split: option.split node.split)
  note n = this
  then show "wf_os w \<Longrightarrow> wf_os (snd (os_remove p w))" using os_remove_store [of p w] by (force simp: wf_os_def)
  show "node_at (snd (os_remove p w)) q = Some (FileN i) \<Longrightarrow> q \<noteq> L \<Longrightarrow> q \<notin> X
      \<Longrightarrow> \<exists>p. p \<noteq> L \<and> p \<notin> X \<and> node_at w p = Some (FileN i)" for i q
    using n [of q] by (auto simp: node_at_def split: if_splits)
qed (simp add: os_remove_store)

text \<open>A removed or replaced set of names: nothing new is linked.\<close>

lemma spares_names:
  assumes "\<And>q. ns q = names w q \<or> ns q = None" and "ns L = names w L"
  shows "spares L X w (w\<lparr>names := ns\<rparr>)"
proof (rule sparesI)
  show "wf_os (w\<lparr>names := ns\<rparr>)" if "wf_os w"
    using that assms(1) by (auto simp: wf_os_def) (metis option.distinct(1))
  show "node_at (w\<lparr>names := ns\<rparr>) L = node_at w L" using assms(2) by (simp add: node_at_def)
  show "node_at (w\<lparr>names := ns\<rparr>) q = Some (FileN i) \<Longrightarrow> q \<noteq> L \<Longrightarrow> q \<notin> X
      \<Longrightarrow> \<exists>p. p \<noteq> L \<and> p \<notin> X \<and> node_at w p = Some (FileN i)" for i q
    using assms(1) [of q] by (auto simp: node_at_def split: if_splits)
qed simp

lemma remove_all_spares [sparing]:
  assumes "\<not> in_tree p L"
  shows "spares L X w (snd (remove_all p w))"
  unfolding remove_all_def
proof (rule call_spares)
  show "spares L X (tick w) ((tick w)\<lparr>names := (\<lambda>q. if in_tree p q \<and> ns q then None else names (tick w) q)\<rparr>)" for ns
    by (rule spares_names) (use assms in auto)
  show "spares L X (tick w) (snd (Inr (), (tick w)\<lparr>names := (\<lambda>q. if in_tree p q then None else names (tick w) q)\<rparr>))"
    unfolding snd_conv by (rule spares_names) (use assms in auto)
qed

text \<open>Renaming: the inode that moves is not that of \<open>L\<close>.\<close>

lemma spares_move:
  assumes "names w a = Some (FileN j)" and "node_at w a = Some (FileN j)" and "a \<noteq> L" and "a \<notin> X" and "b \<noteq> L"
  shows "spares L X w (w\<lparr>names := (names w)(b := Some (FileN j), a := None)\<rparr>)"
proof (rule sparesI)
  show "wf_os w \<Longrightarrow> wf_os (w\<lparr>names := (names w)(b := Some (FileN j), a := None)\<rparr>)"
    using assms(1) by (auto simp: wf_os_def)
  show "node_at (w\<lparr>names := (names w)(b := Some (FileN j), a := None)\<rparr>) L = node_at w L"
    using assms by (simp add: node_at_def)
  show "node_at (w\<lparr>names := (names w)(b := Some (FileN j), a := None)\<rparr>) q = Some (FileN i) \<Longrightarrow> q \<noteq> L \<Longrightarrow> q \<notin> X
      \<Longrightarrow> \<exists>p. p \<noteq> L \<and> p \<notin> X \<and> node_at w p = Some (FileN i)" for i q
    using assms by (auto simp: node_at_def split: if_splits)
qed simp

lemma os_rename_spares [sparing]:
  assumes "a \<noteq> L" and "a \<notin> X" and "b \<noteq> L" and "a \<noteq> ''/''" and "a \<noteq> ''.''"
  shows "spares L X w (snd (os_rename a b w))"
  unfolding os_rename_def
proof (rule call_spares)
  have m: "spares L X (tick w) ((tick w)\<lparr>names := (names (tick w))(b := Some (FileN j), a := None)\<rparr>)"
    if "names (tick w) a = Some (FileN j)" for j
    by (rule spares_move [OF that]) (use assms that in \<open>auto simp: node_at_def\<close>)
  show "spares L X (tick w) (snd (case names (tick w) a of
            None \<Rightarrow> (Inl NotExist, tick w)
          | Some DirN \<Rightarrow> (Inl BadOp, tick w)
          | Some (FileN i) \<Rightarrow>
              (case node_at (tick w) b of
                 Some DirN \<Rightarrow> (Inl BadOp, tick w)
               | Some (FileN j) \<Rightarrow>
                   if i = j then (Inr (), tick w)
                   else (Inr (), (tick w)\<lparr>names := (names (tick w))(b := Some (FileN i), a := None)\<rparr>)
               | None \<Rightarrow>
                   if is_dir (tick w) (go_dir b)
                   then (Inr (), (tick w)\<lparr>names := (names (tick w))(b := Some (FileN i), a := None)\<rparr>)
                   else (Inl NotExist, tick w))))"
    by (simp del: tick_simps split: option.split node.split) (blast intro: m)
qed simp

text \<open>Links of \<open>L\<close> stay in \<open>X\<close>.\<close>

lemma os_link_spares [sparing]:
  assumes "b \<noteq> L" and "a = L \<or> a \<in> X \<Longrightarrow> b \<in> X" and "a \<noteq> ''/''" and "a \<noteq> ''.''"
  shows "spares L X w (snd (os_link a b w))"
  unfolding os_link_def
proof (rule call_spares)
  have m: "spares L X v (v\<lparr>names := (names v)(b := Some (FileN j))\<rparr>)" if "names v a = Some (FileN j)" for j v
  proof (rule sparesI)
    show "wf_os v \<Longrightarrow> wf_os (v\<lparr>names := (names v)(b := Some (FileN j))\<rparr>)"
      using that by (auto simp: wf_os_def)
    show "node_at (v\<lparr>names := (names v)(b := Some (FileN j))\<rparr>) L = node_at v L"
      using assms by (simp add: node_at_def)
    show "node_at (v\<lparr>names := (names v)(b := Some (FileN j))\<rparr>) q = Some (FileN i) \<Longrightarrow> q \<noteq> L \<Longrightarrow> q \<notin> X
      \<Longrightarrow> \<exists>p. p \<noteq> L \<and> p \<notin> X \<and> node_at v p = Some (FileN i)" for i q
      using assms that by (auto simp: node_at_def split: if_splits)
  qed simp
  show "spares L X (tick w) (snd (case names (tick w) a of
            None \<Rightarrow> (Inl NotExist, tick w)
          | Some DirN \<Rightarrow> (Inl BadOp, tick w)
          | Some (FileN i) \<Rightarrow>
              if node_at (tick w) b \<noteq> None then (Inl BadOp, tick w)
              else if is_dir (tick w) (go_dir b)
                then (Inr (), (tick w)\<lparr>names := (names (tick w))(b := Some (FileN i))\<rparr>)
              else (Inl NotExist, tick w)))"
    by (simp del: tick_simps split: option.split node.split) (blast intro: m)
qed simp

section \<open>Opening and writing in place\<close>

lemma open_create_spares [sparing]:
  assumes "p \<noteq> L"
  shows "spares L X w (snd (open_create p w))"
  unfolding open_create_def
proof (rule call_spares)
  show "spares L X (tick w) (snd (case node_at (tick w) p of
            Some (FileN i) \<Rightarrow> (Inr i, tick w)
          | Some DirN \<Rightarrow> (Inl BadOp, tick w)
          | None \<Rightarrow> if is_dir (tick w) (go_dir p) then (let (i, w') = new_file p (tick w) in (Inr i, w'))
                    else (Inl NotExist, tick w)))"
  proof (cases "node_at (tick w) p")
    case None
    with new_file_spares [OF None assms(1), of X] show ?thesis by (simp add: case_prod_unfold Let_def)
  next
    case (Some n)
    then show ?thesis by (cases n) simp_all
  qed
qed simp

lemma write_ino_spares:
  assumes "node_at w p = Some (FileN j)" and "p \<noteq> L" and "p \<notin> X"
  shows "spares L X w (snd (write_ino j off d w))"
proof -
  have "spares L X (tick w) ((tick w)\<lparr>store := (store (tick w))(j := v)\<rparr>)" for v
    by (rule spares_store [OF _ assms(2,3)]) (simp add: assms(1))
  then show ?thesis unfolding write_ino_def by (intro call_spares) simp_all
qed

text \<open>A file that is opened for writing and one that is written keep their shields.\<close>

lemma shielded_open:
  assumes "open_create L w = (Inr i, w')" and "shielded L X w"
  shows "shielded L X w'"
proof (cases "node_at w L")
  case None
  have w: "w' = snd (new_file L (tick w))"
    using syscall_Inr [OF assms(1) [unfolded open_create_def]] None
    by (auto simp: new_file_def split: if_splits)
  have n: "node_at w' q = (if q = L then Some (FileN (next_ino w)) else node_at w q)" for q
    using None by (auto simp: w new_file_def node_at_def split: if_splits)
  have "wf_os w'" using assms(2) by (auto simp: w shielded_def wf_os_def new_file_def less_Suc_eq)
  moreover have "node_at w q \<noteq> Some (FileN (next_ino w))" for q
    using file_id [of w q "next_ino w"] assms(2) by (auto simp: shielded_def)
  ultimately show ?thesis by (simp add: shielded_def n)
next
  case (Some n)
  then have "fs w' = fs w" using open_create_Inr(5) [OF assms(1)] by auto
  from sparesD [OF spares_fs [OF this] assms(2)] show ?thesis by simp
qed

lemma shielded_write: "shielded L X w \<Longrightarrow> shielded L X (snd (write_ino i off d w))"
  using write_ino_names [of i off d w] node_at_names [of "snd (write_ino i off d w)" w]
  by (simp add: shielded_def wf_os_def)

section \<open>Compound operations\<close>

lemma write_marker_spares [sparing]:
  assumes "L \<notin> set (ancestors (go_join [d, ''markers'']))" and "marker_path d i \<noteq> L" and "marker_path d i \<notin> X"
  shows "spares L X w (snd (write_marker d i w))"
proof -
  obtain r1 w1 where 1: "mkdir_all (go_join [d, ''markers'']) w = (r1, w1)" by fastforce
  obtain r2 w2 where 2: "open_trunc (marker_path d i) w1 = (r2, w2)" by fastforce
  have s1: "spares L X w w1" by (rule spares_step [OF spares_refl 1 mkdir_all_spares [OF assms(1)]])
  have s2: "spares L X w w2" by (rule spares_step [OF s1 2 open_trunc_spares [OF assms(2,3)]])
  with s1 1 2 spares_trans [OF s2 os_noop_spares] show ?thesis
    by (cases r1; cases r2) (simp_all add: write_marker_def)
qed

lemma fetch_spares:
  assumes "dst \<noteq> L" and "dst \<notin> X"
  shows "spares L X w (snd (fetch dc url dst w))"
proof -
  obtain r1 w1 where 1: "http_get url w = (r1, w1)" by fastforce
  then have s1: "spares L X w w1" by (auto simp: http_get_def)
  obtain r2 w2 where 2: "open_trunc dst w1 = (r2, w2)" by fastforce
  have s2: "spares L X w w2" by (rule spares_step [OF s1 2 open_trunc_spares [OF assms]])
  have s3: "spares L X w w3" if "r2 = Inr i" "append_ino i out w2 = (r3, w3)" for i out r3 w3
    by (rule spares_step [OF s2 that(2) append_ino_spares [OF open_trunc_Inr(1) [OF 2 [unfolded that(1)]] assms]])
  show ?thesis
    using 1 2 s1 s2 s3 by (auto simp: fetch_def split: http_reply.split option.split sum.split prod.split)
qed

lemma fetch_with_retry_spares [sparing]:
  assumes "dst \<noteq> L" and "dst \<notin> X"
  shows "spares L X w (snd (fetch_with_retry dc url dst w))"
proof -
  have "spares L X v (snd (retry_loop n dc url dst l v))" for n l v
  proof (induction n arbitrary: l v)
    case (Suc n)
    obtain r w1 where f: "fetch dc url dst v = (r, w1)" by fastforce
    have "spares L X v w1" by (rule spares_step [OF spares_refl f fetch_spares [OF assms]])
    with f Suc.IH [where v = w1] show ?case by (cases r) (auto intro: spares_trans)
  qed simp
  then show ?thesis by (simp add: fetch_with_retry_def)
qed

lemma promote_whole_spares:
  assumes "fr_path r \<noteq> L" "fr_path r \<notin> X" "fr_path r \<noteq> ''/''" "fr_path r \<noteq> ''.''" and "dt_live (fr_task r) \<noteq> L"
    and "L \<notin> set (ancestors (go_dir (dt_live (fr_task r))))"
  shows "spares L X w (snd (promote_whole_file r rc n w))"
proof -
  let ?live = "dt_live (fr_task r)"
  obtain r1 w1 where a: "read_file (fr_path r) w = (r1, w1)" by fastforce
  obtain r2 w2 where b: "mkdir_all (go_dir ?live) w1 = (r2, w2)" by fastforce
  obtain r3 w3 where c: "os_rename (fr_path r) ?live w2 = (r3, w3)" by fastforce
  have 1: "spares L X w w1" by (rule spares_step [OF spares_refl a read_file_spares])
  have 2: "spares L X w w2" by (rule spares_step [OF 1 b mkdir_all_spares [OF assms(6)]])
  have 3: "spares L X w w3" by (rule spares_step [OF 2 c os_rename_spares [OF assms(1,2,5,3,4)]])
  show ?thesis
    using a b c 1 2 3 spares_trans [OF 1 os_remove_spares [OF assms(1)]] spares_trans [OF 2 os_remove_spares [OF assms(1)]]
    by (auto simp: promote_whole_file_def split: sum.split prod.split)
qed

lemma promote_page_spares:
  assumes "fr_path r \<noteq> L" and "dt_live (fr_task r) \<noteq> L" "dt_live (fr_task r) \<notin> X"
    and "L \<notin> set (ancestors (go_dir (dt_live (fr_task r))))"
  shows "spares L X w (snd (promote_sqlite_page r rc n w))"
proof -
  let ?live = "dt_live (fr_task r)"
  obtain r1 w1 where a: "read_file (fr_path r) w = (r1, w1)" by fastforce
  obtain r2 w2 where b: "mkdir_all (go_dir ?live) w1 = (r2, w2)" by fastforce
  obtain r3 w3 where c: "open_create ?live w2 = (r3, w3)" by fastforce
  have 1: "spares L X w w1" by (rule spares_step [OF spares_refl a read_file_spares])
  have 2: "spares L X w w2" by (rule spares_step [OF 1 b mkdir_all_spares [OF assms(4)]])
  have 3: "spares L X w w3" by (rule spares_step [OF 2 c open_create_spares [OF assms(2)]])
  have 4: "spares L X w w4" if "r3 = Inr i" "write_at i off d w3 = (x, w4)" for i off d x w4
  proof (cases "off < 0")
    case False
    then have "write_ino i (nat off) d w3 = (x, w4)" using that by (simp add: write_at_def)
    from spares_step [OF 3 this write_ino_spares [OF open_create_Inr(1) [OF c [unfolded that(1)]] assms(2,3)]]
    show ?thesis .
  qed (use 3 that in \<open>simp add: write_at_def\<close>)
  have rem: "spares L X w v \<Longrightarrow> spares L X w (snd (os_remove (fr_path r) v))" for v
    using spares_trans [OF _ os_remove_spares [OF assms(1)]] .
  show ?thesis
    using a b c 1 2 3 by (auto simp: promote_sqlite_page_def rem 4 split: sum.split prod.split)
qed

end
