(* ===== verification/PoolRepair.thy ===== *)
theory PoolRepair
  imports PoolLive Spares
begin

text \<open>
  What the apply loop does to the database file.  The units of work of a plan are given as a list; when the
  loop ends without a failure, every page of the list is in the file with the bytes whose hash the plan names, and
  every page that the list does not name has the bytes it had.  The proof follows one result through
  \<open>handle_result\<close>, for a file that it does not concern (\<open>spares\<close>), for its staged download, and for the
  database itself.
\<close>

section \<open>The fixed names of a task\<close>

definition unit_task :: "pool_ctx \<Rightarrow> candidate \<Rightarrow> divergence_task" where
  "unit_task c cd = task_of (pc_chunks c) (pc_staged c) cd"

definition task_mark :: "pool_ctx \<Rightarrow> divergence_task \<Rightarrow> string" where
  "task_mark c t = marker_path (pc_staging c) (staging_identifier t)"

definition fixed_names :: "pool_ctx \<Rightarrow> divergence_task \<Rightarrow> string set" where
  "fixed_names c t =
     insert (task_mark c t) (set (ancestors (go_dir (dt_live t))) \<union> set (ancestors (markers_dir c)))"

lemma touched_fixed: "touched c t = insert (dt_staging t) (insert (dt_live t) (fixed_names c t))"
  by (auto simp: touched_def fixed_names_def task_mark_def)

definition unflagged :: "pool \<Rightarrow> bool" where
  "unflagged s \<longleftrightarrow> \<not> q_failed s \<and> \<not> q_exhausted s"

text \<open>A result that leaves the loop without a failure: a retry, or a promotion with its marker.\<close>

lemma handle_result_cases:
  assumes "handle_result c r s = (x, s')" and "unflagged s'"
  obtains (broken) "fr_err r \<noteq> None" "x \<noteq> None" "q_world s' = q_world s"
  | (refused) s1 where "promote c r s = (Inr True, s1)" "x \<noteq> None" "q_world s' = q_world s1"
  | (placed) s1 where "fr_err r = None" "promote c r s = (Inr False, s1)" "x = None"
      "q_world s' = snd (write_marker (pc_staging c) (staging_identifier (fr_task r)) (q_world s1))"
proof (cases "fr_err r")
  case (Some e)
  with assms show thesis
    by (intro broken) (auto simp: handle_result_def retry_or_exhaust_def unflagged_def split: if_splits)
next
  case None
  obtain y s1 where p: "promote c r s = (y, s1)" by fastforce
  consider e where "y = Inl e" | "y = Inr True" | "y = Inr False" by (cases y) auto
  then show thesis
  proof cases
    case 1
    with assms None p show thesis by (auto simp: handle_result_def unflagged_def)
  next
    case 2
    with assms None p show thesis
      by (intro refused [of s1]) (auto simp: handle_result_def retry_or_exhaust_def unflagged_def split: if_splits)
  next
    case 3
    with assms None p show thesis by (intro placed [of s1]) (auto simp: handle_result_def)
  qed
qed

lemma promote_world:
  assumes "promote c r s = (x, s1)"
  obtains (page) rc where "dt_offset (fr_task r) \<ge> 0"
      "promote_sqlite_page r (q_renames s) (pc_fail_nth c) (q_world s) = ((x, rc), q_world s1)"
  | (whole) rc where "dt_offset (fr_task r) < 0"
      "promote_whole_file r (q_renames s) (pc_fail_nth c) (q_world s) = ((x, rc), q_world s1)"
  using assms by (auto simp: promote_def Let_def split: prod.splits if_splits)

section \<open>A file that the result does not concern\<close>

lemma mark_spares:
  assumes "L \<notin> fixed_names c t" and "task_mark c t \<notin> X"
  shows "spares L X w (snd (write_marker (pc_staging c) (staging_identifier t) w))"
  by (rule write_marker_spares) (use assms in \<open>auto simp: fixed_names_def task_mark_def markers_dir_def\<close>)

lemma promote_spares:
  assumes "promote c r s = (x, s1)" and "fr_path r = dt_staging (fr_task r)" and "L \<notin> touched c (fr_task r)"
    and "dt_staging (fr_task r) \<notin> X \<union> {''/'', ''.''}" and "dt_live (fr_task r) \<notin> X"
  shows "spares L X (q_world s) (q_world s1)"
  using assms(1)
proof (cases rule: promote_world)
  case (page rc)
  have "spares L X (q_world s) (snd (promote_sqlite_page r (q_renames s) (pc_fail_nth c) (q_world s)))"
    by (rule promote_page_spares) (use assms(2-) in \<open>auto simp: touched_fixed fixed_names_def\<close>)
  with page show ?thesis by simp
next
  case (whole rc)
  have "spares L X (q_world s) (snd (promote_whole_file r (q_renames s) (pc_fail_nth c) (q_world s)))"
    by (rule promote_whole_spares) (use assms(2-) in \<open>auto simp: touched_fixed fixed_names_def\<close>)
  with whole show ?thesis by simp
qed

lemma handle_result_spares:
  assumes "handle_result c r s = (x, s')" and "unflagged s'" and "fr_path r = dt_staging (fr_task r)"
    and "L \<notin> touched c (fr_task r)" and "dt_staging (fr_task r) \<notin> X \<union> {''/'', ''.''}"
    and "dt_live (fr_task r) \<notin> X" and "task_mark c (fr_task r) \<notin> X"
  shows "spares L X (q_world s) (q_world s')"
  using assms(1,2)
proof (cases rule: handle_result_cases)
  case (refused s1)
  with promote_spares [OF refused(1) assms(3-6)] show ?thesis by simp
next
  case (placed s1)
  have "L \<notin> fixed_names c (fr_task r)" using assms(4) by (simp add: touched_fixed)
  from spares_trans [OF promote_spares [OF placed(2) assms(3-6)] mark_spares [OF this assms(7)]] placed(4)
  show ?thesis by simp
qed simp

section \<open>The staged download\<close>

text \<open>It is taken away, or stays as it was.\<close>

definition same_or_gone :: "string \<Rightarrow> os \<Rightarrow> os \<Rightarrow> bool" where
  "same_or_gone p w w' \<longleftrightarrow>
     (shielded p {} w \<longrightarrow> shielded p {} w' \<and> (file_data w' p = file_data w p \<or> file_data w' p = None))"

lemma same_or_gone_trans: "same_or_gone p w w1 \<Longrightarrow> same_or_gone p w1 w2 \<Longrightarrow> same_or_gone p w w2"
  by (auto simp: same_or_gone_def)

lemma spares_same: "spares p {} w w' \<Longrightarrow> same_or_gone p w w'"
  by (auto simp: same_or_gone_def spares_def)

lemma remove_self: "same_or_gone p w (snd (os_remove p w))"
proof -
  let ?w = "snd (os_remove p w)"
  have n: "names ?w q = names w q \<or> names ?w q = None" for q
    unfolding os_remove_def
    by (rule syscall_frame [where P = "\<lambda>w'. names w' q = names w q \<or> names w' q = None"])
       (auto split: option.split node.split)
  have st: "store ?w = store w" "next_ino ?w = next_ino w" using os_remove_store [of p w] by simp_all
  have nd: "node_at ?w q = Some (FileN i) \<Longrightarrow> node_at w q = Some (FileN i)" for q i
    using n [of q] by (auto simp: node_at_def split: if_splits)
  show ?thesis
    unfolding same_or_gone_def
  proof (intro impI conjI)
    assume s: "shielded p {} w"
    have "wf_os ?w" using s n st by (auto simp: shielded_def wf_os_def) (metis option.distinct(1))
    with s nd show "shielded p {} ?w" unfolding shielded_def by blast
    show "file_data ?w p = file_data w p \<or> file_data ?w p = None"
      using n [of p] file_data_eqI [of ?w p w p] st(1) by (auto simp: file_data_def node_at_def)
  qed
qed

lemma rename_self:
  assumes "os_rename p b w = (Inr u, w')" and "b \<noteq> p" and "p \<noteq> ''/''" and "p \<noteq> ''.''"
  shows "same_or_gone p w w'"
  unfolding same_or_gone_def
proof (intro impI)
  assume s: "shielded p {} w"
  obtain i where i: "names w p = Some (FileN i)"
    and w': "node_at w b = Some (FileN i) \<and> w' = tick w
       \<or> w' = (tick w)\<lparr>names := (names w)(b := Some (FileN i), p := None)\<rparr>"
    using syscall_Inr [OF assms(1) [unfolded os_rename_def]]
    by (auto split: option.splits node.splits if_splits)
  have "node_at w p = Some (FileN i)" using i assms(3,4) by (simp add: node_at_def)
  with s assms(2) have "node_at w b \<noteq> Some (FileN i)" unfolding shielded_def by blast
  with w' have e: "w' = (tick w)\<lparr>names := (names w)(b := Some (FileN i), p := None)\<rparr>" by blast
  have "node_at w' p = None" using assms(3,4) by (simp add: e node_at_def)
  moreover have "wf_os w'" using s i by (auto simp: e shielded_def wf_os_def)
  ultimately show "shielded p {} w' \<and> (file_data w' p = file_data w p \<or> file_data w' p = None)"
    by (simp add: shielded_def file_data_def)
qed

lemma promote_staging:
  assumes "promote c r s = (Inr b, s1)" and p: "p = fr_path r" and "p \<noteq> ''/''" and "p \<noteq> ''.''"
    and live: "p \<noteq> dt_live (fr_task r)" "p \<notin> set (ancestors (go_dir (dt_live (fr_task r))))"
  shows "same_or_gone p (q_world s) (q_world s1)"
  using assms(1)
proof (cases rule: promote_world)
  case (page rc)
  let ?live = "dt_live (fr_task r)" and ?w = "q_world s"
  obtain r1 w1 where a: "read_file p ?w = (r1, w1)" by fastforce
  obtain r2 w2 where bb: "mkdir_all (go_dir ?live) w1 = (r2, w2)" by fastforce
  obtain r3 w3 where cc: "open_create ?live w2 = (r3, w3)" by fastforce
  have 1: "spares p {} ?w w1" by (rule spares_step [OF spares_refl a read_file_spares])
  have 2: "spares p {} ?w w2" by (rule spares_step [OF 1 bb mkdir_all_spares [OF live(2)]])
  have 3: "spares p {} ?w w3" by (rule spares_step [OF 2 cc open_create_spares]) (use live(1) in simp)
  have 4: "spares p {} ?w w4" if i: "r3 = Inr i" and "write_at i off d w3 = (x, w4)" for i off d x w4
  proof (cases "off < 0")
    case False
    then have w: "write_ino i (nat off) d w3 = (x, w4)" using that(2) by (simp add: write_at_def)
    have "spares p {} w3 (snd (write_ino i (nat off) d w3))"
      by (rule write_ino_spares [OF open_create_Inr(1) [OF cc [unfolded i]]]) (use live(1) in simp_all)
    from spares_step [OF 3 w this] show ?thesis .
  qed (use 3 that in \<open>simp add: write_at_def\<close>)
  have rem: "spares p {} ?w v \<Longrightarrow> same_or_gone p ?w (snd (os_remove p v))" for v
    by (rule same_or_gone_trans [OF spares_same remove_self])
  have "q_world s1 = snd (os_remove p w1) \<or>
      (\<exists>i off d x w4. r3 = Inr i \<and> write_at i off d w3 = (x, w4) \<and> snd (os_remove p w4) = q_world s1)"
    using page(2) a bb cc
    by (fastforce simp: promote_sqlite_page_def p [symmetric] split: sum.splits prod.splits if_splits)
  with rem [OF 1] rem [OF 4] show ?thesis by metis
next
  case (whole rc)
  let ?live = "dt_live (fr_task r)" and ?w = "q_world s"
  obtain r1 w1 where a: "read_file p ?w = (r1, w1)" by fastforce
  obtain r2 w2 where bb: "mkdir_all (go_dir ?live) w1 = (r2, w2)" by fastforce
  have 1: "spares p {} ?w w1" by (rule spares_step [OF spares_refl a read_file_spares])
  have 2: "spares p {} ?w w2" by (rule spares_step [OF 1 bb mkdir_all_spares [OF live(2)]])
  have ren: "same_or_gone p ?w w3" if "os_rename p ?live w2 = (Inr u, w3)" for u w3
    by (rule same_or_gone_trans [OF spares_same [OF 2] rename_self [OF that]]) (use assms(3,4) live(1) in auto)
  have rem: "same_or_gone p ?w (snd (os_remove p w1))"
    by (rule same_or_gone_trans [OF spares_same [OF 1] remove_self])
  have "q_world s1 = snd (os_remove p w1) \<or> (\<exists>u. os_rename p ?live w2 = (Inr u, q_world s1))"
    using whole(2) a bb
    by (auto simp: promote_whole_file_def p [symmetric] split: sum.splits prod.splits if_splits)
  with rem ren show ?thesis by auto
qed

lemma handle_result_staging:
  assumes "handle_result c r s = (x, s')" and "unflagged s'" and "fr_path r = dt_staging (fr_task r)"
    and "p = dt_staging (fr_task r)" and "p \<noteq> ''/''" and "p \<noteq> ''.''"
    and "p \<noteq> dt_live (fr_task r)" and "p \<notin> fixed_names c (fr_task r)"
  shows "same_or_gone p (q_world s) (q_world s')"
  using assms(1,2)
proof (cases rule: handle_result_cases)
  case broken
  then show ?thesis by (simp add: spares_same)
next
  case (refused s1)
  have "same_or_gone p (q_world s) (q_world s1)"
    by (rule promote_staging [OF refused(1)]) (use assms in \<open>auto simp: fixed_names_def\<close>)
  with refused show ?thesis by simp
next
  case (placed s1)
  have "same_or_gone p (q_world s) (q_world s1)"
    by (rule promote_staging [OF placed(2)]) (use assms in \<open>auto simp: fixed_names_def\<close>)
  from same_or_gone_trans [OF this spares_same [OF mark_spares [OF assms(8)]]] placed(4) show ?thesis by simp
qed

section \<open>The database\<close>

lemma promote_into_db:
  assumes "promote c r s = (Inr False, s1)" and "dt_live (fr_task r) = L" and "0 \<le> dt_offset (fr_task r)"
    and "fr_path r \<noteq> L" and "L \<notin> set (ancestors (go_dir L))" and "shielded L X (q_world s)"
  shows "shielded L X (q_world s1) \<and> (\<exists>d. file_data (q_world s) (fr_path r) = Some d
     \<and> sha256_hex d = dt_hash (fr_task r)
     \<and> file_data (q_world s1) L = Some (splice (contents_or_empty (q_world s) L) (nat (dt_offset (fr_task r))) d))"
proof -
  let ?w = "q_world s"
  obtain rc where p: "promote_sqlite_page r (q_renames s) (pc_fail_nth c) ?w = ((Inr False, rc), q_world s1)"
    using assms(1,3) by (cases rule: promote_world) auto
  obtain d w1 u w2 i w3 v w4 where a: "read_file (fr_path r) ?w = (Inr d, w1)"
    and b: "mkdir_all (go_dir L) w1 = (Inr u, w2)" and o: "open_create L w2 = (Inr i, w3)"
    and e: "write_at i (dt_offset (fr_task r)) d w3 = (Inr v, w4)" and w': "q_world s1 = snd (os_remove (fr_path r) w4)"
    using p assms(2) by (auto simp: promote_sqlite_page_def split: sum.splits prod.splits if_splits)
  have 1: "spares L X ?w w1" by (rule spares_step [OF spares_refl a read_file_spares])
  have 2: "spares L X ?w w2" by (rule spares_step [OF 1 b mkdir_all_spares [OF assms(5)]])
  have "shielded L X w3" using shielded_open [OF o] sparesD [OF 2 assms(6)] by blast
  moreover have "w4 = snd (write_ino i (nat (dt_offset (fr_task r))) d w3)"
    using e assms(3) by (simp add: write_at_def)
  ultimately have "shielded L X w4" by (simp add: shielded_write)
  from sparesD [OF os_remove_spares this] assms(4) have "shielded L X (q_world s1)" by (simp add: w')
  with promote_page_ok [OF p] assms(2,4) show ?thesis by auto
qed

lemma promote_refused_db:
  assumes "promote c r s = (Inr True, s1)" and "fr_path r \<noteq> L"
  shows "spares L X (q_world s) (q_world s1)"
proof -
  obtain r1 w1 where a: "read_file (fr_path r) (q_world s) = (r1, w1)" by fastforce
  have 1: "spares L X (q_world s) w1" by (rule spares_step [OF spares_refl a read_file_spares])
  have "q_world s1 = snd (os_remove (fr_path r) w1)"
    using assms(1)
  proof (cases rule: promote_world)
    case (page rc)
    with a show ?thesis
      by (auto simp: promote_sqlite_page_def split: sum.splits prod.splits if_splits)
  next
    case (whole rc)
    with a show ?thesis
      by (auto simp: promote_whole_file_def split: sum.splits prod.splits if_splits)
  qed
  with spares_trans [OF 1 os_remove_spares [OF assms(2)]] show ?thesis by simp
qed

lemma handle_result_db:
  assumes "handle_result c r s = (x, s')" and "unflagged s'" and "fr_path r = dt_staging (fr_task r)"
    and "dt_live (fr_task r) = L" and "0 \<le> dt_offset (fr_task r)" and "dt_staging (fr_task r) \<noteq> L"
    and "L \<notin> fixed_names c (fr_task r)" and "task_mark c (fr_task r) \<notin> X" and "shielded L X (q_world s)"
  shows "shielded L X (q_world s') \<and> (if x = None
     then \<exists>d. file_data (q_world s) (dt_staging (fr_task r)) = Some d \<and> sha256_hex d = dt_hash (fr_task r)
       \<and> file_data (q_world s') L = Some (splice (contents_or_empty (q_world s) L) (nat (dt_offset (fr_task r))) d)
     else file_data (q_world s') L = file_data (q_world s) L)"
  using assms(1,2)
proof (cases rule: handle_result_cases)
  case broken
  with assms(9) show ?thesis by auto
next
  case (refused s1)
  have "fr_path r \<noteq> L" using assms(3,6) by simp
  from sparesD [OF promote_refused_db [OF refused(1) this] assms(9)] refused show ?thesis by auto
next
  case (placed s1)
  have "fr_path r \<noteq> L" "L \<notin> set (ancestors (go_dir L))" using assms(3,4,6,7) by (auto simp: fixed_names_def)
  from promote_into_db [OF placed(2) assms(4,5) this assms(9)] obtain d
    where d: "shielded L X (q_world s1)" "file_data (q_world s) (dt_staging (fr_task r)) = Some d"
      "sha256_hex d = dt_hash (fr_task r)"
      "file_data (q_world s1) L = Some (splice (contents_or_empty (q_world s) L) (nat (dt_offset (fr_task r))) d)"
    using assms(3) by auto
  from sparesD [OF mark_spares [OF assms(7,8)] d(1)] d placed(3,4) show ?thesis by auto
qed

section \<open>Slots of a page file\<close>

definition slot :: "bytes \<Rightarrow> nat \<Rightarrow> bytes" where
  "slot d k = take 4096 (drop (4096 * k) d)"

definition has_slot :: "bytes \<Rightarrow> nat \<Rightarrow> bool" where
  "has_slot d k \<longleftrightarrow> 4096 * k + 4096 \<le> length d"

lemma slot_splice_same:
  assumes "length new = 4096"
  shows "has_slot (splice old (4096 * k) new) k" "slot (splice old (4096 * k) new) k = new"
  using splice_read_back [of new "4096 * k" old] assms by (auto simp: has_slot_def slot_def splice_length)

lemma slot_splice_other:
  assumes "length new = 4096" and "j \<noteq> k" and "has_slot old j"
  shows "has_slot (splice old (4096 * k) new) j \<and> slot (splice old (4096 * k) new) j = slot old j"
proof
  show h: "has_slot (splice old (4096 * k) new) j" using assms by (auto simp: has_slot_def splice_length)
  show "slot (splice old (4096 * k) new) j = slot old j"
  proof (rule nth_equalityI)
    show "length (slot (splice old (4096 * k) new) j) = length (slot old j)"
      using h assms(3) by (simp add: slot_def has_slot_def)
    fix n assume "n < length (slot (splice old (4096 * k) new) j)"
    then have n: "n < 4096" by (simp add: slot_def)
    have "splice old (4096 * k) new ! (4096 * j + n) = old ! (4096 * j + n)"
    proof (rule splice_nth_out)
      show "4096 * j + n < length old" using assms(3) n by (simp add: has_slot_def)
      show "4096 * j + n < 4096 * k \<or> 4096 * k + length new \<le> 4096 * j + n"
        using assms(1,2) n by (cases "j < k") auto
    qed
    then show "slot (splice old (4096 * k) new) j ! n = slot old j ! n"
      using n h assms(3) by (simp add: slot_def has_slot_def)
  qed
qed

section \<open>Downloads come from the network\<close>

text \<open>What a reply can decode to, as far as decoding got.\<close>

definition served :: "decoders \<Rightarrow> (nat \<Rightarrow> string \<Rightarrow> http_reply) \<Rightarrow> bytes \<Rightarrow> bool" where
  "served dc nt d \<longleftrightarrow>
     (\<exists>t u st len body broken bad. nt t u = Reply st len body broken \<and> body_reader dc u body broken = Some (d, bad))"

definition staged_ok :: "pool_ctx \<Rightarrow> os \<Rightarrow> string \<Rightarrow> bool" where
  "staged_ok c w p \<longleftrightarrow> shielded p {} w \<and> (\<forall>d. file_data w p = Some d \<longrightarrow> served (pc_decoders c) (net w) d)"

lemma staged_same: "staged_ok c w p \<Longrightarrow> same_or_gone p w w' \<Longrightarrow> net w' = net w \<Longrightarrow> staged_ok c w' p"
  by (auto simp: staged_ok_def same_or_gone_def)

lemma open_trunc_quiet:
  assumes "quiet w" and "shielded p {} w"
  shows "fst (open_trunc p w) = Inl e \<Longrightarrow> fs (snd (open_trunc p w)) = fs w"
    and "open_trunc p w = (Inr i, w') \<Longrightarrow> shielded p {} w' \<and> node_at w' p = Some (FileN i) \<and> store w' i = [] \<and> quiet w'
      \<and> net w' = net w"
proof -
  have e: "open_trunc p w = (case node_at w p of
            Some (FileN i) \<Rightarrow> (Inr i, (tick w)\<lparr>store := (store w)(i := [])\<rparr>)
          | Some DirN \<Rightarrow> (Inl BadOp, tick w)
          | None \<Rightarrow> if is_dir w (go_dir p) then (Inr (next_ino w), snd (new_file p (tick w)))
                    else (Inl NotExist, tick w))"
    using assms(1) by (simp add: open_trunc_def syscall_quiet new_file_def split: option.split node.split)
  show "fst (open_trunc p w) = Inl e \<Longrightarrow> fs (snd (open_trunc p w)) = fs w"
    by (simp add: e split: option.splits node.splits if_splits)
  assume o: "open_trunc p w = (Inr i, w')"
  note t = open_trunc_Inr [OF o] open_trunc_framed [of p w]
  have "shielded p {} w'"
  proof (cases "node_at w p")
    case None
    then have "open_create p w = open_trunc p w" using assms(1) by (simp add: open_create_def open_trunc_def syscall_quiet)
    with o show ?thesis using shielded_open [OF _ assms(2)] by simp
  next
    case (Some n)
    with o e have "names w' = names w" "next_ino w' = next_ino w" by (auto split: node.splits)
    with assms(2) node_at_names [of w' w] show ?thesis by (simp add: shielded_def wf_os_def)
  qed
  with t o assms(1) framed_quiet [of "{p}" w w'] show "shielded p {} w' \<and> node_at w' p = Some (FileN i) \<and> store w' i = [] \<and> quiet w'
      \<and> net w' = net w"
    by (simp add: framed_def)
qed

lemma fetch_staged:
  assumes "quiet w" and "staged_ok c w p" and "fetch (pc_decoders c) url p w = (r, w')"
  shows "staged_ok c w' p \<and> quiet w' \<and> net w' = net w"
proof -
  have n: "net w' = net w" "quiet w'"
    using fetch_framed [of p w "pc_decoders c" url] assms(1,3) framed_quiet [of "{p}" w w'] by (simp_all add: framed_def)
  have same: "staged_ok c w' p" if "fs w' = fs w"
    using staged_same [OF assms(2) spares_same [OF spares_fs [OF that]] n(1)] .
  show ?thesis
  proof (cases "\<exists>st len body broken out bad i w2. net w (ticks w) url = Reply st len body broken
      \<and> body_reader (pc_decoders c) url body broken = Some (out, bad) \<and> st = 200 \<and> open_trunc p (tick w) = (Inr i, w2)")
    case False
    have "fs w' = fs w"
      using assms(3) False open_trunc_quiet(1) [of "tick w" p] assms(1,2)
      by (auto simp: fetch_def http_get_def staged_ok_def shielded_def split: http_reply.splits if_splits option.splits sum.splits prod.splits)
    with same n show ?thesis by simp
  next
    case True
    then obtain st len body broken out bad i w2 where g: "net w (ticks w) url = Reply 200 len body broken"
      "body_reader (pc_decoders c) url body broken = Some (out, bad)" "open_trunc p (tick w) = (Inr i, w2)" by blast
    have "shielded p {} (tick w)" using assms(2) sparesD [OF spares_tick] by (simp add: staged_ok_def)
    note t = open_trunc_quiet(2) [OF _ this g(3)]
    have w': "w' = snd (append_ino i out w2)"
      using assms(3) g by (auto simp: fetch_def http_get_def split: sum.splits prod.splits if_splits)
    then have w'': "w' = (tick w2)\<lparr>store := (store w2)(i := out)\<rparr>"
      using t assms(1) by (simp add: append_ino_def syscall_quiet)
    have "node_at w' q = node_at w2 q" for q by (simp add: w'' node_at_def)
    then have "shielded p {} w'" "file_data w' p = Some out"
      using t assms(1) by (simp_all add: shielded_def wf_os_def file_data_def w'')
    moreover have "served (pc_decoders c) (net w) out" unfolding served_def using g(1,2) by blast
    ultimately show ?thesis using n by (simp add: staged_ok_def)
  qed
qed

lemma fetch_with_retry_staged:
  assumes "quiet w" and "staged_ok c w p"
  shows "staged_ok c (snd (fetch_with_retry (pc_decoders c) url p w)) p"
proof -
  have "staged_ok c (snd (retry_loop n (pc_decoders c) url p l v)) p" if "quiet v" "staged_ok c v p" for n l v
    using that
  proof (induction n arbitrary: l v)
    case (Suc n)
    obtain r w1 where f: "fetch (pc_decoders c) url p v = (r, w1)" by fastforce
    from fetch_staged [OF Suc.prems f] Suc.IH f show ?case by (cases r) auto
  qed simp
  then show ?thesis using assms by (simp add: fetch_with_retry_def)
qed

section \<open>The invariant\<close>

definition is_unit :: "pool_ctx \<Rightarrow> candidate \<Rightarrow> divergence_task \<Rightarrow> bool" where
  "is_unit c cd t \<longleftrightarrow> (\<exists>a. t = (unit_task c cd)\<lparr>dt_attempt := a\<rparr>)"

text \<open>
  The names of the units are apart: downloads, markers and directories are not the database, not a backup
  of it and not the live file of a unit.
\<close>

definition units_apart :: "pool_ctx \<Rightarrow> string \<Rightarrow> string set \<Rightarrow> candidate list \<Rightarrow> bool" where
  "units_apart c L X cds \<longleftrightarrow>
     (\<forall>cd \<in> set cds.
        dt_staging (unit_task c cd) \<notin> insert L X \<union> {''/'', ''.''} \<and> L \<notin> fixed_names c (unit_task c cd) \<and>
        task_mark c (unit_task c cd) \<notin> X \<and> cd_live cd \<notin> X \<and>
        (\<forall>e \<in> set cds. dt_staging (unit_task c e) \<notin> insert (cd_live cd) (fixed_names c (unit_task c cd))))"

text \<open>The pages of the database: whole slots, one hash each, and what is served for a hash is one page.\<close>

definition db_pages :: "pool_ctx \<Rightarrow> string \<Rightarrow> (nat \<Rightarrow> string \<Rightarrow> http_reply) \<Rightarrow> candidate list \<Rightarrow> bool" where
  "db_pages c L nt cds \<longleftrightarrow>
     (\<forall>cd \<in> set cds. cd_live cd = L \<longrightarrow>
        (\<exists>k. cd_offset cd = int (4096 * k)) \<and>
        (\<forall>d. served (pc_decoders c) nt d \<longrightarrow> sha256_hex d = cd_hash cd \<longrightarrow> length d = 4096) \<and>
        (\<forall>e \<in> set cds. cd_live e = L \<longrightarrow> cd_offset e = cd_offset cd \<longrightarrow> e = cd))"

definition page_there :: "os \<Rightarrow> string \<Rightarrow> int \<Rightarrow> string \<Rightarrow> bool" where
  "page_there w L off h \<longleftrightarrow>
     (\<exists>d k. file_data w L = Some d \<and> off = int (4096 * k) \<and> has_slot d k \<and> sha256_hex (slot d k) = h)"

definition others_kept :: "candidate list \<Rightarrow> string \<Rightarrow> bytes option \<Rightarrow> bytes \<Rightarrow> bool" where
  "others_kept cds L f0 d \<longleftrightarrow>
     (\<forall>d0 k. f0 = Some d0 \<longrightarrow> has_slot d0 k \<longrightarrow> (\<forall>cd \<in> set cds. cd_live cd = L \<longrightarrow> cd_offset cd \<noteq> int (4096 * k)) \<longrightarrow>
        has_slot d k \<and> slot d k = slot d0 k)"

definition left_alone :: "candidate list \<Rightarrow> string \<Rightarrow> bytes option \<Rightarrow> os \<Rightarrow> bool" where
  "left_alone cds L f0 w \<longleftrightarrow> ((\<forall>cd \<in> set cds. cd_live cd \<noteq> L) \<longrightarrow> file_data w L = f0)"

text \<open>\<open>T\<close> is the set of tasks in flight, \<open>feed\<close> what is still to come.\<close>

definition repairing ::
  "pool_ctx \<Rightarrow> string \<Rightarrow> string set \<Rightarrow> (nat \<Rightarrow> string \<Rightarrow> http_reply) \<Rightarrow> candidate list \<Rightarrow> bytes option
   \<Rightarrow> candidate list \<Rightarrow> divergence_task set \<Rightarrow> os \<Rightarrow> bool" where
  "repairing c L X nt cds f0 feed T w \<longleftrightarrow>
     shielded L X w \<and> net w = nt \<and> (\<forall>cd \<in> set cds. staged_ok c w (dt_staging (unit_task c cd))) \<and>
     set feed \<subseteq> set cds \<and> (\<forall>cd \<in> set feed. \<not> has_marker (pc_staging c) w (cd_id cd)) \<and>
     (\<forall>t \<in> T. \<exists>cd \<in> set cds. is_unit c cd t) \<and>
     (\<forall>cd \<in> set cds. cd_live cd = L \<longrightarrow>
        cd \<in> set feed \<or> (\<exists>t \<in> T. is_unit c cd t) \<or> page_there w L (cd_offset cd) (cd_hash cd)) \<and>
     others_kept cds L f0 (contents_or_empty w L) \<and> left_alone cds L f0 w"

lemma is_unit_fields:
  assumes "is_unit c cd t"
  shows "dt_live t = cd_live cd" "dt_offset t = cd_offset cd" "dt_hash t = cd_hash cd"
    "dt_staging t = dt_staging (unit_task c cd)" "fixed_names c t = fixed_names c (unit_task c cd)"
    "task_mark c t = task_mark c (unit_task c cd)"
  using assms
  by (auto simp: is_unit_def unit_task_def task_of_def fixed_names_def task_mark_def staging_identifier_def)

lemma is_unit_next: "is_unit c cd t \<Longrightarrow> is_unit c cd (t\<lparr>dt_attempt := a\<rparr>)"
  by (auto simp: is_unit_def)

lemma is_unit_self: "is_unit c cd (unit_task c cd)"
  unfolding is_unit_def by (rule exI [of _ "dt_attempt (unit_task c cd)"]) simp

text \<open>A world in which the protected files and the downloads are as before.\<close>

lemma repairing_world:
  assumes "repairing c L X nt cds f0 feed T w" and "spares L X w w'" and "net w' = net w"
    and "\<And>cd. cd \<in> set cds \<Longrightarrow> staged_ok c w' (dt_staging (unit_task c cd))"
    and "\<And>cd. cd \<in> set feed \<Longrightarrow> has_marker (pc_staging c) w' (cd_id cd) = has_marker (pc_staging c) w (cd_id cd)"
  shows "repairing c L X nt cds f0 feed T w'"
proof -
  have s: "shielded L X w" using assms(1) by (simp add: repairing_def)
  note k = sparesD [OF assms(2) s]
  have "page_there w' L off h = page_there w L off h" for off h using k by (simp add: page_there_def)
  moreover have "contents_or_empty w' L = contents_or_empty w L" "left_alone cds L f0 w' = left_alone cds L f0 w"
    using k by (simp_all add: contents_or_empty_def left_alone_def)
  ultimately show ?thesis
    using assms(1,3,4,5) k unfolding repairing_def by simp
qed

lemma repairing_tasks:
  assumes "repairing c L X nt cds f0 feed T w" and "\<forall>t \<in> T'. \<exists>cd \<in> set cds. is_unit c cd t"
    and "\<And>cd t. t \<in> T \<Longrightarrow> is_unit c cd t \<Longrightarrow> \<exists>t' \<in> T'. is_unit c cd t'"
  shows "repairing c L X nt cds f0 feed T' w"
  using assms unfolding repairing_def by meson

text \<open>One result.\<close>

lemma handle_result_repairs:
  assumes "handle_result c r s = (x, s')" and "unflagged s'" and "fr_path r = dt_staging (fr_task r)"
    and inv: "repairing c L X nt cds f0 feed (insert (fr_task r) T) (q_world s)"
    and "units_apart c L X cds" and "db_pages c L nt cds"
    and mk: "\<And>cd. cd \<in> set feed \<Longrightarrow> mark_of c cd \<notin> touched c (fr_task r)"
  shows "repairing c L X nt cds f0 feed (case x of None \<Rightarrow> T | Some t \<Rightarrow> insert t T) (q_world s')"
proof -
  let ?t = "fr_task r" and ?w = "q_world s" and ?w' = "q_world s'"
  obtain cd where cd: "cd \<in> set cds" "is_unit c cd ?t" using inv by (auto simp: repairing_def)
  note u = is_unit_fields [OF cd(2)]
  have st: "dt_staging ?t \<notin> insert L X \<union> {''/'', ''.''}" "L \<notin> fixed_names c ?t" "task_mark c ?t \<notin> X" "dt_live ?t \<notin> X"
    using assms(5) cd(1) u by (auto simp: units_apart_def)
  have fr: "framed (touched c ?t) ?w ?w'" by (rule handle_result_framed [OF assms(1,3)])
  then have nt: "net ?w' = net ?w" by (simp add: framed_def)
  have staged: "staged_ok c ?w' (dt_staging (unit_task c e))" if e: "e \<in> set cds" for e
  proof -
    let ?p = "dt_staging (unit_task c e)"
    have p: "?p \<noteq> dt_live ?t" "?p \<notin> fixed_names c ?t" "?p \<notin> {''/'', ''.''}"
      using assms(5) cd(1) e u by (auto simp: units_apart_def)
    have ok: "staged_ok c ?w ?p" using inv e by (simp add: repairing_def)
    have "same_or_gone ?p ?w ?w'"
    proof (cases "?p = dt_staging ?t")
      case True
      show ?thesis by (rule handle_result_staging [OF assms(1-3) True]) (use p in auto)
    next
      case False
      show ?thesis
        by (rule spares_same, rule handle_result_spares [OF assms(1-3)]) (use p False st in \<open>auto simp: touched_fixed\<close>)
    qed
    from staged_same [OF ok this nt] show ?thesis .
  qed
  have mark: "has_marker (pc_staging c) ?w' (cd_id e) = has_marker (pc_staging c) ?w (cd_id e)" if "e \<in> set feed" for e
    using framed_node [OF fr mk [OF that]] by (simp add: has_marker_def mark_of_def)
  have next_task: "is_unit c e t" if "x = Some t" "is_unit c e ?t" for t e
    using handle_result_frame(8) [OF assms(1) that(1)] is_unit_next [OF that(2)] by simp
  have tasks: "\<forall>t \<in> (case x of None \<Rightarrow> T | Some t \<Rightarrow> insert t T). \<exists>cd \<in> set cds. is_unit c cd t"
    using inv next_task cd by (auto simp: repairing_def split: option.split)
  show ?thesis
  proof (cases "dt_live ?t = L")
    case False
    have "spares L X ?w ?w'"
      by (rule handle_result_spares [OF assms(1-3)]) (use st False in \<open>auto simp: touched_fixed\<close>)
    from repairing_world [OF inv this nt staged mark]
    have i: "repairing c L X nt cds f0 feed (insert ?t T) ?w'" .
    have "cd_live e \<noteq> L" if "is_unit c e ?t" for e using is_unit_fields(1) [OF that] False by simp
    with i tasks show ?thesis unfolding repairing_def by (fastforce split: option.split)
  next
    case live: True
    obtain k where k: "dt_offset ?t = int (4096 * k)" using assms(6) cd(1) u live by (auto simp: db_pages_def)
    have sh: "shielded L X ?w" using inv by (simp add: repairing_def)
    have "nat (dt_offset ?t) = 4096 * k" unfolding k by (rule nat_int)
    note nk = this
    have "0 \<le> dt_offset ?t" "dt_staging ?t \<noteq> L" using k st(1) by auto
    note db = handle_result_db [OF assms(1-3) live this st(2,3) sh, unfolded nk]
    show ?thesis
    proof (cases x)
      case (Some t)
      have i: "repairing c L X nt cds f0 feed (insert ?t T) ?w'"
      proof -
        have "file_data ?w' L = file_data ?w L" "shielded L X ?w'" using db Some by simp_all
        moreover from this have "page_there ?w' L off h = page_there ?w L off h" for off h
          by (simp add: page_there_def)
        ultimately show ?thesis using inv nt staged mark by (simp add: repairing_def contents_or_empty_def left_alone_def)
      qed
      show ?thesis
        by (rule repairing_tasks [OF i tasks]) (use Some next_task in auto)
    next
      case None
      let ?old = "contents_or_empty ?w L"
      obtain d where d: "file_data ?w (dt_staging ?t) = Some d" "sha256_hex d = dt_hash ?t"
        and new: "file_data ?w' L = Some (splice ?old (4096 * k) d)" and sh': "shielded L X ?w'"
        using db None k by auto
      have "served (pc_decoders c) nt d" using inv cd(1) d(1) u(4) by (auto simp: repairing_def staged_ok_def)
      then have len: "length d = 4096" using assms(6) cd(1) u live d(2) by (auto simp: db_pages_def)
      have there: "page_there ?w' L (cd_offset e) (cd_hash e)"
        if e: "e \<in> set cds" "cd_live e = L" "is_unit c e ?t \<or> page_there ?w L (cd_offset e) (cd_hash e)" for e
      proof (cases "cd_offset e = int (4096 * k)")
        case True
        then have "e = cd" using assms(6) e(1,2) cd(1) u(1,2) live k unfolding db_pages_def by metis
        with True d(2) u(3) new slot_splice_same [OF len, of ?old k] show ?thesis by (auto simp: page_there_def)
      next
        case False
        then have "\<not> is_unit c e ?t" using is_unit_fields(2) [of c e ?t] k by auto
        with e(3) obtain old j where j: "file_data ?w L = Some old" "cd_offset e = int (4096 * j)" "has_slot old j"
            "sha256_hex (slot old j) = cd_hash e" by (auto simp: page_there_def)
        have "j \<noteq> k" using False j(2) by auto
        from slot_splice_other [OF len this j(3)] j new show ?thesis by (auto simp: page_there_def contents_or_empty_def)
      qed
      have "others_kept cds L f0 (contents_or_empty ?w' L)"
        unfolding others_kept_def
      proof (intro allI impI)
        fix d0 j assume j: "f0 = Some d0" "has_slot d0 j" "\<forall>cd \<in> set cds. cd_live cd = L \<longrightarrow> cd_offset cd \<noteq> int (4096 * j)"
        then have "j \<noteq> k" using cd(1) u(1,2) live k by auto
        moreover have "has_slot ?old j \<and> slot ?old j = slot d0 j"
          using inv j by (auto simp: repairing_def others_kept_def)
        ultimately show "has_slot (contents_or_empty ?w' L) j \<and> slot (contents_or_empty ?w' L) j = slot d0 j"
          using slot_splice_other [OF len, of j k ?old] new by (simp add: contents_or_empty_def)
      qed
      moreover have "e \<in> set feed \<or> (\<exists>t \<in> T. is_unit c e t) \<or> page_there ?w' L (cd_offset e) (cd_hash e)"
        if "e \<in> set cds" "cd_live e = L" for e
        using inv that there [OF that] by (auto simp: repairing_def)
      moreover have "left_alone cds L f0 ?w'" using cd(1) u(1) live by (auto simp: left_alone_def)
      ultimately show ?thesis
        using inv None nt staged mark sh' tasks by (simp add: repairing_def)
    qed
  qed
qed

section \<open>Steps\<close>

definition pool_repairs ::
  "pool_ctx \<Rightarrow> string \<Rightarrow> string set \<Rightarrow> (nat \<Rightarrow> string \<Rightarrow> http_reply) \<Rightarrow> candidate list \<Rightarrow> bytes option \<Rightarrow> pool \<Rightarrow> bool" where
  "pool_repairs c L X nt cds f0 s \<longleftrightarrow>
     (\<exists>feed. q_feed s = map Some feed \<and> repairing c L X nt cds f0 feed (set (outstanding s)) (q_world s))"

lemma repairing_fs:
  assumes "repairing c L X nt cds f0 feed T w" and "fs w' = fs w" and "net w' = net w"
  shows "repairing c L X nt cds f0 feed T w'"
proof (rule repairing_world [OF assms(1) spares_fs [OF assms(2)] assms(3)])
  show "staged_ok c w' (dt_staging (unit_task c cd))" if "cd \<in> set cds" for cd
    by (rule staged_same [OF _ spares_same [OF spares_fs [OF assms(2)]] assms(3)])
       (use assms(1) that in \<open>simp add: repairing_def\<close>)
  show "has_marker (pc_staging c) w' i = has_marker (pc_staging c) w i" for i
    using fs_node_at [OF assms(2)] by (simp add: has_marker_def)
qed

lemma next_task_net: "net (snd (next_task d cs w)) = net w"
proof (induction d cs w rule: next_task.induct)
  case (3 d cd cs w)
  have "net (snd (marker_exists d (cd_id cd) w)) = net w"
    using marker_exists_framed [of w d "cd_id cd"] by (simp add: framed_def)
  with 3 show ?case by (auto split: prod.splits bool.splits)
qed simp_all

lemma pull_task_repairs:
  assumes "repairing c L X nt cds f0 feed (set (outstanding s)) (q_world s)" and "q_feed s = map Some feed"
    and "quiet (q_world s)" and "apart c feed" and "q_point s = Feeding k"
  shows "pool_repairs c L X nt cds f0 (pull_task c n s)"
proof -
  let ?w = "q_world s"
  have pend: "pending c ?w xs = xs" if "set xs \<subseteq> set feed" for xs
    using assms(1) that by (auto simp: repairing_def pending_def intro!: filter_True)
  obtain w' where w': "fs w' = fs ?w" and nt:
    "(pending c ?w feed = [] \<and> next_task (pc_staging c) (map Some feed) ?w = ((Exhausted, []), w')) \<or>
     (\<exists>cd rest. next_task (pc_staging c) (map Some feed) ?w = ((Pulled cd, map Some rest), w') \<and>
        pending c ?w feed = cd # pending c ?w rest \<and> apart c (cd # rest) \<and> set (cd # rest) \<subseteq> set feed)"
    using next_task_quiet [OF assms(3,4)] by blast
  then have net: "net w' = net ?w" using next_task_net [of "pc_staging c" "map Some feed" ?w] by auto
  note r = repairing_fs [OF assms(1) w' net]
  from nt show ?thesis
  proof
    assume e: "pending c ?w feed = [] \<and> next_task (pc_staging c) (map Some feed) ?w = ((Exhausted, []), w')"
    then have f: "feed = []" using pend [of feed] by simp
    have p: "pull_task c n s = s\<lparr>q_point := Feeding 0, q_feed := [], q_world := w'\<rparr>"
      using e by (simp add: pull_task_def assms(2))
    have o: "outstanding (pull_task c n s) = outstanding s" by (simp add: p outstanding_def assms(5))
    have "q_feed (pull_task c n s) = map Some []" "q_world (pull_task c n s) = w'" by (simp_all add: p)
    with r o f show ?thesis unfolding pool_repairs_def by metis
  next
    assume "\<exists>cd rest. next_task (pc_staging c) (map Some feed) ?w = ((Pulled cd, map Some rest), w') \<and>
        pending c ?w feed = cd # pending c ?w rest \<and> apart c (cd # rest) \<and> set (cd # rest) \<subseteq> set feed"
    then obtain cd rest where e: "next_task (pc_staging c) (map Some feed) ?w = ((Pulled cd, map Some rest), w')"
      "pending c ?w feed = cd # pending c ?w rest" "set (cd # rest) \<subseteq> set feed" by blast
    have f: "feed = cd # rest" using e(2,3) pend [of feed] pend [of rest] by simp
    have p: "pull_task c n s = s\<lparr>q_point := Sending (unit_task c cd) n, q_feed := map Some rest, q_world := w'\<rparr>"
      using e(1) by (simp add: pull_task_def assms(2) unit_task_def)
    have o: "set (outstanding (pull_task c n s)) = insert (unit_task c cd) (set (outstanding s))"
      by (simp add: p outstanding_def assms(5))
    have "repairing c L X nt cds f0 rest (insert (unit_task c cd) (set (outstanding s))) w'"
      using r is_unit_self [of c cd] unfolding f repairing_def by auto
    with o show ?thesis unfolding pool_repairs_def by (intro exI [of _ rest]) (simp add: p)
  qed
qed

lemma consume_repairs:
  assumes "consume_result c s = Some s'" and "accounted c s" and "q_point s = Feeding 0"
    and "pool_repairs c L X nt cds f0 s" and "units_apart c L X cds" and "db_pages c L nt cds" and "unflagged s'"
  shows "pool_repairs c L X nt cds f0 s'"
proof -
  obtain r rs where r: "q_results s = r # rs" using assms(1) by (auto simp: consume_result_def split: list.splits)
  let ?s0 = "s\<lparr>q_results := rs, q_remaining := q_remaining s - 1\<rparr>"
  obtain x s1 where h: "handle_result c r ?s0 = (x, s1)" by fastforce
  note f = handle_result_frame [OF h]
  obtain feed where feed: "q_feed s = map Some feed"
    and inv: "repairing c L X nt cds f0 feed (set (outstanding s)) (q_world s)"
    using assms(4) by (auto simp: pool_repairs_def)
  have a: "quiet (q_world s)" "\<forall>r \<in> set (q_results s). fr_path r = dt_staging (fr_task r)" "apart c feed"
    "\<forall>t \<in> set (outstanding s). \<forall>cd \<in> set feed. mark_of c cd \<notin> touched c t"
    using assms(2) feed unfolding accounted_def by (auto dest: injD [OF inj_mapI [OF inj_Some]])
  let ?T = "set (q_tasks s @ q_busy s @ map fr_task rs)"
  have o: "set (outstanding s) = insert (fr_task r) ?T" "outstanding s1 = q_tasks s @ q_busy s @ map fr_task rs"
    using f assms(3) r by (auto simp: outstanding_def)
  have uf: "unflagged s1"
  proof (cases x)
    case None
    then have "s' = pull_task c 0 s1" using assms(1) r h by (simp add: consume_result_def)
    with assms(7) pull_task_frame [of c 0 s1] show ?thesis by (simp add: unflagged_def)
  next
    case (Some t)
    then have "s' = s1\<lparr>q_point := Sending t 0\<rparr>" using assms(1) r h by (simp add: consume_result_def)
    with assms(7) show ?thesis by (simp add: unflagged_def)
  qed
  have fp: "fr_path r = dt_staging (fr_task r)" using a(2) r by simp
  have q1: "quiet (q_world s1)" using framed_quiet [OF handle_result_framed [OF h fp]] a(1) by simp
  have i: "repairing c L X nt cds f0 feed (case x of None \<Rightarrow> ?T | Some t \<Rightarrow> insert t ?T) (q_world s1)"
    by (rule handle_result_repairs [OF h uf fp _ assms(5,6)]) (use inv o a(4) in auto)
  show ?thesis
  proof (cases x)
    case None
    then have s': "s' = pull_task c 0 s1" using assms(1) r h by (simp add: consume_result_def)
    show ?thesis unfolding s'
      by (rule pull_task_repairs [where feed = feed and k = 0])
         (use i None o f feed a(3) q1 assms(3) in auto)
  next
    case (Some t)
    then have s': "s' = s1\<lparr>q_point := Sending t 0\<rparr>" using assms(1) r h by (simp add: consume_result_def)
    have "q_point s1 = Feeding 0" using f assms(3) by simp
    then have "set (outstanding s') = insert t ?T" using o(2) by (simp add: s' outstanding_def)
    with i Some feed f(2) show ?thesis by (intro exI [of _ feed] iffD2 [OF pool_repairs_def]) (simp add: s')
  qed
qed

lemma finish_repairs:
  assumes "finish_step c n s = Some s'" and "accounted c s" and "pool_repairs c L X nt cds f0 s" and "units_apart c L X cds"
  shows "pool_repairs c L X nt cds f0 s'"
proof -
  have n: "n < length (q_busy s)" using assms(1) by (auto simp: finish_step_def split: if_splits)
  let ?t = "q_busy s ! n" and ?w = "q_world s"
  obtain e w where fw: "fetch_with_retry (pc_decoders c) (dt_url ?t) (dt_staging ?t) ?w = (e, w)" by fastforce
  have s': "q_world s' = w" "q_feed s' = q_feed s"
    using assms(1) fw by (auto simp: finish_step_def Let_def split: if_splits)
  have o: "set (outstanding s') = set (outstanding s)"
    using worker_step_outstanding(2) [OF assms(1)] by (metis set_mset_mset)
  have t: "?t \<in> set (outstanding s)" using n by (simp add: outstanding_def)
  obtain feed where feed: "q_feed s = map Some feed"
    and inv: "repairing c L X nt cds f0 feed (set (outstanding s)) ?w"
    using assms(3) by (auto simp: pool_repairs_def)
  have a: "quiet ?w" "\<forall>cd \<in> set feed. mark_of c cd \<notin> touched c ?t"
    using assms(2) feed t unfolding accounted_def by (auto dest: injD [OF inj_mapI [OF inj_Some]])
  obtain cd where cd: "cd \<in> set cds" "is_unit c cd ?t" using inv t by (auto simp: repairing_def)
  note u = is_unit_fields [OF cd(2)]
  have st: "dt_staging ?t \<notin> insert L X" using assms(4) cd(1) u by (auto simp: units_apart_def)
  have fr: "framed {dt_staging ?t} ?w w"
    using fetch_with_retry_framed [of "dt_staging ?t" ?w "pc_decoders c" "dt_url ?t"] fw by simp
  then have nt: "net w = net ?w" by (simp add: framed_def)
  have sp: "spares P Y ?w w" if "dt_staging ?t \<noteq> P" "dt_staging ?t \<notin> Y" for P Y
    using fetch_with_retry_spares [OF that, of ?w "pc_decoders c" "dt_url ?t"] fw by simp
  have "repairing c L X nt cds f0 feed (set (outstanding s)) w"
  proof (rule repairing_world [OF inv sp nt])
    show "staged_ok c w (dt_staging (unit_task c e))" if "e \<in> set cds" for e
    proof (cases "dt_staging (unit_task c e) = dt_staging ?t")
      case True
      have "staged_ok c ?w (dt_staging ?t)" using inv cd(1) u(4) by (simp add: repairing_def)
      from fetch_with_retry_staged [OF a(1) this, of "dt_url ?t"] fw True show ?thesis by simp
    next
      case False
      have ok: "staged_ok c ?w (dt_staging (unit_task c e))" using inv that by (simp add: repairing_def)
      show ?thesis by (rule staged_same [OF ok spares_same [OF sp] nt]) (use False in auto)
    qed
    show "has_marker (pc_staging c) w (cd_id e) = has_marker (pc_staging c) ?w (cd_id e)" if "e \<in> set feed" for e
    proof -
      have "mark_of c e \<notin> {dt_staging ?t}" using a(2) that by (auto simp: touched_def)
      from framed_node [OF fr this] show ?thesis by (simp add: has_marker_def mark_of_def)
    qed
  qed (use st in auto)
  with s' o feed show ?thesis by (auto simp: pool_repairs_def)
qed

lemma step_flags: "pool_step c ch s = Some s' \<Longrightarrow> unflagged s' \<Longrightarrow> unflagged s"
proof -
  assume st: "pool_step c ch s = Some s'" and u: "unflagged s'"
  have hr: "handle_result c r s0 = (x, s1) \<Longrightarrow> unflagged s1 \<Longrightarrow> unflagged s0" for r s0 x s1
    by (auto simp: handle_result_def retry_or_exhaust_def unflagged_def dest: promote_frame(8,9)
        split: if_splits prod.splits sum.splits bool.splits)
  have co: "unflagged s" if c: "consume_result c s = Some s'"
  proof -
    obtain r rs where r: "q_results s = r # rs" using c by (auto simp: consume_result_def split: list.splits)
    let ?s0 = "s\<lparr>q_results := rs, q_remaining := q_remaining s - 1\<rparr>"
    obtain x s1 where h: "handle_result c r ?s0 = (x, s1)" by fastforce
    have "unflagged s1"
      using c r h u pull_task_frame [of c 0 s1] by (cases x) (auto simp: consume_result_def unflagged_def)
    from hr [OF h this] show ?thesis by (simp add: unflagged_def)
  qed
  show "unflagged s"
  proof (cases ch)
    case MainGo
    with st u co show ?thesis
      by (auto simp: main_step_def unflagged_def pull_task_frame split: if_splits main_point.splits nat.splits)
  next
    case WorkerTakes
    with st u show ?thesis by (auto simp: take_step_def unflagged_def split: if_splits list.splits)
  next
    case (WorkerFinishes n)
    with st u show ?thesis by (auto simp: finish_step_def Let_def unflagged_def split: if_splits prod.splits)
  qed
qed

lemma step_repairs:
  assumes "pool_step c ch s = Some s'" and "accounted c s" and "unflagged s'"
    and "pool_repairs c L X nt cds f0 s" and "units_apart c L X cds" and "db_pages c L nt cds"
  shows "pool_repairs c L X nt cds f0 s'"
proof (cases ch)
  case MainGo
  then have m: "main_step c s = Some s'" using assms(1) by simp
  have np: "\<not> q_panicked s" using assms(2) by (simp add: accounted_def)
  consider (recv) "q_point s = Feeding 0" | (prime) n where "q_point s = Feeding (Suc n)"
    | (send) t n where "q_point s = Sending t n"
    by (metis main_point.exhaust nat.exhaust)
  then show ?thesis
  proof cases
    case recv
    with m np have "consume_result c s = Some s'" by (auto simp: main_step_def split: if_splits)
    from consume_repairs [OF this assms(2) recv assms(4-6,3)] show ?thesis .
  next
    case (prime n)
    with m np have s': "s' = pull_task c n s" by (simp add: main_step_def)
    obtain feed where feed: "q_feed s = map Some feed"
      and inv: "repairing c L X nt cds f0 feed (set (outstanding s)) (q_world s)"
      using assms(4) by (auto simp: pool_repairs_def)
    have "quiet (q_world s)" "apart c feed"
      using assms(2) feed unfolding accounted_def by (auto dest: injD [OF inj_mapI [OF inj_Some]])
    with pull_task_repairs [OF inv feed _ _ prime, of n] s' show ?thesis by simp
  next
    case (send t n)
    with m np have s': "s' = s\<lparr>q_tasks := q_tasks s @ [t], q_point := Feeding n\<rparr>"
      by (auto simp: main_step_def split: if_splits)
    have "set (outstanding s') = set (outstanding s)" using send by (auto simp: s' outstanding_def)
    with assms(4) show ?thesis by (simp add: pool_repairs_def s')
  qed
next
  case WorkerTakes
  then have t: "take_step c s = Some s'" using assms(1) by simp
  have "set (outstanding s') = set (outstanding s)"
    using worker_step_outstanding(1) [OF t] by (metis set_mset_mset)
  moreover have "q_feed s' = q_feed s" "q_world s' = q_world s"
    using t by (auto simp: take_step_def split: if_splits list.splits)
  ultimately show ?thesis using assms(4) by (simp add: pool_repairs_def)
next
  case (WorkerFinishes n)
  with assms(1) finish_repairs [OF _ assms(2,4,5)] show ?thesis by simp
qed

section \<open>The loop\<close>

lemma run_pool_repairs:
  assumes "run_pool c sched s = Some s'" and "accounted c s" and "unflagged s \<longrightarrow> pool_repairs c L X nt cds f0 s"
    and "units_apart c L X cds" and "db_pages c L nt cds"
  shows "accounted c s' \<and> loop_over s' \<and> (unflagged s' \<longrightarrow> pool_repairs c L X nt cds f0 s')"
  using assms
proof (induction c sched s rule: run_pool.induct)
  case (1 c sched s)
  show ?case
  proof (cases "loop_over s")
    case True
    with 1(2-4) show ?thesis by (simp add: run_pool.simps)
  next
    case False
    then obtain s1 where s1: "pick c sched s = Some s1" "run_pool c sched s1 = Some s'"
      using 1(2) by (auto simp: run_pool.simps [of c sched s] split: option.splits)
    obtain ch where ch: "pool_step c ch s = Some s1"
      using pick_trans [OF s1(1)] by (auto elim: pool_trans.cases)
    have ac: "accounted c s1" by (rule trans_accounted [OF pool_trans.step [OF ch] 1(3)])
    have "unflagged s1 \<longrightarrow> pool_repairs c L X nt cds f0 s1"
      using step_flags [OF ch] step_repairs [OF ch 1(3) _ _ 1(5,6)] 1(4) by blast
    from 1(1) [OF False s1(1,2) ac this 1(5,6)] show ?thesis .
  qed
qed

text \<open>
  From the start of the loop, in a fresh staging directory, to its end: the pages of the plan are in the
  database, the others are as they were.
\<close>

lemma init_repairs:
  assumes "shielded L X w" and "\<And>cd. cd \<in> set cds \<Longrightarrow> node_at w (dt_staging (unit_task c cd)) = None"
    and "\<And>cd. cd \<in> set cds \<Longrightarrow> \<not> has_marker (pc_staging c) w (cd_id cd)"
  shows "pool_repairs c L X (net w) cds (file_data w L) (init_pool c (map Some cds) n w)"
proof -
  have "staged_ok c w (dt_staging (unit_task c cd))" if "cd \<in> set cds" for cd
    using assms(1) assms(2) [OF that] by (simp add: staged_ok_def shielded_def file_data_def)
  then show ?thesis
    using assms
    by (auto simp: pool_repairs_def repairing_def init_pool_def others_kept_def left_alone_def outstanding_def contents_or_empty_def)
qed

lemma repairs_end:
  assumes "accounted c s" and "loop_over s" and "pool_repairs c L X nt cds f0 s"
  shows "shielded L X (q_world s)"
    and "cd \<in> set cds \<Longrightarrow> cd_live cd = L \<Longrightarrow> page_there (q_world s) L (cd_offset cd) (cd_hash cd)"
    and "others_kept cds L f0 (contents_or_empty (q_world s) L)"
    and "(\<forall>cd \<in> set cds. cd_live cd \<noteq> L) \<Longrightarrow> file_data (q_world s) L = f0"
proof -
  obtain feed where feed: "q_feed s = map Some feed"
    and inv: "repairing c L X nt cds f0 feed (set (outstanding s)) (q_world s)"
    using assms(3) by (auto simp: pool_repairs_def)
  have o: "outstanding s = []" and p: "pending c (q_world s) feed = []"
    using accounted_end [OF assms(1,2)] feed by (auto dest: injD [OF inj_mapI [OF inj_Some]])
  have "feed = []" using p inv by (cases feed) (auto simp: repairing_def pending_def)
  with inv o show "shielded L X (q_world s)"
    "cd \<in> set cds \<Longrightarrow> cd_live cd = L \<Longrightarrow> page_there (q_world s) L (cd_offset cd) (cd_hash cd)"
    "others_kept cds L f0 (contents_or_empty (q_world s) L)"
    "(\<forall>cd \<in> set cds. cd_live cd \<noteq> L) \<Longrightarrow> file_data (q_world s) L = f0"
    by (simp_all add: repairing_def left_alone_def)
qed

end
