(* ===== verification/ApplyRepair.thy ===== *)
theory ApplyRepair
  imports ApplySuccess PoolRepair
begin

text \<open>
  What a successful run of apply has done to the live files, page by page: in a world without faults and
  with no staging directory from an earlier run, every page the plan names is in its file with the planned
  hash, every other page of the file is the one that was there, and files the plan does not name are as before.
\<close>

section \<open>Names inside and outside the staging directory\<close>

definition outside :: "string \<Rightarrow> string \<Rightarrow> bool" where
  "outside dir q \<longleftrightarrow> \<not> in_tree dir q \<and> \<not> in_tree q dir"

definition backups :: "string \<Rightarrow> string set" where
  "backups dir = {q. in_tree (dir @ ''/shadows'') q}"

text \<open>The names that the pool uses for downloads and markers.\<close>

definition unit_names :: "string \<Rightarrow> string set" where
  "unit_names dir = {q. \<exists>i. q = dir @ ''/staged/'' @ sha256_hex i \<or> q = dir @ ''/markers/'' @ sha256_hex i}"

lemma ancestors_tree: "q \<in> set (ancestors p) \<Longrightarrow> in_tree q p"
  by (auto simp: ancestors_def in_tree_def has_prefix_iff)
     (metis Cons_eq_appendI append_take_drop_id Cons_nth_drop_Suc eq_Nil_appendI)

lemma tree_linear: "in_tree p r \<Longrightarrow> in_tree q r \<Longrightarrow> in_tree p q \<or> in_tree q p"
  by (auto simp: in_tree_def has_prefix_iff append_eq_append_conv2 Cons_eq_append_conv append_eq_Cons_conv)

lemma outside_ancestors: "outside dir q \<Longrightarrow> in_tree dir p \<Longrightarrow> q \<notin> set (ancestors p)"
  using tree_linear [of dir p q] ancestors_tree [of q p] by (auto simp: outside_def)

lemma backup_tree: "q \<in> backups dir \<Longrightarrow> in_tree dir q"
  by (auto simp: backups_def in_tree_def has_prefix_iff)

lemma unit_tree: "q \<in> unit_names dir \<Longrightarrow> in_tree dir q"
  by (auto simp: unit_names_def in_tree_def has_prefix_iff)

lemma subdirs_tree [simp]:
  "in_tree dir dir" "in_tree dir (dir @ ''/markers'')" "in_tree dir (dir @ ''/shadows'')" "in_tree dir (dir @ ''/staged'')"
  "in_tree dir (dir @ ''/plan-hash'')"
  by (simp_all add: in_tree_def has_prefix_iff)

lemma unit_not_subdir:
  assumes "q \<in> unit_names dir"
  shows "q \<notin> set (ancestors dir)" "q \<notin> set (ancestors (dir @ ''/markers''))" "q \<notin> set (ancestors (dir @ ''/shadows''))"
    "q \<notin> set (ancestors (dir @ ''/staged''))" "q \<noteq> dir @ ''/plan-hash''"
  using assms ancestors_length [of q] by (fastforce simp: unit_names_def sha256_hex_length)+

lemma unit_not_backup:
  assumes "q \<in> unit_names dir" and "in_tree (dir @ ''/shadows'') p"
  shows "q \<notin> set (ancestors p)" "q \<noteq> p"
proof -
  have "\<not> in_tree q (dir @ ''/shadows'')" "\<not> in_tree (dir @ ''/shadows'') q"
    using assms(1) by (auto simp: unit_names_def in_tree_def has_prefix_iff sha256_hex_length dest: arg_cong [where f = length])
  then show "q \<notin> set (ancestors p)" "q \<noteq> p"
    using assms(2) tree_linear [OF assms(2), of q] ancestors_tree [of q p] by blast+
qed

text \<open>Where a backup of a plain path lies.\<close>

lemma backup_name:
  assumes "is_abs dir" and "go_clean dir = dir" and "dir \<noteq> ''/''" and "plain_path rel"
  shows "shadow_dest dir rel = dir @ ''/shadows/'' @ rel"
proof -
  have "plain_path (''shadows'' @ slash # rel)"
    using assms(4) by (simp add: plain_path_def split_on_append plain_seg_def)
  moreover have "shadow_dest dir rel = go_join [dir, ''shadows'' @ slash # rel]"
    using assms(1) by (cases dir) (auto simp: shadow_dest_def go_join_def is_abs_def)
  ultimately show ?thesis using go_join_below [OF assms(1)] assms(2,3) by (simp add: below_def)
qed

lemma plain_dir:
  assumes "is_abs d" and "go_clean d = d" and "d \<noteq> ''/''" and "plain_path rel"
  shows "in_tree d (go_dir (d @ slash # rel)) \<and> length (go_dir (d @ slash # rel)) < length (d @ slash # rel)"
proof -
  obtain n segs where s: "split_on slash rel = segs @ [n]" by (metis split_on_nonempty rev_exhaust)
  have n: "slash \<notin> set n" and p: "list_all plain_seg segs"
    using s assms(4) by (auto simp: plain_path_def plain_seg_def)
  have r: "rel = join_on slash (segs @ [n])" using s join_split by metis
  show ?thesis
  proof (cases "segs = []")
    case True
    then have "go_dir (d @ slash # rel) = d"
      using go_dir_below [OF assms(1,2) n] assms(3) r by (simp add: below_def)
    then show ?thesis by (simp add: in_tree_def)
  next
    case False
    let ?i = "join_on slash segs"
    have i: "plain_path ?i" by (rule plain_pathI [OF False p])
    have e: "go_join [d, ?i] = d @ slash # ?i" using go_join_below [OF assms(1) i] assms(2,3) by (simp add: below_def)
    then have "go_clean (d @ slash # ?i) = d @ slash # ?i"
      using assms(1) by (cases d) (auto simp: go_join_def is_abs_def)
    moreover have e2: "rel = ?i @ slash # n" using r False by (simp add: join_on_snoc)
    moreover have "is_abs (d @ slash # ?i)" using assms(1) by (auto simp: is_abs_def has_prefix_iff)
    ultimately have "go_dir (d @ slash # rel) = d @ slash # ?i"
      using go_dir_abs [of "d @ slash # ?i" n] n by simp
    then show ?thesis using e2 by (simp add: in_tree_def has_prefix_iff)
  qed
qed


section \<open>The phases before the pool\<close>

text \<open>A calm step: the file \<open>L\<close> is spared, no download or marker appears, the environment is the same.\<close>

definition calm :: "string \<Rightarrow> string \<Rightarrow> os \<Rightarrow> os \<Rightarrow> bool" where
  "calm dir L w w' \<longleftrightarrow> spares L (backups dir) w w' \<and> (\<forall>q \<in> unit_names dir. stays_absent q w w')
     \<and> quiet w' = quiet w \<and> net w' = net w"

lemma calm_refl [simp]: "calm dir L w w"
  by (simp add: calm_def stays_absent_def)

lemma calm_trans: "calm dir L w w1 \<Longrightarrow> calm dir L w1 w2 \<Longrightarrow> calm dir L w w2"
  by (auto simp: calm_def intro: spares_trans stays_absent_trans)

lemma calm_framed:
  assumes "framed S w w'" and "spares L (backups dir) w w'" and "S \<inter> unit_names dir = {}"
  shows "calm dir L w w'"
  using assms framed_absent [OF assms(1)] framed_quiet [OF assms(1)] by (auto simp: calm_def framed_def)

lemma calm_fs: "framed S w w' \<Longrightarrow> fs w' = fs w \<Longrightarrow> calm dir L w w'"
  using framed_quiet [of S w w'] by (auto simp: calm_def framed_def intro: spares_fs fs_absent)

lemma calm_mkdir:
  assumes "mkdir_all p w = (r, w')" and "outside dir L" and "in_tree dir p"
    and "\<And>q. q \<in> unit_names dir \<Longrightarrow> q \<notin> set (ancestors p)"
  shows "calm dir L w w'"
proof (rule calm_framed)
  show "framed (set (ancestors p)) w w'" using mkdir_all_framed [of p w] assms(1) by simp
  show "spares L (backups dir) w w'"
    using mkdir_all_spares [OF outside_ancestors [OF assms(2,3)], of "backups dir" w] assms(1) by simp
qed (use assms(4) in blast)

lemma create_fresh_calm:
  assumes "create_fresh dir h w = (r, w')" and "outside dir L"
    and "is_abs dir" and "go_clean dir = dir" and "dir \<noteq> ''/''"
  shows "calm dir L w w'"
proof -
  note n = staging_names [OF assms(3-5)]
  obtain r1 w1 where 1: "mkdir_all dir w = (r1, w1)" by fastforce
  obtain r2 w2 where 2: "write_file (plan_hash_file dir) h w1 = (r2, w2)" by fastforce
  obtain r3 w3 where 3: "mkdir_all (go_join [dir, ''markers'']) w2 = (r3, w3)" by fastforce
  obtain r4 w4 where 4: "mkdir_all (go_join [dir, ''shadows'']) w3 = (r4, w4)" by fastforce
  have a1: "calm dir L w w1" by (rule calm_mkdir [OF 1 assms(2)]) (simp_all add: unit_not_subdir)
  have "dir @ ''/plan-hash'' \<noteq> L" using assms(2) by (auto simp: outside_def)
  moreover have "dir @ ''/plan-hash'' \<notin> backups dir" by (simp add: backups_def in_tree_def has_prefix_iff)
  ultimately have "calm dir L w1 w2"
    using calm_framed [of "{plan_hash_file dir}" w1 w2 L dir] write_file_framed [of "plan_hash_file dir" w1 h]
      write_file_spares [of "plan_hash_file dir" L "backups dir" w1 h] 2 unit_not_subdir(5) by (auto simp: n)
  then have a2: "calm dir L w w2" by (rule calm_trans [OF a1])
  have a3: "calm dir L w w3" by (rule calm_trans [OF a2 calm_mkdir [OF 3 assms(2)]]) (simp_all add: n unit_not_subdir)
  have a4: "calm dir L w w4" by (rule calm_trans [OF a3 calm_mkdir [OF 4 assms(2)]]) (simp_all add: n unit_not_subdir)
  show ?thesis
    using assms(1) a1 a2 a3 a4 1 2 3 4
    by (cases r1; cases r2; cases r3; cases r4) (auto simp: create_fresh_def ensure_subdirs_def)
qed

lemma run_staging_calm:
  assumes "run_staging opts hdr w = (r, w')" and "outside (staging_root opts) L" and "is_abs (ao_plan opts)"
    and "quiet w" and "node_at w (staging_root opts) = None"
  shows "calm (staging_root opts) L w w'"
proof -
  let ?d = "staging_root opts"
  note d = staging_root_shape [OF assms(3)]
  obtain r1 w1 where c: "create_fresh ?d (ph_self hdr) (tick w) = (r1, w1)" by fastforce
  have 0: "calm ?d L w (tick w)" by (rule calm_fs [OF framed_tick]) simp
  have 1: "calm ?d L w w1" by (rule calm_trans [OF 0 create_fresh_calm [OF c assms(2) d]])
  have cr: "create_or_resume ?d (ph_self hdr) w = (r1, w1)"
    using c assms(4,5) by (simp add: create_or_resume_def os_stat_quiet)
  show ?thesis
  proof (cases r1)
    case (Inr x)
    then have x: "x = (?d, False)"
      using c by (auto simp: create_fresh_def split: prod.splits sum.splits)
    obtain r2 w2 where 2: "mkdir_all (go_join [?d, ''staged'']) w1 = (r2, w2)" by fastforce
    have "calm ?d L w w2"
      by (rule calm_trans [OF 1 calm_mkdir [OF 2 assms(2)]]) (simp_all add: staging_names [OF d] unit_not_subdir)
    with assms(1) cr Inr x 2 show ?thesis by (cases r2) (auto simp: run_staging_def)
  qed (use assms(1) cr 1 in \<open>auto simp: run_staging_def\<close>)
qed

text \<open>The scan reads only, and counts every unit that has no marker.\<close>

lemma scan_units_append:
  "scan_units dir (xs @ ys) acc w = and_then (scan_units dir xs acc) (scan_units dir ys) w"
proof (induction xs arbitrary: acc w)
  case (Cons x xs)
  then show ?case by (cases x) (auto simp: and_then_def split: prod.split bool.split)
qed (simp add: and_then_def)

definition infos_of :: "candidate list \<Rightarrow> shadow_info list \<Rightarrow> bool" where
  "infos_of cds infos \<longleftrightarrow> (\<forall>si \<in> set infos. \<exists>cd \<in> set cds. si_live si = cd_live cd \<and> si_rel si = cd_path cd)"

lemma scan_units_fresh:
  assumes "quiet w" and "\<And>cd. cd \<in> set cds \<Longrightarrow> \<not> has_marker dir w (cd_id cd)"
    and "infos_of all infos" and "set cds \<subseteq> set all"
  shows "\<exists>infos' w'. scan_units dir (map Some cds) (infos, n) w = (Inr (infos', n + int (length cds)), w')
     \<and> infos_of all infos' \<and> framed {} w w' \<and> fs w' = fs w"
  using assms
proof (induction cds arbitrary: infos n w)
  case (Cons cd cds)
  obtain i1 where a: "add_pending cd (infos, n) = (i1, n + 1)" by (simp add: add_pending_def)
  then have i1: "infos_of all i1"
    using Cons.prems(3,4) unfolding infos_of_def add_pending_def by (auto split: if_splits) blast
  have q: "quiet (tick w)" using Cons.prems(1) by simp
  have "\<And>e. e \<in> set cds \<Longrightarrow> \<not> has_marker dir (tick w) (cd_id e)" using Cons.prems(2) by (simp add: has_marker_def)
  from Cons.IH [OF q this i1, of "n + 1"] Cons.prems(4) obtain infos' w' where
    s: "scan_units dir (map Some cds) (i1, n + 1) (tick w) = (Inr (infos', n + 1 + int (length cds)), w')"
    and f: "infos_of all infos'" "framed {} (tick w) w'" "fs w' = fs (tick w)"
    by auto
  have "marker_exists dir (cd_id cd) w = (False, tick w)"
    using marker_exists_quiet [OF Cons.prems(1), of dir "cd_id cd"] Cons.prems(2) by simp
  with s a have "scan_units dir (map Some (cd # cds)) (infos, n) w = (Inr (infos', n + int (length (cd # cds))), w')"
    by (simp add: algebra_simps)
  moreover have "framed {} w w'" using framed_trans [OF framed_tick f(2)] .
  ultimately show ?case using f(1,3) by (intro exI [of _ infos'] exI [of _ w']) auto
qed simp

lemma stream_pages_same:
  assumes "quiet w" and "quiet v" and "file_data v p = file_data w p"
  shows "fst (stream_pages p v) = fst (stream_pages p w)"
proof -
  have r: "fst (stream_pages p u) = (case file_data u p of None \<Rightarrow> ([], True)
      | Some d \<Rightarrow> (case stream_sqlite_pages d of (evs, err) \<Rightarrow> (evs, err \<noteq> None)))" if "quiet u" for u
    using that
    by (auto simp: stream_pages_def read_plan_def open_read_def syscall_quiet file_data_def read_stream_def quiet_def
        Let_def split: option.split node.split prod.split)
  show ?thesis using r [OF assms(1)] r [OF assms(2)] assms(3) by simp
qed

lemma run_scan_fresh:
  assumes "run_scan opts datadir root headers dir w = (Inr (infos, n), w')"
    and "stream_pages (ao_plan opts) w = ((evs, False), w1)"
    and "page_candidates datadir root headers evs @ whole_candidates datadir root headers = map Some cds"
    and "quiet w" and "\<And>cd. cd \<in> set cds \<Longrightarrow> \<not> has_marker dir w (cd_id cd)"
  shows "n = int (length cds) \<and> infos_of cds infos \<and> framed {} w w' \<and> fs w' = fs w"
proof -
  have f: "framed {} w w1" "fs w1 = fs w" using stream_pages_untouched [of w "ao_plan opts"] assms(2) by (simp_all add: untouched_def)
  have q: "quiet w1" using framed_quiet [OF f(1)] assms(4) by simp
  have "\<And>cd. cd \<in> set cds \<Longrightarrow> \<not> has_marker dir w1 (cd_id cd)"
    using assms(5) fs_node_at [OF f(2)] by (simp add: has_marker_def)
  from scan_units_fresh [OF q this, of cds cds "[]" 0] obtain i2 w2 where
    s: "scan_units dir (map Some cds) ([], 0) w1 = (Inr (i2, int (length cds)), w2)" "infos_of cds i2"
      "framed {} w1 w2" "fs w2 = fs w1"
    by (auto simp: infos_of_def)
  have "run_scan opts datadir root headers dir w = (Inr (i2, int (length cds)), w2)"
    using s(1) assms(2) unfolding assms(3) [symmetric] scan_units_append
    by (auto simp: run_scan_def and_then_def split: prod.splits sum.splits)
  with assms(1) s f show ?thesis by (auto intro: framed_trans)
qed


text \<open>A backup is a hard link of the live file, or nothing is done.\<close>

lemma shadow_taken:
  assumes "take_shadow live dir rel [] w = (Inr u, w')" and "quiet w" and "node_at w (shadow_dest dir rel) = None"
    and "shadow_dest dir rel \<notin> set (ancestors (go_dir (shadow_dest dir rel)))" and "live \<noteq> ''/''" "live \<noteq> ''.''"
  shows "\<exists>w1. mkdir_all (go_dir (shadow_dest dir rel)) w = (Inr (), w1) \<and> os_link live (shadow_dest dir rel) w1 = (Inr (), w')"
proof -
  let ?q = "shadow_dest dir rel"
  obtain w1 where m: "mkdir_all (go_dir ?q) w = (Inr (), w1)"
    using assms(1) by (auto simp: take_shadow_def Let_def split: prod.splits sum.splits)
  have q1: "quiet w1" using framed_quiet [OF mkdir_all_framed [of "go_dir ?q" w]] m assms(2) by simp
  have n1: "node_at w1 ?q = None"
    using framed_node [OF mkdir_all_framed [of "go_dir ?q" w] assms(4)] m assms(3) by simp
  have d1: "is_dir w1 (go_dir ?q)" by (rule mkdir_all_Inr_dir [OF m])
  obtain r w2 where l: "os_link live ?q w1 = (r, w2)" by fastforce
  show ?thesis
  proof (cases r)
    case (Inr v)
    with m l assms(1) show ?thesis by (auto simp: take_shadow_def Let_def)
  next
    case (Inl e)
    have "\<not> (\<exists>i. names w1 live = Some (FileN i))" and w2: "w2 = tick w1"
      using l Inl q1 n1 d1 by (auto simp: os_link_def syscall_quiet split: option.splits node.splits if_splits)
    then have "\<not> (\<exists>i. node_at w2 live = Some (FileN i))" using assms(5,6) by (simp add: node_at_def)
    then have "\<exists>e'. fst (open_read live w2) = Inl e'"
      using q1 w2 by (auto simp: open_read_def syscall_quiet split: option.split node.split)
    then have "\<exists>e'. fst (copy_file live ?q w2) = Inl e'"
      by (cases "open_read live w2") (auto simp: copy_file_def)
    with m l Inl assms(1) show ?thesis by (auto simp: take_shadow_def Let_def)
  qed
qed

lemma shadow_calm:
  assumes "shadow_if_new dir si w = (Inr u, w')" and "outside dir L" and "quiet w"
    and "is_abs dir" and "go_clean dir = dir" and "dir \<noteq> ''/''" and "plain_path (si_rel si)"
    and "si_live si \<noteq> ''/''" "si_live si \<noteq> ''.''"
  shows "calm dir L w w'"
proof -
  let ?q = "shadow_dest dir (si_rel si)"
  note q = backup_name [OF assms(4-7)]
  have sub: "is_abs (dir @ ''/shadows'')" using assms(4) by (auto simp: is_abs_def has_prefix_iff)
  have "go_clean (dir @ ''/shadows'') = go_join [dir, ''shadows'']" using assms(4) by (cases dir) (simp_all add: go_join_def is_abs_def)
  note sub = sub this [unfolded staging_names(4) [OF assms(4-6)]]
  have "in_tree (dir @ ''/shadows'') (go_dir ?q) \<and> length (go_dir ?q) < length ?q"
    using plain_dir [OF sub _ assms(7)] assms(6) by (simp add: q)
  then have g: "in_tree (dir @ ''/shadows'') (go_dir ?q)" "?q \<notin> set (ancestors (go_dir ?q))"
    using ancestors_length by fastforce+
  have qt: "in_tree (dir @ ''/shadows'') ?q" by (simp add: q in_tree_def has_prefix_iff)
  have "?q \<noteq> L" "?q \<in> backups dir"
    using qt assms(2) backup_tree [of ?q dir] by (auto simp: backups_def outside_def)
  obtain r1 w1 where s: "os_stat ?q w = (r1, w1)" by fastforce
  have c1: "calm dir L w w1" using calm_fs [OF os_stat_framed [of w ?q] os_stat_fs] s by simp
  show ?thesis
  proof (cases "\<exists>v. take_shadow (si_live si) dir (si_rel si) [] w1 = (Inr v, w') \<and> r1 = Inl NotExist")
    case False
    then show ?thesis using assms(1) s c1 by (auto simp: shadow_if_new_def split: sum.splits prod.splits if_splits)
  next
    case True
    then obtain v where t: "take_shadow (si_live si) dir (si_rel si) [] w1 = (Inr v, w')" and r1: "r1 = Inl NotExist" by blast
    have "w1 = tick w" "node_at w ?q = None" using s r1 assms(3) by (auto simp: os_stat_quiet split: option.splits)
    then have "quiet w1" "node_at w1 ?q = None" using assms(3) by simp_all
    then obtain w2 where m: "mkdir_all (go_dir ?q) w1 = (Inr (), w2)" and l: "os_link (si_live si) ?q w2 = (Inr (), w')"
      using shadow_taken [OF t _ _ g(2) assms(8,9)] by blast
    have "calm dir L w1 w2"
      by (rule calm_mkdir [OF m assms(2)]) (use g(1) backup_tree [of "go_dir ?q" dir] unit_not_backup in \<open>auto simp: backups_def\<close>)
    moreover have "calm dir L w2 w'"
      using calm_framed [OF os_link_framed os_link_spares, of ?q L "si_live si" dir w2 ] l assms(8,9) \<open>?q \<noteq> L\<close> \<open>?q \<in> backups dir\<close>
        unit_not_backup(2) [OF _ qt] by auto
    ultimately show ?thesis using c1 by (blast intro: calm_trans)
  qed
qed

lemma take_shadows_calm:
  assumes "take_shadows dir sis acc w = (Inr sh, w')" and "outside dir L" and "quiet w"
    and "is_abs dir" and "go_clean dir = dir" and "dir \<noteq> ''/''"
    and "\<And>si. si \<in> set sis \<Longrightarrow> plain_path (si_rel si) \<and> si_live si \<noteq> ''/'' \<and> si_live si \<noteq> ''.''"
  shows "calm dir L w w'"
  using assms(1,3,7)
proof (induction sis arbitrary: acc w)
  case (Cons si sis)
  obtain tk w1 where l: "live_exists si w = (tk, w1)" by fastforce
  have 1: "calm dir L w w1"
    using l calm_fs [OF os_stat_framed [of w "si_live si"] os_stat_fs]
    by (auto simp: live_exists_def split: if_splits sum.splits prod.splits)
  let ?sh = "\<lparr>shadow_path = shadow_dest dir (si_rel si), live_path = si_live si, taken = tk\<rparr>"
  obtain u w2 where s: "(if tk then shadow_if_new dir si else (\<lambda>w. (Inr (), w))) w1 = (Inr u, w2)"
    and t: "take_shadows dir sis (acc @ [?sh]) w2 = (Inr sh, w')"
    using Cons.prems(1) l by (auto simp: and_then_def Let_def split: prod.splits sum.splits)
  have q1: "quiet w1" using 1 Cons.prems(2) by (simp add: calm_def)
  have "calm dir L w1 w2"
    using s shadow_calm [OF _ assms(2) q1 assms(4-6), of si u w2] Cons.prems(3) [of si] by (cases tk) auto
  then have 2: "calm dir L w w2" by (rule calm_trans [OF 1])
  moreover have "calm dir L w2 w'" by (rule Cons.IH [OF t]) (use 2 Cons.prems in \<open>auto simp: calm_def\<close>)
  ultimately show ?case by (rule calm_trans)
qed simp


section \<open>The names of the units\<close>

text \<open>
  What keeps the units of a plan apart: different names have different digests, no live file lies in the
  staging directory or in the place of a directory, and the file \<open>L\<close> under consideration is not one of the
  directories either.
\<close>

definition unit_id :: "candidate \<Rightarrow> string" where
  "unit_id cd = (if cd_offset cd < 0 then cd_path cd else cd_path cd @ '':'' @ fmt_int (cd_offset cd))"

definition units_fit :: "string \<Rightarrow> string \<Rightarrow> candidate list \<Rightarrow> bool" where
  "units_fit dir L cds \<longleftrightarrow> outside dir L \<and> distinct (map (sha256_hex \<circ> cd_id) cds) \<and>
     (\<forall>cd \<in> set cds. 4 \<le> length (cd_hash cd) \<and> cd_id cd = unit_id cd \<and> plain_path (cd_path cd) \<and>
        cd_live cd \<noteq> ''/'' \<and> cd_live cd \<noteq> ''.'' \<and> \<not> in_tree dir (cd_live cd) \<and> \<not> in_tree dir (go_dir (cd_live cd)) \<and>
        L \<notin> set (ancestors (go_dir (cd_live cd))))"

text \<open>The context of the pool that a run starts.\<close>

definition staged_ctx :: "string \<Rightarrow> pool_ctx \<Rightarrow> bool" where
  "staged_ctx dir c \<longleftrightarrow> is_abs dir \<and> go_clean dir = dir \<and> dir \<noteq> ''/'' \<and> pc_staging c = dir \<and> pc_staged c = dir @ ''/staged''"

lemma hash_plain: "plain_path (sha256_hex i)"
proof -
  have "length (sha256_hex i) \<noteq> length ''.''" "length (sha256_hex i) \<noteq> length ''..''" by (simp_all add: sha256_hex_length)
  then have "sha256_hex i \<noteq> ''.''" "sha256_hex i \<noteq> ''..''" by metis+
  then show ?thesis
    using sha256_hex_no_slash [of i] sha256_hex_nonempty [of i]
    by (auto simp: plain_path_def split_on_free plain_seg_def)
qed

lemma unit_download:
  assumes "staged_ctx dir c" and "cd_id cd = unit_id cd"
  shows "dt_staging (unit_task c cd) = dir @ ''/staged/'' @ sha256_hex (cd_id cd)"
    and "staging_identifier (unit_task c cd) = cd_id cd"
    and "mark_of c cd = dir @ ''/markers/'' @ sha256_hex (cd_id cd)"
    and "task_mark c (unit_task c cd) = mark_of c cd"
    and "markers_dir c = dir @ ''/markers''"
proof -
  note d = assms(1) [unfolded staged_ctx_def]
  have a: "is_abs (dir @ ''/staged'')" using d by (auto simp: is_abs_def has_prefix_iff)
  have "go_clean (dir @ ''/staged'') = go_join [dir, ''staged'']" using d by (cases dir) (simp_all add: go_join_def is_abs_def)
  then have "go_clean (dir @ ''/staged'') = dir @ ''/staged''" using staging_names(5) [of dir] d by simp
  then show "dt_staging (unit_task c cd) = dir @ ''/staged/'' @ sha256_hex (cd_id cd)"
    using go_join_below [OF a hash_plain, of "cd_id cd"] assms d
    by (auto simp: unit_task_def task_of_def staging_filename_def unit_id_def below_def)
  show i: "staging_identifier (unit_task c cd) = cd_id cd"
    using assms(2) by (simp add: unit_task_def task_of_def staging_identifier_def unit_id_def)
  show "mark_of c cd = dir @ ''/markers/'' @ sha256_hex (cd_id cd)"
    using staging_names(1) [of dir "cd_id cd"] d by (simp add: mark_of_def)
  show "task_mark c (unit_task c cd) = mark_of c cd" by (simp add: task_mark_def mark_of_def i)
  show "markers_dir c = dir @ ''/markers''" using staging_names(3) [of dir] d by (simp add: markers_dir_def)
qed

lemma unit_names_of:
  assumes "staged_ctx dir c" and "cd_id cd = unit_id cd"
  shows "dt_staging (unit_task c cd) \<in> unit_names dir" "mark_of c cd \<in> unit_names dir"
  using unit_download [OF assms] by (auto simp: unit_names_def)

lemma mark_no_download:
  assumes "staged_ctx dir c" and "cd_id cd = unit_id cd" and "cd_id e = unit_id e"
  shows "mark_of c cd \<noteq> dt_staging (unit_task c e)"
  using unit_download(3) [OF assms(1,2)] unit_download(1) [OF assms(1,3)] by auto

lemma unit_outside:
  assumes "q \<in> unit_names dir" and "\<not> in_tree dir p"
  shows "q \<noteq> p" "q \<notin> set (ancestors p)"
proof -
  show "q \<noteq> p" using unit_tree [OF assms(1)] assms(2) by auto
  show "q \<notin> set (ancestors p)"
    using in_tree_trans [OF unit_tree [OF assms(1)]] ancestors_tree [of q p] assms(2) by blast
qed

lemma unit_not_root: "q \<in> unit_names dir \<Longrightarrow> q \<notin> {''/'', ''.''}"
  by (auto simp: unit_names_def dest: arg_cong [where f = length])

lemma fit_apart:
  assumes "units_fit dir L cds" and "staged_ctx dir c"
  shows "units_apart c L (backups dir) cds"
  unfolding units_apart_def
proof (intro ballI conjI)
  fix cd assume cd: "cd \<in> set cds"
  note f = assms(1) [unfolded units_fit_def]
  have i: "cd_id e = unit_id e" if "e \<in> set cds" for e using f that by blast
  note n = unit_download [OF assms(2) i] unit_names_of [OF assms(2) i]
  have b: "q \<notin> backups dir" if "q \<in> unit_names dir" for q
    using that unit_not_backup(2) [of q dir q] by (auto simp: backups_def)
  have o: "q \<noteq> L" if "q \<in> unit_names dir" for q using that unit_tree f by (auto simp: outside_def)
  show "dt_staging (unit_task c cd) \<notin> insert L (backups dir) \<union> {''/'', ''.''}"
    using b o unit_not_root n(6) [OF cd] by blast
  show "L \<notin> fixed_names c (unit_task c cd)"
    using outside_ancestors [of dir L "dir @ ''/markers''"] f cd o [OF n(7) [OF cd]] n(4,5) [OF cd]
    by (auto simp: fixed_names_def unit_task_def task_of_def)
  show "task_mark c (unit_task c cd) \<notin> backups dir" using b n(4,7) [OF cd] by simp
  show "cd_live cd \<notin> backups dir" using f cd backup_tree by blast
  fix e assume e: "e \<in> set cds"
  have "dt_staging (unit_task c e) \<notin> set (ancestors (go_dir (cd_live cd)))" "dt_staging (unit_task c e) \<noteq> cd_live cd"
    using unit_outside [OF n(6) [OF e]] f cd by blast+
  moreover have "dt_staging (unit_task c e) \<noteq> mark_of c cd" using mark_no_download [OF assms(2) i i, OF cd e] by metis
  moreover have "dt_staging (unit_task c e) \<notin> set (ancestors (dir @ ''/markers''))" using unit_not_subdir(2) [OF n(6) [OF e]] .
  ultimately show "dt_staging (unit_task c e) \<notin> insert (cd_live cd) (fixed_names c (unit_task c cd))"
    using n(4,5) [OF cd] by (auto simp: fixed_names_def unit_task_def task_of_def)
qed

lemma fit_distinct:
  assumes "units_fit dir L cds" and "staged_ctx dir c"
  shows "apart c cds"
proof -
  have i: "e \<in> set cds \<Longrightarrow> cd_id e = unit_id e" for e using assms(1) by (simp add: units_fit_def)
  have u: "unit_ok c e" if "e \<in> set cds" for e
    using unit_download(2) [OF assms(2) i [OF that]] assms(1) that by (simp add: unit_ok_def units_fit_def unit_task_def)
  have t: "mark_of c e \<notin> touched c (task_of (pc_chunks c) (pc_staged c) cd)"
    if "e \<in> set cds" "cd \<in> set cds" "sha256_hex (cd_id e) \<noteq> sha256_hex (cd_id cd)" for e cd
  proof -
    note n = unit_download [OF assms(2) i [OF that(2)]] unit_names_of [OF assms(2) i [OF that(1)]]
    have o: "mark_of c e \<noteq> cd_live cd" "mark_of c e \<notin> set (ancestors (go_dir (cd_live cd)))"
      using unit_outside [OF n(7)] assms(1) that(2) unfolding units_fit_def by blast+
    have "mark_of c e \<noteq> mark_of c cd" using that(3) n(3) unit_download(3) [OF assms(2) i [OF that(1)]] by simp
    moreover have "mark_of c e \<noteq> dt_staging (unit_task c cd)" by (rule mark_no_download [OF assms(2) i i, OF that(1,2)])
    moreover have "mark_of c e \<notin> set (ancestors (dir @ ''/markers''))" using unit_not_subdir(2) [OF n(7)] .
    moreover have "marker_path (pc_staging c) (staging_identifier (unit_task c cd)) = mark_of c cd"
      using n(4) by (simp add: task_mark_def)
    ultimately show ?thesis using o n(5) unfolding touched_def unit_task_def [symmetric] by (simp add: unit_task_def task_of_def)
  qed
  have "distinct (map (sha256_hex \<circ> cd_id) cds)" using assms(1) by (simp add: units_fit_def)
  with u t show ?thesis
  proof (induction cds)
    case (Cons cd cds)
    have "apart c cds" by (rule Cons.IH) (use Cons.prems in simp_all)
    moreover have "mark_of c e \<notin> touched c (task_of (pc_chunks c) (pc_staged c) cd)" if "e \<in> set cds" for e
    proof (rule Cons.prems(2))
      show "sha256_hex (cd_id e) \<noteq> sha256_hex (cd_id cd)" using Cons.prems(3) that by (auto simp: image_iff)
    qed (use that in simp_all)
    ultimately show ?case using Cons.prems(1) by (simp add: list_all_iff)
  qed simp
qed


section \<open>The whole run\<close>

definition pool_ctx_of :: "externals \<Rightarrow> apply_options \<Rightarrow> pool_ctx" where
  "pool_ctx_of ex opts =
     \<lparr>pc_parallel = effective_parallel opts, pc_staging = staging_root opts, pc_staged = go_join [staging_root opts, ''staged''],
      pc_chunks = derive_chunk_base_url (ex_url ex) opts, pc_fail_nth = ao_fail_nth opts, pc_decoders = ex_decoders ex\<rparr>"

lemma staged_ctx_of: "is_abs (ao_plan opts) \<Longrightarrow> staged_ctx (staging_root opts) (pool_ctx_of ex opts)"
  using staging_root_shape [of opts] staging_names(5) [of "staging_root opts"] by (simp add: staged_ctx_def pool_ctx_of_def)

text \<open>The law of the database engine: beside a database without journal and log it leaves every file alone.\<close>

definition sqlite_reads :: "integrity \<Rightarrow> bool" where
  "sqlite_reads check \<longleftrightarrow>
     (\<forall>p w. file_data w p \<noteq> None \<and> (\<forall>q \<in> sidecars p. file_data w q = None) \<longrightarrow>
        (\<forall>q X. q \<notin> sidecars p \<longrightarrow> spares q X w (snd (check p w))))"

definition plain_database :: "string \<Rightarrow> os \<Rightarrow> bool" where
  "plain_database p w \<longleftrightarrow> file_data w p \<noteq> None \<and> (\<forall>q \<in> sidecars p. file_data w q = None)"

lemma run_verify_spares:
  assumes "run_verify ex opts datadir root headers sh w = (Inr u, w')" and "no_injection opts"
    and "sqlite_reads (ex_integrity ex)"
    and "has_sqlite headers \<Longrightarrow> plain_database (main_sqlite root) w \<and> L \<notin> sidecars (main_sqlite root)"
  shows "spares L X w w'"
proof -
  have i: "inject_corruption opts root w = w" using assms(2) by (simp add: inject_corruption_def no_injection_def)
  have v: "spares L X w w2" if "verify_sqlite (ex_integrity ex) (main_sqlite root) w = (r, w2)" "has_sqlite headers" for r w2
  proof -
    have "spares L X w (snd (ex_integrity ex (main_sqlite root) w))"
      using assms(3,4) that(2) by (simp add: sqlite_reads_def plain_database_def)
    moreover have "snd (ex_integrity ex (main_sqlite root) w) = w2"
      using that(1) by (auto simp: verify_sqlite_def split: prod.splits option.splits if_splits)
    ultimately show ?thesis by simp
  qed
  have h: "spares L X w2 w3" if "verify_hashes [] es w2 = (r, w3)" for es r w2 w3
    using spares_fs verify_hashes_frame [of w2 "[]" es] that by (metis snd_conv)
  show ?thesis
  proof (cases "has_sqlite headers")
    case True
    obtain x w2 where q: "verify_sqlite (ex_integrity ex) (main_sqlite root) w = (x, w2)" by fastforce
    note v' = v [OF q True]
    show ?thesis
    proof (cases "expected_hashes opts headers = []")
      case True
      have "w' = w2"
        using assms(1) \<open>has_sqlite headers\<close> q True unfolding run_verify_def i Let_def by (simp split: sum.splits prod.splits)
      with v' show ?thesis by simp
    next
      case False
      obtain y where "verify_hashes [] (ex_order ex (resolve_hashes ex datadir root (expected_hashes opts headers))) w2 = (y, w')"
        using assms(1) \<open>has_sqlite headers\<close> q False unfolding run_verify_def i Let_def by (auto split: sum.splits prod.splits)
      from spares_trans [OF v' h [OF this]] show ?thesis .
    qed
  next
    case False
    with assms(1) show ?thesis
      unfolding run_verify_def i Let_def by (auto intro: h split: prod.splits sum.splits if_splits)
  qed
qed

lemma cleanup_spares:
  assumes "outside dir L" and "shadow_path ` set sh \<subseteq> backups dir" and "is_abs dir" "go_clean dir = dir" "dir \<noteq> ''/''"
  shows "spares L X w (cleanup_staging dir sh w)"
proof -
  have "spares L X v (remove_taken sh v)" for v
    using assms(2)
  proof (induction sh arbitrary: v)
    case (Cons s sh)
    have "shadow_path s \<noteq> L" using Cons.prems assms(1) backup_tree by (fastforce simp: outside_def)
    then have "spares L X v (if taken s then snd (os_remove (shadow_path s) v) else v)" by (simp add: os_remove_spares)
    from spares_trans [OF this Cons.IH] Cons.prems show ?case by simp
  qed simp
  moreover have "\<not> in_tree (dir @ ''/staged'') L" "\<not> in_tree (dir @ ''/shadows'') L"
    using assms(1) in_tree_trans [OF subdirs_tree(3)] in_tree_trans [OF subdirs_tree(4)] unfolding outside_def by blast+
  ultimately show ?thesis
    using spares_trans [OF spares_trans [OF _ remove_all_spares] remove_all_spares] staging_names(4,5) [OF assms(3-5)]
    by (simp add: cleanup_staging_def Let_def)
qed

text \<open>What a run leaves in the file \<open>L\<close>.\<close>

definition repaired :: "candidate list \<Rightarrow> string \<Rightarrow> bytes option \<Rightarrow> os \<Rightarrow> bool" where
  "repaired cds L f0 w \<longleftrightarrow>
     (\<forall>cd \<in> set cds. cd_live cd = L \<longrightarrow> page_there w L (cd_offset cd) (cd_hash cd)) \<and>
     others_kept cds L f0 (contents_or_empty w L) \<and> left_alone cds L f0 w"

lemma repaired_same: "file_data w' L = file_data w L \<Longrightarrow> repaired cds L f0 w' = repaired cds L f0 w"
  by (simp add: repaired_def page_there_def contents_or_empty_def left_alone_def)

lemma repaired_nothing: "repaired [] L (file_data w L) w"
  by (auto simp: repaired_def others_kept_def left_alone_def contents_or_empty_def)

text \<open>
  The site of a run: no staging directory is there yet, and the plan file is not in its way.  A file is fit when
  the units of the plan do not come into its way either.
\<close>

definition apply_site ::
  "apply_options \<Rightarrow> plan_header \<Rightarrow> divergence_header list \<Rightarrow> page_event list \<Rightarrow> candidate list \<Rightarrow> os \<Rightarrow> bool" where
  "apply_site opts hdr headers evs cds w \<longleftrightarrow>
     is_abs (ao_plan opts) \<and> quiet w \<and> (\<forall>q. in_tree (staging_root opts) q \<longrightarrow> node_at w q = None) \<and>
     fst (stream_pages (ao_plan opts) w) = (evs, False) \<and>
     page_candidates (go_dir (ph_path hdr)) (ph_path hdr) headers evs
       @ whole_candidates (go_dir (ph_path hdr)) (ph_path hdr) headers = map Some cds \<and>
     outside (staging_root opts) (ao_plan opts) \<and> (\<forall>h \<in> set headers. plain_path (dh_path h)) \<and>
     shielded (ao_plan opts) (backups (staging_root opts)) w"

definition fit_file :: "externals \<Rightarrow> apply_options \<Rightarrow> candidate list \<Rightarrow> os \<Rightarrow> string \<Rightarrow> bool" where
  "fit_file ex opts cds w L \<longleftrightarrow>
     units_fit (staging_root opts) L cds \<and> db_pages (pool_ctx_of ex opts) L (net w) cds \<and>
     shielded L (backups (staging_root opts)) w"

lemma scan_nothing:
  assumes st: "run_staging opts hdr w = (Inr (staging_root opts), w1)"
    and sc: "run_scan opts (go_dir (ph_path hdr)) (ph_path hdr) headers (staging_root opts) w1 = (Inr (infos, 0), w2)"
    and site: "apply_site opts hdr headers evs cds w" and fit: "fit_file ex opts cds w L"
  shows "cds = [] \<and> file_data w2 L = file_data w L"
proof -
  let ?dir = "staging_root opts" and ?p = "ao_plan opts"
  have abs: "is_abs ?p" and q0: "quiet w" and fresh: "\<And>q. in_tree ?dir q \<Longrightarrow> node_at w q = None"
    and op: "outside ?dir ?p" and sp: "shielded ?p (backups ?dir) w"
    using site by (auto simp: apply_site_def)
  have oL: "outside ?dir L" and shL: "shielded L (backups ?dir) w" using fit by (auto simp: fit_file_def units_fit_def)
  have n0: "node_at w ?dir = None" by (rule fresh) simp
  note c1 = run_staging_calm [OF st oL abs q0 n0] and p1 = run_staging_calm [OF st op abs q0 n0]
  have q1: "quiet w1" using c1 q0 by (simp add: calm_def)
  have nm: "\<not> has_marker ?dir w1 (cd_id cd)" if "cd \<in> set cds" for cd
  proof -
    have "in_tree ?dir (marker_path ?dir (cd_id cd))"
      unfolding staging_names(1) [OF staging_root_shape [OF abs]] by (simp add: in_tree_def has_prefix_iff)
    with fresh run_staging_absent [OF staging_root_shape [OF abs] st, of "cd_id cd"] show ?thesis
      by (simp add: has_marker_def stays_absent_def)
  qed
  have "fst (stream_pages ?p w1) = (evs, False)"
    using stream_pages_same [of w w1 ?p] q0 site p1 sparesD [of ?p "backups ?dir" w w1] sp by (simp add: calm_def apply_site_def)
  then obtain u1 where e1: "stream_pages ?p w1 = ((evs, False), u1)" by (cases "stream_pages ?p w1") auto
  have cds: "page_candidates (go_dir (ph_path hdr)) (ph_path hdr) headers evs
      @ whole_candidates (go_dir (ph_path hdr)) (ph_path hdr) headers = map Some cds" using site by (simp add: apply_site_def)
  note f = run_scan_fresh [OF sc e1 cds q1 nm]
  then have "calm ?dir L w w2" by (blast intro: calm_trans [OF c1] calm_fs)
  with f shL sparesD [of L "backups ?dir" w w2] show ?thesis by (auto simp: calm_def)
qed

text \<open>After the pool.\<close>

lemma workers_repaired:
  assumes st: "run_staging opts hdr w = (Inr (staging_root opts), w1)"
    and sc: "run_scan opts (go_dir (ph_path hdr)) (ph_path hdr) headers (staging_root opts) w1 = (Inr (infos, n), w2)"
    and ts: "take_shadows (staging_root opts) infos [] w2 = (Inr sh, w3)"
    and rw: "run_workers ex opts (go_dir (ph_path hdr)) (ph_path hdr) headers (staging_root opts) n w3 = (Inr s, w4)"
    and u: "unflagged s"
    and site: "apply_site opts hdr headers evs cds w" and fit: "fit_file ex opts cds w L"
  shows "repaired cds L (file_data w L) w4 \<and> shielded L (backups (staging_root opts)) w4
     \<and> shadow_path ` set sh \<subseteq> backups (staging_root opts)"
proof -
  let ?dir = "staging_root opts" and ?root = "ph_path hdr" and ?c = "pool_ctx_of ex opts" and ?p = "ao_plan opts"
  let ?X = "backups ?dir"
  have abs: "is_abs ?p" and q0: "quiet w" and fresh: "\<And>q. in_tree ?dir q \<Longrightarrow> node_at w q = None"
    and ev: "fst (stream_pages ?p w) = (evs, False)"
    and cds: "page_candidates (go_dir ?root) ?root headers evs @ whole_candidates (go_dir ?root) ?root headers = map Some cds"
    and op: "outside ?dir ?p" and sp: "shielded ?p ?X w"
    using site by (auto simp: apply_site_def)
  have fit: "units_fit ?dir L cds" and dp: "db_pages ?c L (net w) cds" and shL: "shielded L ?X w"
    using fit by (auto simp: fit_file_def)
  note dir = staging_root_shape [OF abs]
  note ctx = staged_ctx_of [OF abs, of ex]
  have i: "cd_id cd = unit_id cd" if "cd \<in> set cds" for cd using fit that by (simp add: units_fit_def)
  have oL: "outside ?dir L" using fit by (simp add: units_fit_def)
  have n0: "node_at w ?dir = None" by (rule fresh) simp
  note c1 = run_staging_calm [OF st oL abs q0 n0] and p1 = run_staging_calm [OF st op abs q0 n0]
  have q1: "quiet w1" using c1 q0 by (simp add: calm_def)
  have a: "node_at v q = None" if "q \<in> unit_names ?dir" "calm ?dir L w v" for q v
    using fresh [OF unit_tree [OF that(1)]] that by (auto simp: calm_def stays_absent_def)
  have nm: "\<not> has_marker ?dir v (cd_id cd)" if "cd \<in> set cds" "calm ?dir L w v" for cd v
    using a [OF unit_names_of(2) [OF ctx i [OF that(1)]] that(2)] by (simp add: has_marker_def mark_of_def pool_ctx_of_def)
  have plan: "fst (stream_pages ?p v) = (evs, False)" if "calm ?dir ?p w v" for v
    using stream_pages_same [of w v ?p] q0 ev that sparesD [of ?p ?X w v] sp by (simp add: calm_def)
  obtain u1 where e1: "stream_pages ?p w1 = ((evs, False), u1)" using plan [OF p1] by (cases "stream_pages ?p w1") auto
  note f = run_scan_fresh [OF sc e1 cds q1 nm [OF _ c1]]
  then have n: "n = int (length cds)" and io: "infos_of cds infos" by auto
  have "calm ?dir L' w1 w2" for L' using f by (blast intro: calm_fs)
  with c1 p1 have c2: "calm ?dir L w w2" and p2: "calm ?dir ?p w w2" by (blast intro: calm_trans)+
  have sL: "shielded L ?X v" "file_data v L = file_data w L" if "calm ?dir L w v" for v
    using sparesD [of L ?X w v] that shL by (auto simp: calm_def)
  have si: "plain_path (si_rel si) \<and> si_live si \<noteq> ''/'' \<and> si_live si \<noteq> ''.''" if "si \<in> set infos" for si
    using io fit that unfolding infos_of_def units_fit_def by metis
  have q2: "quiet w2" using c2 q0 by (simp add: calm_def)
  have c3: "calm ?dir L w w3" by (rule calm_trans [OF c2 take_shadows_calm [OF ts oL q2 dir si]])
  have p3: "calm ?dir ?p w w3" by (rule calm_trans [OF p2 take_shadows_calm [OF ts op q2 dir si]])
  obtain w5 where e3: "stream_pages ?p w3 = ((evs, False), w5)" using plan [OF p3] by (cases "stream_pages ?p w3") auto
  have u5: "untouched w3 w5" using stream_pages_untouched [of w3 ?p] e3 by simp
  then have c5: "calm ?dir L w w5" by (intro calm_trans [OF c3 calm_fs]) (auto simp: untouched_def)
  have "open_feed (go_dir ?root) ?root headers ?p w3 = (map Some cds, w5)" using e3 cds by (simp add: open_feed_def)
  then have rp: "run_pool ?c (ex_sched ex) (init_pool ?c (map Some cds) n w5) = Some s" and w4: "w4 = q_world s"
    using rw by (auto simp: run_workers_def pool_ctx_of_def Let_def split: option.splits if_splits)
  have q5: "quiet w5" "net w5 = net w" using c5 q0 by (simp_all add: calm_def)
  have "pending ?c w5 cds = cds"
    using nm [OF _ c5] by (simp add: pending_def pool_ctx_of_def filter_id_conv)
  then have ac: "accounted ?c (init_pool ?c (map Some cds) n w5)"
    using init_accounted [OF q5(1) fit_distinct [OF fit ctx]] n by simp
  have ir: "pool_repairs ?c L ?X (net w5) cds (file_data w5 L) (init_pool ?c (map Some cds) n w5)"
  proof (rule init_repairs)
    show "shielded L ?X w5" by (rule sL(1) [OF c5])
    show "node_at w5 (dt_staging (unit_task ?c cd)) = None" if "cd \<in> set cds" for cd
      by (rule a [OF unit_names_of(1) [OF ctx i [OF that]] c5])
    show "\<not> has_marker (pc_staging ?c) w5 (cd_id cd)" if "cd \<in> set cds" for cd
      using nm [OF that c5] by (simp add: pool_ctx_of_def)
  qed
  have dp5: "db_pages ?c L (net w5) cds" using dp q5(2) by simp
  have pr: "pool_repairs ?c L ?X (net w5) cds (file_data w5 L) s" "accounted ?c s" "loop_over s"
    using run_pool_repairs [OF rp ac _ fit_apart [OF fit ctx] dp5] ir u by auto
  note e = repairs_end [OF pr(2,3,1)]
  have "shadow_path ` set sh \<subseteq> ?X"
  proof
    fix q assume "q \<in> shadow_path ` set sh"
    then obtain si where "si \<in> set infos" "q = shadow_dest ?dir (si_rel si)" using take_shadows_paths [OF ts] by auto
    with si backup_name [OF dir] show "q \<in> ?X" by (auto simp: backups_def in_tree_def has_prefix_iff)
  qed
  then show ?thesis
    using e sL(2) [OF c5] w4 unfolding repaired_def left_alone_def by simp
qed

text \<open>
  What keeps the integrity check from changing anything: the database is there or is about to be written, it has
  no journal and no log beside it, and none of these is a file of the plan.
\<close>

definition database_site :: "externals \<Rightarrow> apply_options \<Rightarrow> string \<Rightarrow> candidate list \<Rightarrow> os \<Rightarrow> bool" where
  "database_site ex opts db cds w \<longleftrightarrow>
     fit_file ex opts cds w db \<and> (file_data w db \<noteq> None \<or> (\<exists>cd \<in> set cds. cd_live cd = db)) \<and>
     (\<forall>q \<in> sidecars db. fit_file ex opts cds w q \<and> file_data w q = None \<and> (\<forall>cd \<in> set cds. cd_live cd \<noteq> q))"

lemma database_repaired:
  assumes "database_site ex opts db cds w"
    and "\<And>L. fit_file ex opts cds w L \<Longrightarrow> repaired cds L (file_data w L) w'"
  shows "plain_database db w'"
proof -
  have "file_data w' q = None" if "q \<in> sidecars db" for q
  proof -
    have q: "fit_file ex opts cds w q" "file_data w q = None" "\<forall>cd \<in> set cds. cd_live cd \<noteq> q"
      using assms(1) that unfolding database_site_def by blast+
    from assms(2) [OF q(1)] q(2,3) show ?thesis by (simp add: repaired_def left_alone_def)
  qed
  moreover have "file_data w' db \<noteq> None"
  proof -
    have "fit_file ex opts cds w db" using assms(1) by (simp add: database_site_def)
    then have r: "repaired cds db (file_data w db) w'" by (rule assms(2))
    show ?thesis
    proof (cases "\<exists>cd \<in> set cds. cd_live cd = db")
      case True
      with r show ?thesis by (auto simp: repaired_def page_there_def)
    next
      case False
      with r assms(1) show ?thesis by (auto simp: repaired_def left_alone_def database_site_def)
    qed
  qed
  ultimately show ?thesis by (simp add: plain_database_def)
qed

lemma tasks_repaired:
  assumes "run_tasks ex opts hdr headers w = (Exited Success None, w')" and "no_injection opts"
    and "sqlite_reads (ex_integrity ex)"
    and site: "apply_site opts hdr headers evs cds w" and fit: "fit_file ex opts cds w L"
    and db: "has_sqlite headers \<Longrightarrow> database_site ex opts (main_sqlite (ph_path hdr)) cds w
      \<and> L \<notin> sidecars (main_sqlite (ph_path hdr))"
  shows "repaired cds L (file_data w L) w'"
proof -
  let ?dir = "staging_root opts" and ?root = "ph_path hdr" and ?X = "backups (staging_root opts)"
  have abs: "is_abs (ao_plan opts)" and q0: "quiet w" and oL: "outside ?dir L"
    using site fit by (auto simp: apply_site_def fit_file_def units_fit_def)
  note dir = staging_root_shape [OF abs]
  obtain w1 infos n w2 where st: "run_staging opts hdr w = (Inr ?dir, w1)"
    and sc: "run_scan opts (go_dir ?root) ?root headers ?dir w1 = (Inr (infos, n), w2)" and z: "n = 0 \<Longrightarrow> w' = w2"
    and nz: "n \<noteq> 0 \<Longrightarrow> \<exists>sh w3 s w4. take_shadows ?dir infos [] w2 = (Inr sh, w3)
        \<and> run_workers ex opts (go_dir ?root) ?root headers ?dir n w3 = (Inr s, w4)
        \<and> run_after_pool ex opts (go_dir ?root) ?root headers ?dir sh s w4 = (Exited Success None, w')"
    using run_tasks_success [OF assms(1)] by metis
  show ?thesis
  proof (cases "n = 0")
    case True
    have "cds = []" "file_data w2 L = file_data w L"
      using scan_nothing [OF st sc [unfolded True] site fit] by simp_all
    then show ?thesis using repaired_nothing [of L w2] z [OF True] by simp
  next
    case False
    with nz obtain sh w3 s w4 where ts: "take_shadows ?dir infos [] w2 = (Inr sh, w3)"
      and rw: "run_workers ex opts (go_dir ?root) ?root headers ?dir n w3 = (Inr s, w4)"
      and ap: "run_after_pool ex opts (go_dir ?root) ?root headers ?dir sh s w4 = (Exited Success None, w')" by auto
    obtain w6 where v: "run_verify ex opts (go_dir ?root) ?root headers sh w4 = (Inr (), w6)" and w': "w' = cleanup_staging ?dir sh w6"
      and u: "unflagged s"
      using ap by (auto simp: run_after_pool_def roll_back_def execute_rollback_def unflagged_def Let_def
          dest: run_verify_not_success split: prod.splits sum.splits if_splits)
    note r = workers_repaired [OF st sc ts rw u site]
    have "spares L ?X w4 w6"
    proof (rule run_verify_spares [OF v assms(2,3)])
      assume h: "has_sqlite headers"
      have "plain_database (main_sqlite ?root) w4"
        by (rule database_repaired [OF conjunct1 [OF db [OF h]]]) (rule conjunct1 [OF r])
      with db [OF h] show "plain_database (main_sqlite ?root) w4 \<and> L \<notin> sidecars (main_sqlite ?root)" by blast
    qed
    moreover have "spares L ?X w6 w'" unfolding w' using cleanup_spares [OF oL _ dir] r [OF fit] by blast
    ultimately have "spares L ?X w4 w'" by (rule spares_trans)
    then have "file_data w' L = file_data w4 L" using sparesD r [OF fit] by blast
    from repaired_same [OF this] r [OF fit] show ?thesis by simp
  qed
qed

end
