(* ===== verification/Repair.thy ===== *)
theory Repair
  imports EndToEnd DiagnoseExact ApplyRepair
begin

text \<open>
  Diagnose and apply together repair the local data: after a successful diagnose and a successful apply of
  its plan, without faults, every whole file and every page of the manifest is in place, so that a second
  diagnose would find nothing.
\<close>

section \<open>The units of an emitted plan\<close>

definition page_unit :: "string \<Rightarrow> string \<Rightarrow> plan_page \<Rightarrow> candidate" where
  "page_unit db path p =
     \<lparr>cd_id = path @ '':'' @ fmt_int (pp_offset p), cd_path = path, cd_hash = pp_hash p, cd_live = join_rel db path,
      cd_absent = False, cd_offset = pp_offset p\<rparr>"

definition file_unit :: "string \<Rightarrow> divergence \<Rightarrow> candidate" where
  "file_unit db d =
     \<lparr>cd_id = d_path d, cd_path = d_path d, cd_hash = d_expected_hash d, cd_live = join_rel db (d_path d),
      cd_absent = (d_expected_source d = ''fetch_full''), cd_offset = -1\<rparr>"

definition plan_units :: "string \<Rightarrow> divergence list \<Rightarrow> candidate list" where
  "plan_units db ds =
     concat (map (\<lambda>d. map (page_unit db (d_path d)) (d_pages d)) ds) @
     map (file_unit db) (filter (\<lambda>d. d_kind d = kind_whole_file) ds)"

text \<open>Divergences whose strings pass through the plan file unchanged.\<close>

definition clean_divergence :: "divergence \<Rightarrow> bool" where
  "clean_divergence d \<longleftrightarrow> sanitize (d_kind d) = d_kind d \<and> sanitize (d_path d) = d_path d \<and>
     sanitize (d_expected_hash d) = d_expected_hash d \<and> sanitize (d_expected_source d) = d_expected_source d \<and>
     (\<forall>p \<in> set (d_pages d). clean_page p = p)"

lemma resolve_join: "resolve_live_path (go_dir db) db p = join_rel db p"
  by (simp add: resolve_live_path_def join_rel_def)

lemma clean_header:
  "clean_divergence d \<Longrightarrow> header_of i d =
     \<lparr>dh_index = i, dh_kind = d_kind d, dh_path = d_path d, dh_hash = d_expected_hash d,
      dh_source = d_expected_source d, dh_pages = (d_pages d \<noteq> [])\<rparr>"
  by (simp add: clean_divergence_def header_of_def)

lemma headers_nth: "i < length ds \<Longrightarrow> headers_of ds ! i = header_of i (ds ! i)"
  by (simp add: headers_of_def nth_enumerate_eq)

lemma div_candidates:
  assumes "i < length ds" and "clean_divergence (ds ! i)"
  shows "page_candidates (go_dir db) db (headers_of ds) (div_events i (ds ! i)) =
     map Some (map (page_unit db (d_path (ds ! i))) (d_pages (ds ! i)))"
proof -
  have l: "i < length (headers_of ds)" using assms(1) by (simp add: headers_of_def)
  have h: "dh_path (headers_of ds ! i) = d_path (ds ! i)" by (simp add: headers_nth [OF assms(1)] clean_header [OF assms(2)])
  have "concat (map (\<lambda>p. page_candidate (go_dir db) db (headers_of ds) (OnePage i (clean_page p))) ps) =
      map Some (map (page_unit db (d_path (ds ! i))) ps)" if "\<forall>p \<in> set ps. clean_page p = p" for ps
    using that l h by (induction ps) (simp_all add: page_unit_def resolve_join Let_def)
  then show ?thesis
    using assms(2) l by (simp add: page_candidates_def div_events_def clean_divergence_def comp_def)
qed

lemma concat_map_concat: "concat (map f (concat (map g xs))) = concat (map (\<lambda>x. concat (map f (g x))) xs)"
  by (induction xs) simp_all

lemma plan_candidates:
  assumes "\<forall>d \<in> set ds. clean_divergence d"
  shows "page_candidates (go_dir db) db (headers_of ds) (events_of ds) @ whole_candidates (go_dir db) db (headers_of ds) =
     map Some (plan_units db ds)"
proof -
  have "concat (map (\<lambda>(i, d). page_candidates (go_dir db) db (headers_of ds) (div_events i d)) xs) =
      map Some (concat (map (\<lambda>(i, d). map (page_unit db (d_path d)) (d_pages d)) xs))"
    if "set xs \<subseteq> set (enumerate 0 ds)" for xs
    using that
  proof (induction xs)
    case (Cons x xs)
    obtain i d where x: "x = (i, d)" by fastforce
    then have "i < length ds" "d = ds ! i" using Cons.prems by (auto simp: in_set_enumerate_eq)
    with div_candidates [of i ds db] Cons assms x show ?case by simp
  qed simp
  from this [of "enumerate 0 ds"]
  have p: "page_candidates (go_dir db) db (headers_of ds) (events_of ds) =
      map Some (concat (map (\<lambda>(i, d). map (page_unit db (d_path d)) (d_pages d)) (enumerate 0 ds)))"
    unfolding page_candidates_def events_of_def concat_map_concat by (simp add: split_def)
  have e: "map (\<lambda>(i, d). f d) (enumerate n xs) = map f xs" for f :: "divergence \<Rightarrow> 'a" and n xs
    by (induction xs arbitrary: n) auto
  have "whole_candidates (go_dir db) db (map (\<lambda>(i, d). header_of i d) xs) =
      map Some (map (file_unit db) (filter (\<lambda>d. d_kind d = kind_whole_file) (map snd xs)))"
    if "\<forall>x \<in> set xs. clean_divergence (snd x)" for xs
    using that by (induction xs) (auto simp: whole_candidates_def clean_header file_unit_def resolve_join)
  from this [of "enumerate 0 ds"] have w: "whole_candidates (go_dir db) db (headers_of ds) =
      map Some (map (file_unit db) (filter (\<lambda>d. d_kind d = kind_whole_file) ds))"
    using assms enumerate_in by (fastforce simp: headers_of_def)
  show ?thesis unfolding p w plan_units_def e by simp
qed


section \<open>What a manifest with checked hashes has to repair\<close>

definition canonical_manifest :: "manifest \<Rightarrow> bool" where
  "canonical_manifest m \<longleftrightarrow> (\<forall>e \<in> set (m_entries m).
     (me_kind e = entry_kind_sqlite_pages \<longrightarrow> (\<forall>p \<in> set (me_pages e). is_canon_hash (mp_hash p))) \<and>
     (me_kind e = entry_kind_whole_file \<longrightarrow> is_canon_hash (me_hash e)))"

lemma missing_in: "p \<in> set (missing_pages loc ms) \<Longrightarrow> \<exists>q \<in> set ms. p = to_plan_page q"
  by (auto simp: missing_pages_def split: option.splits)

lemma page_findings_in:
  assumes "d \<in> set (page_findings w db e)"
  shows "me_kind e = entry_kind_sqlite_pages" "d = sqlite_divergence (me_path e) (d_pages d)"
    "d_pages d = missing_pages (file_data w (join_rel db (me_path e))) (me_pages e)" "d_pages d \<noteq> []"
  using assms by (auto simp: page_findings_def sqlite_divergence_def Let_def split: if_splits)

lemma file_findings_in:
  assumes "d \<in> set (file_findings w db e)"
  shows "me_kind e = entry_kind_whole_file" "\<exists>src \<in> {[], ''fetch_full''}. d = whole_divergence e src"
  using assms by (auto simp: file_findings_def split: if_splits option.splits)

lemma sources_clean: "src \<in> {[], ''fetch_full''} \<Longrightarrow> sanitize src = src"
  by (auto intro!: sanitize_valid valid_utf8_ascii)

lemma page_finding_ok:
  assumes "d \<in> set (page_findings w db e)" and "wf_entry e" and "entry_accepted e"
    and "\<forall>p \<in> set (me_pages e). is_canon_hash (mp_hash p)"
  shows "sqlite_ok d \<and> clean_divergence d \<and> (\<forall>p \<in> set (d_pages d). is_canon_hash (pp_hash p)) \<and> d_kind d \<noteq> kind_whole_file"
proof -
  note f = page_findings_in [OF assms(1)]
  have s: "d = sqlite_divergence sqlite_entry_path (d_pages d)" using f(1,2) assms(3) by (simp add: entry_accepted_def)
  then have v: "d_kind d = kind_sqlite_pages" "d_path d = sqlite_entry_path" "d_expected_hash d = []" "d_expected_source d = []"
    by (metis divergence.select_convs sqlite_divergence_def)+
  have p: "is_canon_hash (pp_hash p) \<and> int64 (pp_offset p)" if "p \<in> set (d_pages d)" for p
    using missing_in [OF that [unfolded f(3)]] assms(2,4) by (auto simp: to_plan_page_def wf_entry_def)
  then have c: "\<forall>p \<in> set (d_pages d). clean_page p = p" using canon_hash_clean by (simp add: clean_page_def)
  have "sanitize sqlite_entry_path = sqlite_entry_path" by (rule sanitize_valid [OF valid_sqlite_path])
  then have "clean_divergence d" using c sources_clean [of "[]"] by (simp add: clean_divergence_def v valid_kinds)
  moreover have "wf_divergence d" using p by (simp add: wf_divergence_def)
  ultimately show ?thesis using s f(4) p kinds_distinct by (auto simp: sqlite_ok_def v)
qed

lemma file_finding_ok:
  assumes "d \<in> set (file_findings w db e)" and "wf_entry e" and "entry_accepted e" and "is_canon_hash (me_hash e)"
  shows "whole_ok d \<and> clean_divergence d \<and> is_canon_hash (d_expected_hash d) \<and> d_path d = me_path e
     \<and> d_kind d = kind_whole_file \<and> d_pages d = []"
proof -
  obtain src where src: "src \<in> {[], ''fetch_full''}" and d: "d = whole_divergence e src"
    using file_findings_in [OF assms(1)] by blast
  have "sanitize (me_path e) = me_path e" using assms(2) by (simp add: wf_entry_def sanitize_valid)
  with sources_clean [OF src] canon_hash_clean [OF assms(4)] assms(3,4) show ?thesis
    by (simp add: d whole_divergence_def clean_divergence_def whole_ok_def valid_kinds entry_accepted_def)
qed

lemma findings_ok:
  assumes "wf_manifest m" and "canonical_manifest m" and "\<forall>e \<in> set (m_entries m). entry_accepted e"
    and "d \<in> set (findings w db m)"
  shows "(sqlite_ok d \<or> whole_ok d) \<and> clean_divergence d \<and> (\<forall>p \<in> set (d_pages d). is_canon_hash (pp_hash p))
     \<and> (d_kind d = kind_whole_file \<longrightarrow> is_canon_hash (d_expected_hash d))"
proof -
  obtain e where e: "e \<in> set (m_entries m)" and d: "d \<in> set (page_findings w db e) \<or> d \<in> set (file_findings w db e)"
    using assms(4) by (auto simp: findings_def)
  have we: "wf_entry e" "entry_accepted e" using assms(1,3) e by (simp_all add: wf_manifest_def)
  from d show ?thesis
  proof
    assume p: "d \<in> set (page_findings w db e)"
    then have "\<forall>p \<in> set (me_pages e). is_canon_hash (mp_hash p)"
      using page_findings_in(1) [OF p] assms(2) e by (simp add: canonical_manifest_def)
    from page_finding_ok [OF p we this] show ?thesis by simp
  next
    assume f: "d \<in> set (file_findings w db e)"
    then have "is_canon_hash (me_hash e)" using file_findings_in(1) [OF f] assms(2) e by (simp add: canonical_manifest_def)
    from file_finding_ok [OF f we this] show ?thesis by simp
  qed
qed


section \<open>Apply on the plan\<close>

lemma run_checks_unfinished: "run_checks opts w = (Inl r, w') \<Longrightarrow> r \<noteq> Exited Success e"
  by (auto simp: run_checks_def and_then_def run_gate_def run_self_hash_def run_validate_def run_freshness_def
      run_pocketdb_def split: prod.splits sum.splits if_splits option.splits)

text \<open>What the checks hand on, when they pass, is what the emitter was given.\<close>

lemma emitted_plan_read:
  assumes "int64 (ci_block_height ci)" and "\<forall>d \<in> set ds. wf_divergence d"
    and "\<forall>h \<in> set (headers_of ds). validate_header_shape h = Inr ()"
    and "valid_utf8 url" and "valid_utf8 path" and "valid_utf8 (ci_manifest_hash ci)" and "valid_utf8 (ci_core_version ci)"
    and "quiet w" and "file_data w (ao_plan opts) = Some (plan_text (emitted_plan ci url path ds))"
    and "run_checks opts w = (Inr (hdr, headers), w')"
  shows "ph_path hdr = path \<and> headers = headers_of ds \<and> fst (stream_pages (ao_plan opts) w') = (events_of ds, False)
     \<and> untouched w w'"
proof -
  let ?t = "plan_text (emitted_plan ci url path ds)"
  note pass = emitted_passes [OF assms(1-7)]
  have rp: "read_plan (ao_plan opts) v = (Inr ?t, tick (tick v))" if "untouched w v" for v
    using read_plan_quiet [of v "ao_plan opts" ?t] fs_file_data [of v w] framed_quiet [of "{}" w v] that assms(8,9)
    by (simp add: untouched_def)
  obtain hdr1 w1 u2 w2 headers1 w3 u4 w4 u5 w5 where
    1: "run_gate opts w = (Inr hdr1, w1)" and 2: "run_self_hash opts w1 = (Inr u2, w2)"
    and 3: "run_validate opts w2 = (Inr headers1, w3)" and e: "hdr = hdr1" "headers = headers1"
    using assms(10) by (auto simp: run_checks_def and_then_def split: prod.splits sum.splits)
  have "untouched w w1" using run_gate_reads [of opts] 1 by (metis reads_only_def snd_conv)
  moreover have "untouched w1 w2" using run_self_hash_reads [of opts] 2 by (metis reads_only_def snd_conv)
  ultimately have u2: "untouched w w2" by (rule untouched_trans)
  have "ph_path hdr1 = path"
    using 1 rp [of w] pass(1) by (auto simp: run_gate_def split: if_splits)
  moreover have "headers1 = headers_of ds"
    using 3 rp [OF u2] pass(3) by (auto simp: run_validate_def stream_headers_def split: prod.splits sum.splits)
  moreover have u: "untouched w w'" using run_checks_reads [of opts] assms(10) by (metis reads_only_def snd_conv)
  ultimately show ?thesis using rp [OF u] pass(4) e by (simp add: stream_pages_def)
qed

section \<open>Repair\<close>

text \<open>A page that was missing has been written, one that was there has been left.\<close>

lemma pages_done:
  assumes "repaired cds L f0 w'"
    and "\<And>q. q \<in> set ms \<Longrightarrow> to_plan_page q \<in> set (missing_pages f0 ms) \<Longrightarrow>
      \<exists>cd \<in> set cds. cd_live cd = L \<and> cd_offset cd = mp_offset q \<and> cd_hash cd = mp_hash q"
    and "\<And>q d0 cd. q \<in> set ms \<Longrightarrow> f0 = Some d0 \<Longrightarrow> page_in_file d0 q \<Longrightarrow> cd \<in> set cds \<Longrightarrow> cd_live cd = L \<Longrightarrow>
      cd_offset cd \<noteq> mp_offset q"
  shows "missing_pages (file_data w' L) ms = []"
proof -
  have pif: "page_in_file d q \<longleftrightarrow> (\<exists>k. mp_offset q = int (4096 * k) \<and> has_slot d k \<and> mp_hash q = sha256_hex (slot d k))" for d q
  proof -
    have "k < length d div 4096 \<longleftrightarrow> has_slot d k" for k by (auto simp: has_slot_def less_eq_div_iff_mult_less_eq Suc_le_eq [symmetric])
    then show ?thesis by (auto simp: page_in_file_def page_size_def file_page_def slot_def mult.commute)
  qed
  have ok: "\<exists>d. file_data w' L = Some d \<and> page_in_file d q" if q: "q \<in> set ms" for q
  proof (cases "\<exists>d0. f0 = Some d0 \<and> page_in_file d0 q")
    case True
    then obtain d0 k where d0: "f0 = Some d0" "page_in_file d0 q" and k: "mp_offset q = int (4096 * k)" "has_slot d0 k"
      "mp_hash q = sha256_hex (slot d0 k)" unfolding pif by blast
    have "cd_offset cd \<noteq> int (4096 * k)" if "cd \<in> set cds" "cd_live cd = L" for cd
      using assms(3) [OF q d0 that] k(1) by simp
    with assms(1) d0(1) k(2) have s: "has_slot (contents_or_empty w' L) k" "slot (contents_or_empty w' L) k = slot d0 k"
      by (auto simp: repaired_def others_kept_def)
    have "file_data w' L = Some (contents_or_empty w' L)"
      using s(1) by (auto simp: contents_or_empty_def has_slot_def split: option.splits)
    then show ?thesis using s k unfolding pif by auto
  next
    case False
    then have "to_plan_page q \<in> set (missing_pages f0 ms)" using q by (auto simp: missing_pages_def split: option.split)
    then obtain cd where "cd \<in> set cds" "cd_live cd = L" "cd_offset cd = mp_offset q" "cd_hash cd = mp_hash q"
      using assms(2) [OF q] by blast
    then have "page_there w' L (mp_offset q) (mp_hash q)" using assms(1) by (force simp: repaired_def)
    then show ?thesis unfolding page_there_def pif by auto
  qed
  show ?thesis
  proof (cases "file_data w' L")
    case None
    with ok have "ms = []" by (cases ms) auto
    then show ?thesis by (simp add: missing_pages_def split: option.split)
  next
    case (Some d)
    with ok show ?thesis by (auto simp: missing_pages_def filter_empty_conv)
  qed
qed

text \<open>
  Each local file belongs to one entry of the manifest, and a file named like the database is described page by page.
\<close>

definition one_home :: "string \<Rightarrow> manifest \<Rightarrow> bool" where
  "one_home db m \<longleftrightarrow> distinct (map (\<lambda>e. join_rel db (me_path e)) (m_entries m)) \<and>
     (\<forall>e \<in> set (m_entries m). me_kind e = entry_kind_whole_file \<longrightarrow> \<not> has_suffix (me_path e) ''main.sqlite3'')"

lemma one_home_inj:
  "one_home db m \<Longrightarrow> e \<in> set (m_entries m) \<Longrightarrow> e' \<in> set (m_entries m) \<Longrightarrow> join_rel db (me_path e) = join_rel db (me_path e') \<Longrightarrow> e = e'"
  by (auto simp: one_home_def distinct_map dest: inj_onD)

lemma page_kinds: "d \<in> set (page_findings w db e) \<Longrightarrow> d_kind d \<noteq> kind_whole_file"
  using page_findings_in(2) kinds_distinct by (metis divergence.select_convs(1) sqlite_divergence_def)

lemma file_kinds: "d \<in> set (file_findings w db e) \<Longrightarrow> d_kind d = kind_whole_file"
  using file_findings_in(2) by (fastforce simp: whole_divergence_def)

lemma finding_path: "d \<in> set (page_findings w db e) \<or> d \<in> set (file_findings w db e) \<Longrightarrow> d_path d = me_path e"
proof (elim disjE)
  assume "d \<in> set (page_findings w db e)"
  from page_findings_in(2) [OF this] show ?thesis by (metis divergence.select_convs(2) sqlite_divergence_def)
next
  assume "d \<in> set (file_findings w db e)"
  from file_findings_in(2) [OF this] show ?thesis by (auto simp: whole_divergence_def)
qed

lemma whole_paths:
  assumes "\<forall>d \<in> set (findings w db m). clean_divergence d"
  shows "map dh_path (whole_headers (headers_of (findings w db m))) =
     map me_path (filter (\<lambda>e. file_findings w db e \<noteq> []) (m_entries m))"
proof -
  have "map dh_path (whole_headers (map (\<lambda>(i, d). header_of i d) xs)) =
      map d_path (filter (\<lambda>d. d_kind d = kind_whole_file) (map snd xs))" if "\<forall>x \<in> set xs. clean_divergence (snd x)" for xs
    using that by (induction xs) (auto simp: whole_headers_def clean_header)
  from this [of "enumerate 0 (findings w db m)"]
  have "map dh_path (whole_headers (headers_of (findings w db m))) =
      map d_path (filter (\<lambda>d. d_kind d = kind_whole_file) (findings w db m))"
    using assms enumerate_in by (fastforce simp: headers_of_def)
  also have "filter (\<lambda>d. d_kind d = kind_whole_file) (findings w db m) = concat (map (file_findings w db) (m_entries m))"
  proof -
    have "filter (\<lambda>d. d_kind d = kind_whole_file) (concat (map (page_findings w db) es)) = []"
      "filter (\<lambda>d. d_kind d = kind_whole_file) (concat (map (file_findings w db) es)) = concat (map (file_findings w db) es)" for es
      by (auto intro!: filter_False filter_True dest: page_kinds file_kinds)
    then show ?thesis by (simp add: findings_def)
  qed
  also have "map d_path (concat (map (file_findings w db) es)) = map me_path (filter (\<lambda>e. file_findings w db e \<noteq> []) es)" for es
    by (induction es) (auto simp: file_findings_def whole_divergence_def split: option.splits)
  finally show ?thesis .
qed

lemma unit_cases:
  assumes "cd \<in> set (plan_units db (findings w db m))"
    and "wf_manifest m" and "canonical_manifest m" and "\<forall>e \<in> set (m_entries m). entry_accepted e"
  obtains (page) e p where "e \<in> set (m_entries m)" "me_kind e = entry_kind_sqlite_pages"
      "p \<in> set (missing_pages (file_data w (join_rel db (me_path e))) (me_pages e))"
      "cd = page_unit db (me_path e) p"
  | (doc) e d where "e \<in> set (m_entries m)" "me_kind e = entry_kind_whole_file" "d \<in> set (file_findings w db e)"
      "cd_live cd = join_rel db (me_path e)"
proof -
  have we: "wf_entry e" "entry_accepted e" if "e \<in> set (m_entries m)" for e
    using that assms(2,4) by (simp_all add: wf_manifest_def)
  have F: "d_pages d = []" if "d \<in> set (file_findings w db e)" for d e
    using file_findings_in(2) [OF that] by (auto simp: whole_divergence_def)
  obtain d where d: "d \<in> set (findings w db m)"
    and cd: "(\<exists>p \<in> set (d_pages d). cd = page_unit db (d_path d) p) \<or> (d_kind d = kind_whole_file \<and> cd = file_unit db d)"
    using assms(1) by (auto simp: plan_units_def)
  then obtain e where e: "e \<in> set (m_entries m)" "d \<in> set (page_findings w db e) \<or> d \<in> set (file_findings w db e)"
    by (auto simp: findings_def)
  show thesis
    using e(2)
  proof
    assume x: "d \<in> set (page_findings w db e)"
    with cd page_kinds obtain p where "p \<in> set (d_pages d)" "cd = page_unit db (d_path d) p" by blast
    with page [OF e(1)] page_findings_in(1,3) [OF x] finding_path [OF disjI1 [OF x]] show thesis by simp
  next
    assume x: "d \<in> set (file_findings w db e)"
    with cd F have "cd = file_unit db d" by fastforce
    with doc [OF e(1) file_findings_in(1) [OF x] x] finding_path [OF disjI2 [OF x]] show thesis by (simp add: file_unit_def)
  qed
qed


text \<open>
  The site on which apply starts: no staging directory, no hard links of the files at stake, units that
  fit beside each other and beside every file of the manifest, and no journal or log beside the database, on the
  disk or in the manifest.
\<close>

definition apply_ready ::
  "externals \<Rightarrow> apply_options \<Rightarrow> os \<Rightarrow> string \<Rightarrow> manifest \<Rightarrow> candidate list \<Rightarrow> bool" where
  "apply_ready ex opts v db m cds \<longleftrightarrow>
     (\<forall>q. in_tree (staging_root opts) q \<longrightarrow> node_at v q = None) \<and>
     outside (staging_root opts) (ao_plan opts) \<and> shielded (ao_plan opts) {} v \<and>
     (\<forall>e \<in> set (m_entries m). units_fit (staging_root opts) (join_rel db (me_path e)) cds
        \<and> shielded (join_rel db (me_path e)) {} v) \<and>
     db_pages (pool_ctx_of ex opts) (main_sqlite db) (net v) cds \<and>
     (\<forall>q \<in> sidecars (main_sqlite db). file_data v q = None \<and> shielded q {} v \<and> units_fit (staging_root opts) q cds
        \<and> (\<forall>e \<in> set (m_entries m). join_rel db (me_path e) \<noteq> q))"

lemma database_path: "join_rel db sqlite_entry_path = main_sqlite db"
proof -
  have "trim_prefix ''pocketdb/main.sqlite3'' ''pocketdb/'' = ''main.sqlite3''" by code_simp
  then show ?thesis unfolding join_rel_def main_sqlite_def sqlite_entry_path_def by simp
qed

text \<open>The plan names the database only for pages that it lacks.\<close>

lemma database_named:
  assumes "has_sqlite (headers_of (findings w db m))" and "wf_manifest m" "canonical_manifest m" "one_home db m"
    and "\<forall>e \<in> set (m_entries m). entry_accepted e"
  shows "\<exists>e \<in> set (m_entries m). join_rel db (me_path e) = main_sqlite db
     \<and> (\<exists>cd \<in> set (plan_units db (findings w db m)). cd_live cd = main_sqlite db)"
proof -
  let ?F = "findings w db m"
  have ok: "\<forall>d \<in> set ?F. clean_divergence d" using findings_ok [OF assms(2,3,5)] by blast
  obtain h where "h \<in> set (headers_of ?F)" and s: "has_suffix (dh_path h) ''main.sqlite3''"
    using assms(1) by (auto simp: has_sqlite_def list_ex_iff)
  then obtain i d where "h = header_of i d" and d: "d \<in> set ?F" using enumerate_in by (fastforce simp: headers_of_def)
  then have h: "dh_path h = d_path d" using ok by (simp add: clean_header)
  obtain e where e: "e \<in> set (m_entries m)" and f: "d \<in> set (page_findings w db e) \<or> d \<in> set (file_findings w db e)"
    using d by (auto simp: findings_def)
  have pe: "d_path d = me_path e" by (rule finding_path [OF f])
  have "d \<notin> set (file_findings w db e)"
    using file_findings_in(1) assms(4) e s unfolding one_home_def h pe by blast
  then have p: "d \<in> set (page_findings w db e)" using f by blast
  note i = page_findings_in [OF p]
  have "me_path e = sqlite_entry_path" using i(1) assms(5) e by (simp add: entry_accepted_def)
  then have l: "join_rel db (me_path e) = main_sqlite db" by (simp add: database_path)
  obtain pg where "pg \<in> set (d_pages d)" using i(4) by (cases "d_pages d") auto
  then have "page_unit db (d_path d) pg \<in> set (plan_units db ?F)" using d by (auto simp: plan_units_def)
  moreover have "cd_live (page_unit db (d_path d) pg) = main_sqlite db" by (simp add: page_unit_def pe l)
  ultimately show ?thesis using e l by blast
qed

lemma shielded_more: "shielded p {} w \<Longrightarrow> shielded p X w"
  by (auto simp: shielded_def)

lemma shielded_fs: "shielded p X w \<Longrightarrow> fs w' = fs w \<Longrightarrow> shielded p X w'"
  using sparesD [OF spares_fs] by blast

lemma offsets_unique:
  "sorted_wrt (<) (map mp_offset ms) \<Longrightarrow> p \<in> set ms \<Longrightarrow> q \<in> set ms \<Longrightarrow> mp_offset p = mp_offset q \<Longrightarrow> p = q"
  by (induction ms) fastforce+

lemma tasks_repair_all:
  assumes run: "run_tasks ex opts hdr (headers_of (findings w db m)) v = (Exited Success None, w')"
    and "no_injection opts" and "lawful_order ex" and "sqlite_reads (ex_integrity ex)" and "is_abs (ao_plan opts)"
    and "quiet v" and "fst (stream_pages (ao_plan opts) v) = (events_of (findings w db m), False)"
    and root: "ph_path hdr = db" "is_abs db"
    and m: "wf_manifest m" "canonical_manifest m" "ascending_pages m" "one_home db m"
      "\<forall>e \<in> set (m_entries m). entry_accepted e"
    and ready: "apply_ready ex opts v db m (plan_units db (findings w db m))"
    and same: "\<And>e. e \<in> set (m_entries m) \<Longrightarrow> file_data v (join_rel db (me_path e)) = file_data w (join_rel db (me_path e))"
  shows "findings w' db m = []"
proof -
  let ?F = "findings w db m" and ?dir = "staging_root opts"
  let ?cds = "plan_units db ?F"
  have ok: "\<forall>d \<in> set ?F. clean_divergence d" using findings_ok [OF m(1,2,5)] by blast
  note cds = plan_candidates [OF ok, of db]
  have clean: "dh_path h \<in> me_path ` set (m_entries m)" if hm: "h \<in> set (headers_of ?F)" for h
  proof -
    obtain i d where "h = header_of i d" "d \<in> set ?F" using hm enumerate_in by (fastforce simp: headers_of_def)
    then have h: "dh_path h = d_path d" and "d \<in> set ?F" using ok by (simp_all add: clean_header)
    then obtain e where "e \<in> set (m_entries m)" "d \<in> set (page_findings w db e) \<or> d \<in> set (file_findings w db e)"
      by (auto simp: findings_def)
    with finding_path h show ?thesis by auto
  qed
  have plain: "\<forall>h \<in> set (headers_of ?F). plain_path (dh_path h)"
    using clean m(5) by (fastforce simp: entry_accepted_def validate_entry_path_iff)
  have fit: "units_fit ?dir (join_rel db (me_path e)) ?cds" "shielded (join_rel db (me_path e)) {} v"
    if "e \<in> set (m_entries m)" for e using ready that by (simp_all add: apply_ready_def)
  have site: "apply_site opts hdr (headers_of ?F) (events_of ?F) ?cds v"
    using ready cds root assms(5-7) plain shielded_more by (simp add: apply_site_def apply_ready_def)
  have R: "repaired ?cds (join_rel db (me_path e)) (file_data w (join_rel db (me_path e))) w'"
    if e: "e \<in> set (m_entries m)" and "db_pages (pool_ctx_of ex opts) (join_rel db (me_path e)) (net v) ?cds" for e
  proof -
    have "repaired ?cds (join_rel db (me_path e)) (file_data v (join_rel db (me_path e))) w'"
    proof (rule tasks_repaired [OF run assms(2,4) site])
      show "fit_file ex opts ?cds v (join_rel db (me_path e))"
        using fit [OF e] that(2) shielded_more by (simp add: fit_file_def)
      assume "has_sqlite (headers_of ?F)"
      then obtain g where g: "g \<in> set (m_entries m)" "join_rel db (me_path g) = main_sqlite db"
        and u: "\<exists>cd \<in> set ?cds. cd_live cd = main_sqlite db"
        using database_named [OF _ m(1,2,4,5)] by blast
      have "fit_file ex opts ?cds v (main_sqlite db)"
        using fit [OF g(1)] g(2) ready shielded_more by (simp add: fit_file_def apply_ready_def)
      moreover have "fit_file ex opts ?cds v q \<and> file_data v q = None \<and> (\<forall>cd \<in> set ?cds. cd_live cd \<noteq> q)"
        if q: "q \<in> sidecars (main_sqlite db)" for q
      proof -
        have s: "file_data v q = None" "shielded q {} v" "units_fit ?dir q ?cds"
          and a: "\<And>e. e \<in> set (m_entries m) \<Longrightarrow> join_rel db (me_path e) \<noteq> q"
          using ready q by (auto simp: apply_ready_def)
        have "cd_live cd \<noteq> q" if "cd \<in> set ?cds" for cd
          using that m(1,2,5) by (cases rule: unit_cases) (use a in \<open>auto simp: page_unit_def\<close>)
        with s shielded_more show ?thesis by (auto simp: fit_file_def db_pages_def)
      qed
      ultimately have "database_site ex opts (main_sqlite db) ?cds v" using u unfolding database_site_def by blast
      moreover have "join_rel db (me_path e) \<notin> sidecars (main_sqlite db)" using ready e by (auto simp: apply_ready_def)
      ultimately show "database_site ex opts (main_sqlite (ph_path hdr)) ?cds v
          \<and> join_rel db (me_path e) \<notin> sidecars (main_sqlite (ph_path hdr))" by (simp add: root)
    qed
    then show ?thesis by (simp add: same [OF e])
  qed
  have "page_findings w' db e = [] \<and> file_findings w' db e = []" if e: "e \<in> set (m_entries m)" for e
  proof -
    let ?L = "join_rel db (me_path e)"
    have P: "page_findings w' db e = []" if k: "me_kind e = entry_kind_sqlite_pages"
    proof -
      have "me_path e = sqlite_entry_path" using m(5) e k by (simp add: entry_accepted_def)
      then have R: "repaired ?cds ?L (file_data w ?L) w'" using R [OF e] ready by (simp add: apply_ready_def database_path)
      have "missing_pages (file_data w' ?L) (me_pages e) = []"
      proof (rule pages_done [OF R])
        fix q assume q: "q \<in> set (me_pages e)" and mis: "to_plan_page q \<in> set (missing_pages (file_data w ?L) (me_pages e))"
        then have "page_unit db (me_path e) (to_plan_page q) \<in> set ?cds"
          using e k by (fastforce simp: plan_units_def findings_def page_findings_def sqlite_divergence_def Let_def)
        then show "\<exists>cd \<in> set ?cds. cd_live cd = ?L \<and> cd_offset cd = mp_offset q \<and> cd_hash cd = mp_hash q"
          by (force simp: page_unit_def to_plan_page_def)
      next
        fix q d0 cd assume q: "q \<in> set (me_pages e)" "file_data w ?L = Some d0" "page_in_file d0 q"
          and cd: "cd \<in> set ?cds" "cd_live cd = ?L"
        show "cd_offset cd \<noteq> mp_offset q"
          using cd(1) m(1,2,5)
        proof (cases rule: unit_cases)
          case (page e' p)
          then have "e' = e" using one_home_inj [OF m(4) page(1) e] cd(2) by (simp add: page_unit_def)
          then obtain q' where q': "q' \<in> set (me_pages e)" "\<not> page_in_file d0 q'" "p = to_plan_page q'"
            using page(3) q(2) by (auto simp: missing_pages_def)
          have "sorted_wrt (<) (map mp_offset (me_pages e))" using m(3) e by (simp add: ascending_pages_def)
          from offsets_unique [OF this q'(1) q(1)] q(3) q'(2,3) page(4) show ?thesis
            by (auto simp: page_unit_def to_plan_page_def)
        next
          case (doc e' d)
          have "e' = e" using one_home_inj [OF m(4) doc(1) e] cd(2) doc(4) by metis
          then show ?thesis using doc(2) k kinds_of_entries by metis
        qed
      qed
      then show ?thesis by (simp add: page_findings_def Let_def)
    qed
    have F: "file_findings w' db e = []" if k: "me_kind e = entry_kind_whole_file"
    proof (cases "file_findings w db e = []")
      case True
      have no: "cd_live cd \<noteq> ?L" if "cd \<in> set ?cds" for cd
        using that m(1,2,5)
      proof (cases rule: unit_cases)
        case (page e' p)
        then show ?thesis using one_home_inj [OF m(4) page(1) e] k kinds_of_entries by (auto simp: page_unit_def)
      next
        case (doc e' d)
        then show ?thesis using one_home_inj [OF m(4) doc(1) e] True by auto
      qed
      then have "db_pages (pool_ctx_of ex opts) ?L (net v) ?cds" by (simp add: db_pages_def)
      from R [OF e this] no have "file_data w' ?L = file_data w ?L" by (simp add: repaired_def left_alone_def)
      then have "file_findings w' db e = file_findings w db e" by (simp add: file_findings_def)
      with True show ?thesis by simp
    next
      case False
      then obtain d where d: "d \<in> set (file_findings w db e)" by (cases "file_findings w db e") auto
      then have dF: "d \<in> set ?F" using e by (auto simp: findings_def)
      have "is_canon_hash (me_hash e)" using m(2) e k by (simp add: canonical_manifest_def)
      then have dk: "d_path d = me_path e" "d_kind d = kind_whole_file" "d_expected_hash d = me_hash e"
        using file_findings_in(2) [OF d] by (auto simp: whole_divergence_def)
      obtain i where i: "i < length ?F" "?F ! i = d" using dF by (metis in_set_conv_nth)
      let ?h = "header_of i d"
      have h: "?h \<in> set (whole_headers (headers_of ?F))" "dh_path ?h = me_path e" "dh_hash ?h = me_hash e"
        using i dk ok dF by (auto simp: whole_headers_def clean_header headers_of_def in_set_enumerate_eq image_iff split_def
            intro!: bexI [of _ "(i, d)"])
      have live: "live_of hdr g = join_rel db (dh_path g)" for g by (simp add: live_of_def root resolve_join)
      have "map (live_of hdr) (whole_headers (headers_of ?F)) =
          map (join_rel db) (map dh_path (whole_headers (headers_of ?F)))" by (simp add: live)
      also have "\<dots> = map (\<lambda>e. join_rel db (me_path e)) (filter (\<lambda>e. file_findings w db e \<noteq> []) (m_entries m))"
        unfolding whole_paths [OF ok] by simp
      finally have dist: "distinct (map (live_of hdr) (whole_headers (headers_of ?F)))"
        using m(4) by (simp add: one_home_def distinct_map_filter)
      have "has_suffix ''pocketdb/main.sqlite3'' ''main.sqlite3''" by code_simp
      then have np: "me_path e \<noteq> ''pocketdb/main.sqlite3''" using m(4) e k unfolding one_home_def by metis
      have nt: "\<not> in_tree ?dir ?L" using fit(1) [OF e] by (simp add: units_fit_def outside_def)
      have "in_tree ?dir (marker_path ?dir (me_path e))"
        unfolding staging_names(1) [OF staging_root_shape [OF assms(5)]] by (simp add: in_tree_def has_prefix_iff)
      then have nm: "\<not> has_marker ?dir v (me_path e)" using ready by (simp add: apply_ready_def has_marker_def)
      from tasks_verified [OF run assms(2,3) _ assms(5) plain dist h(1)] root h live np nt nm
      obtain x where "file_data w' ?L = Some x" "sha256_hex x = me_hash e" by auto
      then show ?thesis by (simp add: file_findings_def)
    qed
    have "page_findings w' db e = []" if "me_kind e \<noteq> entry_kind_sqlite_pages" using that by (simp add: page_findings_def Let_def)
    moreover have "file_findings w' db e = []" if "me_kind e \<noteq> entry_kind_whole_file" using that by (simp add: file_findings_def)
    ultimately show ?thesis using P F by blast
  qed
  then show ?thesis by (simp add: findings_def)
qed


text \<open>
  C1. The two commands repair the node: when, without faults, diagnose succeeds against a server of the
  pinned manifest and apply then succeeds on the plan it left, every page and every whole file of the manifest
  is in its local file with the hash of the manifest; diagnosing again would find nothing. The manifest has
  canonical hashes and one entry per local file, only the database being named main.sqlite3, and apply starts
  without a staging directory on files without other hard links. The integrity check opens the
  database for writing: a journal or a write-ahead log beside it would be carried into the repaired pages.
  So none may be there when apply starts, or in the manifest; of the engine it is only assumed that a check of an existing
  database without them leaves every file but those alone. The scheduling of the
  downloads, the order of the checks and the contents of the local files before are arbitrary.
\<close>

theorem doctor_repairs:
  assumes "diagnose h opts w = (Finished Success None, w1)" and "quiet w" and "wf_os w"
    and "do_out opts \<notin> doctor_temps (do_out opts) (rnd w)"
    and "valid_utf8 (do_url opts)" "valid_utf8 (do_pinned opts)" "valid_utf8 (do_db opts)"
    and "abs_path h (do_db opts) = Some (do_db opts)" and "is_abs (do_db opts)" and "is_abs (do_out opts)"
    and "serves_manifest w opts m anchors" and "local_apart w opts m"
    and "\<forall>e \<in> set (m_entries m). join_rel (do_db opts) (me_path e) \<noteq> do_out opts"
    and "wf_manifest m" and "writable max_depth anchors" and "canonical_manifest m" and "ascending_pages m"
    and "one_home (do_db opts) m"
    and "apply_run ex aopts v = (Exited Success None, w')" and "fs v = fs w1" and "quiet v"
    and "ao_plan aopts = do_out opts" and "no_injection aopts" and "lawful_order ex"
    and "sqlite_reads (ex_integrity ex)"
    and "apply_ready ex aopts v (do_db opts) m (plan_units (do_db opts) (findings w (do_db opts) m))"
  shows "findings w' (do_db opts) m = []"
proof -
  let ?db = "do_db opts" and ?F = "findings w (do_db opts) m" and ?ci = "plan_identity opts (header_of_manifest m anchors)"
  have fd: "file_data w1 (do_out opts) = plan_marshal (emitted_plan ?ci (do_url opts) ?db ?F)"
    and acc: "\<forall>e \<in> set (m_entries m). entry_accepted e"
    using diagnosed_findings [OF assms(1-5) _ assms(11,12,14,15,17)] assms(7,8) by auto
  have ok: "(sqlite_ok d \<or> whole_ok d) \<and> clean_divergence d \<and> (\<forall>p \<in> set (d_pages d). is_canon_hash (pp_hash p))
     \<and> (d_kind d = kind_whole_file \<longrightarrow> is_canon_hash (d_expected_hash d))" if "d \<in> set ?F" for d
    by (rule findings_ok [OF assms(14,16) acc that])
  have wf: "\<forall>d \<in> set ?F. wf_divergence d" using findings_wf [OF assms(14)] by blast
  have shape: "\<forall>g \<in> set (headers_of ?F). validate_header_shape g = Inr ()"
    using ok enumerate_in unfolding headers_of_def by (fastforce intro: canon_header)
  have ci: "int64 (ci_block_height ?ci)" "valid_utf8 (ci_manifest_hash ?ci)" "valid_utf8 (ci_core_version ?ci)"
    using assms(6,14) by (simp_all add: plan_identity_def header_of_manifest_def wf_manifest_def)
  have plan: "file_data v (ao_plan aopts) = Some (plan_text (emitted_plan ?ci (do_url opts) ?db ?F))"
    using fd fs_file_data [OF assms(20)] plan_marshal_text [OF wf_emitted [OF ci(1) wf]] assms(22) by simp
  obtain hdr headers v0 where rc: "run_checks aopts v = (Inr (hdr, headers), v0)"
    using assms(19) run_checks_unfinished [of aopts v]
    by (auto simp: apply_run_def split: prod.splits sum.splits)
  have rd: "ph_path hdr = ?db" "headers = headers_of ?F" "fst (stream_pages (ao_plan aopts) v0) = (events_of ?F, False)"
    "untouched v v0"
    using emitted_plan_read [OF ci(1) wf shape assms(5,7) ci(2,3) assms(21) plan rc] by auto
  let ?o = "inherit_url aopts hdr"
  have o: "ao_plan ?o = ao_plan aopts" "staging_root ?o = staging_root aopts" "no_injection ?o"
    "pc_decoders (pool_ctx_of ex ?o) = pc_decoders (pool_ctx_of ex aopts)"
    using assms(23) by (simp_all add: inherit_url_def staging_root_def no_injection_def pool_ctx_of_def)
  have f0: "fs v0 = fs v" "quiet v0" "net v0 = net v"
    using rd(4) framed_quiet assms(21) by (auto simp: untouched_def framed_def)
  have ready: "apply_ready ex ?o v0 ?db m (plan_units ?db ?F)"
    using assms(26) o f0 fs_node_at [OF f0(1)] fs_file_data [OF f0(1)] shielded_fs [OF _ f0(1)] unfolding apply_ready_def db_pages_def by simp
  show ?thesis
  proof (rule tasks_repair_all [OF _ o(3) assms(24,25) _ f0(2) _ rd(1) assms(9,14,16,17,18) acc ready])
    show "run_tasks ex ?o hdr (headers_of ?F) v0 = (Exited Success None, w')"
      using assms(19) rc rd(2) by (simp add: apply_run_def)
    show "is_abs (ao_plan ?o)" "fst (stream_pages (ao_plan ?o) v0) = (events_of ?F, False)"
      using rd(3) assms(10,22) o(1) by simp_all
    show "file_data v0 (join_rel ?db (me_path e)) = file_data w (join_rel ?db (me_path e))" if "e \<in> set (m_entries m)" for e
      using plan_only_keeps [OF diagnose_plan_only [OF assms(1)] assms(3)] assms(12,13) that
        fs_file_data [OF f0(1)] fs_file_data [OF assms(20)] by (simp add: local_apart_def)
  qed
qed

end
