(* ===== verification/TreeView.thy ===== *)
theory TreeView
  imports ApplySuccess
begin

text \<open>
  The file system without its inodes: a map from names to folders and documents.  In a world without
  faults and without hard links (\<open>linkless\<close>), \<open>view\<close> abstracts the world to such a map, and each
  call acts on the view as its textbook description says (\<open>does\<close>).  The complete run of apply on a small
  world is computed on views.
\<close>

section \<open>Views\<close>

datatype obj = Folder | Doc bytes

type_synonym tree = "string \<rightharpoonup> obj"

fun obj_of :: "(nat \<Rightarrow> bytes) \<Rightarrow> node \<Rightarrow> obj" where
  "obj_of st DirN = Folder"
| "obj_of st (FileN i) = Doc (st i)"

definition view :: "os \<Rightarrow> tree" where
  "view w p = map_option (obj_of (store w)) (node_at w p)"

definition linkless :: "os \<Rightarrow> bool" where
  "linkless w \<longleftrightarrow> quiet w \<and> wf_os w \<and> (\<forall>p q i. node_at w p = Some (FileN i) \<longrightarrow> node_at w q = Some (FileN i) \<longrightarrow> p = q)"

text \<open>Without faults and links, \<open>f\<close> from \<open>w\<close> gives \<open>r\<close> and leaves the files \<open>t\<close>.\<close>

definition does :: "(os \<Rightarrow> 'r \<times> os) \<Rightarrow> os \<Rightarrow> 'r \<Rightarrow> tree \<Rightarrow> bool" where
  "does f w r t \<longleftrightarrow> (\<exists>w'. f w = (r, w') \<and> linkless w' \<and> net w' = net w \<and> view w' = t)"

lemma doesI: "f w = (r, w') \<Longrightarrow> linkless w' \<Longrightarrow> net w' = net w \<Longrightarrow> view w' = t \<Longrightarrow> does f w r t"
  by (auto simp: does_def)

lemma doesE:
  assumes "does f w r t"
  obtains w' where "f w = (r, w')" "linkless w'" "net w' = net w" "view w' = t"
  using assms by (auto simp: does_def)

lemma view_iff:
  "view w p = Some Folder \<longleftrightarrow> is_dir w p" "view w p = None \<longleftrightarrow> node_at w p = None"
  "view w p = Some (Doc d) \<longleftrightarrow> file_data w p = Some d"
  by (auto simp: view_def is_dir_def file_data_def elim: obj_of.elims split: option.split node.split)

lemma view_tick [simp]: "view (tick w) = view w" "linkless (tick w) = linkless w"
  by (simp_all add: view_def linkless_def fun_eq_iff)

lemma linkless_quiet: "linkless w \<Longrightarrow> quiet w"
  by (simp add: linkless_def)

lemma docE:
  assumes "view w p = Some (Doc d)"
  obtains i where "node_at w p = Some (FileN i)" "store w i = d" "names w p = Some (FileN i)" "p \<noteq> ''/''" "p \<noteq> ''.''"
  using assms by (auto simp: view_def node_at_def elim: obj_of.elims split: if_splits)

lemma unrooted: "view w p \<noteq> Some Folder \<Longrightarrow> p \<noteq> ''/'' \<and> p \<noteq> ''.''"
  by (auto simp: view_def node_at_def)

lemma linklessI:
  "quiet w \<Longrightarrow> (\<And>q k. names w q = Some (FileN k) \<Longrightarrow> k < next_ino w) \<Longrightarrow>
   (\<And>a b k. node_at w a = Some (FileN k) \<Longrightarrow> node_at w b = Some (FileN k) \<Longrightarrow> a = b) \<Longrightarrow> linkless w"
  unfolding linkless_def wf_os_def by blast

lemma linkless_fresh: "linkless w \<Longrightarrow> names w q = Some (FileN k) \<Longrightarrow> k < next_ino w"
  by (simp add: linkless_def wf_os_def)

lemma linkless_inj: "linkless w \<Longrightarrow> node_at w a = Some (FileN k) \<Longrightarrow> node_at w b = Some (FileN k) \<Longrightarrow> a = b"
  unfolding linkless_def by blast

section \<open>The calls\<close>

lemma does_stat: "linkless w \<Longrightarrow> view w p = None \<Longrightarrow> does (os_stat p) w (Inl NotExist) (view w)"
  by (rule doesI [where w' = "tick w"]) (simp_all add: os_stat_quiet linkless_quiet view_iff)

lemma does_noop: "linkless w \<Longrightarrow> does os_noop w (Inr ()) (view w)"
  by (rule doesI [where w' = "tick w"]) (simp_all add: os_noop_def syscall_quiet linkless_quiet)

lemma does_read_file: "linkless w \<Longrightarrow> view w p = Some (Doc d) \<Longrightarrow> does (read_file p) w (Inr d) (view w)"
  by (rule doesI [where w' = "tick w"]) (simp_all add: read_file_quiet linkless_quiet view_iff)

definition with_dirs :: "string list \<Rightarrow> tree \<Rightarrow> tree" where
  "with_dirs ps t = (\<lambda>q. if q \<in> set ps then Some Folder else t q)"

lemma does_mkdir_all:
  assumes "linkless w" and "\<forall>q \<in> set (ancestors p). view w q \<in> {None, Some Folder}"
  shows "does (mkdir_all p) w (Inr ()) (with_dirs (ancestors p) (view w))"
proof (rule doesI)
  let ?w = "mk_dirs (ancestors p) (tick w)"
  have a: "node_at w q = None \<or> is_dir w q" if "q \<in> set (ancestors p)" for q
    using assms(2) that view_iff(1,2) [of w q] by auto
  then show "mkdir_all p w = (Inr (), ?w)"
    using assms(1) by (simp add: mkdir_all_def syscall_quiet linkless_quiet list_all_iff)
  have n: "node_at ?w q = (if q \<in> set (ancestors p) then Some DirN else node_at w q)" for q
    by (auto simp: mk_dirs_def node_at_def)
  have s: "store ?w = store w" by (simp add: mk_dirs_def)
  show "linkless ?w"
  proof (rule linklessI)
    show "quiet ?w" using linkless_quiet [OF assms(1)] by (simp add: mk_dirs_def quiet_def)
    show "k < next_ino ?w" if "names ?w q = Some (FileN k)" for q k
      using that linkless_fresh [OF assms(1), of q k] by (simp add: mk_dirs_def split: if_split_asm)
    show "a = b" if "node_at ?w a = Some (FileN k)" "node_at ?w b = Some (FileN k)" for a b k
      using that linkless_inj [OF assms(1), of a k b] unfolding n by (simp split: if_split_asm)
  qed
  show "net ?w = net w" by (simp add: mk_dirs_def)
  show "view ?w = with_dirs (ancestors p) (view w)"
    by (auto simp: view_def with_dirs_def n s fun_eq_iff)
qed

lemma create_linkless:
  assumes "linkless w" and "view w p = None" and "view w (go_dir p) = Some Folder"
  shows "\<exists>w'. open_trunc p w = (Inr (next_ino w), w') \<and> linkless w' \<and> net w' = net w
     \<and> view w' = (view w)(p \<mapsto> Doc []) \<and> node_at w' p = Some (FileN (next_ino w))"
proof -
  let ?i = "next_ino w"
  let ?w = "(tick w)\<lparr>names := (names w)(p := Some (FileN ?i)), store := (store w)(?i := []), next_ino := Suc ?i\<rparr>"
  have p: "p \<noteq> ''/''" "p \<noteq> ''.''" "node_at w p = None" "is_dir w (go_dir p)"
    using assms(2,3) unrooted [of w p] view_iff(1) [of w "go_dir p"] view_iff(2) [of w p] by auto
  have o: "open_trunc p w = (Inr ?i, ?w)"
    using p assms(1) by (simp add: open_trunc_def syscall_quiet linkless_quiet new_file_def)
  have n: "node_at ?w q = (if q = p then Some (FileN ?i) else node_at w q)" for q
    using p by (auto simp: node_at_def)
  have wf: "node_at w q = Some (FileN i) \<Longrightarrow> i < ?i" for q i
    using linkless_fresh [OF assms(1), of q i] by (simp add: node_at_def split: if_split_asm)
  have l: "linkless ?w"
  proof (rule linklessI)
    show "quiet ?w" using linkless_quiet [OF assms(1)] by (simp add: quiet_def)
    show "k < next_ino ?w" if "names ?w q = Some (FileN k)" for q k
      using that linkless_fresh [OF assms(1), of q k] by (simp add: less_Suc_eq split: if_split_asm)
    show "a = b" if "node_at ?w a = Some (FileN k)" "node_at ?w b = Some (FileN k)" for a b k
      using that linkless_inj [OF assms(1), of a k b] wf [of a k] wf [of b k] unfolding n by (auto split: if_split_asm)
  qed
  have v: "view ?w = (view w)(p \<mapsto> Doc [])"
  proof
    fix q
    show "view ?w q = ((view w)(p \<mapsto> Doc [])) q"
      using wf [of q ?i]
      by (cases "node_at w q"; cases "the (node_at w q)") (auto simp: view_def n)
  qed
  have "node_at ?w p = Some (FileN ?i)" "net ?w = net w" by (simp_all add: n)
  with o l v show ?thesis by blast
qed

lemma append_linkless:
  assumes "linkless w" and "node_at w p = Some (FileN i)" and "view w p = Some (Doc d)"
  shows "does (append_ino i x) w (Inr ()) ((view w)(p \<mapsto> Doc (d @ x)))"
proof (rule doesI)
  let ?w = "(tick w)\<lparr>store := (store w)(i := store w i @ x)\<rparr>"
  show "append_ino i x w = (Inr (), ?w)" using assms(1) by (simp add: append_ino_def syscall_quiet linkless_quiet)
  have n: "node_at ?w q = node_at w q" for q by (simp add: node_at_def)
  show "linkless ?w"
  proof (rule linklessI)
    show "quiet ?w" using linkless_quiet [OF assms(1)] by (simp add: quiet_def)
    show "k < next_ino ?w" if "names ?w q = Some (FileN k)" for q k
      using that linkless_fresh [OF assms(1), of q k] by simp
    show "a = b" if "node_at ?w a = Some (FileN k)" "node_at ?w b = Some (FileN k)" for a b k
      using that linkless_inj [OF assms(1), of a k b] unfolding n by simp
  qed
  show "net ?w = net w" by simp
  have d: "store w i = d" using assms(2,3) by (simp add: view_def)
  have inj: "node_at w q = Some (FileN i) \<Longrightarrow> q = p" for q using linkless_inj [OF assms(1)] assms(2) by blast
  show "view ?w = (view w)(p \<mapsto> Doc (d @ x))"
  proof
    fix q
    show "view ?w q = ((view w)(p \<mapsto> Doc (d @ x))) q"
      using inj [of q] d assms(2)
      by (cases "node_at w q"; cases "the (node_at w q)") (auto simp: view_def n)
  qed
qed

lemma does_rename:
  assumes "linkless w" and "view w src = Some (Doc d)" and "view w dst = None" and "view w (go_dir dst) = Some Folder"
  shows "does (os_rename src dst) w (Inr ()) ((view w)(dst \<mapsto> Doc d, src := None))"
proof -
  obtain i where i: "node_at w src = Some (FileN i)" "store w i = d" "names w src = Some (FileN i)" "src \<noteq> ''/''" "src \<noteq> ''.''"
    using docE [OF assms(2)] by metis
  let ?w = "(tick w)\<lparr>names := (names w)(dst := Some (FileN i), src := None)\<rparr>"
  have p: "dst \<noteq> ''/''" "dst \<noteq> ''.''" "node_at w dst = None" "is_dir w (go_dir dst)" "src \<noteq> dst"
    using assms(2-4) unrooted [of w dst] view_iff(1) [of w "go_dir dst"] view_iff(2) [of w dst] by auto
  have n: "node_at ?w q = (if q = src then None else if q = dst then Some (FileN i) else node_at w q)" for q
    using p i by (auto simp: node_at_def)
  have inj: "node_at w q = Some (FileN i) \<Longrightarrow> q = src" for q using linkless_inj [OF assms(1)] i(1) by blast
  show ?thesis
  proof (rule doesI)
    show "os_rename src dst w = (Inr (), ?w)"
      using p i assms(1) by (simp add: os_rename_def syscall_quiet linkless_quiet)
    show "linkless ?w"
    proof (rule linklessI)
      show "quiet ?w" using linkless_quiet [OF assms(1)] by (simp add: quiet_def)
      show "k < next_ino ?w" if "names ?w q = Some (FileN k)" for q k
        using that linkless_fresh [OF assms(1)] i(3) by (auto split: if_split_asm)
      show "a = b" if "node_at ?w a = Some (FileN k)" "node_at ?w b = Some (FileN k)" for a b k
        using that linkless_inj [OF assms(1), of a k b] inj [of a] inj [of b] unfolding n by (simp split: if_split_asm)
    qed
    show "net ?w = net w" by simp
    show "view ?w = (view w)(dst \<mapsto> Doc d, src := None)"
      using i(2) p(5) by (auto simp: view_def n fun_eq_iff)
  qed
qed

lemma does_remove_all:
  assumes "linkless w" and "\<not> in_tree p ''/''" and "\<not> in_tree p ''.''"
  shows "does (remove_all p) w (Inr ()) (\<lambda>q. if in_tree p q then None else view w q)"
proof (rule doesI)
  let ?w = "(tick w)\<lparr>names := (\<lambda>q. if in_tree p q then None else names w q)\<rparr>"
  show "remove_all p w = (Inr (), ?w)"
    using assms(1) by (simp add: remove_all_def syscall_quiet linkless_quiet fun_eq_iff cong: if_cong)
  have n: "node_at ?w q = (if in_tree p q then None else node_at w q)" for q
    using assms(2,3) by (auto simp: node_at_def)
  show "linkless ?w"
  proof (rule linklessI)
    show "quiet ?w" using linkless_quiet [OF assms(1)] by (simp add: quiet_def)
    show "k < next_ino ?w" if "names ?w q = Some (FileN k)" for q k
      using that linkless_fresh [OF assms(1), of q k] by (simp split: if_split_asm)
    show "a = b" if "node_at ?w a = Some (FileN k)" "node_at ?w b = Some (FileN k)" for a b k
      using that linkless_inj [OF assms(1), of a k b] unfolding n by (simp split: if_split_asm)
  qed
  show "net ?w = net w" by simp
  show "view ?w = (\<lambda>q. if in_tree p q then None else view w q)" by (auto simp: view_def n fun_eq_iff)
qed

section \<open>Compound operations\<close>

lemma does_write_file:
  assumes "linkless w" and "view w p = None" and "view w (go_dir p) = Some Folder"
  shows "does (write_file p d) w (Inr ()) ((view w)(p \<mapsto> Doc d))"
proof -
  obtain w1 where o: "open_trunc p w = (Inr (next_ino w), w1)" and 1: "linkless w1" "net w1 = net w"
      "view w1 = (view w)(p \<mapsto> Doc [])" "node_at w1 p = Some (FileN (next_ino w))"
    using create_linkless [OF assms] by blast
  have "does (append_ino (next_ino w) d) w1 (Inr ()) ((view w1)(p \<mapsto> Doc ([] @ d)))"
    by (rule append_linkless [OF 1(1,4)]) (simp add: 1(3))
  then show ?thesis using o 1(2,3) by (auto simp: does_def write_file_def)
qed

lemma does_marker_exists:
  assumes "linkless w" and "view w (marker_path dir i) = None"
  shows "does (marker_exists dir i) w False (view w)"
  using does_stat [OF assms] by (auto simp: does_def marker_exists_def)

lemma with_dirs_same: "\<forall>q \<in> set ps. t q = Some Folder \<Longrightarrow> with_dirs ps t = t"
  by (auto simp: with_dirs_def fun_eq_iff)

lemma does_mkdir_again:
  assumes "linkless w" and "\<forall>q \<in> set (ancestors p). view w q = Some Folder"
  shows "does (mkdir_all p) w (Inr ()) (view w)"
  using does_mkdir_all [OF assms(1), of p] assms(2) with_dirs_same [OF assms(2)] by simp

lemma does_write_marker:
  assumes "linkless w" and "view w (marker_path dir i) = None" and "view w (go_dir (marker_path dir i)) = Some Folder"
    and "\<forall>q \<in> set (ancestors (go_join [dir, ''markers''])). view w q = Some Folder"
  shows "does (write_marker dir i) w (Inr ()) ((view w)(marker_path dir i \<mapsto> Doc []))"
proof -
  obtain w1 where m: "mkdir_all (go_join [dir, ''markers'']) w = (Inr (), w1)" and 1: "linkless w1" "net w1 = net w" "view w1 = view w"
    using does_mkdir_again [OF assms(1,4)] by (rule doesE)
  obtain k w2 where o: "open_trunc (marker_path dir i) w1 = (Inr k, w2)" and 2: "linkless w2" "net w2 = net w"
      "view w2 = (view w)(marker_path dir i \<mapsto> Doc [])"
    using create_linkless [OF 1(1), of "marker_path dir i"] assms(2,3) 1 by auto
  from does_noop [OF 2(1)] show ?thesis using m o 2 by (auto simp: does_def write_marker_def)
qed

lemma does_read_plan:
  assumes "linkless w" and "view w p = Some (Doc d)"
  shows "does (read_plan p) w (Inr d) (view w)"
  by (rule doesI [where w' = "tick (tick w)"])
     (use assms in \<open>simp_all add: read_plan_quiet linkless_quiet view_iff\<close>)

lemma does_stream_pages:
  assumes "linkless w" and "view w p = Some (Doc d)" and "stream_sqlite_pages d = (evs, None)"
  shows "does (stream_pages p) w (evs, False) (view w)"
  using does_read_plan [OF assms(1,2)] assms(3) by (auto simp: does_def stream_pages_def)

lemma does_create_fresh:
  assumes "linkless w" and "\<forall>q \<in> set (ancestors dir). view w q \<in> {None, Some Folder}"
    and "is_abs dir" "go_clean dir = dir" "dir \<noteq> ''/''"
    and "\<And>q. in_tree dir q \<Longrightarrow> view w q = None" and "go_dir (plan_hash_file dir) = dir"
    and "ancestors (dir @ ''/markers'') = ancestors dir @ [dir @ ''/markers'']"
    and "ancestors (dir @ ''/shadows'') = ancestors dir @ [dir @ ''/shadows'']"
    and "\<And>q. q \<in> set (ancestors dir) \<Longrightarrow> length q \<le> length dir"
  shows "does (create_fresh dir h) w (Inr (dir, False))
     ((with_dirs (ancestors dir @ [dir @ ''/markers'', dir @ ''/shadows'']) (view w))(dir @ ''/plan-hash'' \<mapsto> Doc h))"
proof -
  note n = staging_names [OF assms(3,4,5)]
  have below: "view w (dir @ slash # x) = None" for x using assms(6) by (simp add: in_tree_def has_prefix_iff)
  have long: "dir @ slash # x \<notin> set (ancestors dir)" for x using assms(10) [of "dir @ slash # x"] by auto
  obtain w1 where m1: "mkdir_all dir w = (Inr (), w1)" and 1: "linkless w1" "net w1 = net w" "view w1 = with_dirs (ancestors dir) (view w)"
    using does_mkdir_all [OF assms(1,2)] by (rule doesE)
  have d: "view w1 (go_dir (plan_hash_file dir)) = Some Folder"
    using assms(7) self_in_ancestors [of dir] by (simp add: 1 with_dirs_def)
  obtain w2 where f: "write_file (plan_hash_file dir) h w1 = (Inr (), w2)" and 2: "linkless w2" "net w2 = net w"
      "view w2 = (with_dirs (ancestors dir) (view w))(dir @ ''/plan-hash'' \<mapsto> Doc h)"
    using doesE [OF does_write_file [OF 1(1) _ d, of h]] below long 1 by (auto simp: n with_dirs_def)
  have "\<forall>q \<in> set (ancestors (dir @ ''/markers'')). view w2 q \<in> {None, Some Folder}"
    using below long by (auto simp: 2 assms(8) with_dirs_def)
  then obtain w3 where m3: "mkdir_all (dir @ ''/markers'') w2 = (Inr (), w3)" and 3: "linkless w3" "net w3 = net w"
      "view w3 = with_dirs (ancestors (dir @ ''/markers'')) (view w2)"
    using doesE [OF does_mkdir_all [OF 2(1), of "dir @ ''/markers''"]] 2 by metis
  have "\<forall>q \<in> set (ancestors (dir @ ''/shadows'')). view w3 q \<in> {None, Some Folder}"
    using below long by (auto simp: 3 2 assms(8,9) with_dirs_def)
  then obtain w4 where m4: "mkdir_all (dir @ ''/shadows'') w3 = (Inr (), w4)" and 4: "linkless w4" "net w4 = net w"
      "view w4 = with_dirs (ancestors (dir @ ''/shadows'')) (view w3)"
    using doesE [OF does_mkdir_all [OF 3(1), of "dir @ ''/shadows''"]] 3 by metis
  have "view w4 = (with_dirs (ancestors dir @ [dir @ ''/markers'', dir @ ''/shadows'']) (view w))(dir @ ''/plan-hash'' \<mapsto> Doc h)"
    using long by (auto simp: 4 3 2 assms(8,9) with_dirs_def fun_eq_iff)
  with 4 show ?thesis
    using m1 f m3 m4 by (auto simp: does_def create_fresh_def ensure_subdirs_def n)
qed

lemma does_fetch_with_retry:
  assumes "linkless w" and "\<And>t. \<exists>len. net w t url = Reply 200 len body False"
    and "body_reader dc url body False = Some (out, False)"
    and "view w dst = None" and "view w (go_dir dst) = Some Folder"
  shows "does (fetch_with_retry dc url dst) w None ((view w)(dst \<mapsto> Doc out))"
proof -
  obtain len where g: "http_get url w = (Reply 200 len body False, tick w)"
    using assms(2) [of "ticks w"] by (auto simp: http_get_def)
  obtain w1 where o: "open_trunc dst (tick w) = (Inr (next_ino w), w1)" and 1: "linkless w1" "net w1 = net w"
      "view w1 = (view w)(dst \<mapsto> Doc [])" "node_at w1 dst = Some (FileN (next_ino w))"
    using create_linkless [of "tick w" dst] assms(1,4,5) by auto
  have "does (append_ino (next_ino w) out) w1 (Inr ()) ((view w1)(dst \<mapsto> Doc ([] @ out)))"
    by (rule append_linkless [OF 1(1,4)]) (simp add: 1(3))
  then obtain w2 where a: "append_ino (next_ino w) out w1 = (Inr (), w2)" and 2: "linkless w2" "net w2 = net w"
      "view w2 = (view w)(dst \<mapsto> Doc out)"
    by (auto simp: does_def 1)
  have "fetch dc url dst w = (Inr (), w2)" using g o a assms(3) by (simp add: fetch_def)
  then show ?thesis
    using 2 by (auto simp: does_def fetch_with_retry_def numeral_eq_Suc)
qed

lemma does_promote_whole_file:
  assumes "linkless w" and "view w (fr_path r) = Some (Doc d)" and "sha256_hex d = dt_hash (fr_task r)"
    and "view w (dt_live (fr_task r)) = None" and "dt_live (fr_task r) \<notin> set (ancestors (go_dir (dt_live (fr_task r))))"
    and "fr_path r \<notin> set (ancestors (go_dir (dt_live (fr_task r))))"
    and "\<forall>q \<in> set (ancestors (go_dir (dt_live (fr_task r)))). view w q \<in> {None, Some Folder}"
  shows "does (promote_whole_file r n 0) w (Inr False, n)
     ((with_dirs (ancestors (go_dir (dt_live (fr_task r)))) (view w))(dt_live (fr_task r) \<mapsto> Doc d, fr_path r := None))"
proof -
  let ?l = "dt_live (fr_task r)"
  obtain w1 where r: "read_file (fr_path r) w = (Inr d, w1)" and 1: "linkless w1" "net w1 = net w" "view w1 = view w"
    using does_read_file [OF assms(1,2)] by (rule doesE)
  obtain w2 where m: "mkdir_all (go_dir ?l) w1 = (Inr (), w2)" and 2: "linkless w2" "net w2 = net w"
      "view w2 = with_dirs (ancestors (go_dir ?l)) (view w)"
    using doesE [OF does_mkdir_all [OF 1(1), of "go_dir ?l"]] assms(7) 1 by metis
  have v: "view w2 (fr_path r) = Some (Doc d)" "view w2 ?l = None" "view w2 (go_dir ?l) = Some Folder"
    using assms(2,4,5,6) self_in_ancestors [of "go_dir ?l"] by (simp_all add: 2 with_dirs_def)
  obtain w3 where "os_rename (fr_path r) ?l w2 = (Inr (), w3)" "linkless w3" "net w3 = net w"
      "view w3 = (with_dirs (ancestors (go_dir ?l)) (view w))(?l \<mapsto> Doc d, fr_path r := None)"
    using does_rename [OF 2(1) v] by (auto simp: does_def 2)
  then show ?thesis using r m assms(3) by (auto simp: does_def promote_whole_file_def inject_nth_def)
qed

lemma does_cleanup:
  assumes "linkless w" and "is_abs dir" "go_clean dir = dir" "dir \<noteq> ''/''" and "\<forall>s \<in> set sh. \<not> taken s"
  shows "\<exists>w'. cleanup_staging dir sh w = w' \<and> linkless w'
     \<and> view w' = (\<lambda>q. if in_tree (dir @ ''/staged'') q \<or> in_tree (dir @ ''/shadows'') q then None else view w q)"
proof -
  note n = staging_names [OF assms(2-4)]
  have r: "remove_taken sh w = w" using assms(5) by (induction sh) auto
  have t: "\<not> in_tree (dir @ ''/staged'') ''/''" "\<not> in_tree (dir @ ''/staged'') ''.''"
      "\<not> in_tree (dir @ ''/shadows'') ''/''" "\<not> in_tree (dir @ ''/shadows'') ''.''"
    by (auto simp: in_tree_def has_prefix_iff Cons_eq_append_conv)
  obtain w1 where 1: "remove_all (dir @ ''/staged'') w = (Inr (), w1)" "linkless w1"
      "view w1 = (\<lambda>q. if in_tree (dir @ ''/staged'') q then None else view w q)"
    using does_remove_all [OF assms(1) t(1,2)] by (rule doesE)
  obtain w2 where 2: "remove_all (dir @ ''/shadows'') w1 = (Inr (), w2)" "linkless w2"
      "view w2 = (\<lambda>q. if in_tree (dir @ ''/shadows'') q then None else view w1 q)"
    using does_remove_all [OF 1(2) t(3,4)] by (rule doesE)
  show ?thesis using r 1 2 by (auto simp: cleanup_staging_def n fun_eq_iff)
qed

lemma does_verify_one:
  assumes "linkless w" and "view w (go_join [[], p]) = Some (Doc d)" and "sha256_hex d = h"
  shows "does (verify_hashes [] [(p, h)]) w (Inr ()) (view w)"
proof -
  obtain i where i: "node_at w (go_join [[], p]) = Some (FileN i)" "store w i = d"
    using docE [OF assms(2)] by metis
  have "open_read (go_join [[], p]) w = (Inr i, tick w)"
    using assms(1) i by (simp add: open_read_def syscall_quiet linkless_quiet)
  moreover have "read_stream i (tick w) = ((d, None), tick (tick w))"
    using assms(1) i by (simp add: read_stream_def linkless_def quiet_def)
  ultimately show ?thesis
    using assms by (intro doesI [where w' = "tick (tick w)"]) simp_all
qed

end
