(* ===== verification/ApplyFullRun.thy ===== *)
theory ApplyFullRun
  imports TreeView
begin

text \<open>
  A complete run of apply: the plan names one missing file, its chunk is served, and the run goes through
  staging, scan, pool, promotion, verification and cleanup.  The files of each stage are given as views.
\<close>

section \<open>The names of the run\<close>

abbreviation stg :: string where
  "stg \<equiv> ''/d/pocketnet-node-doctor-staging''"

abbreviation mdir :: string where
  "mdir \<equiv> ''/d/pocketnet-node-doctor-staging/markers''"

abbreviation sdir :: string where
  "sdir \<equiv> ''/d/pocketnet-node-doctor-staging/shadows''"

abbreviation tdir :: string where
  "tdir \<equiv> ''/d/pocketnet-node-doctor-staging/staged''"

abbreviation hfile :: string where
  "hfile \<equiv> ''/d/pocketnet-node-doctor-staging/plan-hash''"

definition unit_hash :: string where
  "unit_hash = sha256_hex ''chainstate/CURRENT''"

definition staged_file :: string where
  "staged_file = stg @ ''/staged/'' @ unit_hash"

definition marker_file :: string where
  "marker_file = stg @ ''/markers/'' @ unit_hash"

lemma unit_hash_plain: "plain_path unit_hash"
proof -
  have "length unit_hash \<noteq> length ''.''" "length unit_hash \<noteq> length ''..''"
    by (simp_all add: unit_hash_def sha256_hex_length)
  then have "unit_hash \<noteq> ''.''" "unit_hash \<noteq> ''..''" by metis+
  then show ?thesis
    using sha256_hex_no_slash [of "''chainstate/CURRENT''"] sha256_hex_nonempty [of "''chainstate/CURRENT''"]
    by (auto simp: plain_path_def split_on_free plain_seg_def unit_hash_def)
qed

lemma stg_facts:
  "staging_root demo_opts = stg" "is_abs stg" "go_clean stg = stg" "stg \<noteq> ''/''"
  "go_dir (plan_hash_file stg) = stg"
  "ancestors stg = [''/d'', stg]" "ancestors mdir = [''/d'', stg, mdir]"
  "ancestors sdir = [''/d'', stg, sdir]"
  "ancestors tdir = [''/d'', stg, tdir]"
  "go_dir ''/d/chainstate/CURRENT'' = ''/d/chainstate''" "ancestors ''/d/chainstate'' = [''/d'', ''/d/chainstate'']"
  by (simp add: staging_root_def demo_opts_def, code_simp) code_simp+

lemma dir_of_hash:
  assumes "go_clean d = d" and "is_abs d" and "d \<noteq> ''/''"
  shows "go_dir (d @ slash # unit_hash) = d" "go_join [d, unit_hash] = d @ slash # unit_hash"
  using go_dir_below [OF assms(2,1), of unit_hash] go_join_below [OF assms(2) unit_hash_plain] assms
    sha256_hex_no_slash [of "''chainstate/CURRENT''"]
  by (simp_all add: below_def unit_hash_def)

lemma file_names:
  "marker_path stg ''chainstate/CURRENT'' = marker_file" "go_dir marker_file = mdir"
  "go_join [tdir, unit_hash] = staged_file" "go_dir staged_file = tdir"
proof -
  have c: "go_clean mdir = mdir" "go_clean tdir = tdir"
    by code_simp+
  show "marker_path stg ''chainstate/CURRENT'' = marker_file"
    using staging_names(1) [OF stg_facts(2-4), of "''chainstate/CURRENT''"] by (simp add: marker_file_def unit_hash_def)
  show "go_dir marker_file = mdir" "go_join [tdir, unit_hash] = staged_file"
    "go_dir staged_file = tdir"
    using dir_of_hash [OF c(1)] dir_of_hash [OF c(2)] by (simp_all add: marker_file_def staged_file_def is_abs_def)
qed

section \<open>The files of the stages\<close>

definition site :: "string list \<Rightarrow> (string \<times> bytes) list \<Rightarrow> tree" where
  "site ds xs q = (if q \<in> set ds then Some Folder else map_option Doc (map_of xs q))"

abbreviation root_dirs :: "string list" where
  "root_dirs \<equiv> [''/'', ''.'', ''/d'', ''/d/pocketdb'']"

abbreviation stg_dirs :: "string list" where
  "stg_dirs \<equiv> [stg, mdir, sdir, tdir]"

text \<open>The views of a run on the plan \<open>body\<close> with the self-hash \<open>hs\<close>: at the start, after staging, at the end of the pool.\<close>

definition start_view :: "bytes \<Rightarrow> tree" where
  "start_view body = site root_dirs [(''/d/plan.json'', body)]"

definition staged_view :: "bytes \<Rightarrow> string \<Rightarrow> tree" where
  "staged_view body hs = site (root_dirs @ stg_dirs) [(''/d/plan.json'', body), (hfile, hs)]"

definition done_view :: "bytes \<Rightarrow> string \<Rightarrow> tree" where
  "done_view body hs = (site (root_dirs @ stg_dirs @ [''/d/chainstate''])
     [(''/d/plan.json'', body), (hfile, hs), (''/d/chainstate/CURRENT'', ''x'')])
     (marker_file \<mapsto> Doc [])"

text \<open>The options of the run, for any address of the manifest, and its network.\<close>

abbreviation opts_at :: "string \<Rightarrow> apply_options" where
  "opts_at u \<equiv> demo_opts\<lparr>ao_manifest_url := u\<rparr>"

lemma stg_root: "staging_root (opts_at u) = stg" "ao_plan (opts_at u) = ''/d/plan.json''"
  using stg_facts(1) by (simp_all add: staging_root_def demo_facts(6))

definition serves_chunk :: "os \<Rightarrow> bool" where
  "serves_chunk w \<longleftrightarrow> (\<forall>t. \<exists>len. net w t (chunk_url ''http://h'' (sha256_hex ''x'')) = Reply 200 len ''x'' False)"

lemma serves_chunk_net: "net w' = net w \<Longrightarrow> serves_chunk w' = serves_chunk w"
  by (simp add: serves_chunk_def)

lemma fs_linkless:
  assumes "fs w' = fs w" and "quiet w'" and "linkless w"
  shows "linkless w'" "view w' = view w"
proof -
  have f: "names w' = names w" "store w' = store w" "next_ino w' = next_ino w" using assms(1) by (simp_all add: fs_iff)
  have n: "node_at w' = node_at w" using fs_node_at [OF assms(1)] by (rule ext)
  show "linkless w'" using assms(2,3) by (simp add: linkless_def wf_os_def f n)
  show "view w' = view w" by (rule ext) (simp add: view_def f n)
qed

section \<open>Staging\<close>

lemma full_staging:
  assumes "linkless w" and "view w = start_view body" and "ph_self hdr = hs"
  shows "does (run_staging (opts_at u) hdr) w (Inr stg) (staged_view body hs)"
proof -
  have absent: "view w q = None" if "in_tree stg q" for q
    using that by (auto simp: assms(2) start_view_def site_def in_tree_def has_prefix_iff)
  obtain w1 where s: "os_stat stg w = (Inl NotExist, w1)" and 1: "linkless w1" "net w1 = net w" "view w1 = view w"
    using doesE [OF does_stat [OF assms(1) absent [of stg]]] by (auto simp: in_tree_def)
  have "does (create_fresh stg hs) w1 (Inr (stg, False))
     ((with_dirs (ancestors stg @ [stg @ ''/markers'', stg @ ''/shadows'']) (view w1))(stg @ ''/plan-hash'' \<mapsto> Doc hs))"
    by (rule does_create_fresh [OF 1(1) _ stg_facts(2-4) _ stg_facts(5)])
       (use absent in \<open>auto simp: 1 stg_facts assms(2) start_view_def site_def\<close>)
  then have cf: "does (create_fresh stg hs) w1 (Inr (stg, False))
     ((with_dirs (ancestors stg @ [mdir, sdir]) (view w1))(hfile \<mapsto> Doc hs))"
    by simp
  obtain w2 where c: "create_fresh stg hs w1 = (Inr (stg, False), w2)" and 2: "linkless w2" "net w2 = net w"
      "view w2 = (with_dirs [''/d'', stg, mdir, sdir] (view w))(hfile \<mapsto> Doc hs)"
    using doesE [OF cf] 1 by (auto simp: stg_facts)
  have "\<forall>q \<in> set (ancestors tdir). view w2 q \<in> {None, Some Folder}"
    using absent [of "tdir"]
    by (simp add: 2 stg_facts with_dirs_def) (simp add: in_tree_def has_prefix_iff)
  then obtain w3 where m: "mkdir_all tdir w2 = (Inr (), w3)" and 3: "linkless w3" "net w3 = net w"
      "view w3 = with_dirs (ancestors tdir) (view w2)"
    using doesE [OF does_mkdir_all [OF 2(1), of "tdir"]] 2 by metis
  have "view w3 = staged_view body hs"
    by (auto simp: fun_eq_iff 3 2 stg_facts assms(2) start_view_def with_dirs_def site_def staged_view_def)
  then show ?thesis
    using s c m 3 staging_names(5) [OF stg_facts(2-4)]
    by (auto simp: does_def run_staging_def stg_root create_or_resume_def assms(3))
qed

section \<open>Scan and shadows\<close>

lemma no_marker: "staged_view body hs marker_file = None" "staged_view body hs staged_file = None" "staged_view body hs ''/d/chainstate/CURRENT'' = None"
    "staged_view body hs ''/d/chainstate'' = None"
  by (simp_all add: staged_view_def site_def marker_file_def staged_file_def)

lemma full_pages:
  assumes "linkless w" and "view w = staged_view body hs" and "stream_sqlite_pages body = ([], None)"
  shows "does (stream_pages ''/d/plan.json'') w ([], False) (staged_view body hs)"
proof -
  have v: "view w ''/d/plan.json'' = Some (Doc body)" by (simp add: assms(2) staged_view_def site_def)
  show ?thesis using does_stream_pages [OF assms(1) v assms(3)] assms(2) by simp
qed

lemma full_candidates: "whole_candidates ''/d'' ''/d/pocketdb'' [demo_header_whole] = [Some demo_unit]"
proof -
  have "resolve_live_path ''/d'' ''/d/pocketdb'' ''chainstate/CURRENT'' = ''/d/chainstate/CURRENT''" by code_simp
  then show ?thesis by (simp add: whole_candidates_def demo_header_whole_def demo_unit_def)
qed

definition full_shadow :: shadow where
  "full_shadow = \<lparr>shadow_path = shadow_dest stg ''chainstate/CURRENT'', live_path = ''/d/chainstate/CURRENT'', taken = False\<rparr>"

abbreviation full_info :: shadow_info where
  "full_info \<equiv> \<lparr>si_live = ''/d/chainstate/CURRENT'', si_rel = ''chainstate/CURRENT'', si_absent = True\<rparr>"

lemma full_scan:
  assumes "linkless w" and "view w = staged_view body hs" and "stream_sqlite_pages body = ([], None)"
  shows "does (run_scan (opts_at u) ''/d'' ''/d/pocketdb'' [demo_header_whole] stg) w (Inr ([full_info], 1)) (staged_view body hs)"
proof -
  obtain w1 where p: "stream_pages ''/d/plan.json'' w = (([], False), w1)" and 1: "linkless w1" "net w1 = net w" "view w1 = staged_view body hs"
    using full_pages [OF assms] by (rule doesE)
  have "view w1 (marker_path stg ''chainstate/CURRENT'') = None" by (simp add: 1 file_names no_marker)
  then obtain w2 where "marker_exists stg ''chainstate/CURRENT'' w1 = (False, w2)" "linkless w2" "net w2 = net w" "view w2 = staged_view body hs"
    using doesE [OF does_marker_exists [OF 1(1)]] 1 by metis
  then show ?thesis
    using p by (auto simp: does_def run_scan_def and_then_def page_candidates_def full_candidates demo_facts(6))
      (simp add: demo_unit_def add_pending_def)
qed

lemma full_shadows: "take_shadows stg [full_info] [] w = (Inr [full_shadow], w)"
  by (simp add: live_exists_def and_then_def full_shadow_def)

section \<open>The pool\<close>

definition run_ctx :: pool_ctx where
  "run_ctx = \<lparr>pc_parallel = 2, pc_staging = stg, pc_staged = tdir, pc_chunks = ''http://h'',
     pc_fail_nth = 0, pc_decoders = ex_decoders demo_ex\<rparr>"

abbreviation run_task :: divergence_task where
  "run_task \<equiv> task_of ''http://h'' tdir demo_unit"

abbreviation run_result :: fetch_result where
  "run_result \<equiv> \<lparr>fr_task = run_task, fr_path = staged_file, fr_rel = ''chainstate/CURRENT'', fr_err = None\<rparr>"

lemma run_task_facts:
  "dt_url run_task = chunk_url ''http://h'' (sha256_hex ''x'')" "dt_staging run_task = staged_file"
  "dt_live run_task = ''/d/chainstate/CURRENT''" "dt_hash run_task = sha256_hex ''x''" "dt_offset run_task = -1"
  "dt_path run_task = ''chainstate/CURRENT''"
  using file_names(3) by (simp_all add: task_of_def demo_unit_def staging_filename_def unit_hash_def)

lemma run_pool_step: "\<not> loop_over s \<Longrightarrow> pick c sched s = Some s' \<Longrightarrow> run_pool c sched s = run_pool c sched s'"
  by (subst run_pool.simps) simp

lemma has_zst: "has_suffix (chunk_url b h) ''.zst''"
  by (simp add: chunk_url_def has_suffix_iff)

lemma full_fetch:
  assumes "linkless w" and "view w = staged_view body hs" and "serves_chunk w"
  shows "does (fetch_with_retry (pc_decoders run_ctx) (dt_url run_task) (dt_staging run_task)) w None
     ((staged_view body hs)(staged_file \<mapsto> Doc ''x''))"
proof -
  have "body_reader (pc_decoders run_ctx) (dt_url run_task) ''x'' False = Some (''x'', False)"
    by (simp add: body_reader_def run_task_facts has_zst run_ctx_def demo_ex_def)
  moreover have "\<exists>len. net w t (dt_url run_task) = Reply 200 len ''x'' False" for t
    using assms(3) by (simp add: serves_chunk_def run_task_facts)
  moreover have "view w (go_dir staged_file) = Some Folder"
    by (simp add: assms(2) file_names) (simp add: staged_view_def site_def)
  ultimately show ?thesis
    using does_fetch_with_retry [OF assms(1), of "dt_url run_task" "''x''" "pc_decoders run_ctx" "''x''" staged_file]
      assms(2) no_marker(2) by (simp add: run_task_facts)
qed

lemma full_promote:
  assumes "linkless w" and "view w = (staged_view body hs)(staged_file \<mapsto> Doc ''x'')"
  shows "does (promote_whole_file run_result n 0) w (Inr False, n)
     (site (root_dirs @ stg_dirs @ [''/d/chainstate''])
       [(''/d/plan.json'', body), (hfile, hs), (''/d/chainstate/CURRENT'', ''x'')])"
    (is "does _ _ _ ?t")
proof -
  have s: "staged_file \<noteq> ''/d/chainstate/CURRENT''" "staged_file \<noteq> ''/d''" "staged_file \<noteq> ''/d/chainstate''"
    by (simp_all add: staged_file_def)
  have d: "staged_view body hs ''/d'' = Some Folder" by (simp add: staged_view_def site_def)
  have "does (promote_whole_file run_result n 0) w (Inr False, n)
     ((with_dirs (ancestors (go_dir (dt_live (fr_task run_result)))) (view w))
        (dt_live (fr_task run_result) \<mapsto> Doc ''x'', fr_path run_result := None))"
    by (rule does_promote_whole_file [OF assms(1)])
       (use s d no_marker in \<open>simp_all add: assms(2) run_task_facts stg_facts(10,11)\<close>)
  moreover have "(with_dirs [''/d'', ''/d/chainstate''] ((staged_view body hs)(staged_file \<mapsto> Doc ''x'')))
      (''/d/chainstate/CURRENT'' \<mapsto> Doc ''x'', staged_file := None) = ?t"
  proof
    fix q
    show "((with_dirs [''/d'', ''/d/chainstate''] ((staged_view body hs)(staged_file \<mapsto> Doc ''x'')))
      (''/d/chainstate/CURRENT'' \<mapsto> Doc ''x'', staged_file := None)) q = ?t q"
    proof (cases "q = staged_file")
      case True
      have "?t staged_file = None" by (simp add: site_def staged_file_def)
      with True show ?thesis by simp
    next
      case False
      show ?thesis
      proof (cases "q = ''/d/chainstate/CURRENT'' \<or> q = ''/d/chainstate'' \<or> q = ''/d''")
        case True
        with False s show ?thesis by (elim disjE) (simp_all add: with_dirs_def site_def)
      qed (use False in \<open>simp add: with_dirs_def site_def staged_view_def\<close>)
    qed
  qed
  ultimately show ?thesis by (simp add: assms(2) run_task_facts stg_facts(10,11))
qed

lemma full_pool:
  assumes "linkless w" and "view w = staged_view body hs" and "serves_chunk w"
  shows "\<exists>s. run_pool run_ctx (\<lambda>_. MainGo) (init_pool run_ctx [Some demo_unit] 1 w) = Some s
     \<and> \<not> q_panicked s \<and> \<not> q_failed s \<and> \<not> q_exhausted s \<and> linkless (q_world s) \<and> view (q_world s) = (done_view body hs)"
proof -
  let ?go = "\<lambda>_ :: pool. MainGo" and ?s0 = "init_pool run_ctx [Some demo_unit] 1 w"
  have "view w (marker_path stg ''chainstate/CURRENT'') = None" by (simp add: assms(2) file_names no_marker)
  then obtain w1 where m: "marker_exists stg ''chainstate/CURRENT'' w = (False, w1)" and 1: "linkless w1" "net w1 = net w" "view w1 = staged_view body hs"
    using doesE [OF does_marker_exists [OF assms(1)]] assms(2) by metis
  let ?s1 = "?s0\<lparr>q_point := Sending run_task 1, q_feed := [], q_world := w1\<rparr>"
  have 01: "pick run_ctx ?go ?s0 = Some ?s1"
    using m by (simp add: pick_def main_step_def init_pool_def pull_task_def run_ctx_def numeral_2_eq_2)
      (simp add: demo_unit_def sha256_hex_length)
  let ?s2 = "?s1\<lparr>q_tasks := [run_task], q_point := Feeding 1\<rparr>"
  have 12: "pick run_ctx ?go ?s1 = Some ?s2"
    by (simp add: pick_def main_step_def init_pool_def run_ctx_def)
  let ?s3 = "?s2\<lparr>q_point := Feeding 0\<rparr>"
  have 23: "pick run_ctx ?go ?s2 = Some ?s3"
    by (simp add: pick_def main_step_def init_pool_def pull_task_def)
  let ?s4 = "?s3\<lparr>q_tasks := [], q_busy := [run_task]\<rparr>"
  have 34: "pick run_ctx ?go ?s3 = Some ?s4"
    by (simp add: pick_def main_step_def consume_result_def take_step_def init_pool_def run_ctx_def)
  obtain w2 where f: "fetch_with_retry (pc_decoders run_ctx) (dt_url run_task) (dt_staging run_task) w1 = (None, w2)"
    and 2: "linkless w2" "net w2 = net w" "view w2 = (staged_view body hs)(staged_file \<mapsto> Doc ''x'')"
    using doesE [OF full_fetch [OF 1(1,3)]] 1(2) assms(3) serves_chunk_net by metis
  let ?s5 = "?s4\<lparr>q_busy := [], q_results := [run_result], q_world := w2\<rparr>"
  have 45: "pick run_ctx ?go ?s4 = Some ?s5"
    using f by (simp add: pick_def main_step_def consume_result_def take_step_def finish_step_def init_pool_def)
      (simp add: run_ctx_def run_task_facts)
  obtain w3 where p: "promote_whole_file run_result 0 0 w2 = ((Inr False, 0), w3)" and 3: "linkless w3"
      "view w3 = site (root_dirs @ stg_dirs @ [''/d/chainstate''])
       [(''/d/plan.json'', body), (hfile, hs), (''/d/chainstate/CURRENT'', ''x'')]"
    using full_promote [OF 2(1,3)] by (rule doesE)
  have "does (write_marker stg ''chainstate/CURRENT'') w3 (Inr ()) ((view w3)(marker_path stg ''chainstate/CURRENT'' \<mapsto> Doc []))"
    by (rule does_write_marker [OF 3(1)])
       (simp_all add: 3(2) file_names staging_names(3) [OF stg_facts(2-4)] stg_facts, simp_all add: site_def marker_file_def)
  then obtain w4 where k: "write_marker stg ''chainstate/CURRENT'' w3 = (Inr (), w4)" and 4: "linkless w4" "view w4 = (done_view body hs)"
    by (auto simp: does_def 3(2) file_names done_view_def)
  let ?s6 = "?s5\<lparr>q_results := [], q_remaining := 0, q_promoted := 1, q_world := w4\<rparr>"
  have t: "dt_offset run_task = -1" "staging_identifier run_task = ''chainstate/CURRENT''"
    by (simp_all add: run_task_facts staging_identifier_def)
  have 56: "pick run_ctx ?go ?s5 = Some ?s6"
    using p k t by (simp add: pick_def main_step_def consume_result_def handle_result_def promote_def init_pool_def)
      (simp add: run_ctx_def pull_task_def)
  have nl: "\<not> loop_over ?s0" "\<not> loop_over ?s1" "\<not> loop_over ?s2" "\<not> loop_over ?s3" "\<not> loop_over ?s4" "\<not> loop_over ?s5"
    by (simp_all add: loop_over_def init_pool_def run_ctx_def)
  have "loop_over ?s6" by (simp add: loop_over_def init_pool_def)
  then have "run_pool run_ctx ?go ?s6 = Some ?s6" by (subst run_pool.simps) simp
  then have "run_pool run_ctx ?go ?s0 = Some ?s6"
    using run_pool_step [OF nl(1) 01] run_pool_step [OF nl(2) 12] run_pool_step [OF nl(3) 23] run_pool_step [OF nl(4) 34]
      run_pool_step [OF nl(5) 45] run_pool_step [OF nl(6) 56] by simp
  then show ?thesis using 4 by (intro exI [of _ ?s6]) (simp add: init_pool_def)
qed

section \<open>Verification and the end\<close>

lemma full_verify:
  assumes "linkless w" and "view w ''/d/chainstate/CURRENT'' = Some (Doc ''x'')"
  shows "does (run_verify demo_ex (opts_at u) ''/d'' ''/d/pocketdb'' [demo_header_whole] sh) w (Inr ()) (view w)"
proof -
  have e: "expected_hashes (opts_at u) [demo_header_whole] = [(''chainstate/CURRENT'', sha256_hex ''x'')]"
    by (simp add: expected_hashes_def injected_hashes_def plan_hashes_def has_sqlite_def demo_header_whole_def
        demo_opts_def has_suffix_def)
  have p: "resolve_live_path ''/d'' ''/d/pocketdb'' ''chainstate/CURRENT'' = ''/d/chainstate/CURRENT''"
    "go_join [[], ''/d/chainstate/CURRENT''] = ''/d/chainstate/CURRENT''"
    by code_simp+
  have r: "resolve_hashes demo_ex ''/d'' ''/d/pocketdb'' [(''chainstate/CURRENT'', sha256_hex ''x'')]
      = [(''/d/chainstate/CURRENT'', sha256_hex ''x'')]"
    using p by (simp add: resolve_hashes_def demo_ex_def)
  have n: "\<not> has_sqlite [demo_header_whole]"
    by (simp add: has_sqlite_def demo_header_whole_def has_suffix_def)
  have i: "inject_corruption (opts_at u) x v = v" for x v
    by (simp add: inject_corruption_def demo_opts_def)
  have "does (verify_hashes [] [(''/d/chainstate/CURRENT'', sha256_hex ''x'')]) w (Inr ()) (view w)"
    by (rule does_verify_one [OF assms(1)]) (simp_all add: p assms(2))
  then show ?thesis
    using n by (auto simp: does_def run_verify_def e r i) (simp add: demo_ex_def)
qed

lemma full_tasks:
  assumes "linkless w0" and "view w0 = start_view body" and "serves_chunk w0" and "stream_sqlite_pages body = ([], None)"
    and "ph_path hdr = ''/d/pocketdb''"
  shows "\<exists>w'. run_tasks demo_ex (opts_at u) hdr [demo_header_whole] w0 = (Exited Success None, w')"
proof -
  let ?hs = "ph_self hdr" and ?o = "opts_at u"
  have d: "go_dir ''/d/pocketdb'' = ''/d''" by code_simp
  obtain w1 where st: "run_staging ?o hdr w0 = (Inr stg, w1)" and 1: "linkless w1" "net w1 = net w0" "view w1 = staged_view body ?hs"
    using full_staging [OF assms(1,2) refl] by (rule doesE)
  obtain w2 where sc: "run_scan ?o ''/d'' ''/d/pocketdb'' [demo_header_whole] stg w1 = (Inr ([full_info], 1), w2)"
    and 2: "linkless w2" "net w2 = net w1" "view w2 = staged_view body ?hs"
    using full_scan [OF 1(1,3) assms(4)] by (rule doesE)
  obtain w3 where p: "stream_pages ''/d/plan.json'' w2 = (([], False), w3)" and 3: "linkless w3" "net w3 = net w2" "view w3 = staged_view body ?hs"
    using full_pages [OF 2(1,3) assms(4)] by (rule doesE)
  obtain s where rp: "run_pool run_ctx (\<lambda>_. MainGo) (init_pool run_ctx [Some demo_unit] 1 w3) = Some s"
    and s: "\<not> q_panicked s" "\<not> q_failed s" "\<not> q_exhausted s" "linkless (q_world s)" "view (q_world s) = done_view body ?hs"
    using full_pool [OF 3(1,3)] serves_chunk_net [of w3 w0] assms(3) 3(2) 2(2) 1(2) by auto
  have ctx: "\<lparr>pc_parallel = effective_parallel ?o, pc_staging = stg, pc_staged = go_join [stg, ''staged''],
      pc_chunks = derive_chunk_base_url (ex_url demo_ex) ?o, pc_fail_nth = ao_fail_nth ?o,
      pc_decoders = ex_decoders demo_ex\<rparr> = run_ctx"
    using staging_names(5) [OF stg_facts(2-4)]
    by (simp add: run_ctx_def effective_parallel_def demo_opts_def derive_chunk_base_url_def)
  have "open_feed ''/d'' ''/d/pocketdb'' [demo_header_whole] (ao_plan ?o) w2 = ([Some demo_unit], w3)"
    using p by (simp add: open_feed_def page_candidates_def full_candidates demo_facts(6))
  moreover have "ex_sched demo_ex = (\<lambda>_. MainGo)" by (simp add: demo_ex_def)
  ultimately have rw: "run_workers demo_ex ?o ''/d'' ''/d/pocketdb'' [demo_header_whole] stg 1 w2 = (Inr s, q_world s)"
    using rp s(1) unfolding run_workers_def ctx Let_def by simp
  have "view (q_world s) ''/d/chainstate/CURRENT'' = Some (Doc ''x'')"
    by (simp add: s(5) done_view_def site_def marker_file_def)
  then obtain w5 where "run_verify demo_ex ?o ''/d'' ''/d/pocketdb'' [demo_header_whole] [full_shadow] (q_world s) = (Inr (), w5)"
    using doesE [OF full_verify [OF s(4)]] by metis
  then have "run_after_pool demo_ex ?o ''/d'' ''/d/pocketdb'' [demo_header_whole] stg [full_shadow] s (q_world s)
      = (Exited Success None, cleanup_staging stg [full_shadow] w5)"
    using s by (simp add: run_after_pool_def)
  then show ?thesis
    using st sc rw by (simp add: run_tasks_def d assms(5) full_shadows Let_def del: take_shadows.simps)
qed

section \<open>The run on the demo plan\<close>

definition chunk_world :: os where
  "chunk_world = (world_of [''/d'', ''/d/pocketdb''] [(''/d/plan.json'', demo_text)])
     \<lparr>net := (\<lambda>_ u. if u = chunk_url ''http://h'' (sha256_hex ''x'') then Reply 200 1 ''x'' False else NetErr)\<rparr>"

lemma chunk_linkless: "linkless chunk_world"
  by (rule linklessI)
     (auto simp: chunk_world_def world_of_def quiet_def node_at_def split: if_split_asm)

lemma chunk_view: "view chunk_world = start_view demo_text"
  by (auto simp: fun_eq_iff view_def node_at_def chunk_world_def world_of_def site_def start_view_def)

lemma full_run:
  "\<exists>w0 w'. run_checks demo_opts chunk_world = (Inr (demo_hdr, [demo_header_whole]), w0)
     \<and> apply_run demo_ex demo_opts chunk_world = (Exited Success None, w')"
proof -
  have plan: "file_data chunk_world ''/d/plan.json'' = Some demo_text"
    using view_iff(3) [of chunk_world "''/d/plan.json''" demo_text] by (simp add: chunk_view start_view_def site_def)
  obtain w0 where c: "run_checks demo_opts chunk_world = (Inr (demo_hdr, [demo_header_whole]), w0)"
    and 0: "fs w0 = fs chunk_world" "quiet w0" "net w0 = net chunk_world"
    using demo_checks [OF linkless_quiet [OF chunk_linkless] plan] by blast
  note l0 = fs_linkless [OF 0(1,2) chunk_linkless]
  have o: "inherit_url demo_opts demo_hdr = opts_at []" by (simp add: inherit_url_def demo_hdr_def demo_opts_def)
  have e: "stream_sqlite_pages demo_text = ([], None)"
    using emitted_passes(4) [OF demo_accept(1-3) demo_accept(5-8)] demo_whole_ok(3) by simp
  have "serves_chunk w0" by (simp add: serves_chunk_def 0(3) chunk_world_def)
  then obtain w' where "run_tasks demo_ex (opts_at []) demo_hdr [demo_header_whole] w0 = (Exited Success None, w')"
    using full_tasks [OF l0(1) _ _ e, of demo_hdr "[]"] l0(2) chunk_view by (auto simp: demo_hdr_def)
  then show ?thesis using c o by (simp add: apply_run_def)
qed

text \<open>The file that was missing is there, with the bytes the plan promised.\<close>

lemma success_means_verified_witness:
  "\<exists>w' d. apply_run demo_ex demo_opts chunk_world = (Exited Success None, w')
     \<and> file_data chunk_world ''/d/chainstate/CURRENT'' = None
     \<and> file_data w' ''/d/chainstate/CURRENT'' = Some d \<and> sha256_hex d = sha256_hex ''x''"
proof -
  obtain w0 w' where c: "run_checks demo_opts chunk_world = (Inr (demo_hdr, [demo_header_whole]), w0)"
    and r: "apply_run demo_ex demo_opts chunk_world = (Exited Success None, w')"
    using full_run by blast
  have none: "view chunk_world ''/d/chainstate/CURRENT'' = None" by (simp add: chunk_view start_view_def site_def)
  have nm: "\<not> has_marker (staging_root demo_opts) chunk_world (dh_path demo_header_whole)"
  proof -
    have "view chunk_world marker_file = None" by (simp add: chunk_view start_view_def site_def marker_file_def)
    then show ?thesis
      by (simp add: has_marker_def stg_facts(1) demo_header_whole_def file_names view_iff(2) [symmetric])
  qed
  have pp: "plain_path ''chainstate/CURRENT''" by code_simp
  have "(\<exists>d. file_data w' (live_of demo_hdr demo_header_whole) = Some d \<and> sha256_hex d = dh_hash demo_header_whole)
      \<or> has_marker (staging_root demo_opts) chunk_world (dh_path demo_header_whole)"
    by (rule success_means_verified [OF r c])
       (simp_all add: no_injection_def demo_facts(6) lawful_order_def stg_facts(1) demo_live in_tree_def has_prefix_iff,
        simp_all add: demo_opts_def demo_ex_def demo_hdr_def is_abs_def whole_headers_def demo_header_whole_def pp)
  then obtain d where "file_data w' ''/d/chainstate/CURRENT'' = Some d" "sha256_hex d = dh_hash demo_header_whole"
    using nm by (auto simp: demo_live)
  moreover have "dh_hash demo_header_whole = sha256_hex ''x''" by (simp add: demo_header_whole_def)
  moreover have "file_data chunk_world ''/d/chainstate/CURRENT'' = None"
    using none by (simp only: view_iff(2)) (simp add: file_data_def)
  ultimately show ?thesis using r by auto
qed

end
