(* ===== verification/RepairRun.thy ===== *)
theory RepairRun
  imports Repair ApplyFullRun
begin

text \<open>
  A complete repair: diagnose on a host that lacks one file of the manifest, then apply on the plan it left.
  The run instantiates the properties of exact diagnosis and of repair.
\<close>

section \<open>The manifest\<close>

definition current_entry :: man_entry where
  "current_entry = \<lparr>me_kind = entry_kind_whole_file, me_path = ''chainstate/CURRENT'', me_pages = [],
     me_change_counter = None, me_hash = sha256_hex ''x''\<rparr>"

definition repair_manifest :: manifest where
  "repair_manifest = small_manifest\<lparr>m_entries := [current_entry]\<rparr>"

definition repair_text :: bytes where
  "repair_text = manifest_text repair_manifest (JArr [])"

lemma repair_entries [simp]: "m_entries repair_manifest = [current_entry]"
  by (simp add: repair_manifest_def)

lemma current_kind: "me_kind current_entry = entry_kind_whole_file" "me_kind current_entry \<noteq> entry_kind_sqlite_pages"
  "me_path current_entry = ''chainstate/CURRENT''" "me_hash current_entry = sha256_hex ''x''"
  "validate_entry_path (me_path current_entry) = Inr ()" "join_rel ''/d/pocketdb'' ''chainstate/CURRENT'' = ''/d/chainstate/CURRENT''"
proof -
  have "validate_entry_path ''chainstate/CURRENT'' = Inr ()" "join_rel ''/d/pocketdb'' ''chainstate/CURRENT'' = ''/d/chainstate/CURRENT''"
    by code_simp+
  then show "me_kind current_entry = entry_kind_whole_file" "me_kind current_entry \<noteq> entry_kind_sqlite_pages"
    "me_path current_entry = ''chainstate/CURRENT''" "me_hash current_entry = sha256_hex ''x''"
    "validate_entry_path (me_path current_entry) = Inr ()" "join_rel ''/d/pocketdb'' ''chainstate/CURRENT'' = ''/d/chainstate/CURRENT''"
    by (simp_all add: current_entry_def kinds_of_entries)
qed

lemma repair_wf: "wf_manifest repair_manifest" "canonical_manifest repair_manifest" "ascending_pages repair_manifest"
  "one_home ''/d/pocketdb'' repair_manifest" "writable max_depth (JArr [])"
proof -
  have v: "valid_utf8 ''chainstate/CURRENT''" "valid_utf8 ''whole_file''" by (rule valid_utf8_ascii, auto)+
  show "wf_manifest repair_manifest"
    using v valid_hex [of "''x''"] by (simp add: repair_manifest_def wf_manifest_def small_manifest_def wf_entry_def int64_def
        current_entry_def entry_kind_whole_file_def)
  show "canonical_manifest repair_manifest"
    using kinds_of_entries by (simp add: canonical_manifest_def current_kind is_canon_hash_def list_all_iff sha256_hex_lower)
  have "\<not> has_suffix ''chainstate/CURRENT'' ''main.sqlite3''" by code_simp
  then show "ascending_pages repair_manifest" "one_home ''/d/pocketdb'' repair_manifest" "writable max_depth (JArr [])"
    using wf_small(2) by (simp_all add: ascending_pages_def one_home_def current_entry_def)
qed

lemma repair_small: "small repair_text"
proof -
  have f: "length (fmt_int 7) = 1" "length (fmt_int 1) = 1" by code_simp+
  have e: "length (enc_str False ''canonical_identity'') = 20" "length (enc_str False ''block_height'') = 14"
    "length (enc_str False ''created_at'') = 12" "length (enc_str False ''pocketnet_core_version'') = 24"
    "length (enc_str False ''t'') = 3" "length (enc_str False ''v'') = 3" "length (enc_str False ''entries'') = 9"
    "length (enc_str False ''entry_kind'') = 12" "length (enc_str False ''whole_file'') = 12" "length (enc_str False ''hash'') = 6"
    "length (enc_str False ''path'') = 6" "length (enc_str False ''chainstate/CURRENT'') = 20"
    "length (enc_str False ''format_version'') = 16" "length (enc_str False ''trust_anchors'') = 15"
    by code_simp+
  have "length repair_text \<le> 400"
    using kinds_of_entries
    by (simp add: repair_text_def manifest_text_def manifest_members_def repair_manifest_def small_manifest_def current_entry_def
        entry_members_def man_identity_tree_def print_json.simps enc_hex sha256_hex_length e f)
       (simp add: entry_kind_whole_file_def e)
  then show ?thesis by (simp add: small_def)
qed


section \<open>Diagnosis\<close>

definition chunk_at :: "string \<Rightarrow> http_reply" where
  "chunk_at u = (if u = chunk_url ''http://h'' (sha256_hex ''x'') then Reply 200 1 ''x'' False else NetErr)"

abbreviation repair_world :: os where
  "repair_world \<equiv> serve chunk_at repair_text"

abbreviation repair_opts :: diag_options where
  "repair_opts \<equiv> serve_opts repair_text"

lemma repair_findings: "findings repair_world ''/d/pocketdb'' repair_manifest = [demo_whole]"
proof -
  have "file_data repair_world ''/d/chainstate/CURRENT'' = None"
    by (simp add: file_data_def node_at_def serve_names)
  then show ?thesis
    using kinds_of_entries
    by (simp add: findings_def page_findings_def file_findings_def current_kind whole_divergence_def demo_whole_def)
qed

definition noted :: "plan_emitter \<Rightarrow> diag_state" where
  "noted em = (init_diag_state em)\<lparr>ds_emitter := buffer_whole_file em demo_whole, ds_files := 1\<rparr>"

lemma current_run:
  assumes "stage (serve g body) ns w" and "dom ns = {planemit_file, manifest_file}"
  shows "run_entry (entry_fn ''/d/pocketdb'') current_entry (init_diag_state em, w) = Inr (noted em, tick w)"
proof -
  have "''/d/chainstate/CURRENT'' \<notin> dom ns" unfolding assms(2) by simp
  then have "ns ''/d/chainstate/CURRENT'' = None" by (simp add: domIff)
  then have "node_at w ''/d/chainstate/CURRENT'' = None" using stage_node [OF assms(1), of "''/d/chainstate/CURRENT''"] by simp
  then have c: "compare_file_by_path_hash ''/d/pocketdb'' ''chainstate/CURRENT'' (sha256_hex ''x'') w = (Inr (Some demo_whole), tick w)"
    using current_kind(6) stage_quiet [OF assms(1)]
    by (simp add: compare_file_by_path_hash_def os_stat_quiet demo_whole_def)
  show ?thesis
    using c current_kind kinds_of_entries
    by (simp add: run_entry_def entry_fn_def entry_start_def whole_file_entry_def settle_def noted_def init_diag_state_def)
qed

lemma repair_diagnosed:
  "\<exists>w1 i. diagnose idle_host repair_opts repair_world = (Finished Success None, w1)
     \<and> stage repair_world [''/d/plan.json'' \<mapsto> FileN i] w1"
proof (rule serving_run [OF repair_text_def repair_small repair_wf(1)])
  show "m_format_version repair_manifest = 1" "mi_core_version (m_identity repair_manifest) = ''v''"
    by (simp_all add: repair_manifest_def small_manifest_def)
  show "entries_run chunk_at repair_manifest (init_diag_state em) (noted em) \<and> ds_total (noted em) = 0" for em
    using current_run by (auto simp: entries_run_def noted_def init_diag_state_def)
qed

text \<open>The properties of diagnosis apply to the run.\<close>

lemma repair_site:
  "do_out repair_opts \<notin> doctor_temps (do_out repair_opts) (rnd repair_world)"
  "valid_utf8 (do_url repair_opts)" "valid_utf8 (do_pinned repair_opts)" "valid_utf8 (do_db repair_opts)"
  "abs_path idle_host (do_db repair_opts) = Some (do_db repair_opts)" "is_abs (do_db repair_opts)" "is_abs (do_out repair_opts)"
  "serves_manifest repair_world repair_opts repair_manifest (JArr [])" "local_apart repair_world repair_opts repair_manifest"
  "\<forall>e \<in> set (m_entries repair_manifest). join_rel (do_db repair_opts) (me_path e) \<noteq> do_out repair_opts"
proof -
  show "do_out repair_opts \<notin> doctor_temps (do_out repair_opts) (rnd repair_world)" by (rule small_temps_run)
  show "valid_utf8 (do_url repair_opts)" "valid_utf8 (do_pinned repair_opts)" "valid_utf8 (do_db repair_opts)"
    using valid_hex by simp_all
  show "abs_path idle_host (do_db repair_opts) = Some (do_db repair_opts)" "is_abs (do_db repair_opts)" "is_abs (do_out repair_opts)"
    by (simp_all add: abs_path_def run_paths(11,12)) (simp add: is_abs_def)
  show "serves_manifest repair_world repair_opts repair_manifest (JArr [])"
    using repair_small by (auto simp: serves_manifest_def small_def repair_text_def)
  show "local_apart repair_world repair_opts repair_manifest"
    using small_temps by (fastforce simp: local_apart_def current_kind(3,6))
  show "\<forall>e \<in> set (m_entries repair_manifest). join_rel (do_db repair_opts) (me_path e) \<noteq> do_out repair_opts"
    by (simp add: current_kind(3,6))
qed


lemma diagnose_exact_witness:
  "\<exists>w1. diagnose idle_host repair_opts repair_world = (Finished Success None, w1)
     \<and> file_data w1 ''/d/plan.json'' = plan_marshal (emitted_plan
         (plan_identity repair_opts (header_of_manifest repair_manifest (JArr []))) demo_url ''/d/pocketdb'' [demo_whole])"
proof -
  obtain w1 where d: "diagnose idle_host repair_opts repair_world = (Finished Success None, w1)"
    using repair_diagnosed by blast
  have v: "valid_utf8 p" if "abs_path idle_host (do_db repair_opts) = Some p" for p
    using that repair_site(4,5) by auto
  have "\<exists>path. abs_path idle_host (do_db repair_opts) = Some path
     \<and> version_lookup idle_host = Some (mi_core_version (m_identity repair_manifest))
     \<and> file_data w1 (do_out repair_opts) = plan_marshal (emitted_plan
         (plan_identity repair_opts (header_of_manifest repair_manifest (JArr []))) (do_url repair_opts) path
         (findings repair_world (do_db repair_opts) repair_manifest))
     \<and> (\<forall>e \<in> set (m_entries repair_manifest). entry_accepted e)"
    by (rule diagnose_exact [OF d _ _ repair_site(1,2) v repair_site(8,9) repair_wf(1,5,3)]) simp_all
  with d repair_site(5) show ?thesis by (auto simp: repair_findings)
qed

section \<open>Repair\<close>

abbreviation repair_identity :: canonical_identity where
  "repair_identity \<equiv> plan_identity repair_opts (header_of_manifest repair_manifest (JArr []))"

definition repair_plan :: bytes where
  "repair_plan = plan_text (emitted_plan repair_identity demo_url ''/d/pocketdb'' [demo_whole])"

lemma repair_accept:
  "int64 (ci_block_height repair_identity)" "valid_utf8 (ci_manifest_hash repair_identity)"
  "valid_utf8 (ci_core_version repair_identity)"
  by (simp_all add: plan_identity_def header_of_manifest_def repair_manifest_def small_manifest_def int64_def valid_hex)

text \<open>What diagnose leaves: the plan, and a world to start apply on.\<close>

lemma repair_left:
  assumes "diagnose idle_host repair_opts repair_world = (Finished Success None, w1)"
    and "stage repair_world [''/d/plan.json'' \<mapsto> FileN i] w1"
  shows "linkless w1" "view w1 = start_view repair_plan" "net w1 = net repair_world"
proof -
  have "framed UNIV repair_world w1"
    using diagnose_plan_only [OF assms(1)] framed_mono [OF _ subset_UNIV] by (auto simp: plan_only_def touches_def)
  then have f: "wf_os w1" "net w1 = net repair_world" by (simp_all add: framed_def)
  have n: "node_at w1 p = (if p = ''/'' \<or> p = ''.'' then Some DirN else if p = ''/d/plan.json'' then Some (FileN i)
      else if p = ''/d'' \<or> p = ''/d/pocketdb'' then Some DirN else None)" for p
    using stage_node [OF assms(2), of p] by (simp add: node_at_def)
  show "net w1 = net repair_world" by (rule f(2))
  show "linkless w1"
    using f(1) stage_quiet [OF assms(2)] n by (auto simp: linkless_def split: if_splits)
  have v: "valid_utf8 p" if "abs_path idle_host (do_db repair_opts) = Some p" for p
    using that repair_site(4,5) by auto
  have "file_data w1 ''/d/plan.json'' = plan_marshal (emitted_plan repair_identity demo_url ''/d/pocketdb'' [demo_whole])"
    using diagnosed_findings [OF assms(1) _ _ repair_site(1,2) v repair_site(8,9) repair_wf(1,5,3)] repair_site(5)
    by (auto simp: repair_findings)
  then have "file_data w1 ''/d/plan.json'' = Some repair_plan"
    using plan_marshal_text [OF wf_emitted [OF repair_accept(1) demo_whole_ok(1)]] by (simp add: repair_plan_def)
  then have "store w1 i = repair_plan" by (simp add: file_data_def n)
  then show "view w1 = start_view repair_plan" by (auto simp: fun_eq_iff view_def n start_view_def site_def)
qed

lemma repair_applied:
  assumes "linkless w1" and "view w1 = start_view repair_plan" and "net w1 = net repair_world"
  shows "\<exists>w'. apply_run demo_ex demo_opts w1 = (Exited Success None, w')"
proof -
  define hdr where "hdr = \<lparr>ph_version = plan_format_version, ph_identity = repair_identity, ph_url = demo_url,
      ph_path = ''/d/pocketdb'', ph_self = p_self_hash (emitted_plan repair_identity demo_url ''/d/pocketdb'' [demo_whole])\<rparr>"
  have o: "inherit_url demo_opts hdr = opts_at demo_url" by (simp add: inherit_url_def hdr_def demo_opts_def demo_url_def)
  have plan: "file_data w1 (ao_plan demo_opts) = Some repair_plan"
    using view_iff(3) [of w1 "''/d/plan.json''" repair_plan] assms(2) by (simp add: start_view_def site_def demo_facts(6))
  have fresh: "ao_manifest_url (inherit_url demo_opts hdr) = [] \<or>
      (\<forall>t. \<exists>len body. net w1 t (ao_manifest_url (inherit_url demo_opts hdr)) = Reply 200 len body False
          \<and> sha256_hex body = ci_manifest_hash repair_identity)"
    by (simp add: o assms(3) plan_identity_def)
  obtain w0 where c: "run_checks demo_opts w1 = (Inr (hdr, [demo_header_whole]), w0)"
    and 0: "fs w0 = fs w1" "quiet w0" "net w0 = net w1"
    using emitted_plan_checks [OF repair_accept(1) demo_whole_ok(1,2) demo_facts(1) valid_small(8) valid_small(7) repair_accept(2,3)
        _ linkless_quiet [OF assms(1)] plan [unfolded repair_plan_def] hdr_def fresh] demo_whole_header by auto
  note l0 = fs_linkless [OF 0(1,2) assms(1)]
  have e: "stream_sqlite_pages repair_plan = ([], None)"
    unfolding repair_plan_def
    using emitted_passes(4) [OF repair_accept(1) demo_whole_ok(1,2) valid_small(8) valid_small(7) repair_accept(2,3)] demo_whole_ok(3)
    by simp
  have "serves_chunk w0"
    using assms(3) by (simp add: serves_chunk_def 0(3) serve_def chunk_at_def) (simp add: chunk_url_def demo_url_def)
  then obtain w' where "run_tasks demo_ex (opts_at demo_url) hdr [demo_header_whole] w0 = (Exited Success None, w')"
    using full_tasks [OF l0(1) _ _ e, of hdr demo_url] l0(2) assms(2) by (auto simp: hdr_def)
  then show ?thesis using c o by (simp add: apply_run_def)
qed


text \<open>The site is ready for the one unit of the plan.\<close>

lemma repair_units: "plan_units ''/d/pocketdb'' [demo_whole] = [demo_unit]"
  using current_kind(6) by (simp add: plan_units_def file_unit_def demo_whole_def demo_unit_def)

lemma repair_fit:
  assumes "L \<in> {''/d/chainstate/CURRENT''} \<union> sidecars ''/d/pocketdb/main.sqlite3''"
  shows "units_fit stg L [demo_unit]"
proof -
  have p: "plain_path ''chainstate/CURRENT''" by code_simp
  show ?thesis
    using p stg_facts(10,11) assms
    by (auto simp: units_fit_def outside_def unit_id_def demo_unit_def in_tree_def has_prefix_iff sha256_hex_length sidecars_def)
qed

lemma shielded_linkless: "linkless w \<Longrightarrow> shielded p {} w"
  by (auto simp: linkless_def shielded_def)

lemma repair_ready:
  assumes "linkless w1" and "view w1 = start_view repair_plan"
  shows "apply_ready demo_ex demo_opts w1 ''/d/pocketdb'' repair_manifest [demo_unit]"
proof -
  have "node_at w1 q = None" if "in_tree stg q" for q
  proof -
    have "view w1 q = None"
      using that by (auto simp: assms(2) start_view_def site_def in_tree_def has_prefix_iff)
    then show ?thesis by (simp add: view_iff)
  qed
  moreover have m: "main_sqlite ''/d/pocketdb'' = ''/d/pocketdb/main.sqlite3''" by code_simp
  moreover have "file_data w1 q = None" "''/d/chainstate/CURRENT'' \<noteq> q" if "q \<in> sidecars ''/d/pocketdb/main.sqlite3''" for q
  proof -
    have "view w1 q = None" using that by (auto simp: assms(2) start_view_def site_def sidecars_def)
    then show "file_data w1 q = None" by (simp add: view_iff file_data_def)
    show "''/d/chainstate/CURRENT'' \<noteq> q" using that by (auto simp: sidecars_def)
  qed
  ultimately show ?thesis
    using repair_fit shielded_linkless [OF assms(1)]
    by (simp add: apply_ready_def stg_facts(1) current_kind(3,6) db_pages_def demo_facts(6))
       (simp add: demo_unit_def outside_def in_tree_def has_prefix_iff)
qed

lemma doctor_repairs_witness:
  "\<exists>w1 w'. diagnose idle_host repair_opts repair_world = (Finished Success None, w1)
     \<and> apply_run demo_ex demo_opts w1 = (Exited Success None, w')
     \<and> findings repair_world ''/d/pocketdb'' repair_manifest = [demo_whole]
     \<and> findings w' ''/d/pocketdb'' repair_manifest = []"
proof -
  obtain w1 i where d: "diagnose idle_host repair_opts repair_world = (Finished Success None, w1)"
    and s: "stage repair_world [''/d/plan.json'' \<mapsto> FileN i] w1" using repair_diagnosed by blast
  note l = repair_left [OF d s]
  obtain w' where a: "apply_run demo_ex demo_opts w1 = (Exited Success None, w')" using repair_applied [OF l] by blast
  have ready: "apply_ready demo_ex demo_opts w1 (do_db repair_opts) repair_manifest
      (plan_units (do_db repair_opts) (findings repair_world (do_db repair_opts) repair_manifest))"
    using repair_ready [OF l(1,2)] by (simp add: repair_findings repair_units)
  have "findings w' (do_db repair_opts) repair_manifest = []"
    by (rule doctor_repairs [OF d _ _ repair_site(1-10) repair_wf(1,5,2,3) _ a refl linkless_quiet [OF l(1)] _ _ _ _ ready])
       (use repair_wf(4) in \<open>simp_all add: no_injection_def lawful_order_def sqlite_reads_def demo_facts(6)\<close>,
        simp_all add: demo_opts_def demo_ex_def)
  with d a show ?thesis by (auto simp: repair_findings)
qed

end
