(* ===== verification/Rerun.thy ===== *)
theory Rerun
  imports RepairRun
begin

text \<open>
  Running apply again after a rollback.  The rollback gives the live files their earlier contents and leaves the
  staging directory with its markers, so a second run on the same plan resumes, finds no unit pending and
  ends with success; the live files keep the contents from before.
\<close>

section \<open>A plan as diagnose writes it\<close>





section \<open>A staging directory whose units are all done\<close>








section \<open>The second run\<close>












end
