(* ===== verification/CanonicalForm.thy ===== *)
theory CanonicalForm
  imports Canonform
begin

text \<open>
  What canonical form promises: two documents have the same canonical text exactly when they denote the same
  value, and the text can be read back to a document of that value whose objects have their keys in order.
\<close>

section \<open>Documents of the same value\<close>

text \<open>
  An object is the map from its keys to their last members; the order of members and overwritten duplicates do
  not matter.  Numbers are their literals, as the decoder with \<open>UseNumber\<close> keeps them.
\<close>

inductive same_json :: "json \<Rightarrow> json \<Rightarrow> bool" where
  same_null: "same_json JNull JNull"
| same_bool: "same_json (JBool b) (JBool b)"
| same_str: "same_json (JStr s) (JStr s)"
| same_num: "same_json (JNum l) (JNum l)"
| same_arr: "list_all2 same_json vs ws \<Longrightarrow> same_json (JArr vs) (JArr ws)"
| same_obj: "(\<And>k. rel_option same_json (map_of (rev ms) k) (map_of (rev ns) k)) \<Longrightarrow> same_json (JObj ms) (JObj ns)"

inductive_cases same_arrE: "same_json (JArr vs) j"
inductive_cases same_objE: "same_json (JObj ms) j"
inductive_simps same_leaf: "same_json JNull j" "same_json (JBool b) j" "same_json (JStr s) j" "same_json (JNum l) j"

text \<open>Every object has its keys in strictly ascending order.\<close>

fun ordered_json :: "json \<Rightarrow> bool" where
  "ordered_json (JArr vs) = list_all ordered_json vs"
| "ordered_json (JObj ms) = (sorted_wrt (<) (map fst ms) \<and> list_all (\<lambda>(k, v). ordered_json v) ms)"
| "ordered_json v = True"

section \<open>The sorted object\<close>

lemma map_of_last_wins: "map_of (last_wins ms) k = map_of (rev ms) k"
proof (induction ms rule: last_wins.induct)
  case (2 k' v ms)
  have "map_of (rev ms) k' = None \<longleftrightarrow> k' \<notin> fst ` set ms" by (simp add: map_of_eq_None_iff)
  with 2 show ?case by (auto simp: map_add_def split: option.split)
qed simp

lemma map_of_values: "map_of (rev (map (\<lambda>(k, v). (k, f v)) ms)) k = map_option f (map_of (rev ms) k)"
  unfolding rev_map by (induction "rev ms") (auto simp: map_of_map)

definition sorted_members :: "(string \<times> json) list \<Rightarrow> (string \<times> json) list" where
  "sorted_members ms = sort_key fst (last_wins (map (\<lambda>(k, v). (k, canon_tree v)) ms))"

lemma canon_tree_obj: "canon_tree (JObj ms) = JObj (sorted_members ms)"
  by (simp add: sorted_members_def)

lemma sorted_members_keys: "sorted (map fst (sorted_members ms))" "distinct (map fst (sorted_members ms))"
  using distinct_last_wins [of "map (\<lambda>(k, v). (k, canon_tree v)) ms"]
  by (simp_all add: sorted_members_def distinct_map)

lemma sorted_members_map: "map_of (sorted_members ms) k = map_option canon_tree (map_of (rev ms) k)"
proof -
  let ?l = "last_wins (map (\<lambda>(k, v). (k, canon_tree v)) ms)"
  have "map_of (sorted_members ms) = map_of ?l"
    using map_of_inject_set [OF sorted_members_keys(2) distinct_last_wins] by (simp add: sorted_members_def)
  then show ?thesis by (simp add: map_of_last_wins map_of_values)
qed

lemma sorted_members_unique:
  assumes "\<And>k. map_option canon_tree (map_of (rev ms) k) = map_option canon_tree (map_of (rev ns) k)"
  shows "sorted_members ms = sorted_members ns"
proof (rule map_sorted_distinct_set_unique [where f = fst])
  have "map_of (sorted_members ms) = map_of (sorted_members ns)"
    using assms by (intro ext) (simp add: sorted_members_map)
  then show s: "set (sorted_members ms) = set (sorted_members ns)"
    using map_of_inject_set [OF sorted_members_keys(2) sorted_members_keys(2)] by blast
  show "inj_on fst (set (sorted_members ms) \<union> set (sorted_members ns))"
    using sorted_members_keys(2) [of ns] s by (simp add: distinct_map)
qed (rule sorted_members_keys)+

section \<open>Canonical text decides equality of values\<close>

lemma same_canon_tree: "same_json j j' \<Longrightarrow> canon_tree j = canon_tree j'"
proof (induction rule: same_json.induct)
  case (same_arr vs ws)
  then have "map canon_tree vs = map canon_tree ws" by (auto simp: list_all2_conv_all_nth intro!: nth_equalityI)
  then show ?case by simp
next
  case (same_obj ms ns)
  have "map_option canon_tree (map_of (rev ms) k) = map_option canon_tree (map_of (rev ns) k)" for k
    using same_obj [of k] by (auto simp: option_rel_Some1 option.rel_sel rel_option_iff split: option.splits)
  from sorted_members_unique [OF this] show ?case by (simp add: canon_tree_obj del: canon_tree.simps)
qed simp_all

lemma canon_tree_same: "canon_tree j = canon_tree j' \<Longrightarrow> same_json j j'"
proof (induction j arbitrary: j')
  case (JArr vs)
  from JArr.prems obtain ws where j': "j' = JArr ws" and m: "map canon_tree vs = map canon_tree ws" by (cases j') auto
  have "list_all2 same_json vs ws"
    using JArr.IH map_eq_imp_length_eq [OF m] arg_cong [OF m, of "\<lambda>l. l ! i" for i]
    by (auto simp: list_all2_conv_all_nth) (metis m nth_map nth_mem)
  with j' show ?case by (simp add: same_arr)
next
  case (JObj ms)
  from JObj.prems obtain ns where j': "j' = JObj ns" by (cases j') auto
  with JObj.prems have m: "sorted_members ms = sorted_members ns" by (simp add: sorted_members_def)
  have "rel_option same_json (map_of (rev ms) k) (map_of (rev ns) k)" for k
  proof -
    have e: "map_option canon_tree (map_of (rev ms) k) = map_option canon_tree (map_of (rev ns) k)"
      unfolding sorted_members_map [symmetric] m ..
    show ?thesis
    proof (cases "map_of (rev ms) k")
      case None
      with e show ?thesis by simp
    next
      case (Some v)
      with e obtain u where u: "map_of (rev ns) k = Some u" "canon_tree v = canon_tree u"
        by (cases "map_of (rev ns) k") auto
      have "(k, v) \<in> set ms" using map_of_SomeD [OF Some] by simp
      from JObj.IH [OF this _ u(2)] Some u(1) show ?thesis by simp
    qed
  qed
  with j' show ?case by (simp add: same_obj)
qed (case_tac j', simp_all add: same_json.intros)+

lemma same_json_iff: "same_json j j' \<longleftrightarrow> canon_tree j = canon_tree j'"
  using same_canon_tree canon_tree_same by blast

lemma ordered_canon: "ordered_json (canon_tree j)"
proof (induction j)
  case (JObj ms)
  have "ordered_json v" if "(k, v) \<in> set (sorted_members ms)" for k v
  proof -
    have "map_of (sorted_members ms) k = Some v" using sorted_members_keys(2) that by simp
    then obtain u where "map_of (rev ms) k = Some u" "v = canon_tree u" by (auto simp: sorted_members_map)
    with map_of_SomeD JObj.IH show ?thesis by fastforce
  qed
  then show ?case
    using sorted_members_keys [of ms] by (auto simp: canon_tree_obj list_all_iff strict_sorted_iff simp del: canon_tree.simps)
qed (simp_all add: list_all_iff)

lemma read_canon:
  "writable max_depth j \<Longrightarrow> valid_json j \<Longrightarrow> read_value (canon_encode j) = Some (canon_tree j, [])"
  using read_print [OF writable_canon, of j "[]" False] by (simp add: canon_encode_print sanitize_json_valid valid_canon)

lemma canon_encode_inj:
  assumes "writable max_depth j" "valid_json j" "writable max_depth j'" "valid_json j'" "canon_encode j = canon_encode j'"
  shows "canon_tree j = canon_tree j'"
proof -
  note r = read_canon [OF assms(1,2)] and r' = read_canon [OF assms(3,4)]
  show ?thesis using trans [OF r [unfolded assms(5), symmetric] r'] by simp
qed

text \<open>
  C34. Canonical form is canonical. Two documents have the same canonical text exactly when they denote the same
  value, whatever the order of their members; and the canonical text is a document of that value, with
  nothing after it and the keys of every object in strictly ascending order, which encodes to the same text again.
\<close>

theorem canonical_form:
  assumes "writable max_depth j" and "valid_json j" and "writable max_depth j'" and "valid_json j'"
  shows "(canon_encode j = canon_encode j' \<longleftrightarrow> same_json j j') \<and>
     (\<exists>g. read_value (canon_encode j) = Some (g, []) \<and> same_json g j \<and> ordered_json g \<and> canon_encode g = canon_encode j)"
proof
  show "canon_encode j = canon_encode j' \<longleftrightarrow> same_json j j'"
    using canon_encode_inj [OF assms] by (auto simp: same_json_iff canon_encode_print)
  have "read_value (canon_encode j) = Some (canon_tree j, [])" by (rule read_canon [OF assms(1,2)])
  then show "\<exists>g. read_value (canon_encode j) = Some (g, []) \<and> same_json g j \<and> ordered_json g \<and> canon_encode g = canon_encode j"
    using ordered_canon canon_tree_idem [of j] by (auto simp: same_json_iff canon_encode_print)
qed

text \<open>Two orders of the same members, one with a duplicate that is overwritten, and another value.\<close>

lemma canonical_form_witness:
  "canon_encode (JObj [(''b'', JNull), (''a'', JBool True)]) =
     canon_encode (JObj [(''a'', JNull), (''a'', JBool True), (''b'', JNull)])
 \<and> \<not> same_json (JObj [(''b'', JNull)]) (JObj [(''b'', JBool True)])"
proof -
  have v: "valid_utf8 ''a''" "valid_utf8 ''b''" by (rule valid_utf8_ascii, auto)+
  have d: "0 < max_depth" by (simp add: max_depth_def)
  have w: "writable max_depth (JObj [(''b'', JNull), (''a'', JBool True)])"
    "writable max_depth (JObj [(''a'', JNull), (''a'', JBool True), (''b'', JNull)])"
    "writable max_depth (JObj [(''b'', JNull)])" "writable max_depth (JObj [(''b'', JBool True)])"
    using d by simp_all
  have j: "valid_json (JObj [(''b'', JNull), (''a'', JBool True)])"
    "valid_json (JObj [(''a'', JNull), (''a'', JBool True), (''b'', JNull)])"
    "valid_json (JObj [(''b'', JNull)])" "valid_json (JObj [(''b'', JBool True)])"
    using v by simp_all
  have s: "same_json (JObj [(''b'', JNull), (''a'', JBool True)]) (JObj [(''a'', JNull), (''a'', JBool True), (''b'', JNull)])"
    by (rule same_obj) (auto intro: same_json.intros)
  have "canon_encode (JObj [(''b'', JNull)]) \<noteq> canon_encode (JObj [(''b'', JBool True)])" by simp
  then show ?thesis
    using s canonical_form [OF w(1) j(1) w(2) j(2)] canonical_form [OF w(3) j(3) w(4) j(4)] by blast
qed

end
