(* ===== verification/PlanUnmarshal.thy ===== *)
theory PlanUnmarshal
  imports PlanProps Slices
begin

text \<open>
  \<open>plan.Unmarshal\<close> (marshal.go): decoding a whole plan under \<open>DisallowUnknownFields\<close> and checking the
  shape of each divergence.  It is the inverse of \<open>Marshal\<close>.
\<close>

section \<open>The typed plan\<close>

record raw_divergence =
  rd_kind :: string
  rd_path :: string
  rd_pages :: "plan_page slice option"
  rd_hash :: string
  rd_source :: string

record raw_plan =
  rp_version :: int
  rp_identity :: canonical_identity
  rp_url :: string
  rp_path :: string
  rp_divergences :: "raw_divergence slice option"
  rp_self :: string

definition zero_page :: plan_page where
  "zero_page = \<lparr>pp_offset = 0, pp_hash = []\<rparr>"

definition zero_divergence :: raw_divergence where
  "zero_divergence = \<lparr>rd_kind = [], rd_path = [], rd_pages = None, rd_hash = [], rd_source = []\<rparr>"

definition zero_plan :: raw_plan where
  "zero_plan = \<lparr>rp_version = 0, rp_identity = \<lparr>ci_block_height = 0, ci_manifest_hash = [], ci_core_version = []\<rparr>,
     rp_url = [], rp_path = [], rp_divergences = None, rp_self = []\<rparr>"

definition into_page_over :: "plan_page \<Rightarrow> json \<Rightarrow> plan_page option" where
  "into_page_over p j = into_struct True [''offset'', ''expected_hash''] store_page j p"

definition store_divergence :: "string \<Rightarrow> json \<Rightarrow> raw_divergence \<Rightarrow> raw_divergence option" where
  "store_divergence n j d =
     (if n = ''divergence_kind'' then map_option (\<lambda>s. d\<lparr>rd_kind := s\<rparr>) (into_string (rd_kind d) j)
      else if n = ''path'' then map_option (\<lambda>s. d\<lparr>rd_path := s\<rparr>) (into_string (rd_path d) j)
      else if n = ''pages'' then map_option (\<lambda>s. d\<lparr>rd_pages := s\<rparr>) (into_slice into_page_over zero_page (rd_pages d) j)
      else if n = ''expected_hash'' then map_option (\<lambda>s. d\<lparr>rd_hash := s\<rparr>) (into_string (rd_hash d) j)
      else map_option (\<lambda>s. d\<lparr>rd_source := s\<rparr>) (into_string (rd_source d) j))"

definition into_divergence :: "raw_divergence \<Rightarrow> json \<Rightarrow> raw_divergence option" where
  "into_divergence d j =
     into_struct True [''divergence_kind'', ''path'', ''pages'', ''expected_hash'', ''expected_source''] store_divergence j d"

definition into_identity_strict :: "canonical_identity \<Rightarrow> json \<Rightarrow> canonical_identity option" where
  "into_identity_strict c j =
     into_struct True [''block_height'', ''manifest_hash'', ''pocketnet_core_version''] store_identity j c"

definition store_plan :: "string \<Rightarrow> json \<Rightarrow> raw_plan \<Rightarrow> raw_plan option" where
  "store_plan n j p =
     (if n = ''format_version'' then map_option (\<lambda>i. p\<lparr>rp_version := i\<rparr>) (into_int64 (rp_version p) j)
      else if n = ''canonical_identity'' then map_option (\<lambda>c. p\<lparr>rp_identity := c\<rparr>) (into_identity_strict (rp_identity p) j)
      else if n = ''manifest_url'' then map_option (\<lambda>s. p\<lparr>rp_url := s\<rparr>) (into_string (rp_url p) j)
      else if n = ''pocketdb_path'' then map_option (\<lambda>s. p\<lparr>rp_path := s\<rparr>) (into_string (rp_path p) j)
      else if n = ''divergences'' then
        map_option (\<lambda>s. p\<lparr>rp_divergences := s\<rparr>) (into_slice into_divergence zero_divergence (rp_divergences p) j)
      else map_option (\<lambda>s. p\<lparr>rp_self := s\<rparr>) (into_string (rp_self p) j))"

definition into_plan :: "json \<Rightarrow> raw_plan option" where
  "into_plan j =
     into_struct True
       [''format_version'', ''canonical_identity'', ''manifest_url'', ''pocketdb_path'', ''divergences'', ''self_hash'']
       store_plan j zero_plan"

text \<open>What a caller sees of the decoded value.\<close>

definition seen_divergence :: "raw_divergence \<Rightarrow> divergence" where
  "seen_divergence d =
     \<lparr>d_kind = rd_kind d, d_path = rd_path d, d_pages = slice_elems (rd_pages d), d_expected_hash = rd_hash d,
      d_expected_source = rd_source d\<rparr>"

definition seen_plan :: "raw_plan \<Rightarrow> plan" where
  "seen_plan p =
     \<lparr>p_format_version = rp_version p, p_identity = rp_identity p, p_manifest_url = rp_url p,
      p_pocketdb_path = rp_path p,
      p_divergences = map_option (\<lambda>_. map seen_divergence (slice_elems (rp_divergences p))) (rp_divergences p),
      p_self_hash = rp_self p\<rparr>"

section \<open>\<open>Unmarshal\<close>\<close>

definition check_divergence :: "nat \<Rightarrow> divergence \<Rightarrow> plan_err option" where
  "check_divergence i d =
     (if d_kind d = kind_sqlite_pages then
        (if d_expected_hash d \<noteq> [] \<or> d_expected_source d \<noteq> []
         then Some (PlanShape i ''sqlite_pages must not carry expected_hash or expected_source'')
         else if d_pages d = [] then Some (PlanShape i ''sqlite_pages must have non-empty pages'')
         else None)
      else if d_kind d = kind_whole_file then
        (if d_pages d \<noteq> [] then Some (PlanShape i ''whole_file must not carry pages'')
         else if d_expected_hash d = [] then Some (PlanShape i ''whole_file missing expected_hash'')
         else None)
      else Some (PlanShape i (''unknown kind '' @ d_kind d)))"

fun check_divergences :: "nat \<Rightarrow> divergence list \<Rightarrow> plan_err option" where
  "check_divergences i [] = None"
| "check_divergences i (d # ds) =
     (case check_divergence i d of Some e \<Rightarrow> Some e | None \<Rightarrow> check_divergences (Suc i) ds)"

definition plan_unmarshal :: "string \<Rightarrow> plan_err + plan" where
  "plan_unmarshal text =
     (case decode_into into_plan (new_decoder text) of
        None \<Rightarrow> Inl PlanDecode
      | Some (rp, _) \<Rightarrow>
          (let p = seen_plan rp in
           case check_divergences 0 (case p_divergences p of None \<Rightarrow> [] | Some ds \<Rightarrow> ds) of
             Some e \<Rightarrow> Inl e
           | None \<Rightarrow> Inr p))"

section \<open>Reading a marshalled plan back\<close>

lemma page_over_canon:
  "int64 (pp_offset p) \<Longrightarrow> into_page_over zero_page (page_canon p) = Some (clean_page p)"
  by (simp add: into_page_over_def zero_page_def into_struct_def page_canon_def find_field_def store_page_def into_int64_fmt
      into_string_def clean_page_def)

definition clean_div :: "divergence \<Rightarrow> divergence" where
  "clean_div d = \<lparr>d_kind = sanitize (d_kind d), d_path = sanitize (d_path d), d_pages = map clean_page (d_pages d),
     d_expected_hash = sanitize (d_expected_hash d), d_expected_source = sanitize (d_expected_source d)\<rparr>"

definition raw_of :: "divergence \<Rightarrow> raw_divergence" where
  "raw_of d = \<lparr>rd_kind = sanitize (d_kind d), rd_path = sanitize (d_path d),
     rd_pages = (if d_pages d = [] then None else Some \<lparr>sl_len = length (d_pages d), sl_mem = map clean_page (d_pages d)\<rparr>),
     rd_hash = sanitize (d_expected_hash d), rd_source = sanitize (d_expected_source d)\<rparr>"

lemma seen_raw_of: "seen_divergence (raw_of d) = clean_div d"
  by (simp add: seen_divergence_def raw_of_def clean_div_def slice_elems_def)

lemma divergence_canon_into:
  assumes "wf_divergence d"
  shows "into_divergence zero_divergence (divergence_canon d) = Some (raw_of d)"
proof -
  have p: "into_slice into_page_over zero_page None (JArr (map page_canon (d_pages d))) =
      Some (Some \<lparr>sl_len = length (d_pages d), sl_mem = map clean_page (d_pages d)\<rparr>)"
    using assms by (intro into_slice_fresh page_over_canon) (simp add: wf_divergence_def)
  show ?thesis
    by (simp add: into_divergence_def into_struct_def divergence_canon_def omit_empty_def find_field_def
        store_divergence_def zero_divergence_def raw_of_def into_string_def p del: map_eq_conv)
qed

definition clean_plan :: "plan \<Rightarrow> plan" where
  "clean_plan p =
     \<lparr>p_format_version = p_format_version p,
      p_identity = \<lparr>ci_block_height = ci_block_height (p_identity p),
        ci_manifest_hash = sanitize (ci_manifest_hash (p_identity p)),
        ci_core_version = sanitize (ci_core_version (p_identity p))\<rparr>,
      p_manifest_url = sanitize (p_manifest_url p), p_pocketdb_path = sanitize (p_pocketdb_path p),
      p_divergences = map_option (map clean_div) (p_divergences p), p_self_hash = sanitize (p_self_hash p)\<rparr>"

definition raw_divergences :: "divergence list option \<Rightarrow> raw_divergence slice option" where
  "raw_divergences ds = map_option (\<lambda>ds. \<lparr>sl_len = length ds, sl_mem = map raw_of ds\<rparr>) ds"

lemma divergences_canon_into:
  assumes "\<And>ds d. p_divergences p = Some ds \<Longrightarrow> d \<in> set ds \<Longrightarrow> wf_divergence d"
  shows "into_slice into_divergence zero_divergence None (divergences_canon (p_divergences p)) =
     Some (raw_divergences (p_divergences p))"
proof (cases "p_divergences p")
  case (Some ds)
  have "into_slice into_divergence zero_divergence None (JArr (map divergence_canon ds)) =
      Some (Some \<lparr>sl_len = length ds, sl_mem = map raw_of ds\<rparr>)"
    using assms Some by (intro into_slice_fresh divergence_canon_into) auto
  with Some show ?thesis by (simp add: divergences_canon_def raw_divergences_def)
qed (simp add: divergences_canon_def raw_divergences_def into_slice_def)

lemma plan_canon_into:
  assumes "wf_plan p"
  obtains rp where "into_plan (JObj (plan_members p)) = Some rp" and "seen_plan rp = clean_plan p"
proof -
  have i: "into_identity_strict c (identity_canon (p_identity p)) = Some (p_identity (clean_plan p))" for c
    using assms by (simp add: into_identity_strict_def into_struct_def identity_canon_def find_field_def
        store_identity_def into_int64_fmt into_string_def wf_plan_def clean_plan_def)
  have v: "into_int64 x (JNum (fmt_int (p_format_version p))) = Some (p_format_version p)" for x
    using assms by (simp add: wf_plan_def into_int64_fmt)
  have d: "into_slice into_divergence zero_divergence None (divergences_canon (p_divergences p)) =
      Some (raw_divergences (p_divergences p))"
    using assms by (intro divergences_canon_into) (auto simp: wf_plan_def)
  define rp where "rp = \<lparr>rp_version = p_format_version p, rp_identity = p_identity (clean_plan p),
     rp_url = sanitize (p_manifest_url p), rp_path = sanitize (p_pocketdb_path p),
     rp_divergences = raw_divergences (p_divergences p), rp_self = sanitize (p_self_hash p)\<rparr>"
  have "into_plan (JObj (plan_members p)) = Some rp"
    by (simp add: into_plan_def into_struct_def plan_members_def payload_members_def find_field_def store_plan_def
        zero_plan_def into_string_def i v d rp_def)
  moreover have "seen_plan rp = clean_plan p"
    by (cases "p_divergences p")
       (simp_all add: seen_plan_def rp_def clean_plan_def raw_divergences_def slice_elems_def comp_def seen_raw_of)
  ultimately show thesis using that by blast
qed

lemma valid_sanitize_json: "valid_json (sanitize_json j)"
  by (induction j rule: sanitize_json.induct) (auto simp: list_all_iff valid_utf8_sanitize)

lemma unmarshal_text:
  assumes "wf_plan p"
  shows "plan_unmarshal (plan_text p) =
     (case check_divergences 0 (case p_divergences (clean_plan p) of None \<Rightarrow> [] | Some ds \<Rightarrow> ds) of
        Some e \<Rightarrow> Inl e | None \<Rightarrow> Inr (clean_plan p))"
proof -
  let ?t = "canon_tree (sanitize_json (plan_tree p))"
  have t: "?t = JObj (plan_members p)" by (simp add: plan_canon_eq plan_members_def)
  have w: "writable max_depth ?t" by (intro writable_canon writable_sanitize writable_plan assms)
  have s: "sanitize_json ?t = ?t" by (intro sanitize_json_valid valid_canon valid_sanitize_json)
  have "plan_text p = print_json False ?t" by (simp add: t plan_text_def print_obj del: print_json.simps)
  then have "decode (new_decoder (plan_text p)) = Some (?t, at [] (length (plan_text p)) (value_end TopValue) [])"
    using decode_print [of TopValue ?t "[]" False 0 "[]"] w s by (simp add: new_decoder_at value_allowed_def stops_def)
  moreover obtain rp where "into_plan (JObj (plan_members p)) = Some rp" "seen_plan rp = clean_plan p"
    by (rule plan_canon_into [OF assms])
  ultimately show ?thesis by (simp add: plan_unmarshal_def decode_into_def t Let_def split: option.split)
qed

lemma clean_page_id: "valid_json (page_tree p) \<Longrightarrow> clean_page p = p"
  by (simp add: page_tree_def clean_page_def sanitize_valid)

lemma clean_div_id: "valid_json (divergence_tree d) \<Longrightarrow> clean_div d = d"
  by (cases d)
     (auto simp: divergence_tree_def clean_div_def omit_empty_def sanitize_valid list_all_iff clean_page_id
        intro!: map_idI split: if_splits)

lemma clean_plan_id: "strs_ok p \<Longrightarrow> clean_plan p = p"
  by (cases p; cases "p_identity p")
     (auto simp: strs_ok_def plan_tree_def clean_plan_def identity_tree_def sanitize_valid list_all_iff clean_div_id
        intro!: map_idI split: option.splits)

text \<open>
  C17. \<open>Unmarshal\<close> is the inverse of \<open>Marshal\<close> on well-formed plans, with the shape check of each
  divergence on top: the plan comes back as it was, or the first ill-formed divergence is reported.
\<close>

theorem unmarshal_marshal:
  assumes "wf_plan p" and "strs_ok p"
  shows "\<exists>t. plan_marshal p = Some t \<and>
     plan_unmarshal t =
       (case check_divergences 0 (case p_divergences p of None \<Rightarrow> [] | Some ds \<Rightarrow> ds) of
          Some e \<Rightarrow> Inl e | None \<Rightarrow> Inr p)"
  using unmarshal_text [OF assms(1), unfolded clean_plan_id [OF assms(2)]] plan_marshal_text [OF assms(1)] by simp

lemma unmarshal_marshal_witness:
  "plan_unmarshal (plan_text demo_plan) = Inr demo_plan"
proof -
  have h: "valid_utf8 (sha256_hex x)" for x by (rule valid_hex)
  have k: "valid_utf8 ''sqlite_pages''" by (rule valid_utf8_ascii) auto
  have keys: "valid_utf8 ''format_version''" "valid_utf8 ''canonical_identity''" "valid_utf8 ''manifest_url''"
    "valid_utf8 ''pocketdb_path''" "valid_utf8 ''divergences''" "valid_utf8 ''self_hash''" "valid_utf8 ''block_height''"
    "valid_utf8 ''manifest_hash''" "valid_utf8 ''pocketnet_core_version''" "valid_utf8 ''divergence_kind''"
    "valid_utf8 ''path''" "valid_utf8 ''pages''" "valid_utf8 ''offset''" "valid_utf8 ''expected_hash''"
    by (rule valid_utf8_ascii, auto)+
  have "strs_ok demo_plan"
    using demo_valid h k keys
    by (simp add: strs_ok_def demo_plan_def emitted_plan_def Let_def plan_tree_def identity_tree_def demo_identity_def
        demo_div_def sqlite_divergence_def divergence_tree_def page_tree_def omit_empty_def kind_sqlite_pages_def)
  moreover have "check_divergences 0 [demo_div] = None"
    by (simp add: check_divergence_def demo_div_def sqlite_divergence_def)
  ultimately show ?thesis
    using unmarshal_marshal [OF wf_demo(1)] plan_marshal_text [OF wf_demo(1)]
    by (simp add: demo_plan_def emitted_plan_def Let_def)
qed

end
