(* ===== verification/HttpTransfer.thy ===== *)
theory HttpTransfer
  imports Prelude
begin

text \<open>
  Package \<open>internal/httptransfer\<close>: the phase bounds of a transfer and the stall guard around a
  response body.  Time is a number of nanoseconds.  A read of the guarded body races the inner read
  against the cancellation of the stall context, which the per-read timer or the caller's context
  causes.  When two of these happen at the same instant either may win; the \<open>race\<close> argument says which.
\<close>

record transfer_policy =
  tp_connect :: nat
  tp_header :: nat
  tp_stall :: nat

definition second :: nat where
  "second = 1000000000"

definition default_policy :: transfer_policy where
  "default_policy = \<lparr>tp_connect = 30 * second, tp_header = 30 * second, tp_stall = 60 * second\<rparr>"

text \<open>Why a context is done; the error of a stall carries the threshold.\<close>

datatype cause = Stalled nat | CallerDone

definition is_transfer_stalled :: "cause \<Rightarrow> bool" where
  "is_transfer_stalled c \<longleftrightarrow> (case c of Stalled _ \<Rightarrow> True | CallerDone \<Rightarrow> False)"

text \<open>A transport: the caller's own, or a fresh one with the phase bounds.\<close>

datatype 'b transport = Injected 'b | Phased nat nat nat \<comment> \<open>dial, TLS handshake, response header\<close>

definition new_phased_transport :: "'b option \<Rightarrow> transfer_policy \<Rightarrow> 'b transport" where
  "new_phased_transport base policy =
     (case base of
        Some b \<Rightarrow> Injected b
      | None \<Rightarrow> Phased (tp_connect policy) (tp_connect policy) (tp_header policy))"

section \<open>The stall guard\<close>

text \<open>
  The threshold, the time at which the caller's context is cancelled, the present time, and the cause of
  the stall context once it is done.  The first cause is kept.
\<close>

record stall_guard =
  sg_threshold :: nat
  sg_caller :: "nat option"
  sg_now :: nat
  sg_cause :: "cause option"

definition wrap_body :: "nat option \<Rightarrow> nat \<Rightarrow> transfer_policy \<Rightarrow> stall_guard" where
  "wrap_body caller now policy =
     \<lparr>sg_threshold = tp_stall policy, sg_caller = caller, sg_now = now, sg_cause = None\<rparr>"

text \<open>
  What the inner body does on one read: after how long it returns, if ever, and what.  A race:
  whether the inner read wins a tie against the cancellation, whether the timer wins one against the
  caller, and whether it still fires when the read returns at that instant.
\<close>

record 'a body_read =
  br_after :: "nat option"
  br_result :: 'a

record race =
  inner_first :: bool
  timer_first :: bool
  timer_late :: bool

datatype 'a read_result = Delivered 'a | Aborted cause

text \<open>When the stall context is done if the read has not returned before, and why.\<close>

definition done_at :: "stall_guard \<Rightarrow> race \<Rightarrow> nat \<times> cause" where
  "done_at g r =
     (case sg_cause g of
        Some c \<Rightarrow> (sg_now g, c)
      | None \<Rightarrow>
          (let fire = sg_now g + sg_threshold g in
           case sg_caller g of
             None \<Rightarrow> (fire, Stalled (sg_threshold g))
           | Some t \<Rightarrow>
               if max t (sg_now g) < fire \<or> (max t (sg_now g) = fire \<and> \<not> timer_first r)
               then (max t (sg_now g), CallerDone)
               else (fire, Stalled (sg_threshold g))))"

definition guarded_read :: "stall_guard \<Rightarrow> race \<Rightarrow> 'a body_read \<Rightarrow> 'a read_result \<times> stall_guard" where
  "guarded_read g r b =
     (let (t, c) = done_at g r in
      case br_after b of
        Some d \<Rightarrow>
          if sg_now g + d < t then (Delivered (br_result b), g\<lparr>sg_now := sg_now g + d\<rparr>)
          else if sg_now g + d = t \<and> inner_first r
          then (Delivered (br_result b),
                g\<lparr>sg_now := t, sg_cause := (if sg_cause g = None \<and> is_transfer_stalled c \<and> \<not> timer_late r then None else Some c)\<rparr>)
          else (Aborted c, g\<lparr>sg_now := t, sg_cause := Some c\<rparr>)
      | None \<Rightarrow> (Aborted c, g\<lparr>sg_now := t, sg_cause := Some c\<rparr>))"

text \<open>A consumer that reads until an error, as \<open>io.Copy\<close> and \<open>io.ReadAll\<close> do.\<close>

fun guarded_reads :: "stall_guard \<Rightarrow> (race \<times> 'a body_read) list \<Rightarrow> 'a list \<times> cause option \<times> stall_guard" where
  "guarded_reads g [] = ([], None, g)"
| "guarded_reads g ((r, b) # bs) =
     (case guarded_read g r b of
        (Aborted c, g') \<Rightarrow> ([], Some c, g')
      | (Delivered x, g') \<Rightarrow> (let (xs, e, g'') = guarded_reads g' bs in (x # xs, e, g'')))"

section \<open>What the guard promises\<close>

text \<open>A read returns within the threshold.\<close>

lemma guarded_read_time:
  assumes "guarded_read g r b = (x, g')"
  shows "sg_now g \<le> sg_now g'" and "sg_now g' \<le> sg_now g + sg_threshold g" and "sg_threshold g' = sg_threshold g"
    and "sg_caller g' = sg_caller g"
  using assms
  by (auto simp: guarded_read_def done_at_def Let_def split: option.splits if_splits prod.splits)

lemma fast_reads_deliver:
  assumes "\<forall>(r, b) \<in> set bs. \<exists>d. br_after b = Some d \<and> d < sg_threshold g"
    and "sg_caller g = None" and "sg_cause g = None"
  shows "\<exists>g'. guarded_reads g bs = (map (br_result \<circ> snd) bs, None, g') \<and> sg_cause g' = None
      \<and> sg_threshold g' = sg_threshold g \<and> sg_caller g' = None
      \<and> sg_now g' = sg_now g + (\<Sum>(r, b) \<leftarrow> bs. the (br_after b))"
  using assms
proof (induction bs arbitrary: g)
  case (Cons rb bs)
  obtain r b where rb: "rb = (r, b)" by fastforce
  with Cons.prems obtain d where d: "br_after b = Some d" "d < sg_threshold g" by auto
  then have s: "guarded_read g r b = (Delivered (br_result b), g\<lparr>sg_now := sg_now g + d\<rparr>)"
    using Cons.prems by (simp add: guarded_read_def done_at_def)
  from Cons.IH [of "g\<lparr>sg_now := sg_now g + d\<rparr>"] Cons.prems s d show ?case by (auto simp: rb)
qed simp

lemma slow_read_stalls:
  assumes "\<And>d. br_after b = Some d \<Longrightarrow> sg_threshold g < d" and "sg_caller g = None" and "sg_cause g = None"
  shows "guarded_read g r b = (Aborted (Stalled (sg_threshold g)),
     g\<lparr>sg_now := sg_now g + sg_threshold g, sg_cause := Some (Stalled (sg_threshold g))\<rparr>)"
  using assms by (auto simp: guarded_read_def done_at_def split: option.split)

lemma guarded_reads_append:
  "guarded_reads g bs = (xs, None, g') \<Longrightarrow>
   guarded_reads g (bs @ cs) = (let (ys, e, g'') = guarded_reads g' cs in (xs @ ys, e, g''))"
  by (induction g bs arbitrary: xs rule: guarded_reads.induct)
     (auto split: prod.splits read_result.splits)

text \<open>
  C18. The stall guard measures each read on its own: as long as every read returns before the threshold the
  body is passed on unchanged, however long the whole transfer takes; the first read that takes
  longer (or never returns) ends it with the stall error exactly at the threshold, whatever comes
  after.
\<close>

theorem stall_guard_verdict:
  assumes "\<forall>(r, b) \<in> set bs. \<exists>d. br_after b = Some d \<and> d < tp_stall policy"
    and "\<And>d. br_after slow = Some d \<Longrightarrow> tp_stall policy < d"
  shows "fst (guarded_reads (wrap_body None now policy) bs) = map (br_result \<circ> snd) bs
       \<and> fst (snd (guarded_reads (wrap_body None now policy) bs)) = None
       \<and> fst (guarded_reads (wrap_body None now policy) (bs @ (r, slow) # cs)) = map (br_result \<circ> snd) bs
       \<and> fst (snd (guarded_reads (wrap_body None now policy) (bs @ (r, slow) # cs))) = Some (Stalled (tp_stall policy))
       \<and> sg_now (snd (snd (guarded_reads (wrap_body None now policy) (bs @ (r, slow) # cs))))
           = now + (\<Sum>(r, b) \<leftarrow> bs. the (br_after b)) + tp_stall policy"
proof -
  let ?g = "wrap_body None now policy"
  obtain g' where g': "guarded_reads ?g bs = (map (br_result \<circ> snd) bs, None, g')" "sg_cause g' = None"
    and k: "sg_threshold g' = tp_stall policy" "sg_caller g' = None"
      "sg_now g' = now + (\<Sum>(r, b) \<leftarrow> bs. the (br_after b))"
    using fast_reads_deliver [of bs ?g] assms(1) by (auto simp: wrap_body_def)
  have s: "guarded_read g' r slow = (Aborted (Stalled (tp_stall policy)),
      g'\<lparr>sg_now := sg_now g' + tp_stall policy, sg_cause := Some (Stalled (tp_stall policy))\<rparr>)"
    using slow_read_stalls [of slow g' r] assms(2) g'(2) k by auto
  then have "guarded_reads ?g (bs @ (r, slow) # cs) = (map (br_result \<circ> snd) bs, Some (Stalled (tp_stall policy)),
      g'\<lparr>sg_now := sg_now g' + tp_stall policy, sg_cause := Some (Stalled (tp_stall policy))\<rparr>)"
    using guarded_reads_append [OF g'(1)] by simp
  with g' k show ?thesis by simp
qed

definition demo_read :: "nat option \<Rightarrow> nat \<Rightarrow> nat body_read" where
  "demo_read d x = \<lparr>br_after = d, br_result = x\<rparr>"

definition fair :: race where
  "fair = \<lparr>inner_first = True, timer_first = True, timer_late = False\<rparr>"

text \<open>Three reads of 50 seconds each pass the default policy; a body that then hangs is given up after 60.\<close>

lemma stall_guard_verdict_witness:
  "let slow = (fair, demo_read None 0); ok = map (\<lambda>i. (fair, demo_read (Some (50 * second)) i)) [1, 2, 3];
       res = guarded_reads (wrap_body None 0 default_policy) (ok @ [slow])
   in fst res = [1, 2, 3] \<and> fst (snd res) = Some (Stalled (60 * second)) \<and> sg_now (snd (snd res)) = 210 * second"
proof -
  have "\<forall>(r, b) \<in> set (map (\<lambda>i. (fair, demo_read (Some (50 * second)) i)) [1, 2, 3]).
      \<exists>d. br_after b = Some d \<and> d < tp_stall default_policy"
    by (simp add: demo_read_def default_policy_def second_def)
  from stall_guard_verdict [OF this, of "demo_read None 0" 0 fair "[]"] show ?thesis
    by (simp add: demo_read_def default_policy_def second_def Let_def)
qed

end
