(* ===== verification/PreflightClaims.thy ===== *)
theory PreflightClaims
  imports DiagnoseClaims
begin

text \<open>
  The predicates of preflight: what the guard against a running node detects, the order in which the
  predicates are evaluated, and which mount decides about a read-only volume.
\<close>

section \<open>The guard against a running node\<close>

text \<open>
  The specification.  A path is under a directory when it is the directory or continues it after a separator.
  A node process holds a file of the tree, or its open files cannot be listed, or it has a file open that is
  not in the tree although its path begins with the name of the directory.
\<close>

definition under_dir :: "string \<Rightarrow> string \<Rightarrow> bool" where
  "under_dir dir f \<longleftrightarrow> f = dir \<or> has_prefix f (below dir [])"

definition node_process :: "process \<Rightarrow> bool" where
  "node_process p \<longleftrightarrow> pr_name p = Some ''pocketnet-core'' \<or> pr_name p = Some ''pocketnetd''"

definition has_open :: "(string \<Rightarrow> bool) \<Rightarrow> process \<Rightarrow> bool" where
  "has_open P p \<longleftrightarrow> node_process p \<and> (\<exists>files. pr_files p = Some files \<and> (\<exists>f \<in> set files. P f))"

definition holds_file :: "string \<Rightarrow> process \<Rightarrow> bool" where
  "holds_file dir = has_open (under_dir dir)"

definition unlisted :: "string \<Rightarrow> process \<Rightarrow> bool" where
  "unlisted dir p \<longleftrightarrow> node_process p \<and> pr_files p = None"

definition works_beside :: "string \<Rightarrow> process \<Rightarrow> bool" where
  "works_beside dir = has_open (\<lambda>f. has_prefix f dir \<and> \<not> under_dir dir f)"

text \<open>What the probe sees: the lock, and the processes after the database file was opened.\<close>

definition database_locked :: "host \<Rightarrow> string \<Rightarrow> os \<Rightarrow> bool" where
  "database_locked h db w \<longleftrightarrow>
     (let db_file = go_join [db, ''main.sqlite3'']; (r, w1) = open_read db_file w in
        is_ok r \<and> ho_flock h (ticks w1) db_file = WouldBlock)"

definition process_seen :: "host \<Rightarrow> string \<Rightarrow> os \<Rightarrow> (string \<Rightarrow> process \<Rightarrow> bool) \<Rightarrow> bool" where
  "process_seen h db w Q \<longleftrightarrow>
     (\<exists>dir ps p. abs_path h db = Some dir \<and> ho_procs h (ticks (snd (open_read (go_join [db, ''main.sqlite3'']) w))) = Some ps
        \<and> p \<in> set ps \<and> Q dir p)"

text \<open>The test of the code lumps the three together.\<close>

definition node_uses :: "string \<Rightarrow> process \<Rightarrow> bool" where
  "node_uses dir p \<longleftrightarrow>
     node_process p \<and> (case pr_files p of None \<Rightarrow> True | Some files \<Rightarrow> \<exists>f \<in> set files. has_prefix f dir)"

lemma node_uses_iff: "node_uses dir p \<longleftrightarrow> holds_file dir p \<or> unlisted dir p \<or> works_beside dir p"
proof -
  have "under_dir dir f \<Longrightarrow> has_prefix f dir" for f by (auto simp: under_dir_def has_prefix_iff below_def)
  then show ?thesis
    by (auto simp: node_uses_def holds_file_def unlisted_def works_beside_def has_open_def split: option.splits)
qed

definition node_running :: "host \<Rightarrow> string \<Rightarrow> os \<Rightarrow> bool" where
  "node_running h db w \<longleftrightarrow> database_locked h db w \<or> process_seen h db w node_uses"

lemma node_running_iff:
  "node_running h db w \<longleftrightarrow> database_locked h db w \<or> process_seen h db w holds_file
     \<or> process_seen h db w unlisted \<or> process_seen h db w works_beside"
  unfolding node_running_def process_seen_def node_uses_iff by blast

text \<open>The host answers: process numbers are positive, and the lock query does not fail.\<close>

definition host_answers :: "host \<Rightarrow> bool" where
  "host_answers h \<longleftrightarrow>
     (\<forall>t ps. ho_procs h t = Some ps \<longrightarrow> (\<forall>p \<in> set ps. 0 < pr_pid p)) \<and> (\<forall>t p. ho_flock h t p \<noteq> FlockErr)"

lemma scan_procs_step:
  "scan_procs dir (p # ps) = (if node_uses dir p then (pr_pid p, the (pr_name p)) else scan_procs dir ps)"
  by (cases "pr_name p"; cases "pr_files p") (simp_all add: node_uses_def node_process_def list_ex_iff)

lemma scan_procs_none: "\<not> (\<exists>p \<in> set ps. node_uses dir p) \<Longrightarrow> scan_procs dir ps = (0, [])"
  by (induction ps) (simp_all add: scan_procs_step del: scan_procs.simps(2))

lemma scan_procs_found:
  "\<exists>p \<in> set ps. node_uses dir p \<Longrightarrow> \<exists>p \<in> set ps. node_uses dir p \<and> fst (scan_procs dir ps) = pr_pid p"
  by (induction ps) (auto simp: scan_procs_step simp del: scan_procs.simps(2))

lemma scan_positive:
  assumes "host_answers h"
  shows "0 < fst (scan_for_pocketnet_core h db w) \<longleftrightarrow>
     (\<exists>dir ps p. abs_path h db = Some dir \<and> ho_procs h (ticks w) = Some ps \<and> p \<in> set ps \<and> node_uses dir p)"
proof (cases "abs_path h db"; cases "ho_procs h (ticks w)")
  fix dir ps assume d: "abs_path h db = Some dir" "ho_procs h (ticks w) = Some ps"
  have pos: "\<forall>p \<in> set ps. 0 < pr_pid p" using assms d(2) by (auto simp: host_answers_def)
  show ?thesis
  proof (cases "\<exists>p \<in> set ps. node_uses dir p")
    case True
    with pos scan_procs_found [OF True] show ?thesis using d by (auto simp: scan_for_pocketnet_core_def)
  qed (use d scan_procs_none [of ps dir] in \<open>auto simp: scan_for_pocketnet_core_def\<close>)
qed (simp_all add: scan_for_pocketnet_core_def)

lemma open_read_keeps: "names (snd (open_read p w)) = names w \<and> store (snd (open_read p w)) = store w"
  by (simp add: open_read_def syscall_def tick_def split: option.split fault.split node.split)

lemma running_node_keeps: "names (snd (running_node h db w)) = names w \<and> store (snd (running_node h db w)) = store w"
  using open_read_keeps [of "go_join [db, ''main.sqlite3'']" w]
  by (auto simp: running_node_def running_node_probe_def flock_probe_def Let_def
      split: prod.splits sum.splits flock_answer.splits)

lemma running_node_iff:
  assumes "host_answers h"
  shows "node_running h db w \<Longrightarrow> \<exists>r w'. running_node h db w = (Refused RunningNode r, w')"
    and "\<not> node_running h db w \<Longrightarrow> \<exists>w'. running_node h db w = (Pass, w')"
proof -
  let ?f = "go_join [db, ''main.sqlite3'']"
  obtain x w1 where o: "open_read ?f w = (x, w1)" by fastforce
  obtain pid nm where s: "scan_for_pocketnet_core h db w1 = (pid, nm)" by fastforce
  have nr: "node_running h db w \<longleftrightarrow> is_ok x \<and> ho_flock h (ticks w1) ?f = WouldBlock \<or> 0 < pid"
    using scan_positive [OF assms, of db w1] s by (auto simp: node_running_def database_locked_def process_seen_def Let_def o)
  have fl: "ho_flock h (ticks w1) ?f \<noteq> FlockErr" using assms by (auto simp: host_answers_def)
  have p: "flock_probe h ?f w = (Inr (is_ok x \<and> ho_flock h (ticks w1) ?f = WouldBlock), w1)"
    using fl by (cases x; cases "ho_flock h (ticks w1) ?f") (simp_all add: flock_probe_def o is_ok_def)
  show "node_running h db w \<Longrightarrow> \<exists>r w'. running_node h db w = (Refused RunningNode r, w')"
    "\<not> node_running h db w \<Longrightarrow> \<exists>w'. running_node h db w = (Pass, w')"
    unfolding nr by (auto simp: running_node_def running_node_probe_def p s)
qed

lemma later_code:
  "post_stream h opts hdr n w = (Some out, w') \<Longrightarrow> out \<noteq> Finished RunningNode r"
  "stream_failed e \<noteq> Finished RunningNode r"
  by (auto simp: post_stream_def version_mismatch_value_def volume_capacity_from_total_bytes_def permission_read_only_def
      Let_def stream_failed_def split: sum.splits prod.splits predicate_result.splits option.splits if_splits
      stream_err.splits entry_err.splits)

lemma finish_code: "fst (finish_diagnose h opts hdr s w) \<noteq> Finished RunningNode r"
  using later_code(1) by (auto simp: finish_diagnose_def split: prod.split option.split sum.split)

lemma streamed_code: "fst (stream_and_finish h opts em w) \<noteq> Finished RunningNode r"
  using later_code(2) finish_code by (simp add: stream_and_finish_def split: prod.split sum.split)

lemma diagnose_guard:
  assumes "host_answers h" and "diagnose h opts w = (out, w')"
  shows "((\<exists>r. out = Finished RunningNode r) \<longleftrightarrow> node_running h (do_db opts) w)
    \<and> (node_running h (do_db opts) w \<longrightarrow> names w' = names w \<and> store w' = store w)"
proof (cases "node_running h (do_db opts) w")
  case True
  then obtain r w1 where "running_node h (do_db opts) w = (Refused RunningNode r, w1)"
    using running_node_iff(1) [OF assms(1)] by blast
  with True show ?thesis
    using assms(2) running_node_keeps [of h "do_db opts" w] by (auto simp: diagnose_def)
next
  case False
  then obtain w1 where "running_node h (do_db opts) w = (Pass, w1)"
    using running_node_iff(2) [OF assms(1)] by blast
  note rn = this
  obtain x w2 where pw: "probe_writable (do_out opts) w1 = (x, w2)" by fastforce
  obtain y w3 where ne: "new_plan_emitter (do_out opts) w2 = (y, w3)" by fastforce
  obtain o1 em1 w4 where sf: "stream_and_finish h opts (projr y) w3 = (o1, em1, w4)" by (metis prod_cases3)
  have "out \<noteq> Finished RunningNode r" for r
  proof (cases x)
    case Inl
    then show ?thesis using assms(2) by (auto simp: diagnose_def rn pw)
  next
    case Inr
    note x = this
    show ?thesis
    proof (cases y)
      case Inl
      then show ?thesis using assms(2) x by (auto simp: diagnose_def rn pw ne)
    next
      case (Inr em)
      then have "out = o1" using assms(2) x sf by (simp add: diagnose_def rn pw ne Let_def)
      then show ?thesis using streamed_code [of h opts "projr y" w3 r] sf by simp
    qed
  qed
  with False show ?thesis by blast
qed

text \<open>
  C10. Diagnose exits with the code for a running node when another process has the database file locked or a node
  process has a file open under the data directory. Otherwise it does so in two cases only: when a node process
  runs whose open files cannot be listed, and when one has a file open beside the directory, in a place whose
  name continues that of the directory (the code compares strings, so \<open>pocketdb2\<close> counts as \<open>pocketdb\<close>).
  Whenever it refuses with this code it has changed nothing. Process numbers are positive, and the lock query
  itself does not fail.
\<close>

theorem diagnose_refuses_running_node:
  assumes "host_answers h" and "diagnose h opts w = (out, w')"
  shows "((\<exists>r. out = Finished RunningNode r) \<longleftrightarrow>
       database_locked h (do_db opts) w \<or> process_seen h (do_db opts) w holds_file
     \<or> process_seen h (do_db opts) w unlisted \<or> process_seen h (do_db opts) w works_beside)
   \<and> ((\<exists>r. out = Finished RunningNode r) \<longrightarrow> names w' = names w \<and> store w' = store w)"
  using diagnose_guard [OF assms] unfolding node_running_iff by blast

text \<open>A host on which a node has a file of the directory open, and one whose node works in a sibling directory.\<close>

definition node_host :: "string \<Rightarrow> host" where
  "node_host f = idle_host\<lparr>ho_procs := (\<lambda>_. Some [\<lparr>pr_pid = 7, pr_name = Some ''pocketnetd'', pr_files = Some [f]\<rparr>])\<rparr>"

lemma node_host_sees:
  "process_seen (node_host f) ''/d/pocketdb'' w Q \<longleftrightarrow> Q ''/d/pocketdb'' \<lparr>pr_pid = 7, pr_name = Some ''pocketnetd'', pr_files = Some [f]\<rparr>"
proof -
  have "abs_path (node_host f) ''/d/pocketdb'' = abs_path idle_host ''/d/pocketdb''" by (simp add: abs_path_def node_host_def)
  moreover have "abs_path idle_host ''/d/pocketdb'' = Some ''/d/pocketdb''" by code_simp
  ultimately show ?thesis by (simp add: process_seen_def node_host_def)
qed

lemma diagnose_refuses_running_node_witness:
  "\<exists>r w'. diagnose (node_host ''/d/pocketdb/main.sqlite3'') small_opts locked_world = (Finished RunningNode r, w')
     \<and> names w' = names locked_world \<and> store w' = store locked_world"
proof -
  let ?h = "node_host ''/d/pocketdb/main.sqlite3''"
  have h: "host_answers ?h" by (simp add: host_answers_def node_host_def idle_host_def)
  have "under_dir ''/d/pocketdb'' ''/d/pocketdb/main.sqlite3''" by code_simp
  then have r: "process_seen ?h (do_db small_opts) locked_world holds_file"
    by (simp add: small_opts_def node_host_sees holds_file_def has_open_def node_process_def)
  obtain out w' where d: "diagnose ?h small_opts locked_world = (out, w')" by fastforce
  show ?thesis using diagnose_refuses_running_node [OF h d] r d by auto
qed

lemma sibling_directory_counts: "process_seen (node_host ''/d/pocketdb2/main.sqlite3'') ''/d/pocketdb'' w works_beside"
proof -
  have "\<not> under_dir ''/d/pocketdb'' ''/d/pocketdb2/main.sqlite3''" "has_prefix ''/d/pocketdb2/main.sqlite3'' ''/d/pocketdb''"
    by code_simp+
  then show ?thesis by (simp add: node_host_sees works_beside_def has_open_def node_process_def)
qed

section \<open>The order of the predicates\<close>

text \<open>All of \<open>ps\<close> pass, one after the other, from \<open>w\<close> to \<open>w'\<close>.\<close>

fun all_pass :: "(string \<times> predicate) list \<Rightarrow> os \<Rightarrow> os \<Rightarrow> bool" where
  "all_pass [] w w' \<longleftrightarrow> w' = w"
| "all_pass ((_, fn) # ps) w w' \<longleftrightarrow> (\<exists>w1. fn w = (Pass, w1) \<and> all_pass ps w1 w')"

lemma evaluate_from_append:
  "all_pass qs w w1 \<Longrightarrow> evaluate_from i (qs @ ps) w = evaluate_from (i + length qs) ps w1"
  by (induction qs w w1 arbitrary: i rule: all_pass.induct) auto

text \<open>The evaluation stops at the first refusal, and counts the predicates that ran; nothing else can happen.\<close>

lemma evaluate_ordered_passes: "all_pass ps w w' \<Longrightarrow> evaluate_ordered ps w = (([], Pass, length ps), w')"
  using evaluate_from_append [of ps w w' 0 "[]"] by (simp add: evaluate_ordered_def)

lemma evaluate_ordered_stops:
  "all_pass qs w w1 \<Longrightarrow> fn w1 = (Refused c r, w') \<Longrightarrow>
   evaluate_ordered (qs @ (nm, fn) # rs) w = ((nm, Refused c r, Suc (length qs)), w')"
  by (simp add: evaluate_ordered_def evaluate_from_append)

lemma pass_or_refuse:
  "(\<exists>w'. all_pass ps w w')
 \<or> (\<exists>qs nm fn rs w1 c r w'. ps = qs @ (nm, fn) # rs \<and> all_pass qs w w1 \<and> fn w1 = (Refused c r, w'))"
proof (induction ps arbitrary: w)
  case (Cons p ps)
  obtain nm fn where p: "p = (nm, fn)" by fastforce
  obtain res w1 where f: "fn w = (res, w1)" by fastforce
  show ?case
  proof (cases res)
    case Pass
    from Cons [of w1] show ?thesis
    proof (elim disjE exE conjE)
      fix w' assume "all_pass ps w1 w'"
      then show ?thesis using f Pass by (auto simp: p)
    next
      fix qs nm' fn' rs w2 c r w'
      assume "ps = qs @ (nm', fn') # rs" "all_pass qs w1 w2" "fn' w2 = (Refused c r, w')"
      then have "p # ps = (p # qs) @ (nm', fn') # rs" "all_pass (p # qs) w w2" "fn' w2 = (Refused c r, w')"
        using f Pass by (simp_all add: p)
      then show ?thesis by blast
    qed
  next
    case (Refused c r)
    then have "p # ps = [] @ (nm, fn) # ps" "all_pass [] w w" "fn w = (Refused c r, w1)" using f by (simp_all add: p)
    then show ?thesis by blast
  qed
qed auto

section \<open>The mount that decides\<close>

definition mount_line :: "string \<Rightarrow> string \<Rightarrow> (string \<times> bool) option" where
  "mount_line a line =
     (let fields = str_fields line in
      if length fields < 4 \<or> \<not> has_prefix a (fields ! 1) then None
      else Some (fields ! 1, options_contain_ro (fields ! 3)))"

lemma mount_step_line:
  "mount_step a best line =
     (case mount_line a line of None \<Rightarrow> best | Some m \<Rightarrow> if length (fst best) < length (fst m) then m else best)"
  by (simp add: mount_step_def mount_line_def Let_def)

text \<open>The longest mount point that is a string prefix of the path decides; without one the volume counts as writable.\<close>

lemma mount_longest:
  "foldl (mount_step a) best lines = m \<Longrightarrow>
     (m = best \<or> Some m \<in> mount_line a ` set lines) \<and> length (fst best) \<le> length (fst m)
   \<and> (\<forall>l \<in> set lines. \<forall>x. mount_line a l = Some x \<longrightarrow> length (fst x) \<le> length (fst m))"
proof (induction lines arbitrary: best)
  case (Cons l lines)
  have "foldl (mount_step a) (mount_step a best l) lines = m" using Cons.prems by simp
  note IH = Cons.IH [OF this]
  then show ?case
    by (cases "mount_line a l") (auto simp: mount_step_line image_iff eq_commute split: if_splits)
qed simp

lemma mounted_read_only_longest:
  "mounted_read_only a mounts \<longleftrightarrow>
     (\<exists>mp. foldl (mount_step a) ([], False) (split_on (CHR 0x0A) mounts) = (mp, True)
       \<and> Some (mp, True) \<in> mount_line a ` set (split_on (CHR 0x0A) mounts))"
proof -
  obtain mp ro where m: "foldl (mount_step a) ([], False) (split_on (CHR 0x0A) mounts) = (mp, ro)" by fastforce
  from mount_longest [OF this] show ?thesis by (auto simp: mounted_read_only_def m)
qed

lemma data_mount_covers_database:
  "mounted_read_only ''/database/pocketdb'' (''/dev/a / ext4 rw 0 0'' @ [CHR 0x0A] @ ''/dev/b /data ext4 ro 0 0'' @ [CHR 0x0A])"
  by code_simp

end
