(* ===== verification/Console.thy ===== *)
theory Console
  imports Cli Summary
begin

text \<open>
  What the program writes for its user: package \<open>internal/stderrlog\<close>, the progress messages of
  \<open>progress.go\<close>, the help and version pages of \<open>internal/cli\<close>, \<open>internal/buildinfo\<close>, and the texts of
  the errors that carry numbers and hashes.  The text that \<open>fmt\<close> formats is computed here, a
  duration's text is a parameter.
\<close>

abbreviation newline :: char where
  "newline \<equiv> CHR 0x0A"

section \<open>stderrlog.go\<close>

text \<open>A logger holds what its writer has received; \<open>None\<close> in its field is a nil writer, \<open>None\<close> for the logger a nil logger.\<close>

record logger =
  lg_out :: "string option"
  lg_verbose :: bool

definition new_with :: "string option \<Rightarrow> bool \<Rightarrow> logger" where
  "new_with out verbose = \<lparr>lg_out = out, lg_verbose = verbose\<rparr>"

definition new_logger :: "bool \<Rightarrow> logger" where
  "new_logger verbose = new_with (Some []) verbose"

text \<open>The line end is added by the format, not by the formatted text.\<close>

definition log_write :: "string \<Rightarrow> string \<Rightarrow> string \<Rightarrow> string" where
  "log_write out format text = out @ text @ (if format = [] \<or> last format \<noteq> newline then [newline] else [])"

definition log_info :: "string \<Rightarrow> string \<Rightarrow> logger option \<Rightarrow> logger option" where
  "log_info format text l =
     (case l of
        None \<Rightarrow> None
      | Some lg \<Rightarrow>
          (case lg_out lg of None \<Rightarrow> Some lg | Some out \<Rightarrow> Some (lg\<lparr>lg_out := Some (log_write out format text)\<rparr>)))"

definition log_debug :: "string \<Rightarrow> string \<Rightarrow> logger option \<Rightarrow> logger option" where
  "log_debug format text l =
     (case l of
        None \<Rightarrow> None
      | Some lg \<Rightarrow> if \<not> lg_verbose lg then Some lg else log_info format text (Some lg))"

text \<open>\<open>loggerWriter\<close> of \<open>orchestrator.go\<close>, with the number of bytes it claims to have written.\<close>

definition trim_newlines :: "string \<Rightarrow> string" where
  "trim_newlines s = rev (dropWhile (\<lambda>c. c = newline) (rev s))"

definition logger_write :: "string \<Rightarrow> logger option \<Rightarrow> int \<times> logger option" where
  "logger_write p l =
     (if l = None then (0, None) else (int (length p), log_info ''%s'' (trim_newlines p) l))"

section \<open>progress.go\<close>

text \<open>The outer option is a nil emitter.\<close>

definition progress_enter :: "string \<Rightarrow> logger option option \<Rightarrow> logger option option" where
  "progress_enter cls e =
     map_option (log_info ''[diagnose] hashing %s...'' (''[diagnose] hashing '' @ cls @ ''...'')) e"

definition progress_main_page :: "int \<Rightarrow> int \<Rightarrow> logger option option \<Rightarrow> logger option option" where
  "progress_main_page n total_n e =
     map_option (\<lambda>l. case main_sqlite_page n total_n of
        None \<Rightarrow> l
      | Some pct \<Rightarrow>
          log_info ''[diagnose] hashing main.sqlite3 pages: %d / %d (%d%%)''
            (''[diagnose] hashing main.sqlite3 pages: '' @ fmt_int n @ '' / '' @ fmt_int total_n @ '' ('' @ fmt_int pct @ ''%)'') l) e"

definition progress_file_batch :: "string \<Rightarrow> int \<Rightarrow> int \<Rightarrow> logger option option \<Rightarrow> logger option option" where
  "progress_file_batch cls n total_n e =
     map_option (\<lambda>l. if \<not> file_batch n total_n then l
        else log_info ''[diagnose] hashing %s: %d / %d files''
          (''[diagnose] hashing '' @ cls @ '': '' @ fmt_int n @ '' / '' @ fmt_int total_n @ '' files'') l) e"

definition progress_exit :: "string \<Rightarrow> string \<Rightarrow> logger option option \<Rightarrow> logger option option" where
  "progress_exit cls elapsed e =
     map_option (log_info ''[diagnose] hashed %s in %s'' (''[diagnose] hashed '' @ cls @ '' in '' @ elapsed)) e"

section \<open>The pages of the command line\<close>

definition top_help :: "string list" where
  "top_help =
    [''pocketnet-node-doctor '' @ [CHR 0xE2, CHR 0x80, CHR 0x94] @ '' recover dead/corrupted pocketnet nodes by downloading only byte-level differences from a canonical snapshot.'',
     [],
     ''Usage:'',
     ''  pocketnet-node-doctor diagnose --canonical <url> --pocketdb <path> [--plan-out <path>] [--verbose]'',
     ''  pocketnet-node-doctor apply --plan <path>            (chunk 003)'',
     ''  pocketnet-node-doctor --help'',
     ''  pocketnet-node-doctor --version'',
     [],
     ''Exit codes:'',
     ''  0  success'',
     ''  1  generic error'',
     ''  2  refused: a pocketnet node is running'',
     ''  3  refused: local node is ahead of the canonical'',
     ''  4  refused: pocketnet-core version mismatch'',
     ''  5  refused: insufficient volume capacity'',
     ''  6  refused: pocketdb is read-only'',
     ''  7  refused: manifest format_version unrecognized'']"

definition diagnose_help :: "string list" where
  "diagnose_help =
    [''Usage: pocketnet-node-doctor diagnose --canonical <url> --pocketdb <path> [--plan-out <path>] [--verbose]'',
     [],
     ''Compares the local pocketdb to the canonical manifest. Emits plan.json describing'',
     ''the divergent pages/files. Read-only '' @ [CHR 0xE2, CHR 0x80, CHR 0x94] @ '' does not modify pocketdb. To apply the plan,'',
     ''use `pocketnet-node-doctor apply` (chunk 003).'',
     [],
     ''Flags:'',
     ''  --canonical <url>    HTTPS URL of the canonical manifest (required)'',
     ''  --pocketdb <path>    Path to the local pocketnet data directory (required)'',
     ''  --plan-out <path>    Where to write plan.json (default: <dirname pocketdb>/plan.json)'',
     ''  --pinned-hash <hex>  Expected SHA-256 of the manifest; overrides compiled-in trust-root'',
     ''  --verbose            Emit debug messages on stderr'']"

definition apply_help :: "string list" where
  "apply_help =
    [''Usage: pocketnet-node-doctor apply --plan <path> [--parallel <n>] [--verbose]'',
     [],
     ''Consumes the plan produced by `diagnose` and atomically applies all divergent'',
     ''chunks to the local pocketdb. Rolls back on verification failure.'',
     [],
     ''Flags:'',
     ''  --plan <path>      Path to plan.json produced by diagnose (required)'',
     ''  --parallel <n>     Number of parallel fetch workers, 1..32 (default 4)'',
     ''  --verbose          Emit debug messages on stderr'']"

record build_info =
  bi_version :: string
  bi_commit :: string
  bi_date :: string

definition default_build :: build_info where
  "default_build = \<lparr>bi_version = ''(unknown)'', bi_commit = ''(unknown)'', bi_date = ''(unknown)''\<rparr>"

definition version_page :: "build_info \<Rightarrow> string list" where
  "version_page b =
     [''pocketnet-node-doctor '' @ bi_version b @ '' (commit '' @ bi_commit b @ '', built '' @ bi_date b @ '')'',
      ''trust-root: '' @ trust_root]"

section \<open>Texts of errors\<close>

definition format_version_text :: "int \<Rightarrow> int \<Rightarrow> string" where
  "format_version_text got recognized =
     ''manifest format_version '' @ fmt_int got @ '' not recognized; this build of pocketnet-node-doctor recognizes ''
       @ fmt_int recognized"

definition trust_root_text :: "string \<Rightarrow> string \<Rightarrow> string" where
  "trust_root_text computed expected = ''manifest trust-root mismatch: computed '' @ computed @ '', expected '' @ expected"

definition self_hash_text :: "string \<Rightarrow> string \<Rightarrow> string" where
  "self_hash_text computed embedded = ''plan self_hash mismatch: computed '' @ computed @ '', embedded '' @ embedded"

definition manifest_fetch_text :: "string \<Rightarrow> int \<Rightarrow> string" where
  "manifest_fetch_text why declared =
     (if why = ''no-content-length'' then ''manifest fetch: response has no declared Content-Length; refusing to spool''
      else if why = ''over-declared-length''
      then ''manifest fetch: body exceeds declared Content-Length of '' @ fmt_int declared @ '' bytes; aborting''
      else ''manifest fetch: '' @ why)"

text \<open>\<open>asParseErr\<close> of \<open>main.go\<close>: an error, what it wraps, and so on.\<close>

datatype go_error = IsParseError parse_error | Wraps go_error | OpaqueError

fun as_parse_err :: "go_error \<Rightarrow> parse_error option" where
  "as_parse_err (IsParseError e) = Some e"
| "as_parse_err (Wraps e) = as_parse_err e"
| "as_parse_err OpaqueError = None"

section \<open>Whole lines\<close>

definition whole_lines :: "string \<Rightarrow> bool" where
  "whole_lines out \<longleftrightarrow> out = [] \<or> last out = newline"

definition log_text :: "logger option \<Rightarrow> string" where
  "log_text l = (case l of None \<Rightarrow> [] | Some lg \<Rightarrow> (case lg_out lg of None \<Rightarrow> [] | Some out \<Rightarrow> out))"

text \<open>A call whose text ends as its format does leaves whole lines; every message of the program is one.\<close>

lemma log_info_whole:
  assumes "format \<noteq> [] \<and> last format = newline \<longrightarrow> text \<noteq> [] \<and> last text = newline" and "whole_lines (log_text l)"
  shows "whole_lines (log_text (log_info format text l))"
  using assms by (auto simp: log_info_def log_text_def whole_lines_def log_write_def split: option.split)

lemma log_debug_whole:
  assumes "format \<noteq> [] \<and> last format = newline \<longrightarrow> text \<noteq> [] \<and> last text = newline" and "whole_lines (log_text l)"
  shows "whole_lines (log_text (log_debug format text l))"
proof (cases l)
  case None
  then show ?thesis by (simp add: log_debug_def log_text_def whole_lines_def)
next
  case (Some lg)
  then show ?thesis using log_info_whole [OF assms] assms(2) by (simp add: log_debug_def)
qed

lemma progress_whole:
  assumes "\<And>l. e = Some l \<Longrightarrow> whole_lines (log_text l)"
  shows "progress_enter cls e = Some l \<Longrightarrow> whole_lines (log_text l)"
    and "progress_main_page n total_n e = Some l \<Longrightarrow> whole_lines (log_text l)"
    and "progress_file_batch cls n total_n e = Some l \<Longrightarrow> whole_lines (log_text l)"
    and "progress_exit cls elapsed e = Some l \<Longrightarrow> whole_lines (log_text l)"
  using assms
  by (auto simp: progress_enter_def progress_main_page_def progress_file_batch_def progress_exit_def
      intro!: log_info_whole split: option.splits if_splits)

lemma trim_newlines_end: "trim_newlines s = [] \<or> last (trim_newlines s) \<noteq> newline"
  unfolding trim_newlines_def last_rev
  by (metis (full_types) hd_dropWhile last_rev rev_is_Nil_conv)

text \<open>What the summary is written through: the text, without trailing line ends, as one message.\<close>

lemma logger_write_text:
  assumes "lg_out lg = Some out"
  shows "logger_write p (Some lg) = (int (length p), Some (lg\<lparr>lg_out := Some (out @ trim_newlines p @ [newline])\<rparr>))"
  using assms by (simp add: logger_write_def log_info_def log_write_def)

text \<open>A verbose logger shows the debug messages and a quiet one drops them.\<close>

lemma debug_is_verbose:
  "log_debug format text (Some (new_logger v)) = (if v then log_info format text (Some (new_logger v)) else Some (new_logger v))"
  by (simp add: log_debug_def new_logger_def new_with_def)

text \<open>A wrapped parse error keeps its code.\<close>

lemma as_parse_err_iff:
  "as_parse_err e = Some p \<longleftrightarrow> (\<exists>n. e = (Wraps ^^ n) (IsParseError p))"
proof (induction e)
  case (Wraps e)
  have "Wraps e = (Wraps ^^ n) (IsParseError p) \<longleftrightarrow> (\<exists>m. n = Suc m \<and> e = (Wraps ^^ m) (IsParseError p))" for n
    by (cases n) auto
  with Wraps show ?case by auto
next
  case (IsParseError q)
  have "IsParseError q = (Wraps ^^ n) (IsParseError p) \<longleftrightarrow> n = 0 \<and> q = p" for n by (cases n) auto
  then show ?case by auto
next
  case OpaqueError
  have "OpaqueError \<noteq> (Wraps ^^ n) (IsParseError p)" for n by (cases n) auto
  then show ?case by simp
qed

section \<open>The help and the exit codes\<close>

definition explained :: "exit_code \<Rightarrow> bool" where
  "explained c \<longleftrightarrow> list_ex (\<lambda>l. has_prefix l (''  '' @ fmt_int (code_number c) @ ''  '')) top_help"

text \<open>The help explains the codes of diagnose, and none of those that only apply can return.\<close>

lemma explained_iff: "explained c \<longleftrightarrow> code_number c < 8"
proof -
  have d: "char_of (48 :: nat) = CHR ''0''" "char_of (49 :: nat) = CHR ''1''" "char_of (50 :: nat) = CHR ''2''"
      "char_of (51 :: nat) = CHR ''3''" "char_of (52 :: nat) = CHR ''4''" "char_of (53 :: nat) = CHR ''5''"
      "char_of (54 :: nat) = CHR ''6''" "char_of (55 :: nat) = CHR ''7''" "char_of (56 :: nat) = CHR ''8''"
      "char_of (57 :: nat) = CHR ''9''"
    by code_simp+
  show ?thesis
    by (cases c) (simp_all add: d explained_def top_help_def fmt_int_def nat_digits.simps has_prefix_def)
qed

end
