(* ===== verification/OtherPlatforms.thy ===== *)
theory OtherPlatforms
  imports Preflight
begin

text \<open>
  The files for Windows and Darwin that replace single functions of \<open>preflight\<close> and \<open>manifest\<close>:
  \<open>permission_readonly_windows.go\<close>, \<open>permission_readonly_darwin.go\<close>, \<open>volume_capacity_windows.go\<close>,
  \<open>spool_windows.go\<close>.  What the system calls answer is a parameter; a path that has no UTF-16 form (one
  with a zero byte) makes them fail.
\<close>

section \<open>Windows\<close>

text \<open>The volume name of a path, the flags of a volume, and the bytes available and in total.\<close>

record windows_host =
  wh_volume_name :: "string \<Rightarrow> string"
  wh_volume_flags :: "string \<Rightarrow> 32 word option"
  wh_disk_free :: "nat \<Rightarrow> string \<Rightarrow> (64 word \<times> 64 word) option"

definition utf16_ok :: "string \<Rightarrow> bool" where
  "utf16_ok p \<longleftrightarrow> CHR 0x00 \<notin> set p"

definition read_only_volume :: "32 word" where
  "read_only_volume = 0x00080000"

definition permission_probe_windows :: "windows_host \<Rightarrow> string \<Rightarrow> (bool \<times> bool) option" where
  "permission_probe_windows h path =
     (let root = wh_volume_name h path @ [CHR 0x5C] in
      if \<not> utf16_ok root then None
      else case wh_volume_flags h root of
        None \<Rightarrow> None
      | Some fsFlags \<Rightarrow>
          (let ro = and fsFlags read_only_volume \<noteq> 0 in Some (\<not> ro, ro)))"

definition statfs_windows :: "windows_host \<Rightarrow> string \<Rightarrow> os \<Rightarrow> (64 word \<times> 64 word) option" where
  "statfs_windows h path w = (if utf16_ok path then wh_disk_free h (ticks w) path else None)"

definition free_bytes_windows :: "windows_host \<Rightarrow> volume" where
  "free_bytes_windows h t path = (if utf16_ok path then map_option fst (wh_disk_free h t path) else None)"

section \<open>Darwin\<close>

definition permission_probe_darwin :: "host \<Rightarrow> string \<Rightarrow> bool \<times> bool" where
  "permission_probe_darwin h path = (ho_writable h path, False)"

section \<open>The predicate on each platform\<close>

text \<open>\<open>PermissionReadOnly\<close> with the probe of a platform; a failing probe is a refusal with code 1.\<close>

definition permission_with :: "(string \<Rightarrow> (bool \<times> bool) option) \<Rightarrow> string \<Rightarrow> predicate" where
  "permission_with probe path w =
     (case probe path of
        None \<Rightarrow> (Refused GenericError ProbeFailed, w)
      | Some (can_write, ro) \<Rightarrow>
          if \<not> can_write then (Refused PermissionReadOnly (NotWritable path), w)
          else if ro then (Refused PermissionReadOnly (ReadOnlyMount path), w)
          else (Pass, w))"

lemma permission_linux: "permission_with (\<lambda>p. Some (permission_probe h p)) path w = permission_read_only h path w"
  by (simp add: permission_with_def permission_read_only_def split: prod.split)

text \<open>
  On Windows only the flag of the volume decides: the predicate passes exactly when the flag could be
  read and is off, whatever the permissions of the directory are.
\<close>

lemma permission_windows_iff:
  "permission_with (permission_probe_windows h) path w = (Pass, w) \<longleftrightarrow>
     (\<exists>flags. utf16_ok (wh_volume_name h path @ [CHR 0x5C])
       \<and> wh_volume_flags h (wh_volume_name h path @ [CHR 0x5C]) = Some flags \<and> \<not> bit flags 19)"
proof -
  have b: "and flags read_only_volume \<noteq> 0 \<longleftrightarrow> bit flags 19" for flags :: "32 word"
    by (simp add: read_only_volume_def bit_iff_and_push_bit_not_eq_0 push_bit_eq_mult)
  show ?thesis
    by (auto simp: permission_with_def permission_probe_windows_def Let_def b split: option.split)
qed

text \<open>On Darwin a read-only mount is seen through the access check alone.\<close>

lemma permission_darwin_iff:
  "permission_with (\<lambda>p. Some (permission_probe_darwin h p)) path w = (Pass, w) \<longleftrightarrow> ho_writable h path"
  by (simp add: permission_with_def permission_probe_darwin_def)

text \<open>The two Windows files that ask for free space agree.\<close>

lemma free_windows_agree: "free_bytes_windows h (ticks w) path = map_option fst (statfs_windows h path w)"
  by (simp add: free_bytes_windows_def statfs_windows_def)

end
