(* ===== verification/Spec2Isabelle.thy ===== *)
theory Spec2Isabelle
  imports Rerun CanonicalForm CliClaims PlanUnmarshal HttpTransfer PreflightClaims Console OtherPlatforms
begin

text \<open>
  A verification development for \<open>pocketnet-node-doctor\<close>, a Go program that repairs the database
  directory of a stopped Pocketnet node.  The model is the Linux build of the packages under
  \<open>src/internal\<close> and of \<open>src/cmd/pocketnet-node-doctor\<close>.

  \<^bold>\<open>The program and its parts\<close>

  The program has two commands, and they communicate through one file, the plan.

  \<^item> \<^emph>\<open>diagnose\<close> refuses if the node runs, probes that the plan can be written, downloads the canonical
    manifest into a spool file, compares the hash of the spool with the one that was pinned, and only
    then parses it.  While it parses, each entry is compared with the local file: a database entry page by
    page, any other file by its hash.  Divergences go to an emitter, which spools page divergences to disk
    and buffers the others.  When the manifest has ended, the remaining predicates (height, version,
    capacity, permission) are evaluated, and the emitter writes the plan: in canonical JSON, with a hash
    of itself, first to a temporary file that is then renamed.
  \<^item> \<^emph>\<open>apply\<close> reads the plan (version gate, self-hash, shape), checks that the manifest at its address is
    still the one the plan was made for, prepares a staging directory, counts the units of work that have no
    marker, and takes shadow copies of the files it will change.  A pool of workers then downloads the
    chunks; the main goroutine promotes each finished download into the live file after a hash check and
    leaves a marker.  Finally the live files are hashed and the database engine checks the database; on a
    failure the shadows are renamed back.

  \<^bold>\<open>Theories, in the order of their imports\<close>

  The language and its library:

  \<^item> Prelude: Go strings as lists of bytes, the functions of \<open>strings\<close>, \<open>strconv\<close> and \<open>fmt\<close> in use, the
    collections \<open>go_str\<close>, \<open>os_simps\<close> and \<open>os_frame\<close>.  GoPath: \<open>path/filepath\<close>; a joined path stays below its
    root.  Sha256: the digest, in full, on 32-bit words.
  \<^item> Os: the world a program acts on.  A name refers to a directory or to an inode, so hard links alias;
    every call consumes one tick, and a fault schedule may make it fail, with a partial effect where the real
    call has one (a torn write, a partly removed tree).  Random suffixes and the answers of the network
    are functions of the tick.  Frames: what each call leaves alone.
  \<^item> JsonString, Json, Decoder: \<open>encoding/json\<close>: string literals, whole values, typed decoding
    (\<open>null\<close>, folded field names, duplicate members, 64-bit ranges), and the token-level \<open>Decoder\<close>
    with its state stack.  The locale \<^theory_text>\<open>consuming\<close> is the contract of a loop body \<open>for dec.More()\<close>: each
    step shortens the input.  Its lemmas give termination of every such loop and the
    walk over canonical text; PlanStream and ManifestStream interpret it on each loop body of the program.

  Components shared by the commands:

  \<^item> ExitCode (\<open>exitcode\<close>); HashUtil (\<open>hashutil\<close>); Canonform (\<open>canonform\<close>); Rollback (\<open>rollback\<close>); Staging
    (\<open>staging\<close>), with the locale \<^theory_text>\<open>marker_store\<close>: markers are monotone and reading back a written one finds it;
    Fetch (\<open>fetch\<close>: one download, the retries and their back-off); Verify (\<open>verify\<close>); HttpTransfer
    (\<open>httptransfer\<close>: the policy and the stall guard, with time explicit).
  \<^item> PlanTypes, Plan, PlanStream, PlanUnmarshal (\<open>plan\<close>: types.go, marshal.go, self_hash.go, stream.go;
    Slices: how both typed readers decode into a slice);
    PlanRoundTrip and PlanProps: the streaming reader on canonical text, the two self-hash checks, what
    is and is not covered by the self-hash.  CanonicalForm: the relation of documents that denote the same value, and
    canonical text as its normal form.

  Diagnose:

  \<^item> Manifest, ManifestStream, ManifestFetch (\<open>manifest\<close>); ManifestRoundTrip: the streaming reader on a canonical
    manifest is the fold of the callback over the entries; ManifestParse: \<open>Parse\<close>, which reads the same text into
    memory, returns those entries; ManifestClaims: nothing is parsed
    before its hash was compared, a failure leaves no spool.  The locale \<^theory_text>\<open>entry_callback\<close> is the contract
    of a callback (an invariant of its state that every entry keeps); it is interpreted twice on
    the callback of diagnose, in DiagnoseFrame (files) and in DiagnosePlan (recorded divergences).
  \<^item> Preflight (\<open>preflight\<close>), Compare (\<open>file_compare.go\<close>, \<open>page_compare.go\<close>; the locale \<^theory_text>\<open>page_source\<close>
    is the contract of an iterator of local pages), PlanEmit (\<open>plan_emit.go\<close>, \<open>atomic_write.go\<close>), Diagnose
    (\<open>orchestrator.go\<close>, \<open>writability_probe.go\<close>), Summary (\<open>summary.go\<close>, \<open>progress.go\<close>).
  \<^item> DiagnoseFrame: what a run may touch.  DiagnosePlan: what the stream leaves in the emitter.
    PreflightClaims: when a diagnose is refused because the node runs, and what else the guard takes for it, the order of the predicates, the mount
    that decides.  DiagnoseClaims, DiagnoseRun: the properties of complete runs, and a complete small run.
    DiagnoseExact: the plan lists exactly the pages and the files that the local data lack.

  Apply:

  \<^item> Apply (types.go, plan_guard.go, hash_gate.go and the parts of apply.go below the loop), Promote (its hash
    gate), ApplyPool (worker.go and the loop of \<open>Run\<close> as a transition system), ApplyRun (\<open>Run\<close>, phase by phase).
  \<^item> PoolInv, PoolLive: bounds on what is in flight; the accounting of \<open>remaining\<close>, absence of deadlock and
    termination under every schedule.  ApplyProps, ApplyClaims, ApplySuccess, ApplyLimits: the properties of
    apply, what a success promises, and the behaviours that fall short of what comments promise.
  \<^item> TreeView: the file system without inodes.  In a world without faults and links the calls, and the
    compound operations of apply, act on a map from names to contents; ApplyFullRun computes a complete run on such
    maps, from the plan to the cleanup.
  \<^item> Spares: which files each call leaves alone.  PoolRepair: the invariant of the pool about the pages of one
    live file, kept under every schedule.  ApplyRepair: what a successful run leaves in that file.

  The whole: Cli and CliClaims (\<open>cli\<close>, \<open>main.go\<close> and the flag parser), and EndToEnd, the
  composition: the plan that a successful diagnose leaves is accepted by apply.  Repair: after a successful
  diagnose and a successful apply, diagnosing again would find nothing; RepairRun computes such a pair of
  runs.  Rerun: after a rollback, a second apply on the same plan reports success over the old contents.  Console: \<open>stderrlog\<close>, \<open>buildinfo\<close>,
  progress messages, the pages of the command line and the texts of errors.  OtherPlatforms: the functions
  of \<open>preflight\<close> and \<open>manifest\<close> that the Windows and Darwin builds replace.

  \<^bold>\<open>How state and operations correspond\<close>

  \<^item> Every operation that touches files or the network is a function from \<^typ>\<open>os\<close> to a result and an
    \<^typ>\<open>os\<close>.  A Go error is \<^const>\<open>Inl\<close>, with a datatype of the package's errors; deferred calls are written out
    on every return path.  A panic is a value of its own (\<open>Panicked\<close>, \<open>Crashed\<close>).
  \<^item> The emitter is the record \<^typ>\<open>plan_emitter\<close>, the closure state of diagnose's callback is
    \<^typ>\<open>diag_state\<close>, the state of the apply loop is \<^typ>\<open>pool\<close>: two bounded queues, the tasks that workers hold, the
    rest of the feed, the program point of the main goroutine and its counters.  Its steps are the
    main goroutine's next operation, a worker taking a task, and a worker finishing one; they interleave freely.
  \<^item> What preflight asks of the machine besides its files is the record \<^typ>\<open>host\<close>; answers that can change
    are functions of the tick.
  \<^item> An \<open>iter.Seq2\<close> is the list of what it yields, an error being its last element.  Go's \<open>int64\<close>
    is \<^typ>\<open>int\<close> with its range checked where a decoder reads it; \<open>uint64\<close>, \<open>uint32\<close> and \<open>int32\<close> counters are
    words, and their arithmetic wraps.

  \<^bold>\<open>Bounds and fuel\<close>

  The JSON reader recurses with fuel; twice the length of the text and two always suffices
  (\<open>parse_fuel\<close> in Json), so fuel never decides a result.  Nesting beyond ten thousand levels is an
  error, as in the library.  All other loops are structural recursions, or end by the contract
  \<^theory_text>\<open>consuming\<close>.  The pool has no fuel in its relation; the executable run takes a bound on its steps, and a
  theorem says which bound is enough.

  \<^bold>\<open>Parameters\<close>

  Code that the repository does not hold is an argument of the definitions that use it: the decoders
  of zstd and gzip, \<open>url.Parse\<close>, the database engine's integrity check, the answers of the machine
  and of the network, the order in which a Go map is enumerated, the scheduler, the winner when two
  timers fire together.

  Of the database engine one law is used, \<open>sqlite_reads\<close> in ApplyRepair, and only for the repair of the node: checking an
  existing database that has no journal, no write-ahead log and no shared-memory file beside it leaves every other
  file as it was, the database included.  The program opens the database for writing, so with such a file beside it the
  check may change the pages that apply has just written; nothing is assumed for that case.  All other
  properties hold for any engine.

  \<^bold>\<open>Modelling decisions\<close>

  \<^item> One HTTP exchange is one step; a body that breaks off, for whatever reason (a stall included), is a reply whose
    last component is set.  When it breaks off is the subject of HttpTransfer.
  \<^item> The context of the program is \<open>context.Background\<close>, so cancellation by the caller is no step of the
    pool or of a retry loop; it does occur in the stall guard.
  \<^item> The program reads its spool and its plan while it acts on other files; the file it reads does not
    change meanwhile (DiagnoseFrame, Frames), so the model reads it at once.
  \<^item> A name below a regular file does not exist (\<open>os_stat\<close>, \<open>open_read\<close>), where Linux reports that the file is no
    directory; the program reads both as an error of the call, except where it asks whether a
    local file is missing.
  \<^item> \<open>is_spool_of\<close> reads the name of the spool directory literally; a directory whose name holds a
    meta-character of \<open>filepath.Glob\<close> is outside the model.
  \<^item> Fields of the options that exist for fault injection are part of the model of apply.

  \<^bold>\<open>Not modelled\<close>

  \<^item> The wording of errors that quote a path or wrap another error; the waiting between attempts, elapsed
    times (parameters of the messages that show them), and the observer hook for disk use in apply.
  \<^item> The \<open>test_overrides.go\<close> seams, which replace functions in tests.
  \<^item> \<open>flock_windows.go\<close>, which does not compile, and the transport of \<open>net/http\<close>.
  \<^item> \<open>internal/testhelpers\<close> and \<open>tests\<close>: servers and fixtures of the test suite.
\<close>

end
